(* ===== verification/Prelude.thy ===== *)
theory Prelude
  imports
    "HOL-Library.Word"
    "HOL-Library.List_Lexorder"
    "HOL-Library.Char_ord"
    "HOL-Library.Product_Lexorder"
    "HOL-Library.Sublist"
    "HOL-Library.AList"
begin

text \<open>
  The prelude of the development: the error values of the program, bytes and the
  fixed-width big-endian integers, and the parts of the Go standard library the
  sources call (package strings, encoding/hex, encoding/binary, strconv, sort), each
  as a total executable function, with the lemmas the components share.

  A Go string is a sequence of bytes; here it is a \<^typ>\<open>string\<close>, whose characters are
  bytes, compared byte by byte.  A Go byte slice is a list of 8-bit words.
\<close>

section \<open>Collections of facts\<close>

named_theorems go_string \<open>facts on the modelled functions of package strings\<close>
named_theorems codec \<open>round trips and lengths of the encoders\<close>

section \<open>Errors\<close>

text \<open>
  The sentinel errors of pkg/store, by which callers branch with \<open>errors.Is\<close>, and the
  errors that wrap none of them.  \<open>GoPanic\<close> is a run-time panic: the call does not
  return.
\<close>

datatype error =
    ErrNotFound
  | ErrConflict
  | ErrCorrupt
  | ErrInvalidObject
  | ErrOther string
  | GoPanic

type_synonym byte = "8 word"
type_synonym bytes = "byte list"

abbreviation is_ok :: "error + 'a \<Rightarrow> bool" where
  "is_ok r \<equiv> (\<exists>x. r = Inr x)"

section \<open>Strings and bytes\<close>

definition byte_of_char :: "char \<Rightarrow> byte" where
  "byte_of_char c = of_nat (of_char c)"

definition char_of_byte :: "byte \<Rightarrow> char" where
  "char_of_byte b = char_of (unat b)"

definition bytes_of :: "string \<Rightarrow> bytes" where
  "bytes_of s = map byte_of_char s"

definition string_of :: "bytes \<Rightarrow> string" where
  "string_of bs = map char_of_byte bs"

lemma char_of_byte_of_char [simp]: "char_of_byte (byte_of_char c) = c"
  by (simp add: char_of_byte_def byte_of_char_def unat_of_nat take_bit_eq_mod)

lemma byte_of_char_of_byte [simp]: "byte_of_char (char_of_byte b) = b"
proof -
  have "unat b < 256"
    using unsigned_less [of b] by simp
  then show ?thesis
    by (simp add: char_of_byte_def byte_of_char_def)
qed

lemma string_of_bytes_of [simp]: "string_of (bytes_of s) = s"
  by (simp add: string_of_def bytes_of_def comp_def)

lemma bytes_of_string_of [simp]: "bytes_of (string_of bs) = bs"
  by (simp add: string_of_def bytes_of_def comp_def)

lemma length_bytes_of [simp]: "length (bytes_of s) = length s"
  by (simp add: bytes_of_def)

lemma length_string_of [simp]: "length (string_of bs) = length bs"
  by (simp add: string_of_def)

lemma bytes_of_eq_iff [simp]: "bytes_of s = bytes_of t \<longleftrightarrow> s = t"
  by (metis string_of_bytes_of)

lemma byte_of_char_eq_iff [simp]: "byte_of_char c = byte_of_char d \<longleftrightarrow> c = d"
  by (metis char_of_byte_of_char)

lemma mem_bytes_of: "byte_of_char c \<in> set (bytes_of s) \<longleftrightarrow> c \<in> set s"
  by (auto simp: bytes_of_def)

lemma bytes_of_append [simp]: "bytes_of (s @ t) = bytes_of s @ bytes_of t"
  by (simp add: bytes_of_def)

lemma bytes_of_Nil [simp]: "bytes_of [] = []"
  by (simp add: bytes_of_def)

section \<open>Big-endian integers of a fixed width (encoding/binary)\<close>

fun be_bytes :: "nat \<Rightarrow> nat \<Rightarrow> bytes" where
  "be_bytes 0 x = []"
| "be_bytes (Suc n) x = be_bytes n (x div 256) @ [of_nat x]"

definition be_val :: "bytes \<Rightarrow> nat" where
  "be_val bs = foldl (\<lambda>a b. a * 256 + unat b) 0 bs"

lemma be_val_Nil [simp]: "be_val [] = 0"
  by (simp add: be_val_def)

lemma be_val_snoc [simp]: "be_val (bs @ [b]) = be_val bs * 256 + unat b"
  by (simp add: be_val_def)

lemma length_be_bytes [simp, codec]: "length (be_bytes n x) = n"
  by (induction n arbitrary: x) auto

lemma unat_byte_less [simp]: "unat (b :: byte) < 256"
  using unsigned_less [of b] by simp

lemma unat_of_nat_byte: "unat (of_nat n :: byte) = n mod 256"
  by (simp add: unat_of_nat)

lemma be_val_be_bytes [codec]: "be_val (be_bytes n x) = x mod 256 ^ n"
proof (induction n arbitrary: x)
  case (Suc n)
  have "x mod (256 * 256 ^ n) = 256 * (x div 256 mod 256 ^ n) + x mod 256"
    by (rule mod_mult2_eq)
  with Suc show ?case
    by (simp add: unat_of_nat_byte mult.commute)
qed simp

lemma be_val_bound: "be_val bs < 256 ^ length bs"
proof (induction bs rule: rev_induct)
  case (snoc b bs)
  have "be_val bs * 256 + unat b < (be_val bs + 1) * 256"
    by simp
  also have "\<dots> \<le> 256 ^ length bs * 256"
    using snoc by (intro mult_le_mono1) simp
  finally show ?case by simp
qed simp

lemma of_nat_byte_add_256 [simp]: "of_nat (n * 256 + unat b) = (b :: byte)"
proof -
  have "unat (of_nat (n * 256 + unat b) :: byte) = unat b"
    by (simp only: unat_of_nat_byte) simp
  then show ?thesis
    by (simp only: unsigned_word_eqI)
qed

lemma be_bytes_be_val [codec]: "be_bytes (length bs) (be_val bs) = bs"
  by (induction bs rule: rev_induct) (simp_all del: of_nat_add of_nat_mult)

subsection \<open>Code equations over binary integers\<close>

lemma byte_of_char_code [code]: "byte_of_char c = word_of_int (of_char c)"
  by (simp only: byte_of_char_def of_nat_of_char of_int_of_char)

lemma char_of_byte_code [code]: "char_of_byte b = char_of (uint b)"
  using char_of_nat [of "unat b", where 'a = int] by (simp add: char_of_byte_def)

fun int_bytes :: "nat \<Rightarrow> int \<Rightarrow> bytes \<Rightarrow> bytes" where
  "int_bytes 0 x acc = acc"
| "int_bytes (Suc n) x acc = int_bytes n (x div 256) (word_of_int (x mod 256) # acc)"

lemma int_bytes: "int_bytes n (int x) acc = be_bytes n x @ acc"
proof (induction n arbitrary: x acc)
  case (Suc n)
  have "word_of_int (int x mod 256) = (word_of_nat x :: byte)"
    using word_of_int_eq_iff [of "int x mod 256" "int x", where 'a = 8] by (simp add: take_bit_eq_mod)
  with Suc [of "x div 256"] show ?case by (simp add: zdiv_int)
qed simp

section \<open>Unsigned variable-length integers (encoding/binary)\<close>

text \<open>
  \<open>PutUvarint\<close> writes seven bits per byte, least significant group first, with the top
  bit set on every byte but the last.  \<open>Uvarint\<close> returns the value and the number of
  bytes read: 0 when the buffer is too short, a negative number when the value
  overflows 64 bits.
\<close>

fun PutUvarint :: "nat \<Rightarrow> bytes" where
  "PutUvarint x =
     (if x < 128 then [of_nat x] else of_nat (x mod 128 + 128) # PutUvarint (x div 128))"

declare PutUvarint.simps [simp del]

fun uvarint_loop :: "nat \<Rightarrow> nat \<Rightarrow> bytes \<Rightarrow> nat \<times> int" where
  "uvarint_loop i x [] = (0, 0)"
| "uvarint_loop i x (b # bs) =
     (if i = 10 then (0, - (int i + 1))
      else if unat b < 128 then
        (if i = 9 \<and> unat b > 1 then (0, - (int i + 1))
         else (x + unat b * 2 ^ (7 * i), int i + 1))
      else uvarint_loop (Suc i) (x + (unat b mod 128) * 2 ^ (7 * i)) bs)"

definition Uvarint :: "bytes \<Rightarrow> nat \<times> int" where
  "Uvarint bs = uvarint_loop 0 0 bs"

lemma uvarint_loop_PutUvarint:
  assumes "x * 2 ^ (7 * i) < 2 ^ 64" and "i < 10"
  shows "uvarint_loop i a (PutUvarint x @ rest)
    = (a + x * 2 ^ (7 * i), int i + int (length (PutUvarint x)))"
  using assms
proof (induction x arbitrary: i a rule: PutUvarint.induct)
  case (1 x)
  show ?case
  proof (cases "x < 128")
    case True
    have "\<not> (i = 9 \<and> x > 1)"
      using "1.prems"(1) by auto
    with True "1.prems"(2) show ?thesis
      by (auto simp: PutUvarint.simps [of x] unat_of_nat_byte)
  next
    case False
    have "2 ^ (7 * i + 7) \<le> x * 2 ^ (7 * i)"
      using False by (simp add: power_add)
    then have "(2::nat) ^ (7 * i + 7) < 2 ^ 64"
      using "1.prems"(1) by simp
    then have i: "Suc i < 10"
      by (simp only: power_strict_increasing_iff)
    have "x div 128 * 2 ^ (7 * Suc i) = (x div 128 * 128) * 2 ^ (7 * i)"
      by (simp add: power_add)
    also have "\<dots> \<le> x * 2 ^ (7 * i)"
      by (intro mult_le_mono1) simp
    finally have IH: "uvarint_loop (Suc i) b (PutUvarint (x div 128) @ rest)
        = (b + x div 128 * 2 ^ (7 * Suc i), int (Suc i) + int (length (PutUvarint (x div 128))))" for b
      using "1.prems"(1) i by (intro "1.IH" [OF False]) simp_all
    have "x mod 128 * 2 ^ (7 * i) + x div 128 * 2 ^ (7 * Suc i)
        = (x mod 128 + x div 128 * 128) * 2 ^ (7 * i)"
      by (simp only: add_mult_distrib power_add mult_Suc_right) (simp add: power_add)
    then have val: "x mod 128 * 2 ^ (7 * i) + x div 128 * 2 ^ (7 * Suc i) = x * 2 ^ (7 * i)"
      by simp
    have b: "unat (of_nat (x mod 128 + 128) :: byte) = x mod 128 + 128"
      by (simp only: unat_of_nat_byte) simp
    show ?thesis
      using False "1.prems"(2) IH val
      by (simp add: PutUvarint.simps [of x] b del: of_nat_add power_Suc)
  qed
qed

lemma Uvarint_PutUvarint [codec]:
  "x < 2 ^ 64 \<Longrightarrow> Uvarint (PutUvarint x @ rest) = (x, int (length (PutUvarint x)))"
  by (simp add: Uvarint_def uvarint_loop_PutUvarint)

lemma PutUvarint_nonempty [simp]: "PutUvarint x \<noteq> []"
  by (simp add: PutUvarint.simps [of x])

lemma uvarint_loop_length: "snd (uvarint_loop i x bs) \<le> int i + int (length bs)"
  by (induction i x bs rule: uvarint_loop.induct) auto

lemma Uvarint_length: "snd (Uvarint bs) \<le> int (length bs)"
  using uvarint_loop_length [of 0 0 bs] by (simp add: Uvarint_def)

end
