(* ===== verification/GoStrings.thy ===== *)
theory GoStrings
  imports Prelude
begin

text \<open>
  The functions of package strings, encoding/hex and strconv that the sources call.
  Case mapping and white space are those of the ASCII range, which is what owner names,
  zone names and record types consist of; a byte above 127 is left alone.  An index that
  Go reports as a negative number is \<^const>\<open>None\<close>.
\<close>

section \<open>Package strings\<close>

definition HasPrefix :: "string \<Rightarrow> string \<Rightarrow> bool" where
  "HasPrefix s p = prefix p s"

definition HasSuffix :: "string \<Rightarrow> string \<Rightarrow> bool" where
  "HasSuffix s p = suffix p s"

definition TrimPrefix :: "string \<Rightarrow> string \<Rightarrow> string" where
  "TrimPrefix s p = (if HasPrefix s p then drop (length p) s else s)"

definition TrimSuffix :: "string \<Rightarrow> string \<Rightarrow> string" where
  "TrimSuffix s p = (if HasSuffix s p then take (length s - length p) s else s)"

definition lower_char :: "char \<Rightarrow> char" where
  "lower_char c = (if CHR ''A'' \<le> c \<and> c \<le> CHR ''Z'' then char_of (of_char c + 32 :: nat) else c)"

definition upper_char :: "char \<Rightarrow> char" where
  "upper_char c = (if CHR ''a'' \<le> c \<and> c \<le> CHR ''z'' then char_of (of_char c - 32 :: nat) else c)"

definition ToLower :: "string \<Rightarrow> string" where
  "ToLower s = map lower_char s"

definition ToUpper :: "string \<Rightarrow> string" where
  "ToUpper s = map upper_char s"

fun LastIndexByte :: "string \<Rightarrow> char \<Rightarrow> nat option" where
  "LastIndexByte [] c = None"
| "LastIndexByte (x # xs) c =
     (case LastIndexByte xs c of
        Some i \<Rightarrow> Some (Suc i)
      | None \<Rightarrow> if x = c then Some 0 else None)"

definition Cut :: "string \<Rightarrow> char \<Rightarrow> string \<times> string \<times> bool" where
  "Cut s c =
     (if c \<in> set s then (takeWhile (\<lambda>x. x \<noteq> c) s, tl (dropWhile (\<lambda>x. x \<noteq> c) s), True)
      else (s, [], False))"

fun split_by :: "('a \<Rightarrow> bool) \<Rightarrow> 'a list \<Rightarrow> 'a list list" where
  "split_by P [] = [[]]"
| "split_by P (x # xs) =
     (if P x then [] # split_by P xs
      else case split_by P xs of [] \<Rightarrow> [[x]] | y # ys \<Rightarrow> (x # y) # ys)"

definition Split :: "string \<Rightarrow> char \<Rightarrow> string list" where
  "Split s c = split_by (\<lambda>x. x = c) s"

fun Join :: "string list \<Rightarrow> string \<Rightarrow> string" where
  "Join [] sep = []"
| "Join [x] sep = x"
| "Join (x # y # zs) sep = x @ sep @ Join (y # zs) sep"

definition is_space :: "char \<Rightarrow> bool" where
  "is_space c \<longleftrightarrow> c = CHR '' '' \<or> (CHR 0x09 \<le> c \<and> c \<le> CHR 0x0D)"

definition TrimSpace :: "string \<Rightarrow> string" where
  "TrimSpace s = rev (dropWhile is_space (rev (dropWhile is_space s)))"

definition Fields :: "string \<Rightarrow> string list" where
  "Fields s = filter (\<lambda>w. w \<noteq> []) (split_by is_space s)"

definition TrimRight :: "string \<Rightarrow> char \<Rightarrow> string" where
  "TrimRight s c = rev (dropWhile (\<lambda>x. x = c) (rev s))"

abbreviation NL :: char where
  "NL \<equiv> CHR 0x0A"

text \<open>
  \<open>bufio.Reader.ReadString('\n')\<close> on the unread text: the line up to and including the
  delimiter, whether the end of the input came first, and what is left unread.
\<close>

definition ReadString :: "string \<Rightarrow> string \<times> bool \<times> string" where
  "ReadString s =
     (if NL \<in> set s then (takeWhile (\<lambda>x. x \<noteq> NL) s @ [NL], False, tl (dropWhile (\<lambda>x. x \<noteq> NL) s))
      else (s, True, []))"

section \<open>Package encoding/hex\<close>

definition hex_digit :: "nat \<Rightarrow> char" where
  "hex_digit n = (if n < 10 then char_of (48 + n) else char_of (87 + n))"

definition hex_value :: "char \<Rightarrow> nat option" where
  "hex_value c =
     (if CHR ''0'' \<le> c \<and> c \<le> CHR ''9'' then Some (of_char c - 48)
      else if CHR ''a'' \<le> c \<and> c \<le> CHR ''f'' then Some (of_char c - 87)
      else if CHR ''A'' \<le> c \<and> c \<le> CHR ''F'' then Some (of_char c - 55)
      else None)"

definition HexEncode :: "bytes \<Rightarrow> string" where
  "HexEncode bs = concat (map (\<lambda>b. [hex_digit (unat b div 16), hex_digit (unat b mod 16)]) bs)"

fun HexDecode :: "string \<Rightarrow> bytes option" where
  "HexDecode [] = Some []"
| "HexDecode [x] = None"
| "HexDecode (x # y # zs) =
     (case (hex_value x, hex_value y, HexDecode zs) of
        (Some a, Some b, Some bs) \<Rightarrow> Some (of_nat (a * 16 + b) # bs)
      | _ \<Rightarrow> None)"

section \<open>Package strconv and the integer verbs of fmt\<close>

definition digit_char :: "nat \<Rightarrow> char" where
  "digit_char n = char_of (48 + n)"

fun dec_nat :: "nat \<Rightarrow> string" where
  "dec_nat n = (if n < 10 then [digit_char n] else dec_nat (n div 10) @ [digit_char (n mod 10)])"

declare dec_nat.simps [simp del]

definition dec_int :: "int \<Rightarrow> string" where
  "dec_int i = (if i < 0 then CHR ''-'' # dec_nat (nat (- i)) else dec_nat (nat i))"

definition pad2 :: "nat \<Rightarrow> string" where
  "pad2 n = (if n < 10 then CHR ''0'' # dec_nat n else dec_nat n)"

definition is_digit :: "char \<Rightarrow> bool" where
  "is_digit c \<longleftrightarrow> CHR ''0'' \<le> c \<and> c \<le> CHR ''9''"

definition digits_val :: "string \<Rightarrow> nat" where
  "digits_val s = foldl (\<lambda>a c. a * 10 + (of_char c - 48)) 0 s"

text \<open>
  \<open>strconv.ParseInt(s, 10, 64)\<close>, and \<open>strconv.Atoi\<close> where an int has 64 bits: an
  optional sign and at least one digit, within the range of a signed 64-bit integer.
\<close>

definition ParseInt :: "string \<Rightarrow> int option" where
  "ParseInt s =
     (let (neg, ds) = (case s of
            [] \<Rightarrow> (False, [])
          | c # cs \<Rightarrow> if c = CHR ''-'' then (True, cs) else if c = CHR ''+'' then (False, cs) else (False, s))
      in if ds = [] \<or> \<not> list_all is_digit ds then None
         else let n = int (digits_val ds) in
           if neg then (if n \<le> 2 ^ 63 then Some (- n) else None)
           else (if n < 2 ^ 63 then Some n else None))"

section \<open>Lemmas on decimal digits\<close>

lemma digit_char_props: "n < 10 \<Longrightarrow> is_digit (digit_char n) \<and> of_char (digit_char n) = n + 48"
proof -
  assume "n < 10"
  then have "n \<in> set [0..<10]" by simp
  moreover have "\<forall>n \<in> set [0..<10]. is_digit (digit_char n) \<and> of_char (digit_char n) = n + 48"
    by code_simp
  ultimately show ?thesis by blast
qed

lemma dec_nat_digits: "list_all is_digit (dec_nat n)"
proof (induction n rule: dec_nat.induct)
  case (1 n)
  then show ?case
    by (subst dec_nat.simps) (simp add: digit_char_props)
qed

lemma dec_nat_nonempty [simp]: "dec_nat n \<noteq> []"
  by (subst dec_nat.simps) simp

lemma digits_val_snoc: "digits_val (s @ [c]) = digits_val s * 10 + (of_char c - 48)"
  by (simp add: digits_val_def)

lemma digits_val_dec_nat [codec]: "digits_val (dec_nat n) = n"
proof (induction n rule: dec_nat.induct)
  case (1 n)
  show ?case
  proof (cases "n < 10")
    case True
    then show ?thesis
      by (subst dec_nat.simps) (simp add: digits_val_def digit_char_props)
  next
    case False
    have "digits_val (dec_nat n) = digits_val (dec_nat (n div 10)) * 10 + n mod 10"
      using False by (subst dec_nat.simps) (simp add: digits_val_snoc digit_char_props)
    with "1.IH" [OF False] show ?thesis by simp
  qed
qed

lemma is_digit_not: "is_digit c \<Longrightarrow> c \<noteq> CHR '' '' \<and> c \<noteq> CHR 0x00 \<and> c \<noteq> CHR ''-'' \<and> c \<noteq> CHR ''+'' \<and> c \<noteq> NL"
  by (auto simp: is_digit_def)

lemma append_sep_inject:
  assumes "xs @ c # ys = xs' @ c # ys'" and "c \<notin> set xs" and "c \<notin> set xs'"
  shows "xs = xs' \<and> ys = ys'"
  using assms
proof (induction xs arbitrary: xs')
  case Nil
  then show ?case by (cases xs') auto
next
  case (Cons x xs)
  then show ?case by (cases xs') auto
qed

section \<open>Lemmas on package strings\<close>

lemma LastIndexByte_None [go_string]: "c \<notin> set s \<Longrightarrow> LastIndexByte s c = None"
  by (induction s) auto

lemma LastIndexByte_append [go_string]: "c \<notin> set b \<Longrightarrow> LastIndexByte (a @ c # b) c = Some (length a)"
  by (induction a) (auto simp: LastIndexByte_None)

lemma Cut_append [go_string]: "c \<notin> set k \<Longrightarrow> Cut (k @ c # v) c = (k, v, True)"
  by (auto simp: Cut_def takeWhile_append dropWhile_append)

lemma ReadString_line [go_string]: "NL \<notin> set l \<Longrightarrow> ReadString (l @ NL # rest) = (l @ [NL], False, rest)"
  by (auto simp: ReadString_def takeWhile_append dropWhile_append)

lemma TrimSuffix_snoc [go_string, simp]: "TrimSuffix (l @ [c]) [c] = l"
  by (simp add: TrimSuffix_def HasSuffix_def)

lemma split_by_none [go_string]: "\<forall>x \<in> set a. \<not> P x \<Longrightarrow> split_by P a = [a]"
  by (induction a) auto

lemma split_by_append [go_string]: "\<forall>x \<in> set a. \<not> P x \<Longrightarrow> P x \<Longrightarrow> split_by P (a @ x # b) = a # split_by P b"
  by (induction a) auto

lemma TrimSpace_id [go_string]: "s \<noteq> [] \<Longrightarrow> \<not> is_space (hd s) \<Longrightarrow> \<not> is_space (last s) \<Longrightarrow> TrimSpace s = s"
proof -
  assume "s \<noteq> []" "\<not> is_space (hd s)" "\<not> is_space (last s)"
  then have "dropWhile is_space s = s" "dropWhile is_space (rev s) = rev s"
    by (simp_all add: dropWhile_eq_self_iff hd_rev)
  then show ?thesis by (simp add: TrimSpace_def)
qed

lemma TrimSpace_Cons [go_string]: "is_space c \<Longrightarrow> TrimSpace (c # s) = TrimSpace s"
  by (simp add: TrimSpace_def)

lemma TrimSpace_snoc [go_string]: "is_space c \<Longrightarrow> TrimSpace (s @ [c]) = TrimSpace s"
proof (cases "\<forall>x \<in> set s. is_space x")
  case True
  assume "is_space c"
  with True have "dropWhile is_space s = []" "dropWhile is_space (s @ [c]) = []"
    unfolding dropWhile_eq_Nil_conv by auto
  then show ?thesis by (simp only: TrimSpace_def)
next
  case False
  assume "is_space c"
  with False show ?thesis by (auto simp: TrimSpace_def dropWhile_append)
qed

section \<open>Printing and parsing integers\<close>

lemma is_digit_not_space: "is_digit c \<Longrightarrow> \<not> is_space c"
proof
  assume "is_digit c" and "is_space c"
  then have "CHR ''0'' \<le> c" and "c \<le> CHR '' ''" by (auto simp: is_digit_def is_space_def intro: order_trans [of c "CHR 0x0D"])
  then have "CHR ''0'' \<le> CHR '' ''" by (rule order_trans)
  then show False by simp
qed

lemma digit_not_angle: "is_digit c \<Longrightarrow> c \<noteq> CHR ''<'' \<and> c \<noteq> CHR ''>''"
  by (auto simp: is_digit_def)

lemma ParseInt_digits:
  assumes "list_all is_digit ds" and "ds \<noteq> []" and "digits_val ds < 2 ^ 63"
  shows "ParseInt ds = Some (int (digits_val ds))"
  using assms by (cases ds) (auto simp: ParseInt_def Let_def dest: is_digit_not)

lemma ParseInt_dec_int [codec]:
  assumes "- (2 ^ 63) \<le> i" and "i < 2 ^ 63"
  shows "ParseInt (dec_int i) = Some i"
proof (cases "i < 0")
  case True
  have "nat (- i) \<le> 2 ^ 63" using assms True by simp
  with True show ?thesis
    by (simp add: dec_int_def ParseInt_def Let_def dec_nat_digits digits_val_dec_nat)
next
  case False
  have "nat i < 2 ^ 63" using assms False by simp
  with False show ?thesis
    using ParseInt_digits [of "dec_nat (nat i)"] by (simp add: dec_int_def dec_nat_digits digits_val_dec_nat)
qed

lemma pad2_props: "n < 100 \<Longrightarrow> length (pad2 n) = 2 \<and> list_all is_digit (pad2 n) \<and> digits_val (pad2 n) = n"
proof (cases "n < 10")
  case True
  then have "dec_nat n = [digit_char n]" by (subst dec_nat.simps) simp
  with True show ?thesis using digit_char_props [OF True] by (simp add: pad2_def digits_val_def is_digit_def)
next
  case False
  assume "n < 100"
  then have d: "n div 10 < 10" "n mod 10 < 10" by auto
  then have "dec_nat (n div 10) = [digit_char (n div 10)]" by (subst dec_nat.simps) simp
  then have "dec_nat n = [digit_char (n div 10), digit_char (n mod 10)]" using False by (subst dec_nat.simps) simp
  with False show ?thesis using digit_char_props [OF d(1)] digit_char_props [OF d(2)] by (simp add: pad2_def digits_val_def)
qed

lemma ParseInt_pad2 [codec]: "n < 100 \<Longrightarrow> ParseInt (pad2 n) = Some (int n)"
  using pad2_props [of n] ParseInt_digits [of "pad2 n"] by fastforce

lemma dec_int_chars: "x \<in> set (dec_int i) \<Longrightarrow> is_digit x \<or> x = CHR ''-''"
  using dec_nat_digits by (auto simp: dec_int_def list_all_iff split: if_splits)

lemma dec_int_nonempty [simp]: "dec_int i \<noteq> []"
  by (simp add: dec_int_def)

end
