(* ===== verification/Store.thy ===== *)
theory Store
  imports GoStrings
begin

text \<open>
  pkg/store: hashes, objects, refs and the reflog, and the \<open>Storage\<close> interface that
  every backend implements and everything above calls.

  A hash is an array of 32 bytes; it is modelled as the 256-bit word whose big-endian
  bytes are those of the array, so that the zero hash is 0 and the order of words is the
  byte-by-byte order of the arrays.  The interface is a record of the backend's methods
  on a state of any type (\<open>'s\<close>), which the definitions of the higher layers take as an
  argument as the Go functions take a \<open>store.Storage\<close>.  A method that writes returns the
  new state beside its error; a method that reads only returns its result.

  The contracts \<open>object_store\<close> and \<open>storage\<close> say what the higher layers may rely on.
\<close>

section \<open>Hashes (hash.go)\<close>

type_synonym Hash = "256 word"

abbreviation HashSize :: nat where
  "HashSize \<equiv> 32"

abbreviation ZeroHash :: Hash where
  "ZeroHash \<equiv> 0"

definition IsZero :: "Hash \<Rightarrow> bool" where
  "IsZero h \<longleftrightarrow> h = ZeroHash"

lemma IsZero_iff [simp]: "IsZero h \<longleftrightarrow> h = 0"
  by (simp add: IsZero_def)

definition hash_bytes :: "Hash \<Rightarrow> bytes" where
  "hash_bytes h = be_bytes HashSize (unat h)"

definition hash_of_bytes :: "bytes \<Rightarrow> Hash" where
  "hash_of_bytes bs = of_nat (be_val bs)"

definition hash_String :: "Hash \<Rightarrow> string" where
  "hash_String h = HexEncode (hash_bytes h)"

definition Short :: "Hash \<Rightarrow> string" where
  "Short h = HexEncode (take 6 (hash_bytes h))"

definition ParseHash :: "string \<Rightarrow> error + Hash" where
  "ParseHash s =
     (if length s \<noteq> 2 * HashSize then Inl ErrInvalidObject
      else case HexDecode s of
        None \<Rightarrow> Inl ErrInvalidObject
      | Some b \<Rightarrow> Inr (hash_of_bytes b))"

section \<open>Objects, refs, reflog (store.go)\<close>

record Object =
  obj_Kind :: string
  obj_Payload :: bytes

record RefEntry =
  re_Name :: string
  re_Hash :: Hash

record ReflogEntry =
  rl_Old :: Hash
  rl_New :: Hash
  rl_Author :: string
  rl_UnixTime :: int
  rl_TZOffset :: int
  rl_Op :: string
  rl_Message :: string

record 's Storage =
  PutObject :: "'s \<Rightarrow> Hash \<Rightarrow> Object \<Rightarrow> 's \<times> (error + unit)"
  GetObject :: "'s \<Rightarrow> Hash \<Rightarrow> error + Object"
  HasObject :: "'s \<Rightarrow> Hash \<Rightarrow> error + bool"
  GetRef :: "'s \<Rightarrow> string \<Rightarrow> error + Hash option"
  CASRef :: "'s \<Rightarrow> string \<Rightarrow> Hash \<Rightarrow> Hash \<Rightarrow> 's \<times> (error + unit)"
  DeleteRef :: "'s \<Rightarrow> string \<Rightarrow> Hash \<Rightarrow> 's \<times> (error + unit)"
  ListRefs :: "'s \<Rightarrow> string \<Rightarrow> error + RefEntry list"
  AppendReflog :: "'s \<Rightarrow> string \<Rightarrow> ReflogEntry \<Rightarrow> 's \<times> (error + unit)"
  ReadReflog :: "'s \<Rightarrow> string \<Rightarrow> error + ReflogEntry list"

section \<open>Lemmas on hashes\<close>

lemma length_hash_bytes [simp, codec]: "length (hash_bytes h) = 32"
  by (simp add: hash_bytes_def)

lemma hash_of_bytes_hash_bytes [simp, codec]: "hash_of_bytes (hash_bytes h) = h"
proof -
  have "unat h < 256 ^ 32"
    using unsigned_less [of h] by simp
  then show ?thesis
    by (simp add: hash_of_bytes_def hash_bytes_def be_val_be_bytes)
qed

lemma hash_bytes_hash_of_bytes [codec]:
  assumes "length bs = 32"
  shows "hash_bytes (hash_of_bytes bs) = bs"
proof -
  have "be_val bs < 2 ^ 256"
    using be_val_bound [of bs] assms by simp
  then have "unat (of_nat (be_val bs) :: Hash) = be_val bs"
    by (simp add: unat_of_nat take_bit_eq_mod)
  then show ?thesis
    using be_bytes_be_val [of bs] assms by (simp add: hash_of_bytes_def hash_bytes_def)
qed

lemma hash_bytes_code [code]: "hash_bytes h = int_bytes HashSize (uint h) []"
  using int_bytes [of HashSize "unat h"] by (simp add: hash_bytes_def)

lemma hash_of_bytes_code [code]:
  "hash_of_bytes bs = word_of_int (foldl (\<lambda>a b. a * 256 + uint b) 0 bs)"
proof -
  have "foldl (\<lambda>a b. a * 256 + uint b) 0 bs = int (be_val bs)"
    by (induction bs rule: rev_induct) auto
  then show ?thesis by (simp add: hash_of_bytes_def)
qed

lemma hash_bytes_inject [simp]: "hash_bytes h = hash_bytes h' \<longleftrightarrow> h = h'"
  by (metis hash_of_bytes_hash_bytes)

lemma hex_value_hex_digit: "n < 16 \<Longrightarrow> hex_value (hex_digit n) = Some n"
proof -
  assume "n < 16"
  then have "n \<in> set [0..<16]" by simp
  moreover have "\<forall>n \<in> set [0..<16]. hex_value (hex_digit n) = Some n"
    by code_simp
  ultimately show ?thesis by blast
qed

lemma HexDecode_HexEncode [codec]: "HexDecode (HexEncode bs) = Some bs"
proof (induction bs)
  case (Cons b bs)
  have "unat b div 16 < 16"
    using unat_byte_less [of b] by arith
  moreover have "of_nat (unat b div 16 * 16 + unat b mod 16) = b"
    by (simp only: div_mult_mod_eq) simp
  ultimately show ?case
    using Cons by (simp add: HexEncode_def hex_value_hex_digit del: of_nat_add of_nat_mult)
qed (simp add: HexEncode_def)

lemma length_HexEncode [simp]: "length (HexEncode bs) = 2 * length bs"
  by (induction bs) (simp_all add: HexEncode_def)

lemma ParseHash_String [simp, codec]: "ParseHash (hash_String h) = Inr h"
  by (simp add: ParseHash_def hash_String_def codec)

section \<open>The contract of a backend\<close>

text \<open>
  Objects are immutable and content-addressed.  \<open>hist s\<close> is the set of all bindings of
  a hash to an object that were ever written; as long as no hash was bound to two
  different objects (\<open>single_valued\<close>: no collision among the objects written), reading
  a hash gives back what was written under it, for ever.  A write that fails changes
  nothing.
\<close>

locale object_store =
  fixes S :: "'s Storage"
    and hist :: "'s \<Rightarrow> (Hash \<times> Object) set"
  assumes put_ok: "PutObject S s h obj = (s', Inr ()) \<Longrightarrow> hist s' = insert (h, obj) (hist s)"
    and put_fail: "PutObject S s h obj = (s', Inl e) \<Longrightarrow> hist s' = hist s"
    and get_hist: "GetObject S s h = Inr obj \<Longrightarrow> (h, obj) \<in> hist s"
    and get_present: "(h, obj) \<in> hist s \<Longrightarrow> single_valued (hist s) \<Longrightarrow> GetObject S s h = Inr obj"
    and get_absent: "h \<notin> Domain (hist s) \<Longrightarrow> GetObject S s h = Inl ErrNotFound"
    and has_object: "HasObject S s h = Inr (h \<in> Domain (hist s))"
begin

lemma hist_mono: "fst (PutObject S s h obj) = s' \<Longrightarrow> hist s \<subseteq> hist s'"
proof -
  assume "fst (PutObject S s h obj) = s'"
  then obtain r where "PutObject S s h obj = (s', r)"
    by (cases "PutObject S s h obj") auto
  then show ?thesis
    by (cases r) (auto dest: put_ok put_fail)
qed

lemma get_stable:
  "GetObject S s h = Inr obj \<Longrightarrow> hist s \<subseteq> hist s' \<Longrightarrow> single_valued (hist s') \<Longrightarrow> GetObject S s' h = Inr obj"
  by (blast dest: get_hist intro: get_present)

lemma get_put:
  "PutObject S s h obj = (s', Inr ()) \<Longrightarrow> single_valued (hist s') \<Longrightarrow> GetObject S s' h = Inr obj"
  by (simp add: put_ok get_present)

end

text \<open>
  The full contract adds the refs and the reflog: a ref is read as it was last written,
  the compare-and-swap moves exactly the named ref and only from the expected value, and
  no operation touches what it does not name.  Reading and writing refs succeeds.
\<close>

definition cas_guard :: "Hash option \<Rightarrow> Hash \<Rightarrow> bool" where
  "cas_guard cur expected \<longleftrightarrow> (cur = None \<and> IsZero expected) \<or> cur = Some expected"

locale storage = object_store +
  fixes ref :: "'s \<Rightarrow> string \<Rightarrow> Hash option"
    and log :: "'s \<Rightarrow> string \<Rightarrow> ReflogEntry list"
  assumes get_ref: "GetRef S s n = Inr (ref s n)"
    and put_ref: "ref (fst (PutObject S s h obj)) = ref s"
    and put_log: "log (fst (PutObject S s h obj)) = log s"
    and put_total: "snd (PutObject S s h obj) = Inr ()"
    and cas_result: "snd (CASRef S s n e x) =
      (if IsZero x then Inl ErrInvalidObject
       else if cas_guard (ref s n) e then Inr () else Inl ErrConflict)"
    and cas_ref: "ref (fst (CASRef S s n e x)) =
      (if \<not> IsZero x \<and> cas_guard (ref s n) e then (ref s)(n \<mapsto> x) else ref s)"
    and cas_hist: "hist (fst (CASRef S s n e x)) = hist s"
    and cas_log: "log (fst (CASRef S s n e x)) = log s"
    and del_result: "snd (DeleteRef S s n e) =
      (case ref s n of None \<Rightarrow> Inl ErrNotFound
       | Some cur \<Rightarrow> if cur = e then Inr () else Inl ErrConflict)"
    and del_ref: "ref (fst (DeleteRef S s n e)) =
      (if ref s n = Some e then (ref s)(n := None) else ref s)"
    and del_hist: "hist (fst (DeleteRef S s n e)) = hist s"
    and del_log: "log (fst (DeleteRef S s n e)) = log s"
    and append_log: "log (fst (AppendReflog S s n entry)) = (log s)(n := log s n @ [entry])"
    and append_total: "snd (AppendReflog S s n entry) = Inr ()"
    and append_ref: "ref (fst (AppendReflog S s n entry)) = ref s"
    and append_hist: "hist (fst (AppendReflog S s n entry)) = hist s"
    and read_log: "ReadReflog S s n = Inr (log s n)"
    and list_refs: "\<exists>es. ListRefs S s p = Inr es \<and> sorted_wrt (<) (map re_Name es)
      \<and> set (map (\<lambda>r. (re_Name r, re_Hash r)) es) = {(n, h). ref s n = Some h \<and> HasPrefix n p}"
begin

lemmas storage_simps =
  get_ref put_ref put_log put_total cas_result cas_ref cas_hist cas_log
  del_result del_ref del_hist del_log append_log append_total append_ref append_hist read_log

end

end
