(* ===== verification/Memstore.thy ===== *)
theory Memstore
  imports Store
begin

text \<open>
  pkg/store/memstore: the in-memory backend.  A Go map is modelled by an association
  list whose first pair for a key is the key's binding; the object map keeps the older
  pairs behind the newest one, so that the list is also the record of all the objects
  ever written.  The mutex makes each method one atomic step.
\<close>

record MemStore =
  ms_objects :: "(Hash \<times> Object) list"
  ms_refs :: "(string \<times> Hash) list"
  ms_reflog :: "string \<Rightarrow> ReflogEntry list"

definition New :: MemStore where
  "New = \<lparr>ms_objects = [], ms_refs = [], ms_reflog = (\<lambda>_. [])\<rparr>"

definition mem_PutObject :: "MemStore \<Rightarrow> Hash \<Rightarrow> Object \<Rightarrow> MemStore \<times> (error + unit)" where
  "mem_PutObject s h obj = (s\<lparr>ms_objects := (h, obj) # ms_objects s\<rparr>, Inr ())"

definition mem_GetObject :: "MemStore \<Rightarrow> Hash \<Rightarrow> error + Object" where
  "mem_GetObject s h =
     (case map_of (ms_objects s) h of None \<Rightarrow> Inl ErrNotFound | Some obj \<Rightarrow> Inr obj)"

definition mem_HasObject :: "MemStore \<Rightarrow> Hash \<Rightarrow> error + bool" where
  "mem_HasObject s h = Inr (map_of (ms_objects s) h \<noteq> None)"

text \<open>
  \<open>IterObjects\<close> visits the hashes in ascending order and stops at the first error of the
  callback, whose effects are threaded through \<open>acc\<close>.
\<close>

fun iter_hashes :: "MemStore \<Rightarrow> (Hash \<Rightarrow> Object \<Rightarrow> 'a \<Rightarrow> 'a \<times> (error + unit)) \<Rightarrow>
    Hash list \<Rightarrow> 'a \<Rightarrow> 'a \<times> (error + unit)" where
  "iter_hashes s fn [] acc = (acc, Inr ())"
| "iter_hashes s fn (h # hs) acc =
     (case map_of (ms_objects s) h of
        None \<Rightarrow> iter_hashes s fn hs acc
      | Some obj \<Rightarrow>
          (case fn h obj acc of
             (acc', Inl e) \<Rightarrow> (acc', Inl e)
           | (acc', Inr _) \<Rightarrow> iter_hashes s fn hs acc'))"

definition mem_IterObjects :: "MemStore \<Rightarrow> (Hash \<Rightarrow> Object \<Rightarrow> 'a \<Rightarrow> 'a \<times> (error + unit)) \<Rightarrow>
    'a \<Rightarrow> 'a \<times> (error + unit)" where
  "mem_IterObjects s fn acc = iter_hashes s fn (sort (remdups (map fst (ms_objects s)))) acc"

definition mem_GetRef :: "MemStore \<Rightarrow> string \<Rightarrow> error + Hash option" where
  "mem_GetRef s name = Inr (map_of (ms_refs s) name)"

definition mem_CASRef :: "MemStore \<Rightarrow> string \<Rightarrow> Hash \<Rightarrow> Hash \<Rightarrow> MemStore \<times> (error + unit)" where
  "mem_CASRef s name expected next_hash =
     (if IsZero next_hash then (s, Inl ErrInvalidObject)
      else case map_of (ms_refs s) name of
        None \<Rightarrow>
          if IsZero expected then (s\<lparr>ms_refs := AList.update name next_hash (ms_refs s)\<rparr>, Inr ())
          else (s, Inl ErrConflict)
      | Some cur \<Rightarrow>
          if cur = expected then (s\<lparr>ms_refs := AList.update name next_hash (ms_refs s)\<rparr>, Inr ())
          else (s, Inl ErrConflict))"

definition mem_DeleteRef :: "MemStore \<Rightarrow> string \<Rightarrow> Hash \<Rightarrow> MemStore \<times> (error + unit)" where
  "mem_DeleteRef s name expected =
     (case map_of (ms_refs s) name of
        None \<Rightarrow> (s, Inl ErrNotFound)
      | Some cur \<Rightarrow>
          if cur \<noteq> expected then (s, Inl ErrConflict)
          else (s\<lparr>ms_refs := AList.delete name (ms_refs s)\<rparr>, Inr ()))"

definition mem_ListRefs :: "MemStore \<Rightarrow> string \<Rightarrow> error + RefEntry list" where
  "mem_ListRefs s p =
     Inr (sort_key re_Name
       (map (\<lambda>(n, h). \<lparr>re_Name = n, re_Hash = h\<rparr>)
         (filter (\<lambda>(n, h). HasPrefix n p) (AList.clearjunk (ms_refs s)))))"

definition mem_AppendReflog :: "MemStore \<Rightarrow> string \<Rightarrow> ReflogEntry \<Rightarrow> MemStore \<times> (error + unit)" where
  "mem_AppendReflog s name e =
     (s\<lparr>ms_reflog := (ms_reflog s)(name := ms_reflog s name @ [e])\<rparr>, Inr ())"

definition mem_ReadReflog :: "MemStore \<Rightarrow> string \<Rightarrow> error + ReflogEntry list" where
  "mem_ReadReflog s name = Inr (ms_reflog s name)"

definition memstore :: "MemStore Storage" where
  "memstore = \<lparr>
     PutObject = mem_PutObject, GetObject = mem_GetObject, HasObject = mem_HasObject,
     GetRef = mem_GetRef, CASRef = mem_CASRef, DeleteRef = mem_DeleteRef,
     ListRefs = mem_ListRefs, AppendReflog = mem_AppendReflog, ReadReflog = mem_ReadReflog\<rparr>"

lemmas memstore_defs =
  memstore_def mem_PutObject_def mem_GetObject_def mem_HasObject_def mem_GetRef_def
  mem_CASRef_def mem_DeleteRef_def mem_ListRefs_def mem_AppendReflog_def mem_ReadReflog_def

section \<open>The backend meets the contract\<close>

definition mem_hist :: "MemStore \<Rightarrow> (Hash \<times> Object) set" where
  "mem_hist s = set (ms_objects s)"

definition mem_ref :: "MemStore \<Rightarrow> string \<Rightarrow> Hash option" where
  "mem_ref s = map_of (ms_refs s)"

lemma mem_ListRefs_spec:
  "\<exists>es. mem_ListRefs s p = Inr es \<and> sorted_wrt (<) (map re_Name es)
    \<and> set (map (\<lambda>r. (re_Name r, re_Hash r)) es) = {(n, h). mem_ref s n = Some h \<and> HasPrefix n p}"
proof -
  define l where "l = filter (\<lambda>(n, h). HasPrefix n p) (AList.clearjunk (ms_refs s))"
  define es where "es = sort_key re_Name (map (\<lambda>(n, h). \<lparr>re_Name = n, re_Hash = h\<rparr>) l)"
  have dist: "distinct (map fst l)"
    unfolding l_def by (intro distinct_map_filter) (simp add: distinct_clearjunk)
  have "set (map re_Name es) = set (map fst l)"
    by (force simp: es_def case_prod_beta)
  then have "card (set (map re_Name es)) = length (map re_Name es)"
    using distinct_card [OF dist] by (simp add: es_def)
  then have "distinct (map re_Name es)"
    by (rule card_distinct)
  moreover have "sorted (map re_Name es)"
    by (simp add: es_def)
  ultimately have "sorted_wrt (<) (map re_Name es)"
    by (simp add: strict_sorted_iff)
  moreover have "set (map (\<lambda>r. (re_Name r, re_Hash r)) es) = set l"
    by (force simp: es_def case_prod_beta)
  moreover have "set l = {(n, h). mem_ref s n = Some h \<and> HasPrefix n p}"
  proof -
    have "(n, h) \<in> set (AList.clearjunk (ms_refs s)) \<longleftrightarrow> mem_ref s n = Some h" for n h
      by (metis distinct_clearjunk map_of_clearjunk map_of_eq_Some_iff mem_ref_def)
    then show ?thesis by (auto simp: l_def)
  qed
  ultimately show ?thesis
    by (auto simp: mem_ListRefs_def es_def l_def)
qed

lemma map_of_Domain: "map_of (ms_objects s) h \<noteq> None \<longleftrightarrow> h \<in> Domain (mem_hist s)"
  by (auto simp: mem_hist_def map_of_eq_None_iff Domain_fst)

interpretation mem: storage memstore mem_hist mem_ref ms_reflog
proof unfold_locales
  fix s :: MemStore and h obj
  assume "(h, obj) \<in> mem_hist s" "single_valued (mem_hist s)"
  moreover from this obtain obj' where "map_of (ms_objects s) h = Some obj'"
    by (auto simp: mem_hist_def dest: weak_map_of_SomeI)
  moreover from this have "(h, obj') \<in> mem_hist s"
    by (simp add: mem_hist_def map_of_SomeD)
  ultimately show "GetObject memstore s h = Inr obj"
    by (simp add: memstore_defs) (metis single_valuedD)
next
  fix s :: MemStore and p
  show "\<exists>es. ListRefs memstore s p = Inr es \<and> sorted_wrt (<) (map re_Name es)
      \<and> set (map (\<lambda>r. (re_Name r, re_Hash r)) es) = {(n, h). mem_ref s n = Some h \<and> HasPrefix n p}"
    using mem_ListRefs_spec [of s p] by (simp add: memstore_def)
next
  fix s :: MemStore and h
  show "HasObject memstore s h = Inr (h \<in> Domain (mem_hist s))"
    by (simp add: memstore_defs map_of_Domain [symmetric])
  show "h \<notin> Domain (mem_hist s) \<Longrightarrow> GetObject memstore s h = Inl ErrNotFound"
    by (simp add: memstore_defs map_of_Domain [symmetric])
qed (auto simp: memstore_defs mem_hist_def mem_ref_def cas_guard_def
    update_conv' delete_conv' map_of_SomeD
    split: option.splits if_splits)

section \<open>No lost update\<close>

text \<open>
  Two writers that read the same value of a ref and then both compare-and-swap it
  cannot both succeed: once the first has moved the ref away from the expected value,
  the second gets \<open>ErrConflict\<close> and leaves the store as it is.
\<close>

theorem cas_no_lost_update:
  assumes "CASRef memstore s name expected a = (s1, Inr ())" and "a \<noteq> expected" and "b \<noteq> ZeroHash"
  shows "CASRef memstore s1 name expected b = (s1, Inl ErrConflict)"
  using assms
  by (auto simp: memstore_defs update_conv' split: option.splits if_splits)

theorem cas_no_lost_update_witness:
  "CASRef memstore New ''r'' 0 5 = (New\<lparr>ms_refs := [(''r'', 5)]\<rparr>, Inr ()) \<and>
   CASRef memstore (New\<lparr>ms_refs := [(''r'', 5)]\<rparr>) ''r'' 0 6 = (New\<lparr>ms_refs := [(''r'', 5)]\<rparr>, Inl ErrConflict)"
  using cas_no_lost_update [of New "''r''" 0 5 "New\<lparr>ms_refs := [(''r'', 5)]\<rparr>" 6]
  by (simp add: memstore_defs New_def)

end
