(* ===== verification/Objects.thy ===== *)
theory Objects
  imports Memstore
begin

text \<open>
  pkg/object, object.go and blob.go: the kinds of objects, the content address of an
  object and the check of an object against its address.  The SHA-256 function is the
  argument \<open>sha\<close>; nothing is assumed of it here.
\<close>

definition KindBlob :: string where "KindBlob = ''blob''"
definition KindTree :: string where "KindTree = ''tree''"
definition KindCommit :: string where "KindCommit = ''commit''"
definition KindTag :: string where "KindTag = ''tag''"
definition KindSymref :: string where "KindSymref = ''symref''"

lemmas kind_defs = KindBlob_def KindTree_def KindCommit_def KindTag_def KindSymref_def

definition Kind_IsValid :: "string \<Rightarrow> bool" where
  "Kind_IsValid k \<longleftrightarrow> k \<in> {KindBlob, KindTree, KindCommit, KindTag, KindSymref}"

text \<open>The bytes that are hashed: the kind, a blank, the length in decimal, a zero byte, the payload.\<close>

definition hash_input :: "string \<Rightarrow> bytes \<Rightarrow> bytes" where
  "hash_input kind payload =
     bytes_of (kind @ '' '' @ dec_nat (length payload) @ [CHR 0x00]) @ payload"

definition HashOf :: "(bytes \<Rightarrow> Hash) \<Rightarrow> string \<Rightarrow> bytes \<Rightarrow> Hash" where
  "HashOf sha kind payload = sha (hash_input kind payload)"

definition Encode :: "(bytes \<Rightarrow> Hash) \<Rightarrow> string \<Rightarrow> bytes \<Rightarrow> Hash \<times> Object" where
  "Encode sha kind payload = (HashOf sha kind payload, \<lparr>obj_Kind = kind, obj_Payload = payload\<rparr>)"

definition Verify :: "(bytes \<Rightarrow> Hash) \<Rightarrow> Hash \<Rightarrow> Object \<Rightarrow> error + unit" where
  "Verify sha h obj =
     (if \<not> Kind_IsValid (obj_Kind obj) then Inl ErrInvalidObject
      else if HashOf sha (obj_Kind obj) (obj_Payload obj) \<noteq> h then Inl ErrCorrupt
      else Inr ())"

definition Blob_Encode :: "(bytes \<Rightarrow> Hash) \<Rightarrow> bytes \<Rightarrow> Hash \<times> Object" where
  "Blob_Encode sha payload = Encode sha KindBlob payload"

definition DecodeBlob :: "bytes \<Rightarrow> bytes" where
  "DecodeBlob payload = payload"

section \<open>Content addressing\<close>

definition obj_hash :: "(bytes \<Rightarrow> Hash) \<Rightarrow> Object \<Rightarrow> Hash" where
  "obj_hash sha obj = HashOf sha (obj_Kind obj) (obj_Payload obj)"

definition content_addressed :: "(bytes \<Rightarrow> Hash) \<Rightarrow> (Hash \<times> Object) set \<Rightarrow> bool" where
  "content_addressed sha H \<longleftrightarrow> (\<forall>(h, obj) \<in> H. obj_hash sha obj = h)"

lemma Verify_Encode: "Kind_IsValid k \<Longrightarrow> (h, obj) = Encode sha k p \<Longrightarrow> Verify sha h obj = Inr ()"
  by (simp add: Verify_def Encode_def)

lemma Verify_ok_iff:
  "Verify sha h obj = Inr () \<longleftrightarrow> Kind_IsValid (obj_Kind obj) \<and> obj_hash sha obj = h"
  by (simp add: Verify_def obj_hash_def)

lemma content_addressed_insert [simp]:
  "content_addressed sha (insert (h, obj) H) \<longleftrightarrow> obj_hash sha obj = h \<and> content_addressed sha H"
  by (auto simp: content_addressed_def)

lemma content_addressed_empty [simp]: "content_addressed sha {}"
  by (simp add: content_addressed_def)

lemma content_addressedD: "content_addressed sha H \<Longrightarrow> (h, obj) \<in> H \<Longrightarrow> obj_hash sha obj = h"
  by (auto simp: content_addressed_def)

lemma content_addressed_single_valued:
  assumes "content_addressed sha H" and "inj_on (obj_hash sha) (snd ` H)"
  shows "single_valued H"
proof (rule single_valuedI)
  fix h a b
  assume ab: "(h, a) \<in> H" "(h, b) \<in> H"
  then have "obj_hash sha a = obj_hash sha b"
    using content_addressedD [OF assms(1)] by metis
  moreover have "a \<in> snd ` H" "b \<in> snd ` H"
    using ab by force+
  ultimately show "a = b"
    using assms(2) by (auto dest: inj_onD)
qed

section \<open>The hashed bytes determine the object\<close>

lemma hash_input_inject:
  assumes "hash_input k p = hash_input k' p'"
    and "CHR '' '' \<notin> set k" and "CHR '' '' \<notin> set k'"
  shows "k = k' \<and> p = p'"
proof -
  let ?d = "\<lambda>p. bytes_of (dec_nat (length p)) @ byte_of_char (CHR 0x00) # p"
  have "bytes_of k @ byte_of_char (CHR '' '') # ?d p = bytes_of k' @ byte_of_char (CHR '' '') # ?d p'"
    using assms(1) by (simp add: hash_input_def bytes_of_def)
  then have "bytes_of k = bytes_of k' \<and> ?d p = ?d p'"
    by (rule append_sep_inject) (use assms(2,3) in \<open>simp_all add: mem_bytes_of\<close>)
  moreover have "byte_of_char (CHR 0x00) \<notin> set (bytes_of (dec_nat n))" for n
    using dec_nat_digits [of n] by (auto simp: mem_bytes_of list_all_iff dest: is_digit_not)
  ultimately show ?thesis
    by (auto dest: append_sep_inject)
qed

lemma kind_no_space: "Kind_IsValid k \<Longrightarrow> CHR '' '' \<notin> set k"
  by (auto simp: Kind_IsValid_def kind_defs)

section \<open>Properties\<close>

text \<open>A concrete hash function on which examples can be evaluated.\<close>

definition sample_sha :: "bytes \<Rightarrow> Hash" where
  "sample_sha bs = word_of_int (foldl (\<lambda>a b. (a * 257 + uint b + 1) mod 1000003) 1 bs)"

text \<open>
  The bytes that are hashed determine kind and payload of an object, so that two
  different objects share a hash only if the hash function itself collides.
\<close>

theorem object_hash_collision:
  assumes "Kind_IsValid k" and "Kind_IsValid k'" and "HashOf sha k p = HashOf sha k' p'" and "(k, p) \<noteq> (k', p')"
  shows "\<exists>x y. x \<noteq> y \<and> sha x = sha y"
  using assms hash_input_inject [of k p k' p'] kind_no_space
  by (metis HashOf_def)

theorem object_hash_collision_witness:
  "\<exists>x y :: bytes. x \<noteq> y \<and> (\<lambda>_. 7 :: Hash) x = (\<lambda>_. 7) y"
  using object_hash_collision [of KindBlob KindTree "\<lambda>_. 7" "[]" "[]"]
  by (simp add: Kind_IsValid_def kind_defs HashOf_def)

end
