(* ===== verification/TreeCodec.thy ===== *)
theory TreeCodec
  imports Objects
begin

text \<open>
  pkg/object, tree.go: tree nodes, their canonical order, the binary encoding of a node,
  its decoder and the binary search for an entry.
\<close>

section \<open>Entries and trees\<close>

type_synonym EntryKind = "8 word"

abbreviation EntrySubtree :: EntryKind where "EntrySubtree \<equiv> 0"
abbreviation EntryLeaf :: EntryKind where "EntryLeaf \<equiv> 1"

definition EntryKind_IsValid :: "EntryKind \<Rightarrow> bool" where
  "EntryKind_IsValid k \<longleftrightarrow> k = EntrySubtree \<or> k = EntryLeaf"

record TreeEntry =
  te_Kind :: EntryKind
  te_Name :: string
  te_Hash :: Hash

record Tree =
  Entries :: "TreeEntry list"

abbreviation empty_tree :: Tree where
  "empty_tree \<equiv> \<lparr>Entries = []\<rparr>"

abbreviation treeVersion :: byte where
  "treeVersion \<equiv> 1"

definition cmpEntry :: "EntryKind \<Rightarrow> string \<Rightarrow> EntryKind \<Rightarrow> string \<Rightarrow> int" where
  "cmpEntry ka na kb nb =
     (if ka < kb then -1 else if ka > kb then 1
      else if na < nb then -1 else if na > nb then 1 else 0)"

definition te_key :: "TreeEntry \<Rightarrow> EntryKind \<times> string" where
  "te_key e = (te_Kind e, te_Name e)"

text \<open>
  \<open>sort.Slice\<close> with \<^const>\<open>cmpEntry\<close> negative as "less" sorts by kind, then by name.  The order
  it gives entries of equal key is not specified by Go; the sort here is stable.
\<close>

definition sortEntries :: "TreeEntry list \<Rightarrow> TreeEntry list" where
  "sortEntries es = sort_key te_key es"

fun isSorted :: "TreeEntry list \<Rightarrow> bool" where
  "isSorted [] = True"
| "isSorted [e] = True"
| "isSorted (a # b # es) =
     (if cmpEntry (te_Kind a) (te_Name a) (te_Kind b) (te_Name b) > 0 then False
      else isSorted (b # es))"

fun firstDuplicate :: "TreeEntry list \<Rightarrow> string" where
  "firstDuplicate [] = []"
| "firstDuplicate [e] = []"
| "firstDuplicate (a # b # es) =
     (if te_Kind a = te_Kind b \<and> te_Name a = te_Name b then te_Name b
      else firstDuplicate (b # es))"

definition validateEntry :: "TreeEntry \<Rightarrow> error + unit" where
  "validateEntry e =
     (if \<not> EntryKind_IsValid (te_Kind e) then Inl ErrInvalidObject
      else if length (te_Name e) > 255 then Inl ErrInvalidObject
      else if length (te_Name e) = 0 then Inl ErrInvalidObject
      else Inr ())"

section \<open>The encoding of a node\<close>

definition entry_bytes :: "TreeEntry \<Rightarrow> bytes" where
  "entry_bytes e =
     te_Kind e # of_nat (length (te_Name e)) # bytes_of (te_Name e) @ hash_bytes (te_Hash e)"

definition tree_payload :: "Tree \<Rightarrow> bytes" where
  "tree_payload t =
     (let es = sortEntries (Entries t)
      in treeVersion # PutUvarint (length es) @ concat (map entry_bytes es))"

definition Tree_Encode :: "(bytes \<Rightarrow> Hash) \<Rightarrow> Tree \<Rightarrow> Hash \<times> Object" where
  "Tree_Encode sha t = Encode sha KindTree (tree_payload t)"

section \<open>The decoder\<close>

fun decode_entries :: "nat \<Rightarrow> bytes \<Rightarrow> TreeEntry list \<Rightarrow> error + TreeEntry list \<times> bytes" where
  "decode_entries 0 rest es = Inr (es, rest)"
| "decode_entries (Suc n) rest es =
     (case rest of
        kind # len # body \<Rightarrow>
          let nameLen = unat len in
          if \<not> EntryKind_IsValid kind then Inl ErrInvalidObject
          else if length body < nameLen + HashSize then Inl ErrInvalidObject
          else decode_entries n (drop HashSize (drop nameLen body))
            (es @ [\<lparr>te_Kind = kind, te_Name = string_of (take nameLen body),
                    te_Hash = hash_of_bytes (take HashSize (drop nameLen body))\<rparr>])
      | _ \<Rightarrow> Inl ErrInvalidObject)"

text \<open>
  \<open>make([]TreeEntry, 0, count64)\<close> panics when the requested capacity exceeds the
  address space of the allocator: an entry takes 56 bytes, and the limit is \<open>2^48\<close>
  bytes on 64-bit platforms.
\<close>

definition makeslice_panics :: "nat \<Rightarrow> bool" where
  "makeslice_panics n \<longleftrightarrow> n * 56 > 2 ^ 48"

lemma makeslice_panics_code [code]: "makeslice_panics n \<longleftrightarrow> 2 ^ 48 < int n * 56"
  by (simp add: makeslice_panics_def flip: of_nat_less_iff [where 'a = int])

definition DecodeTree :: "bytes \<Rightarrow> error + Tree" where
  "DecodeTree payload =
     (case payload of
        [] \<Rightarrow> Inl ErrInvalidObject
      | v # rest \<Rightarrow>
          if v \<noteq> treeVersion then Inl ErrInvalidObject
          else case Uvarint rest of (count64, n) \<Rightarrow>
            if n \<le> 0 then Inl ErrInvalidObject
            else if makeslice_panics count64 then Inl GoPanic
            else case decode_entries count64 (drop (nat n) rest) [] of
              Inl e \<Rightarrow> Inl e
            | Inr (entries, rest') \<Rightarrow>
                if length rest' \<noteq> 0 then Inl ErrInvalidObject
                else if \<not> isSorted entries then Inl ErrInvalidObject
                else if firstDuplicate entries \<noteq> [] then Inl ErrInvalidObject
                else Inr \<lparr>Entries = entries\<rparr>)"

section \<open>The binary search for an entry\<close>

text \<open>\<open>sort.Search(n, f)\<close>: the loop keeps \<open>f (i-1)\<close> false and \<open>f j\<close> true.\<close>

function search_loop :: "(nat \<Rightarrow> bool) \<Rightarrow> nat \<Rightarrow> nat \<Rightarrow> nat" where
  "search_loop f i j =
     (if i < j then
        let h = (i + j) div 2 in
        if \<not> f h then search_loop f (h + 1) j else search_loop f i h
      else i)"
  by pat_completeness auto
termination
  by (relation "measure (\<lambda>(f, i, j). j - i)") auto

declare search_loop.simps [simp del]

definition Search :: "nat \<Rightarrow> (nat \<Rightarrow> bool) \<Rightarrow> nat" where
  "Search n f = search_loop f 0 n"

definition Get :: "Tree \<Rightarrow> EntryKind \<Rightarrow> string \<Rightarrow> TreeEntry option" where
  "Get t kind name =
     (let es = Entries t;
          idx = Search (length es)
            (\<lambda>i. cmpEntry (te_Kind (es ! i)) (te_Name (es ! i)) kind name \<ge> 0)
      in if idx < length es then
           (let e = es ! idx in
            if te_Kind e = kind \<and> te_Name e = name then Some e else None)
         else None)"

section \<open>The canonical order\<close>

lemma cmpEntry_neg: "cmpEntry ka na kb nb < 0 \<longleftrightarrow> (ka, na) < (kb, nb)"
  by (auto simp: cmpEntry_def less_prod_def)

lemma cmpEntry_pos: "cmpEntry ka na kb nb > 0 \<longleftrightarrow> (kb, nb) < (ka, na)"
  by (auto simp: cmpEntry_def less_prod_def)

lemma cmpEntry_key_neg: "cmpEntry (te_Kind a) (te_Name a) (te_Kind b) (te_Name b) < 0 \<longleftrightarrow> te_key a < te_key b"
  by (simp add: cmpEntry_neg te_key_def)

lemma cmpEntry_key_pos: "cmpEntry (te_Kind a) (te_Name a) (te_Kind b) (te_Name b) > 0 \<longleftrightarrow> te_key b < te_key a"
  by (simp add: cmpEntry_pos te_key_def)

abbreviation keys :: "Tree \<Rightarrow> (EntryKind \<times> string) list" where
  "keys t \<equiv> map te_key (Entries t)"

text \<open>A canonical node: the keys strictly ascend.\<close>

definition canonical :: "Tree \<Rightarrow> bool" where
  "canonical t \<longleftrightarrow> sorted_wrt (<) (keys t)"

lemma isSorted_iff: "isSorted es \<longleftrightarrow> sorted (map te_key es)"
  by (induction es rule: isSorted.induct) (auto simp: cmpEntry_key_pos)

lemma firstDuplicate_distinct:
  assumes "firstDuplicate es = []" and "\<forall>e \<in> set es. te_Name e \<noteq> []"
    and "sorted (map te_key es)"
  shows "sorted_wrt (<) (map te_key es)"
  using assms
proof (induction es rule: firstDuplicate.induct)
  case (3 a b es)
  then have "te_key a \<noteq> te_key b" and "te_key a \<le> te_key b"
    by (auto simp: te_key_def split: if_splits)
  then have "te_key a < te_key b" by simp
  moreover have "sorted_wrt (<) (map te_key (b # es))"
    using 3 by (simp split: if_splits)
  ultimately show ?case
    by auto
qed simp_all

lemma firstDuplicate_strict:
  "sorted_wrt (<) (map te_key es) \<Longrightarrow> firstDuplicate es = []"
  by (induction es rule: firstDuplicate.induct) (auto simp: te_key_def)

lemma sortEntries_sorted [simp]: "sorted (map te_key (sortEntries es))"
  by (simp add: sortEntries_def)

lemma set_sortEntries [simp]: "set (sortEntries es) = set es"
  by (simp add: sortEntries_def)

lemma length_sortEntries [simp]: "length (sortEntries es) = length es"
  by (simp add: sortEntries_def)

lemma sortEntries_id: "sorted (map te_key es) \<Longrightarrow> sortEntries es = es"
  by (simp add: sortEntries_def sort_key_id_if_sorted)

lemma sortEntries_strict:
  "distinct (map te_key es) \<Longrightarrow> sorted_wrt (<) (map te_key (sortEntries es))"
proof -
  assume "distinct (map te_key es)"
  then have "card (set (map te_key (sortEntries es))) = length (map te_key (sortEntries es))"
    using distinct_card [of "map te_key es"] by simp
  then have "distinct (map te_key (sortEntries es))"
    by (rule card_distinct)
  then show ?thesis
    by (simp add: strict_sorted_iff)
qed

section \<open>The binary search\<close>

lemma search_loop_spec:
  assumes "\<forall>a b. a \<le> b \<longrightarrow> b < n \<longrightarrow> f a \<longrightarrow> f b" and "i \<le> j" and "j \<le> n"
    and "\<forall>a < i. \<not> f a" and "\<forall>a. j \<le> a \<longrightarrow> a < n \<longrightarrow> f a"
  shows "search_loop f i j \<le> n \<and> (\<forall>a < search_loop f i j. \<not> f a)
    \<and> (\<forall>a. search_loop f i j \<le> a \<longrightarrow> a < n \<longrightarrow> f a)"
  using assms
proof (induction f i j rule: search_loop.induct)
  case (1 f i j)
  show ?case
  proof (cases "i < j")
    case True
    define h where "h = (i + j) div 2"
    then have h: "i \<le> h" "h < j" using True by auto
    note mono = "1.prems"(1)
    show ?thesis
    proof (cases "f h")
      case False
      have "\<forall>a < h + 1. \<not> f a"
      proof (intro allI impI notI)
        fix a assume "a < h + 1" "f a"
        then have "f h" using mono h "1.prems"(3) by (metis Suc_eq_plus1 less_Suc_eq_le less_le_trans)
        with False show False by simp
      qed
      then have "search_loop f (h + 1) j \<le> n \<and> (\<forall>a < search_loop f (h + 1) j. \<not> f a)
        \<and> (\<forall>a. search_loop f (h + 1) j \<le> a \<longrightarrow> a < n \<longrightarrow> f a)"
        using True False h "1.prems" by (intro "1.IH"(1) [OF True h_def False]) auto
      with True False show ?thesis by (simp add: search_loop.simps [of f i j] h_def [symmetric])
    next
      case fh: True
      have "\<forall>a. h \<le> a \<longrightarrow> a < n \<longrightarrow> f a"
        using mono fh by blast
      then have "search_loop f i h \<le> n \<and> (\<forall>a < search_loop f i h. \<not> f a)
        \<and> (\<forall>a. search_loop f i h \<le> a \<longrightarrow> a < n \<longrightarrow> f a)"
        using True fh h "1.prems" by (intro "1.IH"(2) [OF True h_def]) auto
      with True fh show ?thesis by (simp add: search_loop.simps [of f i j] h_def [symmetric])
    qed
  next
    case False
    then have "search_loop f i j = i"
      by (simp add: search_loop.simps [of f i j])
    with False "1.prems" show ?thesis by auto
  qed
qed

lemma Search_least:
  assumes "\<forall>a b. a \<le> b \<longrightarrow> b < n \<longrightarrow> f a \<longrightarrow> f b"
  shows "Search n f \<le> n" and "a < Search n f \<Longrightarrow> \<not> f a" and "Search n f \<le> a \<Longrightarrow> a < n \<Longrightarrow> f a"
  using search_loop_spec [of n f 0 n] assms by (auto simp: Search_def)

text \<open>On a canonical node the search finds the entry of the key, if there is one.\<close>

lemma Get_canonical:
  assumes "canonical t"
  shows "Get t k n = Some e \<longleftrightarrow> e \<in> set (Entries t) \<and> te_key e = (k, n)"
proof -
  let ?es = "Entries t"
  define f where "f = (\<lambda>i. cmpEntry (te_Kind (?es ! i)) (te_Name (?es ! i)) k n \<ge> 0)"
  have f: "f i \<longleftrightarrow> (k, n) \<le> te_key (?es ! i)" for i
    using cmpEntry_neg [of "te_Kind (?es ! i)" "te_Name (?es ! i)" k n]
    by (auto simp: f_def te_key_def not_less)
  have strict: "te_key (?es ! a) < te_key (?es ! b)" if "a < b" "b < length ?es" for a b
    using assms that by (simp add: canonical_def sorted_wrt_iff_nth_less)
  have mono: "\<forall>a b. a \<le> b \<longrightarrow> b < length ?es \<longrightarrow> f a \<longrightarrow> f b"
  proof (intro allI impI)
    fix a b assume ab: "a \<le> b" "b < length ?es" "f a"
    show "f b"
    proof (cases "a = b")
      case False
      then have "te_key (?es ! a) < te_key (?es ! b)" using ab strict by simp
      with ab(3) show ?thesis by (simp add: f order.strict_implies_order order.strict_trans1)
    qed (use ab in simp)
  qed
  define idx where "idx = Search (length ?es) f"
  have Get: "Get t k n = (if idx < length ?es \<and> te_key (?es ! idx) = (k, n) then Some (?es ! idx) else None)"
    by (simp add: Get_def idx_def f_def Let_def te_key_def)
  show ?thesis
  proof
    assume "Get t k n = Some e"
    then show "e \<in> set ?es \<and> te_key e = (k, n)"
      by (auto simp: Get split: if_splits)
  next
    assume e: "e \<in> set ?es \<and> te_key e = (k, n)"
    then obtain j where j: "j < length ?es" "?es ! j = e"
      by (auto simp: in_set_conv_nth)
    have "f j" using e j by (simp add: f)
    then have "idx \<le> j"
      using Search_least(2) [OF mono, of j] by (auto simp: idx_def not_less [symmetric])
    moreover have "\<not> idx < j"
    proof
      assume "idx < j"
      then have "f idx"
        using Search_least(3) [OF mono, of idx] j by (simp add: idx_def)
      with strict [OF \<open>idx < j\<close>] e j show False by (simp add: f)
    qed
    ultimately have "idx = j" by simp
    with e j show "Get t k n = Some e" by (simp add: Get)
  qed
qed

lemma Get_None: "canonical t \<Longrightarrow> Get t k n = None \<longleftrightarrow> (k, n) \<notin> set (keys t)"
  by (metis (no_types, lifting) Get_canonical imageE image_eqI list.set_map not_None_eq)

section \<open>The codec\<close>

definition storable :: "TreeEntry \<Rightarrow> bool" where
  "storable e \<longleftrightarrow> EntryKind_IsValid (te_Kind e) \<and> length (te_Name e) \<le> 255"

lemma validateEntry_iff: "validateEntry e = Inr () \<longleftrightarrow> storable e \<and> te_Name e \<noteq> []"
  by (simp add: validateEntry_def storable_def not_less)

lemma decode_entry:
  assumes "storable e"
  shows "decode_entries (Suc n) (entry_bytes e @ rest) acc = decode_entries n rest (acc @ [e])"
proof -
  have "unat (of_nat (length (te_Name e)) :: byte) = length (te_Name e)"
    using assms by (simp add: unat_of_nat_byte storable_def)
  then show ?thesis
    using assms by (cases e) (simp add: entry_bytes_def storable_def Let_def)
qed

lemma decode_entries_concat [codec]:
  "\<forall>e \<in> set es. storable e \<Longrightarrow>
    decode_entries (length es) (concat (map entry_bytes es) @ rest) acc = Inr (acc @ es, rest)"
proof (induction es arbitrary: acc)
  case (Cons e es)
  have "decode_entries (length (e # es)) (concat (map entry_bytes (e # es)) @ rest) acc
      = decode_entries (length es) (concat (map entry_bytes es) @ rest) (acc @ [e])"
    using decode_entry [of e "length es" _ acc] Cons.prems by simp
  with Cons show ?case by simp
qed simp

lemma decode_entries_inv:
  "decode_entries n bs acc = Inr (es, rest) \<Longrightarrow>
    \<exists>xs. es = acc @ xs \<and> length xs = n \<and> bs = concat (map entry_bytes xs) @ rest
      \<and> (\<forall>e \<in> set xs. storable e)"
proof (induction n arbitrary: bs acc)
  case (Suc n)
  from Suc.prems obtain kind len body where bs: "bs = kind # len # body"
    by (auto split: list.splits)
  define e where "e = \<lparr>te_Kind = kind, te_Name = string_of (take (unat len) body),
    te_Hash = hash_of_bytes (take 32 (drop (unat len) body))\<rparr>"
  from Suc.prems bs have valid: "EntryKind_IsValid kind" and len: "unat len + 32 \<le> length body"
    and rec: "decode_entries n (drop 32 (drop (unat len) body)) (acc @ [e]) = Inr (es, rest)"
    by (auto simp: Let_def e_def split: if_splits)
  have "unat len \<le> 255"
    using unat_byte_less [of len] by linarith
  then have e: "storable e"
    using valid len by (simp add: storable_def e_def)
  have "entry_bytes e = kind # len # take (unat len) body @ take 32 (drop (unat len) body)"
    using len by (simp add: entry_bytes_def e_def hash_bytes_hash_of_bytes)
  then have "bs = entry_bytes e @ drop 32 (drop (unat len) body)"
    by (simp add: bs del: drop_drop)
  moreover obtain xs where "es = (acc @ [e]) @ xs" "length xs = n"
    "drop 32 (drop (unat len) body) = concat (map entry_bytes xs) @ rest" "\<forall>e \<in> set xs. storable e"
    using Suc.IH [OF rec] by blast
  ultimately show ?case
    using e by (intro exI [of _ "e # xs"]) simp
qed simp

lemma DecodeTree_tree_payload:
  assumes "\<forall>e \<in> set (Entries t). storable e" and "distinct (keys t)"
    and "\<not> makeslice_panics (length (Entries t))"
  shows "DecodeTree (tree_payload t) = Inr \<lparr>Entries = sortEntries (Entries t)\<rparr>"
proof -
  let ?es = "sortEntries (Entries t)"
  have "length ?es < 2 ^ 64"
    using assms(3) by (simp add: makeslice_panics_def)
  then have "Uvarint (PutUvarint (length ?es) @ concat (map entry_bytes ?es))
      = (length ?es, int (length (PutUvarint (length ?es))))"
    by (rule Uvarint_PutUvarint)
  moreover have "decode_entries (length ?es) (concat (map entry_bytes ?es)) [] = Inr (?es, [])"
    using decode_entries_concat [of ?es "[]" "[]"] assms(1) by simp
  ultimately show ?thesis
    using assms(3) firstDuplicate_strict [OF sortEntries_strict [OF assms(2)]]
    by (simp add: DecodeTree_def tree_payload_def Let_def isSorted_iff)
qed

text \<open>
  What decodes is sorted and storable, and is the canonical encoding of the tree it
  decodes to up to the way the entry count is written.
\<close>

lemma DecodeTree_inv:
  assumes "DecodeTree p = Inr t"
  shows "sorted (keys t)" and "\<forall>e \<in> set (Entries t). storable e" and "firstDuplicate (Entries t) = []"
    and "\<exists>n v. Uvarint (v @ concat (map entry_bytes (Entries t))) = (length (Entries t), n)
      \<and> length v = nat n \<and> p = treeVersion # v @ concat (map entry_bytes (Entries t))"
proof -
  from assms obtain rest count64 n where p: "p = treeVersion # rest"
    and u: "Uvarint rest = (count64, n)" "0 < n"
    and d: "decode_entries count64 (drop (nat n) rest) [] = Inr (Entries t, [])"
    and srt: "isSorted (Entries t)" and dup: "firstDuplicate (Entries t) = []"
    by (auto simp: DecodeTree_def split: list.splits if_splits prod.splits sum.splits)
  obtain xs where xs: "Entries t = xs" "length xs = count64"
    "drop (nat n) rest = concat (map entry_bytes xs)" "\<forall>e \<in> set xs. storable e"
    using decode_entries_inv [OF d] by auto
  show "sorted (keys t)" using srt by (simp add: isSorted_iff)
  show "\<forall>e \<in> set (Entries t). storable e" "firstDuplicate (Entries t) = []" using xs dup by auto
  have rest: "rest = take (nat n) rest @ concat (map entry_bytes (Entries t))"
    using xs by (metis append_take_drop_id)
  moreover have "length (take (nat n) rest) = nat n"
    using Uvarint_length [of rest] u by simp
  ultimately show "\<exists>n v. Uvarint (v @ concat (map entry_bytes (Entries t))) = (length (Entries t), n)
      \<and> length v = nat n \<and> p = treeVersion # v @ concat (map entry_bytes (Entries t))"
    using u xs p by (intro exI [of _ n] exI [of _ "take (nat n) rest"]) auto
qed

lemma tree_payload_canonical:
  "sorted (keys t) \<Longrightarrow>
    tree_payload t = treeVersion # PutUvarint (length (Entries t)) @ concat (map entry_bytes (Entries t))"
  by (simp add: tree_payload_def sortEntries_id Let_def)

section \<open>Properties\<close>

text \<open>
  C29: decoding the encoding of a tree gives back its entries, in canonical order, for
  every tree the program may store (valid kinds, names of at most 255 bytes, no two
  entries of the same kind and name).
\<close>

theorem tree_codec_roundtrip:
  assumes "\<forall>e \<in> set (Entries t). storable e" and "distinct (keys t)"
    and "\<not> makeslice_panics (length (Entries t))"
  shows "DecodeTree (obj_Payload (snd (Tree_Encode sha t))) = Inr \<lparr>Entries = sortEntries (Entries t)\<rparr>"
  using DecodeTree_tree_payload [OF assms] by (simp add: Tree_Encode_def Encode_def)

definition sample_tree :: Tree where
  "sample_tree = \<lparr>Entries = [\<lparr>te_Kind = EntryLeaf, te_Name = ''MX'', te_Hash = 7\<rparr>,
     \<lparr>te_Kind = EntryLeaf, te_Name = ''A'', te_Hash = 9\<rparr>, \<lparr>te_Kind = EntrySubtree, te_Name = ''www'', te_Hash = 3\<rparr>]\<rparr>"

theorem tree_codec_roundtrip_witness:
  "DecodeTree (obj_Payload (snd (Tree_Encode sample_sha sample_tree))) =
    Inr \<lparr>Entries = [\<lparr>te_Kind = EntrySubtree, te_Name = ''www'', te_Hash = 3\<rparr>,
     \<lparr>te_Kind = EntryLeaf, te_Name = ''A'', te_Hash = 9\<rparr>, \<lparr>te_Kind = EntryLeaf, te_Name = ''MX'', te_Hash = 7\<rparr>]\<rparr>"
proof -
  have "\<forall>e \<in> set (Entries sample_tree). storable e" and "distinct (keys sample_tree)"
    and "\<not> makeslice_panics (length (Entries sample_tree))"
    and "sortEntries (Entries sample_tree) = [\<lparr>te_Kind = EntrySubtree, te_Name = ''www'', te_Hash = 3\<rparr>,
     \<lparr>te_Kind = EntryLeaf, te_Name = ''A'', te_Hash = 9\<rparr>, \<lparr>te_Kind = EntryLeaf, te_Name = ''MX'', te_Hash = 7\<rparr>]"
    by code_simp+
  then show ?thesis by (simp add: tree_codec_roundtrip)
qed

text \<open>
  C30: The decoder accepts only sorted entries of valid kinds, and whatever it accepts is
  the encoding of the decoded tree except for the bytes of the entry count, which need
  not be written in the shortest way.
\<close>

theorem tree_decode_canonical:
  assumes "DecodeTree p = Inr t"
  shows "sorted (keys t) \<and> (\<forall>e \<in> set (Entries t). storable e) \<and>
    (\<exists>v. p = treeVersion # v @ concat (map entry_bytes (Entries t)) \<and>
      Uvarint (v @ concat (map entry_bytes (Entries t))) = (length (Entries t), int (length v)) \<and>
      (v = PutUvarint (length (Entries t)) \<longrightarrow> p = tree_payload t))"
proof -
  obtain n v where v: "Uvarint (v @ concat (map entry_bytes (Entries t))) = (length (Entries t), n)"
    "length v = nat n" "p = treeVersion # v @ concat (map entry_bytes (Entries t))"
    using DecodeTree_inv(4) [OF assms] by blast
  moreover have "n > 0"
    using assms v by (auto simp: DecodeTree_def split: if_splits)
  ultimately show ?thesis
    using DecodeTree_inv(1,2) [OF assms] tree_payload_canonical [of t]
    by (intro conjI exI [of _ v]) auto
qed

theorem tree_decode_canonical_witness:
  "\<exists>v. [1, 0x80, 0] = treeVersion # v \<and> Uvarint v = (0, int (length v))"
proof -
  have "DecodeTree [1, 0x80, 0] = Inr empty_tree" by code_simp
  from tree_decode_canonical [OF this] show ?thesis by auto
qed

text \<open>
  The lookup of an entry by binary search finds exactly the entry of that kind and
  name, in every tree whose entries are in canonical order.
\<close>

theorem tree_get_correct:
  assumes "canonical t"
  shows "(Get t k n = Some e \<longleftrightarrow> e \<in> set (Entries t) \<and> te_Kind e = k \<and> te_Name e = n) \<and>
    (Get t k n = None \<longleftrightarrow> (\<forall>e \<in> set (Entries t). \<not> (te_Kind e = k \<and> te_Name e = n)))"
  using Get_canonical [OF assms] Get_None [OF assms] by (auto simp: te_key_def image_iff)

theorem tree_get_correct_witness:
  "Get \<lparr>Entries = sortEntries (Entries sample_tree)\<rparr> EntryLeaf ''MX''
    = Some \<lparr>te_Kind = EntryLeaf, te_Name = ''MX'', te_Hash = 7\<rparr>"
proof -
  have "canonical \<lparr>Entries = sortEntries (Entries sample_tree)\<rparr>"
    and "\<lparr>te_Kind = EntryLeaf, te_Name = ''MX'', te_Hash = 7\<rparr> \<in> set (sortEntries (Entries sample_tree))"
    by code_simp+
  then show ?thesis
    by (simp add: tree_get_correct)
qed

text \<open>
  The entry count is trusted before the entries are read: a payload of eleven bytes with a
  huge count makes the decoder panic.
\<close>

lemma DecodeTree_count_panics:
  "DecodeTree [1, 0xFF, 0xFF, 0xFF, 0xFF, 0xFF, 0xFF, 0xFF, 0xFF, 0xFF, 1] = Inl GoPanic"
  by (simp add: DecodeTree_def Uvarint_def makeslice_panics_def)

lemma DecodeTree_count_not_minimal:
  "DecodeTree [1, 0x80, 0] = DecodeTree [1, 0] \<and> tree_payload empty_tree = [1, 0]"
  by code_simp

lemma DecodeTree_empty_name_duplicate:
  "\<exists>p t. DecodeTree p = Inr t \<and> \<not> distinct (keys t)"
proof (intro exI conjI)
  let ?t = "\<lparr>Entries = [\<lparr>te_Kind = EntryLeaf, te_Name = [], te_Hash = 1\<rparr>, \<lparr>te_Kind = EntryLeaf, te_Name = [], te_Hash = 2\<rparr>]\<rparr>"
  show "DecodeTree (tree_payload ?t) = Inr ?t" "\<not> distinct (keys ?t)" by code_simp+
qed

end
