(* ===== verification/TreeOps.thy ===== *)
theory TreeOps
  imports TreeCodec
begin

text \<open>
  pkg/object, treeops.go: loading and storing tree nodes, walking a path, enumerating
  the leaves, and the copy-on-write update of one leaf.

  The recursion of \<open>walkLeavesAt\<close> follows hashes through the store and has no bound of
  its own; it takes fuel, and \<^const>\<open>None\<close> is running out of it.  \<open>tree_ok n h\<close> says that the
  tree below \<open>h\<close> is completely present and at most \<open>n\<close> nodes deep; then fuel \<open>n\<close> is enough.
\<close>

section \<open>Loading and storing a node\<close>

definition LoadTree :: "'s Storage \<Rightarrow> (bytes \<Rightarrow> Hash) \<Rightarrow> 's \<Rightarrow> Hash \<Rightarrow> error + Tree" where
  "LoadTree S sha s h =
     (case GetObject S s h of
        Inl e \<Rightarrow> Inl e
      | Inr obj \<Rightarrow>
          if obj_Kind obj \<noteq> KindTree then Inl ErrInvalidObject
          else case Verify sha h obj of
            Inl e \<Rightarrow> Inl e
          | Inr _ \<Rightarrow> DecodeTree (obj_Payload obj))"

fun validate_entries :: "TreeEntry list \<Rightarrow> error + unit" where
  "validate_entries [] = Inr ()"
| "validate_entries (e # es) =
     (case validateEntry e of Inl er \<Rightarrow> Inl er | Inr _ \<Rightarrow> validate_entries es)"

definition PutTree :: "'s Storage \<Rightarrow> (bytes \<Rightarrow> Hash) \<Rightarrow> 's \<Rightarrow> Tree \<Rightarrow> 's \<times> (error + Hash)" where
  "PutTree S sha s t =
     (case validate_entries (Entries t) of
        Inl e \<Rightarrow> (s, Inl e)
      | Inr _ \<Rightarrow>
          (case Tree_Encode sha t of (h, obj) \<Rightarrow>
             (case PutObject S s h obj of
                (s', Inl e) \<Rightarrow> (s', Inl e)
              | (s', Inr _) \<Rightarrow> (s', Inr h))))"

section \<open>Walking a path\<close>

fun walk_labels :: "'s Storage \<Rightarrow> (bytes \<Rightarrow> Hash) \<Rightarrow> 's \<Rightarrow> Hash \<Rightarrow> string list \<Rightarrow> error + Hash" where
  "walk_labels S sha s cur [] = Inr cur"
| "walk_labels S sha s cur (label # path) =
     (case LoadTree S sha s cur of
        Inl e \<Rightarrow> Inl e
      | Inr t \<Rightarrow>
          (case Get t EntrySubtree label of
             None \<Rightarrow> Inl ErrNotFound
           | Some e \<Rightarrow> walk_labels S sha s (te_Hash e) path))"

definition WalkTree :: "'s Storage \<Rightarrow> (bytes \<Rightarrow> Hash) \<Rightarrow> 's \<Rightarrow> Hash \<Rightarrow> string list \<Rightarrow> string \<Rightarrow> error + Hash" where
  "WalkTree S sha s root path rrtype =
     (case walk_labels S sha s root path of
        Inl e \<Rightarrow> Inl e
      | Inr cur \<Rightarrow>
          (case LoadTree S sha s cur of
             Inl e \<Rightarrow> Inl e
           | Inr leafTree \<Rightarrow>
               (case Get leafTree EntryLeaf rrtype of
                  None \<Rightarrow> Inl ErrNotFound
                | Some e \<Rightarrow> Inr (te_Hash e))))"

fun node_exists_at :: "'s Storage \<Rightarrow> (bytes \<Rightarrow> Hash) \<Rightarrow> 's \<Rightarrow> Hash \<Rightarrow> string list \<Rightarrow> error + bool" where
  "node_exists_at S sha s cur [] = Inr True"
| "node_exists_at S sha s cur (label # path) =
     (case LoadTree S sha s cur of
        Inl e \<Rightarrow> Inl e
      | Inr t \<Rightarrow>
          (case Get t EntrySubtree label of
             None \<Rightarrow> Inr False
           | Some e \<Rightarrow> node_exists_at S sha s (te_Hash e) path))"

definition NodeExists :: "'s Storage \<Rightarrow> (bytes \<Rightarrow> Hash) \<Rightarrow> 's \<Rightarrow> Hash \<Rightarrow> string list \<Rightarrow> error + bool" where
  "NodeExists S sha s root path =
     (if IsZero root then Inr False else node_exists_at S sha s root path)"

section \<open>Enumerating the leaves\<close>

text \<open>The callback gets path, type and blob hash; its effects go through \<open>acc\<close>.\<close>

fun walkLeavesAt :: "'s Storage \<Rightarrow> (bytes \<Rightarrow> Hash) \<Rightarrow> 's \<Rightarrow> nat \<Rightarrow> string list \<Rightarrow> Hash \<Rightarrow>
    (string list \<Rightarrow> string \<Rightarrow> Hash \<Rightarrow> 'a \<Rightarrow> 'a \<times> (error + unit)) \<Rightarrow> 'a \<Rightarrow> ('a \<times> (error + unit)) option"
  and walk_entries :: "'s Storage \<Rightarrow> (bytes \<Rightarrow> Hash) \<Rightarrow> 's \<Rightarrow> nat \<Rightarrow> string list \<Rightarrow> TreeEntry list \<Rightarrow>
    (string list \<Rightarrow> string \<Rightarrow> Hash \<Rightarrow> 'a \<Rightarrow> 'a \<times> (error + unit)) \<Rightarrow> 'a \<Rightarrow> ('a \<times> (error + unit)) option" where
  "walkLeavesAt S sha s 0 path h fn acc = None"
| "walkLeavesAt S sha s (Suc n) path h fn acc =
     (case LoadTree S sha s h of
        Inl e \<Rightarrow> Some (acc, Inl e)
      | Inr t \<Rightarrow> walk_entries S sha s n path (Entries t) fn acc)"
| "walk_entries S sha s n path [] fn acc = Some (acc, Inr ())"
| "walk_entries S sha s n path (e # es) fn acc =
     (if te_Kind e = EntryLeaf then
        (case fn path (te_Name e) (te_Hash e) acc of
           (acc', Inl er) \<Rightarrow> Some (acc', Inl er)
         | (acc', Inr _) \<Rightarrow> walk_entries S sha s n path es fn acc')
      else if te_Kind e = EntrySubtree then
        (case walkLeavesAt S sha s n (path @ [te_Name e]) (te_Hash e) fn acc of
           None \<Rightarrow> None
         | Some (acc', Inl er) \<Rightarrow> Some (acc', Inl er)
         | Some (acc', Inr _) \<Rightarrow> walk_entries S sha s n path es fn acc')
      else walk_entries S sha s n path es fn acc)"

definition WalkAllLeaves :: "'s Storage \<Rightarrow> (bytes \<Rightarrow> Hash) \<Rightarrow> 's \<Rightarrow> nat \<Rightarrow> Hash \<Rightarrow>
    (string list \<Rightarrow> string \<Rightarrow> Hash \<Rightarrow> 'a \<Rightarrow> 'a \<times> (error + unit)) \<Rightarrow> 'a \<Rightarrow> ('a \<times> (error + unit)) option" where
  "WalkAllLeaves S sha s fuel root fn acc =
     (if IsZero root then Some (acc, Inr ()) else walkLeavesAt S sha s fuel [] root fn acc)"

section \<open>The copy-on-write update\<close>

fun set_entry_loop :: "EntryKind \<Rightarrow> string \<Rightarrow> Hash \<Rightarrow> TreeEntry list \<Rightarrow> TreeEntry list \<Rightarrow> bool \<Rightarrow>
    TreeEntry list \<times> bool" where
  "set_entry_loop kind name hash [] out replaced = (out, replaced)"
| "set_entry_loop kind name hash (e # es) out replaced =
     (if te_Kind e = kind \<and> te_Name e = name then
        set_entry_loop kind name hash es
          (if \<not> IsZero hash then out @ [\<lparr>te_Kind = kind, te_Name = name, te_Hash = hash\<rparr>] else out) True
      else set_entry_loop kind name hash es (out @ [e]) replaced)"

definition setEntry :: "Tree \<Rightarrow> EntryKind \<Rightarrow> string \<Rightarrow> Hash \<Rightarrow> Tree" where
  "setEntry t kind name hash =
     (case set_entry_loop kind name hash (Entries t) [] False of (out, replaced) \<Rightarrow>
        \<lparr>Entries = sortEntries
          (if \<not> replaced \<and> \<not> IsZero hash
           then out @ [\<lparr>te_Kind = kind, te_Name = name, te_Hash = hash\<rparr>] else out)\<rparr>)"

definition setLeaf :: "Tree \<Rightarrow> string \<Rightarrow> Hash \<Rightarrow> Tree" where
  "setLeaf t rrtype hash = setEntry t EntryLeaf rrtype hash"

definition setSubtree :: "Tree \<Rightarrow> string \<Rightarrow> Hash \<Rightarrow> Tree" where
  "setSubtree t label hash = setEntry t EntrySubtree label hash"

text \<open>The nodes below \<open>parent\<close> along the path; a missing label gives an empty node.\<close>

fun load_chain :: "'s Storage \<Rightarrow> (bytes \<Rightarrow> Hash) \<Rightarrow> 's \<Rightarrow> Tree \<Rightarrow> string list \<Rightarrow> error + Tree list" where
  "load_chain S sha s parent [] = Inr []"
| "load_chain S sha s parent (label # path) =
     (case (case Get parent EntrySubtree label of
              Some e \<Rightarrow> LoadTree S sha s (te_Hash e)
            | None \<Rightarrow> Inr empty_tree) of
        Inl e \<Rightarrow> Inl e
      | Inr child \<Rightarrow>
          (case load_chain S sha s child path of
             Inl e \<Rightarrow> Inl e
           | Inr chain \<Rightarrow> Inr (child # chain)))"

text \<open>
  The way back up, from the deepest node: \<open>t\<close> is the current node, \<open>parents\<close> and
  \<open>labels\<close> lead from it to the root.  A node that became empty is dropped from its
  parent instead of being written, but the root is always written.
\<close>

fun write_back :: "'s Storage \<Rightarrow> (bytes \<Rightarrow> Hash) \<Rightarrow> 's \<Rightarrow> Tree \<Rightarrow> Tree list \<Rightarrow> string list \<Rightarrow>
    's \<times> (error + Hash)" where
  "write_back S sha s t [] labels = PutTree S sha s t"
| "write_back S sha s t (parent # parents) [] = (s, Inl GoPanic)"
| "write_back S sha s t (parent # parents) (label # labels) =
     (if Entries t = [] then
        write_back S sha s (setSubtree parent label ZeroHash) parents labels
      else case PutTree S sha s t of
        (s', Inl e) \<Rightarrow> (s', Inl e)
      | (s', Inr h) \<Rightarrow> write_back S sha s' (setSubtree parent label h) parents labels)"

definition UpdateTree :: "'s Storage \<Rightarrow> (bytes \<Rightarrow> Hash) \<Rightarrow> 's \<Rightarrow> Hash \<Rightarrow> string list \<Rightarrow> string \<Rightarrow> Hash \<Rightarrow>
    's \<times> (error + Hash)" where
  "UpdateTree S sha s root path rrtype leafHash =
     (case (if IsZero root then Inr empty_tree else LoadTree S sha s root) of
        Inl e \<Rightarrow> (s, Inl e)
      | Inr t \<Rightarrow>
          (case load_chain S sha s t path of
             Inl e \<Rightarrow> (s, Inl e)
           | Inr chain \<Rightarrow>
               let nodes = rev (t # chain) in
               write_back S sha s (setLeaf (hd nodes) rrtype leafHash) (tl nodes) (rev path)))"

section \<open>The contents of a tree\<close>

text \<open>
  The abstraction of a tree is the finite map from (path, type) to the blob hash that the
  lookups of the program observe.
\<close>

type_synonym zone_map = "string list \<Rightarrow> string \<Rightarrow> Hash option"

definition lookup :: "'s Storage \<Rightarrow> (bytes \<Rightarrow> Hash) \<Rightarrow> 's \<Rightarrow> Hash \<Rightarrow> zone_map" where
  "lookup S sha s root path rrtype =
     (case WalkTree S sha s root path rrtype of Inl _ \<Rightarrow> None | Inr h \<Rightarrow> Some h)"

definition node_lookup :: "'s Storage \<Rightarrow> (bytes \<Rightarrow> Hash) \<Rightarrow> 's \<Rightarrow> Tree \<Rightarrow> zone_map" where
  "node_lookup S sha s t path rrtype =
     (case path of
        [] \<Rightarrow> map_option te_Hash (Get t EntryLeaf rrtype)
      | label # q \<Rightarrow>
          (case Get t EntrySubtree label of
             None \<Rightarrow> None
           | Some e \<Rightarrow> lookup S sha s (te_Hash e) q rrtype))"

definition zone_update :: "zone_map \<Rightarrow> string list \<Rightarrow> string \<Rightarrow> Hash \<Rightarrow> zone_map" where
  "zone_update m path rrtype h =
     (\<lambda>p t. if p = path \<and> t = rrtype then (if h = ZeroHash then None else Some h) else m p t)"

fun tree_ok :: "'s Storage \<Rightarrow> (bytes \<Rightarrow> Hash) \<Rightarrow> 's \<Rightarrow> nat \<Rightarrow> Hash \<Rightarrow> bool" where
  "tree_ok S sha s 0 h = False"
| "tree_ok S sha s (Suc n) h =
     (case LoadTree S sha s h of
        Inl _ \<Rightarrow> False
      | Inr t \<Rightarrow> list_all (\<lambda>e. te_Name e \<noteq> [] \<and> te_Hash e \<noteq> ZeroHash \<and>
          (te_Kind e = EntrySubtree \<longrightarrow> tree_ok S sha s n (te_Hash e))) (Entries t))"

text \<open>
  What the hash function has to deliver: no two objects ever written share a hash, none
  has the zero hash, and payloads fit in memory.
\<close>

definition healthy :: "(Hash \<times> Object) set \<Rightarrow> bool" where
  "healthy H \<longleftrightarrow> single_valued H \<and> ZeroHash \<notin> Domain H \<and>
     (\<forall>(h, obj) \<in> H. length (obj_Payload obj) < 2 ^ 47)"

lemma healthy_code [code]:
  "healthy (set xs) \<longleftrightarrow>
    list_all (\<lambda>(h, obj). h \<noteq> ZeroHash \<and> int (length (obj_Payload obj)) < 2 ^ 47 \<and>
      list_all (\<lambda>(h', obj'). h' = h \<longrightarrow> obj' = obj) xs) xs"
  unfolding healthy_def single_valued_def list_all_iff
  by (auto simp: Domain_iff)

lemma healthy_subset: "healthy H \<Longrightarrow> G \<subseteq> H \<Longrightarrow> healthy G"
  unfolding healthy_def single_valued_def by blast

section \<open>Setting an entry\<close>

lemma set_entry_loop_spec:
  "set_entry_loop k n h es out r =
    (out @ concat (map (\<lambda>e. if te_key e = (k, n)
       then (if h = 0 then [] else [\<lparr>te_Kind = k, te_Name = n, te_Hash = h\<rparr>]) else [e]) es),
     r \<or> (k, n) \<in> te_key ` set es)"
  by (induction es arbitrary: out r) (auto simp: te_key_def)

lemma Entries_setEntry:
  "set (Entries (setEntry t k n h)) =
    {e \<in> set (Entries t). te_key e \<noteq> (k, n)}
      \<union> (if h = 0 then {} else {\<lparr>te_Kind = k, te_Name = n, te_Hash = h\<rparr>})"
  by (auto simp: setEntry_def set_entry_loop_spec split: if_splits)

lemma concat_map_keys:
  assumes "distinct (map te_key es)"
  shows "distinct (map te_key (concat (map (\<lambda>e. if te_key e = (k, n)
       then (if h = 0 then [] else [\<lparr>te_Kind = k, te_Name = n, te_Hash = h\<rparr>]) else [e]) es)))"
  using assms by (induction es) (auto simp: te_key_def split: if_splits)

lemma canonical_setEntry:
  assumes "canonical t"
  shows "canonical (setEntry t k n h)"
proof -
  have d: "distinct (map te_key (Entries t))"
    using assms by (simp add: canonical_def strict_sorted_iff)
  have "distinct (map te_key (if (k, n) \<notin> te_key ` set (Entries t) \<and> h \<noteq> 0
      then concat (map (\<lambda>e. if te_key e = (k, n)
       then (if h = 0 then [] else [\<lparr>te_Kind = k, te_Name = n, te_Hash = h\<rparr>]) else [e]) (Entries t))
         @ [\<lparr>te_Kind = k, te_Name = n, te_Hash = h\<rparr>]
      else concat (map (\<lambda>e. if te_key e = (k, n)
       then (if h = 0 then [] else [\<lparr>te_Kind = k, te_Name = n, te_Hash = h\<rparr>]) else [e]) (Entries t))))"
    using concat_map_keys [OF d, of k n h] by (auto simp: te_key_def split: if_splits)
  then show ?thesis
    unfolding canonical_def setEntry_def set_entry_loop_spec
    by (simp add: sortEntries_strict)
qed

lemma option_eqI: "(\<And>x. a = Some x \<longleftrightarrow> b = Some x) \<Longrightarrow> a = b"
  by (metis not_None_eq)

lemma Get_setEntry:
  assumes "canonical t"
  shows "Get (setEntry t k n h) k' n' =
    (if k' = k \<and> n' = n
     then (if h = 0 then None else Some \<lparr>te_Kind = k, te_Name = n, te_Hash = h\<rparr>)
     else Get t k' n')"
  by (rule option_eqI)
    (auto simp: Get_canonical [OF canonical_setEntry [OF assms]] Get_canonical [OF assms]
      Entries_setEntry te_key_def)

lemma canonical_empty [simp]: "canonical empty_tree"
  by (simp add: canonical_def)

lemma Get_empty [simp]: "Get empty_tree k n = None"
  by (simp add: Get_None)

lemma node_lookup_setLeaf:
  "canonical t \<Longrightarrow> node_lookup S sha s (setLeaf t rt h) = zone_update (node_lookup S sha s t) [] rt h"
  by (intro ext) (auto simp: node_lookup_def setLeaf_def Get_setEntry zone_update_def split: list.splits)

lemma validate_entries_iff:
  "validate_entries es = Inr () \<longleftrightarrow> (\<forall>e \<in> set es. storable e \<and> te_Name e \<noteq> [])"
  by (induction es) (auto simp: validateEntry_iff [symmetric] split: sum.splits)

section \<open>Nodes and trees that are complete in a store\<close>

definition node_ok :: "'s Storage \<Rightarrow> (bytes \<Rightarrow> Hash) \<Rightarrow> 's \<Rightarrow> nat \<Rightarrow> Tree \<Rightarrow> bool" where
  "node_ok S sha s n t \<longleftrightarrow> canonical t \<and>
     (\<forall>e \<in> set (Entries t). te_Name e \<noteq> [] \<and> te_Hash e \<noteq> ZeroHash \<and>
       (te_Kind e = EntrySubtree \<longrightarrow> tree_ok S sha s n (te_Hash e)))"

lemma LoadTree_DecodeTree:
  "LoadTree S sha s h = Inr t \<Longrightarrow> \<exists>obj. GetObject S s h = Inr obj \<and> DecodeTree (obj_Payload obj) = Inr t
    \<and> obj_Kind obj = KindTree \<and> obj_hash sha obj = h"
  by (auto simp: LoadTree_def Verify_ok_iff split: sum.splits if_splits)

lemma LoadTree_canonical:
  assumes "LoadTree S sha s h = Inr t" and "\<forall>e \<in> set (Entries t). te_Name e \<noteq> []"
  shows "canonical t"
proof -
  obtain obj :: Object where "DecodeTree (obj_Payload obj) = Inr t"
    using LoadTree_DecodeTree [OF assms(1)] by blast
  note inv = DecodeTree_inv [OF this]
  show ?thesis
    using firstDuplicate_distinct [OF inv(3) assms(2) inv(1)] by (simp add: canonical_def)
qed

lemma tree_ok_Suc:
  "tree_ok S sha s (Suc n) h \<longleftrightarrow> (\<exists>t. LoadTree S sha s h = Inr t \<and> node_ok S sha s n t)"
  using LoadTree_canonical [of S sha s h]
  by (auto simp: node_ok_def list_all_iff split: sum.splits)

declare tree_ok.simps(2) [simp del]

lemma tree_ok_mono: "tree_ok S sha s n h \<Longrightarrow> n \<le> m \<Longrightarrow> tree_ok S sha s m h"
proof (induction n arbitrary: m h)
  case (Suc n)
  then obtain m' where m: "m = Suc m'" "n \<le> m'" by (cases m) auto
  with Suc show ?case
    by (auto simp: tree_ok_Suc node_ok_def)
qed simp

lemma node_ok_mono: "node_ok S sha s n t \<Longrightarrow> n \<le> m \<Longrightarrow> node_ok S sha s m t"
  by (auto simp: node_ok_def intro: tree_ok_mono)

lemma node_ok_canonical: "node_ok S sha s n t \<Longrightarrow> canonical t"
  by (simp add: node_ok_def)

lemma node_ok_empty [simp]: "node_ok S sha s n empty_tree"
  by (simp add: node_ok_def)

lemma node_ok_Get:
  "node_ok S sha s n t \<Longrightarrow> Get t EntrySubtree l = Some e \<Longrightarrow>
    tree_ok S sha s n (te_Hash e) \<and> te_Hash e \<noteq> ZeroHash"
  by (auto simp: node_ok_def Get_canonical te_key_def)

lemma node_ok_setEntry:
  assumes "node_ok S sha s n t" and "k = EntrySubtree \<Longrightarrow> h \<noteq> 0 \<Longrightarrow> tree_ok S sha s n h" and "h \<noteq> 0 \<Longrightarrow> name \<noteq> []"
  shows "node_ok S sha s n (setEntry t k name h)"
  using assms by (auto simp: node_ok_def canonical_setEntry Entries_setEntry split: if_splits)

section \<open>The size of an encoded node\<close>

lemma length_entry_bytes: "34 \<le> length (entry_bytes e)"
  by (simp add: entry_bytes_def)

lemma length_concat_entries: "34 * length es \<le> length (concat (map entry_bytes es))"
proof (induction es)
  case (Cons e es)
  then show ?case using length_entry_bytes [of e] by simp
qed simp

lemma payload_no_panic:
  assumes "length (tree_payload t) < 2 ^ 47"
  shows "\<not> makeslice_panics (length (Entries t))"
proof -
  have "34 * length (Entries t) \<le> length (tree_payload t)"
    using length_concat_entries [of "sortEntries (Entries t)"] by (simp add: tree_payload_def Let_def)
  then show ?thesis
    using assms by (simp add: makeslice_panics_def)
qed

section \<open>Lookups\<close>

lemma lookup_node: "LoadTree S sha s h = Inr t \<Longrightarrow> lookup S sha s h = node_lookup S sha s t"
proof (intro ext)
  fix p rt
  assume "LoadTree S sha s h = Inr t"
  then show "lookup S sha s h p rt = node_lookup S sha s t p rt"
    by (cases p) (auto simp: lookup_def WalkTree_def node_lookup_def split: option.splits)
qed

definition graft :: "zone_map \<Rightarrow> string \<Rightarrow> zone_map \<Rightarrow> zone_map" where
  "graft m l c = (\<lambda>q rt. case q of [] \<Rightarrow> m [] rt | x # q' \<Rightarrow> if x = l then c q' rt else m q rt)"

fun plug :: "'s Storage \<Rightarrow> (bytes \<Rightarrow> Hash) \<Rightarrow> 's \<Rightarrow> zone_map \<Rightarrow> (Tree \<times> string) list \<Rightarrow> zone_map" where
  "plug S sha s m [] = m"
| "plug S sha s m ((p, l) # ps) = plug S sha s (graft (node_lookup S sha s p) l m) ps"

lemma plug_append: "plug S sha s m (xs @ ys) = plug S sha s (plug S sha s m xs) ys"
  by (induction xs arbitrary: m) auto

lemma node_lookup_setSubtree:
  "canonical t \<Longrightarrow> node_lookup S sha s (setSubtree t l h) =
    graft (node_lookup S sha s t) l (if h = 0 then (\<lambda>_ _. None) else lookup S sha s h)"
  by (intro ext)
    (auto simp: node_lookup_def setSubtree_def Get_setEntry graft_def split: list.splits)

lemma node_lookup_empty: "Entries t = [] \<Longrightarrow> node_lookup S sha s t = (\<lambda>_ _. None)"
  by (cases t) (auto simp: node_lookup_def fun_eq_iff split: list.splits)

lemma graft_zone_update:
  "graft m l (zone_update c path rt h) = zone_update (graft m l c) (l # path) rt h"
  by (auto simp: graft_def zone_update_def fun_eq_iff split: list.splits)

lemma load_chain_plug:
  assumes "load_chain S sha s t path = Inr ch" and "node_ok S sha s n t"
  shows "length ch = length path \<and> (\<forall>p \<in> set ch. node_ok S sha s n p)
    \<and> plug S sha s (zone_update (node_lookup S sha s (last (t # ch))) [] rt h)
        (zip (tl (rev (t # ch))) (rev path))
      = zone_update (node_lookup S sha s t) path rt h"
  using assms
proof (induction path arbitrary: t ch)
  case (Cons l path)
  from Cons.prems(1) obtain child ch' where ch: "ch = child # ch'"
    and rec: "load_chain S sha s child path = Inr ch'"
    and child: "(case Get t EntrySubtree l of Some e \<Rightarrow> LoadTree S sha s (te_Hash e)
      | None \<Rightarrow> Inr empty_tree) = Inr child"
    by (auto split: sum.splits)
  have ok: "node_ok S sha s n child \<and> graft (node_lookup S sha s t) l (node_lookup S sha s child) = node_lookup S sha s t"
  proof (cases "Get t EntrySubtree l")
    case None
    with child have "child = empty_tree" by simp
    with None show ?thesis
      by (auto simp: graft_def node_lookup_empty node_lookup_def fun_eq_iff split: list.splits)
  next
    case (Some e)
    with child have load: "LoadTree S sha s (te_Hash e) = Inr child" by simp
    moreover have "tree_ok S sha s n (te_Hash e)"
      using node_ok_Get [OF Cons.prems(2) Some] by simp
    ultimately have "node_ok S sha s n child"
      by (cases n) (auto simp: tree_ok_Suc intro: node_ok_mono)
    moreover have "node_lookup S sha s t (l # q) = node_lookup S sha s child q" for q
      using Some lookup_node [OF load] by (simp add: node_lookup_def fun_eq_iff)
    ultimately show ?thesis
      by (auto simp: graft_def fun_eq_iff split: list.splits)
  qed
  note IH = Cons.IH [OF rec conjunct1 [OF ok]]
  have "tl (rev (t # ch)) = tl (rev (child # ch')) @ [t]" by (cases "rev ch'") (auto simp: ch)
  moreover have "zip (tl (rev (child # ch')) @ [t]) (rev (l # path))
      = zip (tl (rev (child # ch'))) (rev path) @ [(t, l)]"
    using IH by (simp add: zip_append)
  ultimately show ?case
    using IH ok by (simp add: ch plug_append graft_zone_update)
qed simp

end
