(* ===== verification/TreeUpdate.thy ===== *)
theory TreeUpdate
  imports TreeOps Memstore
begin

text \<open>
  The copy-on-write update of pkg/object/treeops.go over any store that keeps the
  contract of \<open>object_store\<close>: trees stay readable as objects are added, \<open>PutTree\<close> followed
  by \<open>LoadTree\<close> is the identity, and \<open>UpdateTree\<close> changes exactly one (path, type) of the
  contents of a tree.  It writes one object per node of the path at most, and it
  returns a root for every storable edit.
\<close>

section \<open>Trees in a growing store\<close>

context object_store
begin

lemma LoadTree_stable:
  assumes "LoadTree S sha s h = Inr t" and "hist s \<subseteq> hist s'" and "single_valued (hist s')"
  shows "LoadTree S sha s' h = Inr t"
proof -
  obtain obj where "GetObject S s h = Inr obj"
    using LoadTree_DecodeTree [OF assms(1)] by blast
  moreover from this have "GetObject S s' h = Inr obj"
    using assms by (blast intro: get_stable)
  ultimately show ?thesis
    using assms(1) by (simp add: LoadTree_def)
qed

lemma tree_ok_stable:
  "tree_ok S sha s n h \<Longrightarrow> hist s \<subseteq> hist s' \<Longrightarrow> single_valued (hist s') \<Longrightarrow> tree_ok S sha s' n h"
  by (induction n arbitrary: h) (auto simp: tree_ok_Suc node_ok_def dest: LoadTree_stable)

lemma node_ok_stable:
  "node_ok S sha s n t \<Longrightarrow> hist s \<subseteq> hist s' \<Longrightarrow> single_valued (hist s') \<Longrightarrow> node_ok S sha s' n t"
  by (auto simp: node_ok_def intro: tree_ok_stable)

lemma lookup_stable:
  "tree_ok S sha s n h \<Longrightarrow> hist s \<subseteq> hist s' \<Longrightarrow> single_valued (hist s') \<Longrightarrow>
    lookup S sha s' h p rt = lookup S sha s h p rt"
proof (induction n arbitrary: h p)
  case (Suc n)
  from Suc.prems(1) obtain t where t: "LoadTree S sha s h = Inr t" "node_ok S sha s n t"
    by (auto simp: tree_ok_Suc)
  with Suc.prems have t': "LoadTree S sha s' h = Inr t" by (blast intro: LoadTree_stable)
  show ?case
    unfolding lookup_node [OF t(1)] lookup_node [OF t']
    using Suc.IH Suc.prems(2,3) node_ok_Get [OF t(2)]
    by (auto simp: node_lookup_def split: list.splits option.splits)
qed simp

lemma node_lookup_stable:
  assumes "node_ok S sha s n t" and "hist s \<subseteq> hist s'" and "single_valued (hist s')"
  shows "node_lookup S sha s' t = node_lookup S sha s t"
proof (intro ext)
  fix p rt
  show "node_lookup S sha s' t p rt = node_lookup S sha s t p rt"
    using lookup_stable [OF _ assms(2,3)] node_ok_Get [OF assms(1)]
    by (fastforce simp: node_lookup_def split: list.splits option.splits)
qed

lemma PutTree_ok:
  assumes "PutTree S sha s t = (s', Inr h)"
  shows "(h, \<lparr>obj_Kind = KindTree, obj_Payload = tree_payload t\<rparr>) = Tree_Encode sha t"
    and "hist s' = insert (h, \<lparr>obj_Kind = KindTree, obj_Payload = tree_payload t\<rparr>) (hist s)"
    and "\<forall>e \<in> set (Entries t). storable e \<and> te_Name e \<noteq> []"
  using assms put_ok
  by (auto simp: PutTree_def Tree_Encode_def Encode_def validate_entries_iff split: sum.splits prod.splits)

lemma PutTree_fail: "PutTree S sha s t = (s', Inl e) \<Longrightarrow> hist s' = hist s"
  using put_fail by (auto simp: PutTree_def split: sum.splits prod.splits)

lemma PutTree_mono: "hist s \<subseteq> hist (fst (PutTree S sha s t))"
proof (cases "PutTree S sha s t")
  case (Pair s' r)
  then show ?thesis by (cases r) (auto dest: PutTree_ok(2) PutTree_fail)
qed

lemma LoadTree_PutTree:
  assumes put: "PutTree S sha s t = (s', Inr h)" and "canonical t"
    and sub: "hist s' \<subseteq> hist s''" and "healthy (hist s'')"
  shows "LoadTree S sha s'' h = Inr t" and "h \<noteq> ZeroHash"
proof -
  let ?obj = "\<lparr>obj_Kind = KindTree, obj_Payload = tree_payload t\<rparr>"
  have mem: "(h, ?obj) \<in> hist s''"
    using PutTree_ok(2) [OF put] sub by auto
  then show "h \<noteq> ZeroHash"
    using assms(4) by (auto simp: healthy_def)
  have "length (tree_payload t) < 2 ^ 47"
    using mem assms(4) by (auto simp: healthy_def)
  then have "DecodeTree (tree_payload t) = Inr \<lparr>Entries = sortEntries (Entries t)\<rparr>"
    using PutTree_ok(3) [OF put] assms(2)
    by (intro DecodeTree_tree_payload payload_no_panic) (auto simp: canonical_def strict_sorted_iff)
  moreover have "sortEntries (Entries t) = Entries t"
    using assms(2) by (simp add: canonical_def strict_sorted_iff sortEntries_id)
  moreover have "Verify sha h ?obj = Inr ()"
    using PutTree_ok(1) [OF put] Verify_Encode [of KindTree h ?obj sha "tree_payload t"]
    by (simp add: Tree_Encode_def Kind_IsValid_def)
  moreover have "GetObject S s'' h = Inr ?obj"
    using mem assms(4) by (intro get_present) (simp_all add: healthy_def)
  ultimately show "LoadTree S sha s'' h = Inr t"
    by (simp add: LoadTree_def)
qed

lemma write_back_mono: "hist s \<subseteq> hist (fst (write_back S sha s t ps ls))"
proof (induction ps arbitrary: s t ls)
  case Nil
  show ?case by (simp add: PutTree_mono)
next
  case (Cons p ps)
  show ?case
  proof (cases ls)
    case (Cons l ls')
    obtain s1 r where put: "PutTree S sha s t = (s1, r)" by (cases "PutTree S sha s t")
    then have "hist s \<subseteq> hist s1" using PutTree_mono [of s sha t] by simp
    with Cons.IH Cons put show ?thesis
      by (cases r) (simp_all, meson order_trans)
  qed simp
qed

lemma write_back_spec:
  assumes "write_back S sha s t ps ls = (s', Inr r)" and "length ls = length ps"
    and "node_ok S sha s n t" and "\<forall>p \<in> set ps. node_ok S sha s n p"
    and "\<forall>l \<in> set ls. l \<noteq> []" and "healthy (hist s')"
  shows "tree_ok S sha s' (Suc (n + length ps)) r \<and> r \<noteq> ZeroHash \<and>
    lookup S sha s' r = plug S sha s (node_lookup S sha s t) (zip ps ls)"
  using assms
proof (induction ps arbitrary: s t ls n)
  case Nil
  then have put: "PutTree S sha s t = (s', Inr r)" by simp
  have mono: "hist s \<subseteq> hist s'" and sv: "single_valued (hist s')"
    using PutTree_mono [of s sha t] put Nil.prems(6) by (simp_all add: healthy_def)
  have "LoadTree S sha s' r = Inr t" "r \<noteq> 0"
    using LoadTree_PutTree [OF put node_ok_canonical [OF Nil.prems(3)] subset_refl Nil.prems(6)] by auto
  with Nil.prems(3) mono sv show ?case
    by (auto simp: tree_ok_Suc lookup_node node_lookup_stable intro: node_ok_stable)
next
  case (Cons p ps)
  then obtain l ls' where ls: "ls = l # ls'" by (cases ls) auto
  have sv: "single_valued (hist s')" using Cons.prems(6) by (simp add: healthy_def)
  have p: "node_ok S sha s n p" "canonical p" and l: "l \<noteq> []"
    using Cons.prems(4,5) by (auto simp: ls node_ok_def)
  show ?case
  proof (cases "Entries t = []")
    case True
    have "node_ok S sha s n (setSubtree p l 0)"
      using p by (auto simp: setSubtree_def intro: node_ok_setEntry)
    moreover have "write_back S sha s (setSubtree p l 0) ps ls' = (s', Inr r)"
      using Cons.prems(1) True by (simp add: ls)
    ultimately have "tree_ok S sha s' (Suc (n + length ps)) r \<and> r \<noteq> 0 \<and>
        lookup S sha s' r = plug S sha s (node_lookup S sha s (setSubtree p l 0)) (zip ps ls')"
      using Cons.prems by (intro Cons.IH) (auto simp: ls)
    then show ?thesis
      using True p by (auto simp: ls node_lookup_setSubtree node_lookup_empty elim: tree_ok_mono)
  next
    case False
    then obtain s1 h where put: "PutTree S sha s t = (s1, Inr h)"
      and wb: "write_back S sha s1 (setSubtree p l h) ps ls' = (s', Inr r)"
      using Cons.prems(1) by (auto simp: ls split: prod.splits sum.splits)
    have m1: "hist s1 \<subseteq> hist s'" using write_back_mono [of s1 sha "setSubtree p l h" ps ls'] wb by simp
    have m0: "hist s \<subseteq> hist s1" using PutTree_mono [of s sha t] put by simp
    have sv1: "single_valued (hist s1)" by (rule single_valued_subset [OF m1 sv])
    have hl1: "healthy (hist s1)" using Cons.prems(6) m1 sv1 by (auto simp: healthy_def)
    note load = LoadTree_PutTree [OF put node_ok_canonical [OF Cons.prems(3)] subset_refl hl1]
    have up: "node_ok S sha s1 (Suc n) q" if "node_ok S sha s n q" for q
      using that m0 sv1 by (blast intro: node_ok_mono node_ok_stable le_SucI order_refl)
    have h: "tree_ok S sha s1 (Suc n) h"
      using load(1) Cons.prems(3) m0 sv1 by (auto simp: tree_ok_Suc intro: node_ok_stable)
    have "node_ok S sha s1 (Suc n) (setSubtree p l h)"
      unfolding setSubtree_def using up [OF p(1)] h l by (intro node_ok_setEntry) auto
    then have IH: "tree_ok S sha s' (Suc (Suc n + length ps)) r \<and> r \<noteq> 0 \<and>
        lookup S sha s' r = plug S sha s1 (node_lookup S sha s1 (setSubtree p l h)) (zip ps ls')"
      using wb Cons.prems up by (intro Cons.IH) (auto simp: ls)
    have look: "node_lookup S sha s1 (setSubtree p l h) = graft (node_lookup S sha s p) l (node_lookup S sha s t)"
      using load p(2) node_lookup_stable [OF p(1) m0 sv1] node_lookup_stable [OF Cons.prems(3) m0 sv1]
      by (simp add: node_lookup_setSubtree lookup_node)
    have "plug S sha s1 m qs = plug S sha s m qs" if "\<forall>(q, _) \<in> set qs. node_ok S sha s n q" for m qs
      using that node_lookup_stable [OF _ m0 sv1]
      by (induction qs arbitrary: m) auto
    moreover have "\<forall>(q, _) \<in> set (zip ps ls'). node_ok S sha s n q"
      using Cons.prems(4) by (auto dest: set_zip_leftD)
    ultimately show ?thesis
      using IH look by (simp add: ls)
  qed
qed

lemma UpdateTree_mono: "hist s \<subseteq> hist (fst (UpdateTree S sha s root path rt h))"
  using write_back_mono by (auto simp: UpdateTree_def Let_def split: sum.splits)

lemma UpdateTree_spec:
  assumes upd: "UpdateTree S sha s root path rt h = (s', Inr root')"
    and "root = ZeroHash \<or> tree_ok S sha s (Suc n) root" and "rt \<noteq> []" and "\<forall>l \<in> set path. l \<noteq> []"
    and "healthy (hist s')" and zero: "ZeroHash \<notin> Domain (hist s)"
  shows "tree_ok S sha s' (Suc (n + length path)) root' \<and> root' \<noteq> ZeroHash \<and>
    lookup S sha s' root' = zone_update (lookup S sha s root) path rt h"
proof -
  from upd obtain t ch where t: "(if root = 0 then Inr empty_tree else LoadTree S sha s root) = Inr t"
    and ch: "load_chain S sha s t path = Inr ch"
    and wb: "write_back S sha s (setLeaf (hd (rev (t # ch))) rt h) (tl (rev (t # ch))) (rev path) = (s', Inr root')"
    by (auto simp: UpdateTree_def Let_def split: sum.splits if_splits)
  have t_ok: "node_ok S sha s n t \<and> node_lookup S sha s t = lookup S sha s root"
  proof (cases "root = 0")
    case True
    have "GetObject S s 0 = Inl ErrNotFound"
      using zero by (rule get_absent)
    then have "LoadTree S sha s 0 = Inl ErrNotFound" by (simp add: LoadTree_def)
    then have "lookup S sha s 0 p rt = None" for p rt
      by (cases p) (simp_all add: lookup_def WalkTree_def)
    with True t show ?thesis by (auto simp: node_lookup_empty fun_eq_iff)
  next
    case False
    with assms(2) t show ?thesis
      by (auto simp: tree_ok_Suc lookup_node)
  qed
  note plug = load_chain_plug [OF ch conjunct1 [OF t_ok], of rt h]
  have last: "hd (rev (t # ch)) = last (t # ch)"
    by (simp add: hd_rev)
  have sub: "set (tl (rev (t # ch))) \<subseteq> set (t # ch)"
    by (metis list.set_sel(2) set_rev subsetI tl_Nil)
  have leaf: "node_ok S sha s n (last (t # ch))"
    using t_ok plug by (metis last_in_set list.distinct(1) set_ConsD)
  have "tree_ok S sha s' (Suc (n + length (tl (rev (t # ch))))) root' \<and> root' \<noteq> 0 \<and>
    lookup S sha s' root' = plug S sha s (node_lookup S sha s (setLeaf (hd (rev (t # ch))) rt h))
      (zip (tl (rev (t # ch))) (rev path))"
    using wb
  proof (rule write_back_spec)
    show "length (rev path) = length (tl (rev (t # ch)))" using plug by simp
    show "node_ok S sha s n (setLeaf (hd (rev (t # ch))) rt h)"
      unfolding last setLeaf_def using leaf assms(3) by (intro node_ok_setEntry) auto
    show "\<forall>p \<in> set (tl (rev (t # ch))). node_ok S sha s n p"
      using sub plug t_ok by (metis (no_types, lifting) set_ConsD subsetD)
    show "\<forall>l \<in> set (rev path). l \<noteq> []" using assms(4) by simp
  qed (rule assms(5))
  then show ?thesis
    using plug t_ok leaf unfolding last
    by (simp add: node_lookup_setLeaf node_ok_canonical)
qed

end

section \<open>What an update writes, and that it returns\<close>

definition spine :: "(bytes \<Rightarrow> Hash) \<Rightarrow> (Hash \<times> Object) set \<Rightarrow> bool" where
  "spine sha W \<longleftrightarrow> (\<forall>(h, obj) \<in> W. obj_hash sha obj = h \<and> obj_Kind obj = KindTree)"

definition node_storable :: "Tree \<Rightarrow> bool" where
  "node_storable t \<longleftrightarrow> (\<forall>e \<in> set (Entries t). storable e \<and> te_Name e \<noteq> [])"

lemma node_storable_setEntry:
  "node_storable t \<Longrightarrow> EntryKind_IsValid k \<Longrightarrow> name \<noteq> [] \<Longrightarrow> length name \<le> 255 \<Longrightarrow>
    node_storable (setEntry t k name h)"
  by (auto simp: node_storable_def Entries_setEntry storable_def split: if_splits)

lemma node_storable_load:
  assumes "LoadTree S sha s h = Inr t" and "node_ok S sha s n t"
  shows "node_storable t"
proof -
  obtain obj :: Object where "DecodeTree (obj_Payload obj) = Inr t"
    using LoadTree_DecodeTree [OF assms(1)] by blast
  with assms(2) show ?thesis
    using DecodeTree_inv(2) by (auto simp: node_storable_def node_ok_def)
qed

lemma load_chain_length: "load_chain S sha s t path = Inr ch \<Longrightarrow> length ch = length path"
  by (induction path arbitrary: t ch) (auto split: sum.splits)

lemma load_chain_total:
  "node_ok S sha s n t \<Longrightarrow> node_storable t \<Longrightarrow>
    \<exists>ch. load_chain S sha s t path = Inr ch \<and> length ch = length path \<and> (\<forall>p \<in> set ch. node_storable p)"
proof (induction path arbitrary: t)
  case (Cons l path)
  obtain child where child: "(case Get t EntrySubtree l of Some e \<Rightarrow> LoadTree S sha s (te_Hash e)
      | None \<Rightarrow> Inr empty_tree) = Inr child" "node_ok S sha s n child" "node_storable child"
  proof (cases "Get t EntrySubtree l")
    case None
    then show ?thesis using that [of empty_tree] by (simp add: node_storable_def)
  next
    case (Some e)
    then have "tree_ok S sha s n (te_Hash e)" using node_ok_Get [OF Cons.prems(1)] by simp
    then obtain m child where m: "n = Suc m" and load: "LoadTree S sha s (te_Hash e) = Inr child"
      and child: "node_ok S sha s m child"
      by (cases n) (auto simp: tree_ok_Suc)
    have "node_ok S sha s n child" using child m by (simp add: node_ok_mono)
    moreover have "node_storable child" by (rule node_storable_load [OF load child])
    ultimately show ?thesis
      using that [of child] Some load by simp
  qed
  from Cons.IH [OF child(2,3)] child show ?case
    by auto
qed simp

context object_store
begin

lemma write_back_writes:
  "\<exists>W. finite W \<and> card W \<le> Suc (length ps) \<and> spine sha W \<and>
    hist (fst (write_back S sha s t ps ls)) = hist s \<union> W"
proof (induction ps arbitrary: s t ls)
  case Nil
  obtain s1 r where put: "PutTree S sha s t = (s1, r)" by (cases "PutTree S sha s t")
  show ?case
  proof (cases r)
    case (Inl e)
    then show ?thesis using PutTree_fail put by (intro exI [of _ "{}"]) (auto simp: spine_def)
  next
    case (Inr h)
    with put have put: "PutTree S sha s t = (s1, Inr h)" by simp
    show ?thesis
      using PutTree_ok(1,2) [OF put] put
      by (intro exI [of _ "{(h, \<lparr>obj_Kind = KindTree, obj_Payload = tree_payload t\<rparr>)}"])
        (auto simp: spine_def obj_hash_def Tree_Encode_def Encode_def)
  qed
next
  case (Cons p ps)
  show ?case
  proof (cases ls)
    case Nil
    then show ?thesis by (intro exI [of _ "{}"]) (auto simp: spine_def)
  next
    case (Cons l ls')
    note ls = Cons
    show ?thesis
    proof (cases "Entries t = []")
      case True
      obtain W where "finite W" "card W \<le> Suc (length ps)" "spine sha W"
        "hist (fst (write_back S sha s (setSubtree p l 0) ps ls')) = hist s \<union> W"
        using Cons.IH by blast
      with True ls show ?thesis by (intro exI [of _ W]) auto
    next
      case False
      obtain s1 r where put: "PutTree S sha s t = (s1, r)" by (cases "PutTree S sha s t")
      show ?thesis
      proof (cases r)
        case (Inl e)
        then show ?thesis
          using PutTree_fail put False ls by (intro exI [of _ "{}"]) (auto simp: spine_def)
      next
        case (Inr h)
        with put have put: "PutTree S sha s t = (s1, Inr h)" by simp
        let ?x = "(h, \<lparr>obj_Kind = KindTree, obj_Payload = tree_payload t\<rparr>)"
        obtain W where "finite W" "card W \<le> Suc (length ps)" "spine sha W"
          "hist (fst (write_back S sha s1 (setSubtree p l h) ps ls')) = hist s1 \<union> W"
          using Cons.IH by blast
        then show ?thesis
          using PutTree_ok(1,2) [OF put] put False ls
          by (intro exI [of _ "insert ?x W"])
            (auto simp: spine_def obj_hash_def Tree_Encode_def Encode_def intro: order_trans [OF card_insert_le_m1])
      qed
    qed
  qed
qed

end

context storage
begin

lemma PutTree_total:
  "node_storable t \<Longrightarrow> \<exists>s' h. PutTree S sha s t = (s', Inr h)"
proof -
  assume "node_storable t"
  then have "validate_entries (Entries t) = Inr ()"
    by (simp add: validate_entries_iff node_storable_def)
  moreover obtain s' where "PutObject S s (fst (Tree_Encode sha t)) (snd (Tree_Encode sha t)) = (s', Inr ())"
    by (metis prod.collapse put_total)
  ultimately show ?thesis
    by (simp add: PutTree_def case_prod_beta)
qed

lemma write_back_total:
  assumes "node_storable t" and "\<forall>p \<in> set ps. node_storable p" and "length ls = length ps"
    and "\<forall>l \<in> set ls. l \<noteq> [] \<and> length l \<le> 255"
  shows "\<exists>s' h. write_back S sha s t ps ls = (s', Inr h)"
  using assms
proof (induction ps arbitrary: s t ls)
  case Nil
  then show ?case by (simp add: PutTree_total)
next
  case (Cons p ps)
  then obtain l ls' where ls: "ls = l # ls'" by (cases ls) auto
  obtain s1 h where put: "PutTree S sha s t = (s1, Inr h)"
    using PutTree_total [OF Cons.prems(1)] by blast
  have "node_storable (setSubtree p l x)" for x
    using Cons.prems by (auto simp: ls setSubtree_def EntryKind_IsValid_def intro!: node_storable_setEntry)
  then have "\<exists>s' h. write_back S sha s0 (setSubtree p l x) ps ls' = (s', Inr h)" for s0 x
    using Cons.prems by (intro Cons.IH) (auto simp: ls)
  with put show ?case by (simp add: ls)
qed

lemma UpdateTree_total:
  assumes "root = ZeroHash \<or> tree_ok S sha s (Suc n) root"
    and "rt \<noteq> []" and "length rt \<le> 255" and "\<forall>l \<in> set path. l \<noteq> [] \<and> length l \<le> 255"
  shows "\<exists>s' root'. UpdateTree S sha s root path rt h = (s', Inr root')"
proof -
  obtain t where t: "(if root = 0 then Inr empty_tree else LoadTree S sha s root) = Inr t"
    "node_ok S sha s n t" "node_storable t"
    using assms(1) node_storable_load
    by (cases "root = 0") (fastforce simp: tree_ok_Suc node_storable_def)+
  from load_chain_total [OF t(2,3)] obtain ch where ch: "load_chain S sha s t path = Inr ch"
    "length ch = length path" "\<forall>p \<in> set ch. node_storable p" by blast
  have all: "\<forall>p \<in> set (rev (t # ch)). node_storable p" using ch t by simp
  then have "node_storable (hd (rev (t # ch)))" by (metis hd_in_set list.discI rev_is_Nil_conv)
  then have "node_storable (setLeaf (hd (rev (t # ch))) rt h)"
    unfolding setLeaf_def using assms(2,3) by (intro node_storable_setEntry) (simp_all add: EntryKind_IsValid_def)
  moreover have "\<forall>p \<in> set (tl (rev (t # ch))). node_storable p"
    using all by (metis list.set_sel(2) tl_Nil)
  ultimately have "\<exists>s' r. write_back S sha s (setLeaf (hd (rev (t # ch))) rt h) (tl (rev (t # ch))) (rev path) = (s', Inr r)"
    using ch assms(4) by (intro write_back_total) auto
  with t(1) ch(1) show ?thesis
    by (simp add: UpdateTree_def Let_def)
qed

end

section \<open>Properties\<close>

definition sample_update :: "MemStore \<times> (error + Hash)" where
  "sample_update = UpdateTree memstore sample_sha New ZeroHash [''www''] ''A'' 5"

lemma sample_update: "sample_update = (fst sample_update, Inr 536715)"
  and sample_update_healthy: "healthy (mem_hist (fst sample_update))"
  by (rule prod_eqI, simp, code_simp) code_simp

text \<open>
  C20: refinement of the copy-on-write update.  The contents of the new tree are those of
  the old one with exactly the named (path, type) set to the new blob, or removed when
  the new hash is zero; every other record is untouched, the new tree is complete in
  the store, and it is at most as deep as the old tree or the path.
\<close>

theorem update_tree_refines:
  assumes "UpdateTree memstore sha s root path rt h = (s', Inr root')"
    and "root = ZeroHash \<or> tree_ok memstore sha s (Suc n) root"
    and "rt \<noteq> []" and "\<forall>l \<in> set path. l \<noteq> []" and "healthy (mem_hist s')"
  shows "lookup memstore sha s' root' = zone_update (lookup memstore sha s root) path rt h \<and>
    tree_ok memstore sha s' (Suc (n + length path)) root' \<and> root' \<noteq> ZeroHash"
proof -
  have "mem_hist s \<subseteq> mem_hist s'"
    using mem.UpdateTree_mono [of s sha root path rt h] assms(1) by simp
  then have "ZeroHash \<notin> Domain (mem_hist s)"
    using assms(5) by (auto simp: healthy_def)
  from mem.UpdateTree_spec [OF assms this] show ?thesis by simp
qed

theorem update_tree_refines_witness:
  "lookup memstore sample_sha (fst sample_update) 536715 [''www''] ''A'' = Some 5"
  using update_tree_refines [of sample_sha New ZeroHash "[''www'']" "''A''" 5 "fst sample_update" 536715 0]
    sample_update sample_update_healthy
  by (simp add: sample_update_def [symmetric] zone_update_def)

text \<open>
  The update returns.  On an empty root or a complete tree, for a type and labels that
  are not empty and at most 255 bytes long, it gives a new root and no error.
\<close>

theorem update_tree_returns:
  assumes "root = ZeroHash \<or> tree_ok memstore sha s (Suc n) root"
    and "rt \<noteq> []" and "length rt \<le> 255" and "\<forall>l \<in> set path. l \<noteq> [] \<and> length l \<le> 255"
  shows "\<exists>s' root'. UpdateTree memstore sha s root path rt h = (s', Inr root')"
  using assms by (rule mem.UpdateTree_total)

theorem update_tree_returns_witness:
  "\<exists>s' root'. UpdateTree memstore sample_sha New ZeroHash [''www''] ''A'' 5 = (s', Inr root')"
  by (rule update_tree_returns) simp_all

text \<open>
  Structural sharing.  An update adds at most one object per node on the path from
  the root, all of them tree objects stored under their own hash, and
  everything stored before is still there.
\<close>

theorem update_tree_shares:
  "\<exists>W. finite W \<and> card W \<le> Suc (length path) \<and> spine sha W \<and>
    mem_hist (fst (UpdateTree memstore sha s root path rt h)) = mem_hist s \<union> W"
proof -
  have none: "\<exists>W. finite W \<and> card W \<le> Suc (length path) \<and> spine sha W \<and> mem_hist s = mem_hist s \<union> W"
    by (intro exI [of _ "{}"]) (simp add: spine_def)
  show ?thesis
  proof (cases "if IsZero root then Inr empty_tree else LoadTree memstore sha s root")
    case (Inr t)
    show ?thesis
    proof (cases "load_chain memstore sha s t path")
      case (Inr ch)
      have "length (tl (rev (t # ch))) = length path"
        using load_chain_length [OF Inr] by simp
      with mem.write_back_writes [where ps = "tl (rev (t # ch))"] show ?thesis
        using \<open>_ = Inr t\<close> Inr by (simp add: UpdateTree_def Let_def)
    qed (use Inr none in \<open>simp add: UpdateTree_def\<close>)
  qed (use none in \<open>simp add: UpdateTree_def\<close>)
qed

end
