(* ===== verification/TreeWalk.thy ===== *)
theory TreeWalk
  imports TreeUpdate
begin

text \<open>
  \<open>WalkAllLeaves\<close> of pkg/object/treeops.go: it visits the leaves in the order of
  \<open>leaf_list\<close>, and that list enumerates the contents of the tree, each leaf once.
\<close>

section \<open>The enumeration of the leaves\<close>

type_synonym leaf = "string list \<times> string \<times> Hash"

fun leaf_list :: "'s Storage \<Rightarrow> (bytes \<Rightarrow> Hash) \<Rightarrow> 's \<Rightarrow> nat \<Rightarrow> string list \<Rightarrow> Hash \<Rightarrow> leaf list" where
  "leaf_list S sha s 0 path h = []"
| "leaf_list S sha s (Suc n) path h =
     (case LoadTree S sha s h of
        Inl _ \<Rightarrow> []
      | Inr t \<Rightarrow> concat (map (\<lambda>e. if te_Kind e = EntryLeaf then [(path, te_Name e, te_Hash e)]
          else if te_Kind e = EntrySubtree then leaf_list S sha s n (path @ [te_Name e]) (te_Hash e)
          else []) (Entries t)))"

fun visit :: "(string list \<Rightarrow> string \<Rightarrow> Hash \<Rightarrow> 'a \<Rightarrow> 'a \<times> (error + unit)) \<Rightarrow> leaf list \<Rightarrow> 'a \<Rightarrow> 'a \<times> (error + unit)" where
  "visit fn [] acc = (acc, Inr ())"
| "visit fn ((p, t, h) # ls) acc =
     (case fn p t h acc of
        (acc', Inl e) \<Rightarrow> (acc', Inl e)
      | (acc', Inr _) \<Rightarrow> visit fn ls acc')"

lemma visit_append:
  "visit fn (xs @ ys) acc = (case visit fn xs acc of (acc', Inl e) \<Rightarrow> (acc', Inl e) | (acc', Inr _) \<Rightarrow> visit fn ys acc')"
  by (induction fn xs acc rule: visit.induct) (auto split: prod.splits sum.splits)

lemma walkLeavesAt_visit:
  "tree_ok S sha s n h \<Longrightarrow>
    walkLeavesAt S sha s n path h fn acc = Some (visit fn (leaf_list S sha s n path h) acc)"
proof (induction n arbitrary: h path acc)
  case (Suc n)
  then obtain t where t: "LoadTree S sha s h = Inr t" "node_ok S sha s n t"
    by (auto simp: tree_ok_Suc)
  have "walk_entries S sha s n path es fn acc = Some (visit fn (concat (map (\<lambda>e.
      if te_Kind e = EntryLeaf then [(path, te_Name e, te_Hash e)]
      else if te_Kind e = EntrySubtree then leaf_list S sha s n (path @ [te_Name e]) (te_Hash e)
      else []) es)) acc)"
    if "set es \<subseteq> set (Entries t)" for es acc
    using that
  proof (induction es arbitrary: acc)
    case (Cons e es)
    then have sub: "te_Kind e = EntrySubtree \<Longrightarrow> tree_ok S sha s n (te_Hash e)"
      using t(2) by (auto simp: node_ok_def)
    show ?case
      using Cons Suc.IH [OF sub]
      by (auto simp: visit_append split: prod.splits sum.splits option.splits)
  qed simp
  with t(1) show ?case by simp
qed simp

lemma leaf_list_set:
  "tree_ok S sha s n h \<Longrightarrow>
    set (leaf_list S sha s n path h) = {(path @ p, t, b) |p t b. lookup S sha s h p t = Some b}"
proof (induction n arbitrary: h path)
  case (Suc n)
  then obtain t where t: "LoadTree S sha s h = Inr t" "node_ok S sha s n t"
    by (auto simp: tree_ok_Suc)
  have can: "canonical t" by (rule node_ok_canonical [OF t(2)])
  have sub: "set (leaf_list S sha s n (path @ [te_Name e]) (te_Hash e))
      = {(path @ te_Name e # p, t, b) |p t b. lookup S sha s (te_Hash e) p t = Some b}"
    if "e \<in> set (Entries t)" "te_Kind e = EntrySubtree" for e
    using that t(2) Suc.IH [of "te_Hash e" "path @ [te_Name e]"] by (simp add: node_ok_def)
  have leaves: "node_lookup S sha s t [] rt = Some b \<longleftrightarrow>
      (\<exists>e \<in> set (Entries t). te_Kind e = EntryLeaf \<and> te_Name e = rt \<and> te_Hash e = b)" for rt b
    using Get_canonical [OF can] by (fastforce simp: node_lookup_def te_key_def)
  have subs: "node_lookup S sha s t (l # q) rt = Some b \<longleftrightarrow>
      (\<exists>e \<in> set (Entries t). te_Kind e = EntrySubtree \<and> te_Name e = l \<and> lookup S sha s (te_Hash e) q rt = Some b)" for l q rt b
  proof -
    have "node_lookup S sha s t (l # q) rt = Some b \<longleftrightarrow>
        (\<exists>e. Get t EntrySubtree l = Some e \<and> lookup S sha s (te_Hash e) q rt = Some b)"
      by (simp add: node_lookup_def split: option.splits)
    then show ?thesis by (auto simp: Get_canonical [OF can] te_key_def)
  qed
  have "x \<in> set (leaf_list S sha s (Suc n) path h) \<longleftrightarrow>
      x \<in> {(path @ p, t', b) |p t' b. node_lookup S sha s t p t' = Some b}" for x
  proof
    assume "x \<in> set (leaf_list S sha s (Suc n) path h)"
    then obtain e where e: "e \<in> set (Entries t)" and
      x: "(te_Kind e = EntryLeaf \<and> x = (path, te_Name e, te_Hash e)) \<or>
        (te_Kind e = EntrySubtree \<and> x \<in> set (leaf_list S sha s n (path @ [te_Name e]) (te_Hash e)))"
      using t(1) by (auto split: if_splits)
    from x show "x \<in> {(path @ p, t', b) |p t' b. node_lookup S sha s t p t' = Some b}"
    proof
      assume "te_Kind e = EntryLeaf \<and> x = (path, te_Name e, te_Hash e)"
      with e leaves [of "te_Name e" "te_Hash e"] show ?thesis by force
    next
      assume "te_Kind e = EntrySubtree \<and> x \<in> set (leaf_list S sha s n (path @ [te_Name e]) (te_Hash e))"
      then show ?thesis using sub [OF e] subs e by fastforce
    qed
  next
    assume "x \<in> {(path @ p, t', b) |p t' b. node_lookup S sha s t p t' = Some b}"
    then obtain p t' b where x: "x = (path @ p, t', b)" and l: "node_lookup S sha s t p t' = Some b"
      by blast
    show "x \<in> set (leaf_list S sha s (Suc n) path h)"
    proof (cases p)
      case Nil
      with l leaves x t(1) show ?thesis by fastforce
    next
      case (Cons a q)
      with l subs obtain e where e: "e \<in> set (Entries t)" "te_Kind e = EntrySubtree" "te_Name e = a"
        "lookup S sha s (te_Hash e) q t' = Some b" by blast
      then have "x \<in> set (leaf_list S sha s n (path @ [te_Name e]) (te_Hash e))"
        using sub [OF e(1,2)] x Cons by auto
      with e t(1) show ?thesis by fastforce
    qed
  qed
  then show ?case by (auto simp: lookup_node [OF t(1)])
qed simp

lemma distinct_concat_keyed:
  assumes "distinct (map f es)" and "\<And>e. e \<in> set es \<Longrightarrow> distinct (g e)"
    and "\<And>e e' x. e \<in> set es \<Longrightarrow> e' \<in> set es \<Longrightarrow> x \<in> set (g e) \<Longrightarrow> x \<in> set (g e') \<Longrightarrow> f e = f e'"
  shows "distinct (concat (map g es))"
  using assms
proof (induction es)
  case (Cons e es)
  have "set (g e) \<inter> set (concat (map g es)) = {}"
  proof (rule ccontr)
    assume "set (g e) \<inter> set (concat (map g es)) \<noteq> {}"
    then obtain x e' where "x \<in> set (g e)" "e' \<in> set es" "x \<in> set (g e')" by auto
    then have "f e = f e'" using Cons.prems(3) by simp
    with \<open>e' \<in> set es\<close> Cons.prems(1) show False by auto
  qed
  with Cons show ?case by auto
qed simp

lemma leaf_list_distinct: "tree_ok S sha s n h \<Longrightarrow> distinct (leaf_list S sha s n path h)"
proof (induction n arbitrary: h path)
  case (Suc n)
  then obtain t where t: "LoadTree S sha s h = Inr t" "node_ok S sha s n t"
    by (auto simp: tree_ok_Suc)
  define g where "g = (\<lambda>e::TreeEntry. if te_Kind e = EntryLeaf then [(path, te_Name e, te_Hash e)]
      else if te_Kind e = EntrySubtree then leaf_list S sha s n (path @ [te_Name e]) (te_Hash e) else [])"
  have mem: "te_key e = (EntryLeaf, fst (snd x)) \<and> fst x = path \<or>
      te_key e = (EntrySubtree, fst x ! length path) \<and> length (fst x) > length path"
    if "e \<in> set (Entries t)" "x \<in> set (g e)" for e x
    using that t(2) leaf_list_set [of S sha s n "te_Hash e" "path @ [te_Name e]"]
    by (auto simp: g_def te_key_def node_ok_def split: if_splits)
  have "distinct (concat (map g (Entries t)))"
  proof (rule distinct_concat_keyed [where f = te_key])
    show "distinct (map te_key (Entries t))"
      using node_ok_canonical [OF t(2)] by (simp add: canonical_def strict_sorted_iff)
    show "distinct (g e)" if "e \<in> set (Entries t)" for e
      using that t(2) Suc.IH by (auto simp: g_def node_ok_def)
    show "te_key e = te_key e'" if "e \<in> set (Entries t)" "e' \<in> set (Entries t)" "x \<in> set (g e)" "x \<in> set (g e')" for e e' x
      using mem [OF that(1,3)] mem [OF that(2,4)] by auto
  qed
  with t(1) show ?case by (simp add: g_def)
qed simp

section \<open>Properties\<close>

text \<open>
  C28: the walk over all leaves calls the callback on a list of leaves that has every
  record of the tree exactly once, in order, up to the first error of the callback, and
  it ends: fuel as large as the depth of the tree is enough.
\<close>

theorem walk_all_leaves_enumerates:
  assumes "tree_ok memstore sha s n root" and "root \<noteq> ZeroHash"
  shows "\<exists>ls. distinct ls \<and> set ls = {(p, t, b). lookup memstore sha s root p t = Some b} \<and>
    (\<forall>fn (acc :: 'a). WalkAllLeaves memstore sha s n root fn acc = Some (visit fn ls acc))"
  using leaf_list_distinct [OF assms(1), of "[]"] leaf_list_set [OF assms(1), of "[]"]
    walkLeavesAt_visit [OF assms(1), of "[]"] assms(2)
  by (intro exI [of _ "leaf_list memstore sha s n [] root"]) (auto simp: WalkAllLeaves_def)

theorem walk_all_leaves_enumerates_witness:
  "\<exists>ls. set ls = {(p, t, b). lookup memstore sample_sha (fst sample_update) 536715 p t = Some b} \<and>
    WalkAllLeaves memstore sample_sha (fst sample_update) 2 536715 (\<lambda>p t b n. (n + 1, Inr ())) (0 :: int)
      = Some (visit (\<lambda>p t b n. (n + 1, Inr ())) ls 0)"
proof -
  have "tree_ok memstore sample_sha (fst sample_update) 2 536715"
    by code_simp
  from walk_all_leaves_enumerates [OF this, where 'a = int] show ?thesis
    by fastforce
qed

end
