(* ===== verification/CommitCodec.thy ===== *)
theory CommitCodec
  imports TreeWalk
begin

text \<open>
  pkg/object, commit.go: identities, commits, the text format of a commit and its
  parser, and \<open>TreeOf\<close> of treeops.go.

  A \<open>time.Time\<close> is a record of its seconds since the epoch, its nanoseconds and the
  offset in seconds of its location from UTC.
\<close>

section \<open>Identities, times, commits\<close>

record Identity =
  id_Name :: string
  id_Email :: string

record Time =
  t_Unix :: int
  t_Nsec :: nat
  t_Offset :: int

record Commit =
  c_Tree :: Hash
  c_Parents :: "Hash list"
  c_Author :: Identity
  c_Committer :: Identity
  c_AuthorTime :: Time
  c_CommitTime :: Time
  c_Selector :: string
  c_Signature :: string
  c_Message :: string

abbreviation commitVersion :: int where
  "commitVersion \<equiv> 1"

text \<open>The zero \<open>time.Time\<close> is midnight of 1 January of year 1, UTC.\<close>

definition zero_time :: Time where
  "zero_time = \<lparr>t_Unix = -62135596800, t_Nsec = 0, t_Offset = 0\<rparr>"

definition Time_IsZero :: "Time \<Rightarrow> bool" where
  "Time_IsZero t \<longleftrightarrow> t_Unix t = t_Unix zero_time \<and> t_Nsec t = 0"

definition zero_identity :: Identity where
  "zero_identity = \<lparr>id_Name = [], id_Email = []\<rparr>"

definition zero_commit :: Commit where
  "zero_commit = \<lparr>c_Tree = ZeroHash, c_Parents = [], c_Author = zero_identity,
     c_Committer = zero_identity, c_AuthorTime = zero_time, c_CommitTime = zero_time,
     c_Selector = [], c_Signature = [], c_Message = []\<rparr>"

definition Identity_String :: "Identity \<Rightarrow> string" where
  "Identity_String i =
     (if id_Email i = [] then id_Name i else id_Name i @ '' <'' @ id_Email i @ ''>'')"

section \<open>Encoding\<close>

definition formatTime :: "Time \<Rightarrow> string" where
  "formatTime t =
     (if Time_IsZero t then ''0 +0000''
      else
        let neg = t_Offset t < 0;
            offsetSec = nat \<bar>t_Offset t\<bar>;
            hh = offsetSec div 3600;
            mm = (offsetSec mod 3600) div 60
        in dec_int (t_Unix t) @ '' '' @ [if neg then CHR ''-'' else CHR ''+''] @ pad2 hh @ pad2 mm)"

definition commit_text :: "Commit \<Rightarrow> string" where
  "commit_text c =
     ''version '' @ dec_int commitVersion @ [NL] @
     ''tree '' @ hash_String (c_Tree c) @ [NL] @
     concat (map (\<lambda>p. ''parent '' @ hash_String p @ [NL]) (c_Parents c)) @
     ''author '' @ Identity_String (c_Author c) @ '' '' @ formatTime (c_AuthorTime c) @ [NL] @
     ''committer '' @ Identity_String (c_Committer c) @ '' '' @ formatTime (c_CommitTime c) @ [NL] @
     (if c_Selector c \<noteq> [] then ''selector '' @ c_Selector c @ [NL] else []) @
     (if c_Signature c \<noteq> [] then ''signature '' @ c_Signature c @ [NL] else []) @
     [NL] @ c_Message c @
     (if c_Message c \<noteq> [] \<and> \<not> HasSuffix (c_Message c) [NL] then [NL] else [])"

definition Commit_Encode :: "(bytes \<Rightarrow> Hash) \<Rightarrow> Commit \<Rightarrow> Hash \<times> Object" where
  "Commit_Encode sha c = Encode sha KindCommit (bytes_of (commit_text c))"

section \<open>Decoding\<close>

definition parseTZOffset :: "string \<Rightarrow> int option" where
  "parseTZOffset s =
     (if length s \<noteq> 5 \<or> (s ! 0 \<noteq> CHR ''+'' \<and> s ! 0 \<noteq> CHR ''-'') then None
      else case ParseInt (take 2 (drop 1 s)) of
        None \<Rightarrow> None
      | Some hh \<Rightarrow>
          (case ParseInt (take 2 (drop 3 s)) of
             None \<Rightarrow> None
           | Some mm \<Rightarrow>
               let off = hh * 60 + mm in
               Some (if s ! 0 = CHR ''-'' then - off else off)))"

definition parseIdentityLine :: "string \<Rightarrow> (Identity \<times> Time) option" where
  "parseIdentityLine s =
     (case (LastIndexByte s (CHR ''<''), LastIndexByte s (CHR ''>'')) of
        (Some lt, Some gt) \<Rightarrow>
          if gt < lt then None
          else
            let name = TrimSpace (take lt s);
                email = drop (lt + 1) (take gt s);
                rest = TrimSpace (drop (gt + 1) s)
            in (case Fields rest of
                  [a, b] \<Rightarrow>
                    (case ParseInt a of
                       None \<Rightarrow> None
                     | Some unix \<Rightarrow>
                         (case parseTZOffset b of
                            None \<Rightarrow> None
                          | Some offsetMinutes \<Rightarrow>
                              Some (\<lparr>id_Name = name, id_Email = email\<rparr>,
                                \<lparr>t_Unix = unix, t_Nsec = 0, t_Offset = offsetMinutes * 60\<rparr>)))
                | _ \<Rightarrow> None)
      | _ \<Rightarrow> None)"

record decoder =
  d_commit :: Commit
  sawVersion :: bool
  sawTree :: bool
  sawAuthor :: bool
  sawCommitter :: bool

definition decoder_start :: decoder where
  "decoder_start = \<lparr>d_commit = zero_commit, sawVersion = False, sawTree = False,
     sawAuthor = False, sawCommitter = False\<rparr>"

text \<open>One header line, without its newline.\<close>

definition decode_header :: "string \<Rightarrow> decoder \<Rightarrow> error + decoder" where
  "decode_header line d =
     (case Cut line (CHR '' '') of (key, val, ok) \<Rightarrow>
        if \<not> ok then Inl ErrInvalidObject
        else if key = ''version'' then
          (if ParseInt val \<noteq> Some commitVersion then Inl ErrInvalidObject
           else Inr (d\<lparr>sawVersion := True\<rparr>))
        else if key = ''tree'' then
          (case ParseHash val of
             Inl e \<Rightarrow> Inl ErrInvalidObject
           | Inr h \<Rightarrow> Inr (d\<lparr>d_commit := d_commit d\<lparr>c_Tree := h\<rparr>, sawTree := True\<rparr>))
        else if key = ''parent'' then
          (case ParseHash val of
             Inl e \<Rightarrow> Inl ErrInvalidObject
           | Inr h \<Rightarrow> Inr (d\<lparr>d_commit := d_commit d\<lparr>c_Parents := c_Parents (d_commit d) @ [h]\<rparr>\<rparr>))
        else if key = ''author'' then
          (case parseIdentityLine val of
             None \<Rightarrow> Inl ErrInvalidObject
           | Some (i, t) \<Rightarrow>
               Inr (d\<lparr>d_commit := d_commit d\<lparr>c_Author := i, c_AuthorTime := t\<rparr>, sawAuthor := True\<rparr>))
        else if key = ''committer'' then
          (case parseIdentityLine val of
             None \<Rightarrow> Inl ErrInvalidObject
           | Some (i, t) \<Rightarrow>
               Inr (d\<lparr>d_commit := d_commit d\<lparr>c_Committer := i, c_CommitTime := t\<rparr>, sawCommitter := True\<rparr>))
        else if key = ''selector'' then Inr (d\<lparr>d_commit := d_commit d\<lparr>c_Selector := val\<rparr>\<rparr>)
        else if key = ''signature'' then Inr (d\<lparr>d_commit := d_commit d\<lparr>c_Signature := val\<rparr>\<rparr>)
        else Inr d)"

text \<open>The header loop returns the decoder and the text that is left unread.\<close>

function decode_headers :: "string \<Rightarrow> decoder \<Rightarrow> error + decoder \<times> string" where
  "decode_headers text d =
     (case ReadString text of (line, eof, rest) \<Rightarrow>
        if eof \<and> line = [] then Inl ErrInvalidObject
        else
          let line' = TrimSuffix line [NL] in
          if line' = [] then Inr (d, rest)
          else case decode_header line' d of
            Inl e \<Rightarrow> Inl e
          | Inr d' \<Rightarrow> decode_headers rest d')"
  by pat_completeness auto

lemma ReadString_shorter: "ReadString s = (line, eof, rest) \<Longrightarrow> \<not> (eof \<and> line = []) \<Longrightarrow> length rest < length s"
proof -
  assume r: "ReadString s = (line, eof, rest)" "\<not> (eof \<and> line = [])"
  show ?thesis
  proof (cases "NL \<in> set s")
    case True
    then have "dropWhile (\<lambda>x. x \<noteq> NL) s \<noteq> []" by (simp add: dropWhile_eq_Nil_conv)
    then have "length (tl (dropWhile (\<lambda>x. x \<noteq> NL) s)) < length (dropWhile (\<lambda>x. x \<noteq> NL) s)"
      by (cases "dropWhile (\<lambda>x. x \<noteq> NL) s") auto
    also have "\<dots> \<le> length s" by (rule length_dropWhile_le)
    finally show ?thesis using r True by (auto simp: ReadString_def)
  qed (use r in \<open>auto simp: ReadString_def split: if_splits\<close>)
qed

termination decode_headers
  by (relation "measure (\<lambda>(text, d). length text)") (auto dest: ReadString_shorter [OF sym])

declare decode_headers.simps [simp del]

definition DecodeCommit :: "bytes \<Rightarrow> error + Commit" where
  "DecodeCommit payload =
     (case decode_headers (string_of payload) decoder_start of
        Inl e \<Rightarrow> Inl e
      | Inr (d, rest) \<Rightarrow>
          if \<not> sawVersion d \<or> \<not> sawTree d \<or> \<not> sawAuthor d \<or> \<not> sawCommitter d
          then Inl ErrInvalidObject
          else Inr (d_commit d\<lparr>c_Message := TrimRight rest NL\<rparr>))"

definition TreeOf :: "'s Storage \<Rightarrow> 's \<Rightarrow> Hash \<Rightarrow> Hash" where
  "TreeOf S s h =
     (if IsZero h then ZeroHash
      else case GetObject S s h of
        Inl e \<Rightarrow> ZeroHash
      | Inr obj \<Rightarrow>
          (case DecodeCommit (obj_Payload obj) of
             Inl e \<Rightarrow> ZeroHash
           | Inr c \<Rightarrow> c_Tree c))"

section \<open>The time stamp of a header\<close>

lemma parseTZOffset_pad2 [codec]:
  assumes "hh < 100" and "mm < 100" and "sg = CHR ''+'' \<or> sg = CHR ''-''"
  shows "parseTZOffset (sg # pad2 hh @ pad2 mm)
    = Some (if sg = CHR ''-'' then - int (hh * 60 + mm) else int (hh * 60 + mm))"
  using assms pad2_props [of hh] pad2_props [of mm]
  by (auto simp: parseTZOffset_def ParseInt_pad2 Let_def)

definition time_ok :: "Time \<Rightarrow> bool" where
  "time_ok t \<longleftrightarrow> - (2 ^ 63) \<le> t_Unix t \<and> t_Unix t < 2 ^ 63 \<and> \<bar>t_Offset t\<bar> < 360000"

text \<open>What the text format keeps of a time: whole seconds, and whole minutes of the offset.\<close>

definition norm_time :: "Time \<Rightarrow> Time" where
  "norm_time t =
     (if Time_IsZero t then \<lparr>t_Unix = 0, t_Nsec = 0, t_Offset = 0\<rparr>
      else \<lparr>t_Unix = t_Unix t, t_Nsec = 0, t_Offset = sgn (t_Offset t) * (\<bar>t_Offset t\<bar> div 60 * 60)\<rparr>)"

lemma formatTime_parse:
  assumes "time_ok t"
  obtains a b where "formatTime t = a @ '' '' @ b"
    and "\<forall>x \<in> set (a @ b). \<not> is_space x \<and> x \<noteq> CHR ''<'' \<and> x \<noteq> CHR ''>''" and "a \<noteq> []" and "b \<noteq> []"
    and "ParseInt a = Some (t_Unix (norm_time t))"
    and "\<exists>m. parseTZOffset b = Some m \<and> m * 60 = t_Offset (norm_time t)"
proof (cases "Time_IsZero t")
  case True
  have zero: "dec_int 0 = ''0''" "pad2 0 = ''00''" by code_simp+
  show ?thesis
  proof (rule that [of "''0''" "''+0000''"])
    show "formatTime t = ''0'' @ '' '' @ ''+0000''" using True by (simp add: formatTime_def)
    show "ParseInt ''0'' = Some (t_Unix (norm_time t))"
      using ParseInt_dec_int [of 0] zero True by (simp add: norm_time_def)
    show "\<exists>m. parseTZOffset ''+0000'' = Some m \<and> m * 60 = t_Offset (norm_time t)"
      using parseTZOffset_pad2 [of 0 0 "CHR ''+''"] True
      by (simp add: norm_time_def zero)
  qed (auto simp: is_space_def)
next
  case False
  define off where "off = nat \<bar>t_Offset t\<bar>"
  define hh mm where "hh = off div 3600" and "mm = off mod 3600 div 60"
  define sg where "sg = (if t_Offset t < 0 then CHR ''-'' else CHR ''+'')"
  have "off < 360000" using assms unfolding time_ok_def off_def by linarith
  then have hm: "hh < 100" "mm < 100" unfolding hh_def mm_def by linarith+
  have "off mod (60 * 60) div 60 = off div 60 mod 60" "off div (60 * 60) = off div 60 div 60"
    using mod_mult2_eq [of off 60 60] div_mult2_eq [of off 60 60] by simp_all
  then have val: "hh * 60 + mm = off div 60" by (simp add: hh_def mm_def)
  show ?thesis
  proof (rule that [of "dec_int (t_Unix t)" "sg # pad2 hh @ pad2 mm"])
    show "formatTime t = dec_int (t_Unix t) @ '' '' @ sg # pad2 hh @ pad2 mm"
      using False by (simp add: formatTime_def Let_def sg_def hh_def mm_def off_def)
    show "ParseInt (dec_int (t_Unix t)) = Some (t_Unix (norm_time t))"
      using assms False by (simp add: norm_time_def ParseInt_dec_int time_ok_def)
    have "parseTZOffset (sg # pad2 hh @ pad2 mm) = Some (if t_Offset t < 0 then - int (off div 60) else int (off div 60))"
      using parseTZOffset_pad2 [OF hm, of sg] unfolding val by (simp add: sg_def)
    moreover have "int (off div 60) = \<bar>t_Offset t\<bar> div 60"
      by (simp add: off_def zdiv_int)
    ultimately show "\<exists>m. parseTZOffset (sg # pad2 hh @ pad2 mm) = Some m \<and> m * 60 = t_Offset (norm_time t)"
      using False by (auto simp: norm_time_def sgn_if)
    have "\<forall>x \<in> set (pad2 hh @ pad2 mm). is_digit x"
      using pad2_props [OF hm(1)] pad2_props [OF hm(2)] by (auto simp: list_all_iff)
    note pads = this
    show "\<forall>x \<in> set (dec_int (t_Unix t) @ sg # pad2 hh @ pad2 mm). \<not> is_space x \<and> x \<noteq> CHR ''<'' \<and> x \<noteq> CHR ''>''"
    proof
      fix x
      assume "x \<in> set (dec_int (t_Unix t) @ sg # pad2 hh @ pad2 mm)"
      then have "is_digit x \<or> x = CHR ''+'' \<or> x = CHR ''-''"
        using dec_int_chars [of x "t_Unix t"] pads by (auto simp: sg_def)
      then show "\<not> is_space x \<and> x \<noteq> CHR ''<'' \<and> x \<noteq> CHR ''>''"
        using is_digit_not_space [of x] digit_not_angle [of x] by (elim disjE) (simp_all add: is_space_def)
    qed
  qed simp_all
qed

section \<open>Identity lines\<close>

definition identity_ok :: "Identity \<Rightarrow> bool" where
  "identity_ok i \<longleftrightarrow> TrimSpace (id_Name i) = id_Name i \<and> NL \<notin> set (id_Name i) \<and>
     id_Email i \<noteq> [] \<and> CHR ''<'' \<notin> set (id_Email i) \<and> NL \<notin> set (id_Email i)"

lemma NL_space: "is_space NL"
  by (simp add: is_space_def)

lemma parseIdentityLine_String [codec]:
  assumes "identity_ok i" and "time_ok t"
  shows "parseIdentityLine (Identity_String i @ '' '' @ formatTime t) = Some (i, norm_time t)"
proof -
  obtain a b m where ab: "formatTime t = a @ '' '' @ b" "a \<noteq> []" "b \<noteq> []"
    and chars: "\<forall>x \<in> set (a @ b). \<not> is_space x \<and> x \<noteq> CHR ''<'' \<and> x \<noteq> CHR ''>''"
    and unix: "ParseInt a = Some (t_Unix (norm_time t))"
    and tz: "parseTZOffset b = Some m" "m * 60 = t_Offset (norm_time t)"
    using formatTime_parse [OF assms(2)] by metis
  let ?s = "Identity_String i @ '' '' @ formatTime t"
  have email: "id_Email i \<noteq> []" "CHR ''<'' \<notin> set (id_Email i)" and name: "TrimSpace (id_Name i) = id_Name i"
    using assms(1) by (simp_all add: identity_ok_def)
  have s1: "?s = (id_Name i @ '' '') @ CHR ''<'' # (id_Email i @ ''> '' @ a @ '' '' @ b)"
    using email by (simp add: Identity_String_def ab)
  have s2: "?s = ((id_Name i @ '' <'') @ id_Email i) @ CHR ''>'' # ('' '' @ a @ '' '' @ b)"
    using email by (simp add: Identity_String_def ab)
  have lt: "LastIndexByte ?s (CHR ''<'') = Some (length (id_Name i) + 1)"
    unfolding s1 using email chars by (subst LastIndexByte_append) auto
  have gt: "LastIndexByte ?s (CHR ''>'') = Some (length (id_Name i) + 2 + length (id_Email i))"
    unfolding s2 using chars by (subst LastIndexByte_append) auto
  have nm: "take (length (id_Name i) + 1) ?s = id_Name i @ '' ''"
    unfolding s1 by simp
  have em: "drop (length (id_Name i) + 2) (take (length (id_Name i) + 2 + length (id_Email i)) ?s) = id_Email i"
    unfolding s2 by simp
  have rest: "drop (length (id_Name i) + 2 + length (id_Email i) + 1) ?s = CHR '' '' # a @ '' '' @ b"
    unfolding s2 by (simp add: numeral_3_eq_3)
  have name': "TrimSpace (id_Name i @ '' '') = id_Name i"
    using name by (simp add: TrimSpace_snoc is_space_def)
  have "TrimSpace (CHR '' '' # a @ '' '' @ b) = a @ '' '' @ b"
    using ab(2,3) chars by (simp add: TrimSpace_Cons TrimSpace_id is_space_def)
  moreover have "Fields (a @ '' '' @ b) = [a, b]"
    using ab(2,3) chars by (simp add: Fields_def split_by_append split_by_none is_space_def)
  ultimately have flds: "Fields (TrimSpace (drop (length (id_Name i) + 2 + length (id_Email i) + 1) ?s)) = [a, b]"
    by (simp only: rest)
  have "norm_time t = \<lparr>t_Unix = t_Unix (norm_time t), t_Nsec = 0, t_Offset = m * 60\<rparr>"
    using tz(2) by (cases "norm_time t") (auto simp: norm_time_def split: if_splits)
  moreover have "i = \<lparr>id_Name = id_Name i, id_Email = id_Email i\<rparr>" by simp
  ultimately show ?thesis
    unfolding parseIdentityLine_def lt gt Let_def using nm name' em flds unix tz(1)
    by (simp add: numeral_2_eq_2)
qed

section \<open>The header loop\<close>

lemma decode_headers_line:
  assumes "NL \<notin> set l" and "l \<noteq> []"
  shows "decode_headers (l @ NL # rest) d =
    (case decode_header l d of Inl e \<Rightarrow> Inl e | Inr d' \<Rightarrow> decode_headers rest d')"
  using assms by (subst decode_headers.simps) (simp add: ReadString_line)

lemma decode_headers_end: "decode_headers (NL # rest) d = Inr (d, rest)"
  using ReadString_line [of "[]" rest] TrimSuffix_snoc [of "[]" NL] by (subst decode_headers.simps) simp

lemma hash_String_chars: "x \<in> set (hash_String h) \<Longrightarrow> x \<noteq> NL \<and> x \<noteq> CHR '' ''"
proof -
  have "\<forall>n \<in> set [0..<16]. hex_digit n \<noteq> NL \<and> hex_digit n \<noteq> CHR '' ''" by code_simp
  then have hex: "n < 16 \<Longrightarrow> hex_digit n \<noteq> NL \<and> hex_digit n \<noteq> CHR '' ''" for n by simp
  have "unat (b :: byte) div 16 < 16" for b using unat_byte_less [of b] by arith
  moreover assume "x \<in> set (hash_String h)"
  then obtain b :: byte where "x = hex_digit (unat b div 16) \<or> x = hex_digit (unat b mod 16)"
    by (auto simp: hash_String_def HexEncode_def)
  ultimately show ?thesis using hex by auto
qed

lemma formatTime_chars:
  assumes "time_ok t"
  shows "NL \<notin> set (formatTime t)" and "CHR ''<'' \<notin> set (formatTime t)"
proof -
  obtain a b where "formatTime t = a @ '' '' @ b"
    and "\<forall>x \<in> set (a @ b). \<not> is_space x \<and> x \<noteq> CHR ''<'' \<and> x \<noteq> CHR ''>''"
    using formatTime_parse [OF assms] by metis
  then show "NL \<notin> set (formatTime t)" and "CHR ''<'' \<notin> set (formatTime t)"
    using NL_space by auto
qed

lemma Identity_String_chars: "identity_ok i \<Longrightarrow> NL \<notin> set (Identity_String i)"
  by (auto simp: identity_ok_def Identity_String_def)

lemma decode_headers_parents:
  "decode_headers (concat (map (\<lambda>p. ''parent '' @ hash_String p @ [NL]) ps) @ rest) d =
    decode_headers rest (d\<lparr>d_commit := d_commit d\<lparr>c_Parents := c_Parents (d_commit d) @ ps\<rparr>\<rparr>)"
proof (induction ps arbitrary: d)
  case (Cons p ps)
  have "decode_header (''parent '' @ hash_String p) d
      = Inr (d\<lparr>d_commit := d_commit d\<lparr>c_Parents := c_Parents (d_commit d) @ [p]\<rparr>\<rparr>)"
    using Cut_append [of "CHR '' ''" "''parent''" "hash_String p"] by (simp add: decode_header_def)
  moreover have "NL \<notin> set (''parent '' @ hash_String p)"
    using hash_String_chars [of NL p] by auto
  ultimately show ?case
    using Cons decode_headers_line [of "''parent '' @ hash_String p"] by simp
qed simp

definition commit_ok :: "Commit \<Rightarrow> bool" where
  "commit_ok c \<longleftrightarrow> identity_ok (c_Author c) \<and> identity_ok (c_Committer c) \<and>
     time_ok (c_AuthorTime c) \<and> time_ok (c_CommitTime c) \<and>
     NL \<notin> set (c_Selector c) \<and> NL \<notin> set (c_Signature c)"

definition norm_commit :: "Commit \<Rightarrow> Commit" where
  "norm_commit c = c\<lparr>c_AuthorTime := norm_time (c_AuthorTime c), c_CommitTime := norm_time (c_CommitTime c),
     c_Message := TrimRight (c_Message c) NL\<rparr>"

lemma decode_header_simple:
  "decode_header (''version '' @ v) d =
     (if ParseInt v \<noteq> Some commitVersion then Inl ErrInvalidObject else Inr (d\<lparr>sawVersion := True\<rparr>))"
  "decode_header (''tree '' @ hash_String h) d = Inr (d\<lparr>d_commit := d_commit d\<lparr>c_Tree := h\<rparr>, sawTree := True\<rparr>)"
  "decode_header (''selector '' @ v) d = Inr (d\<lparr>d_commit := d_commit d\<lparr>c_Selector := v\<rparr>\<rparr>)"
  "decode_header (''signature '' @ v) d = Inr (d\<lparr>d_commit := d_commit d\<lparr>c_Signature := v\<rparr>\<rparr>)"
  "identity_ok i \<Longrightarrow> time_ok t \<Longrightarrow> decode_header (''author '' @ Identity_String i @ '' '' @ formatTime t) d =
    Inr (d\<lparr>d_commit := d_commit d\<lparr>c_Author := i, c_AuthorTime := norm_time t\<rparr>, sawAuthor := True\<rparr>)"
  "identity_ok i \<Longrightarrow> time_ok t \<Longrightarrow> decode_header (''committer '' @ Identity_String i @ '' '' @ formatTime t) d =
    Inr (d\<lparr>d_commit := d_commit d\<lparr>c_Committer := i, c_CommitTime := norm_time t\<rparr>, sawCommitter := True\<rparr>)"
  using Cut_append [of "CHR '' ''" "''version''" v] Cut_append [of "CHR '' ''" "''tree''" "hash_String h"]
    Cut_append [of "CHR '' ''" "''selector''" v] Cut_append [of "CHR '' ''" "''signature''" v]
    Cut_append [of "CHR '' ''" "''author''" "Identity_String i @ '' '' @ formatTime t"]
    Cut_append [of "CHR '' ''" "''committer''" "Identity_String i @ '' '' @ formatTime t"]
    parseIdentityLine_String [of i t]
  by (simp_all add: decode_header_def)

lemma decode_headers_upto_parents:
  "decode_headers (''version '' @ dec_int 1 @ [NL] @ ''tree '' @ hash_String (c_Tree c) @ [NL] @
      concat (map (\<lambda>p. ''parent '' @ hash_String p @ [NL]) (c_Parents c)) @ rest) d =
    decode_headers rest (d\<lparr>d_commit := d_commit d\<lparr>c_Tree := c_Tree c, c_Parents := c_Parents (d_commit d) @ c_Parents c\<rparr>,
      sawVersion := True, sawTree := True\<rparr>)"
proof -
  have "NL \<notin> set (''tree '' @ hash_String (c_Tree c))" using hash_String_chars [of NL "c_Tree c"] by auto
  then have tree: "decode_headers (''tree '' @ hash_String (c_Tree c) @ [NL] @ par) d = decode_headers par
      (d\<lparr>d_commit := d_commit d\<lparr>c_Tree := c_Tree c\<rparr>, sawTree := True\<rparr>)" for par d
    using decode_headers_line [of "''tree '' @ hash_String (c_Tree c)" par] decode_header_simple(2) [of "c_Tree c" d]
    by simp
  have "dec_int 1 = ''1''" by code_simp
  then have ver: "decode_headers (''version '' @ dec_int 1 @ [NL] @ rest) d = decode_headers rest (d\<lparr>sawVersion := True\<rparr>)" for rest d
    using decode_headers_line [of "''version '' @ dec_int 1" rest] ParseInt_dec_int [of 1] decode_header_simple(1) [of "''1''" d]
    by simp
  show ?thesis
    unfolding ver tree decode_headers_parents by (cases d) simp
qed

lemma TrimRight_newline:
  "TrimRight (m @ (if m \<noteq> [] \<and> \<not> HasSuffix m [NL] then [NL] else [])) NL = TrimRight m NL"
  by (simp add: TrimRight_def)

lemma DecodeCommit_commit_text:
  assumes "commit_ok c"
  shows "DecodeCommit (bytes_of (commit_text c)) = Inr (norm_commit c)"
proof -
  have ok: "identity_ok (c_Author c)" "identity_ok (c_Committer c)" "time_ok (c_AuthorTime c)"
    "time_ok (c_CommitTime c)" "NL \<notin> set (c_Selector c)" "NL \<notin> set (c_Signature c)"
    using assms by (simp_all add: commit_ok_def)
  let ?msg = "c_Message c @ (if c_Message c \<noteq> [] \<and> \<not> HasSuffix (c_Message c) [NL] then [NL] else [])"
  let ?sig = "(if c_Signature c \<noteq> [] then ''signature '' @ c_Signature c @ [NL] else []) @ [NL] @ ?msg"
  let ?sel = "(if c_Selector c \<noteq> [] then ''selector '' @ c_Selector c @ [NL] else []) @ ?sig"
  let ?com = "''committer '' @ Identity_String (c_Committer c) @ '' '' @ formatTime (c_CommitTime c) @ [NL] @ ?sel"
  let ?aut = "''author '' @ Identity_String (c_Author c) @ '' '' @ formatTime (c_AuthorTime c) @ [NL] @ ?com"
  have sig: "decode_headers ?sig d = Inr (if c_Signature c \<noteq> [] then d\<lparr>d_commit := d_commit d\<lparr>c_Signature := c_Signature c\<rparr>\<rparr> else d, ?msg)" for d
    using decode_headers_line [of "''signature '' @ c_Signature c"] decode_header_simple(4) [of "c_Signature c" d] ok(6)
    by (simp add: decode_headers_end)
  have sel: "decode_headers ?sel d = decode_headers ?sig (if c_Selector c \<noteq> [] then d\<lparr>d_commit := d_commit d\<lparr>c_Selector := c_Selector c\<rparr>\<rparr> else d)" for d
    using decode_headers_line [of "''selector '' @ c_Selector c"] decode_header_simple(3) [of "c_Selector c" d] ok(5)
    by simp
  have com: "decode_headers ?com d = decode_headers ?sel
      (d\<lparr>d_commit := d_commit d\<lparr>c_Committer := c_Committer c, c_CommitTime := norm_time (c_CommitTime c)\<rparr>, sawCommitter := True\<rparr>)" for d
    using decode_headers_line [of "''committer '' @ Identity_String (c_Committer c) @ '' '' @ formatTime (c_CommitTime c)" ?sel]
      decode_header_simple(6) [OF ok(2,4)] Identity_String_chars [OF ok(2)] formatTime_chars(1) [OF ok(4)] by simp
  have aut: "decode_headers ?aut d = decode_headers ?com
      (d\<lparr>d_commit := d_commit d\<lparr>c_Author := c_Author c, c_AuthorTime := norm_time (c_AuthorTime c)\<rparr>, sawAuthor := True\<rparr>)" for d
    using decode_headers_line [of "''author '' @ Identity_String (c_Author c) @ '' '' @ formatTime (c_AuthorTime c)" ?com]
      decode_header_simple(5) [OF ok(1,3)] Identity_String_chars [OF ok(1)] formatTime_chars(1) [OF ok(3)] by simp
  have whole: "commit_text c = ''version '' @ dec_int 1 @ [NL] @ ''tree '' @ hash_String (c_Tree c) @ [NL] @
      concat (map (\<lambda>p. ''parent '' @ hash_String p @ [NL]) (c_Parents c)) @ ?aut"
    by (simp only: commit_text_def append_assoc)
  show ?thesis
    unfolding DecodeCommit_def string_of_bytes_of whole decode_headers_upto_parents aut com sel sig
    using TrimRight_newline [of "c_Message c"]
    by (cases c) (simp add: decoder_start_def zero_commit_def norm_commit_def)
qed


section \<open>Properties\<close>

definition sample_id :: Identity where
  "sample_id = \<lparr>id_Name = ''Ann Lee'', id_Email = ''a@b''\<rparr>"

definition sample_commit :: Commit where
  "sample_commit = \<lparr>c_Tree = 7, c_Parents = [3], c_Author = sample_id, c_Committer = sample_id,
     c_AuthorTime = \<lparr>t_Unix = 9, t_Nsec = 5, t_Offset = -3600\<rparr>,
     c_CommitTime = \<lparr>t_Unix = 9, t_Nsec = 0, t_Offset = 0\<rparr>,
     c_Selector = [], c_Signature = ''ed25519 x'', c_Message = ''m''\<rparr>"



text \<open>
  The text format has no room for an identity without an email address: a commit
  whose author has none is encoded, but what was written cannot be decoded again.
\<close>

theorem commit_empty_email_unreadable:
  assumes "id_Email (c_Author c) = []" and "CHR ''<'' \<notin> set (id_Name (c_Author c))"
    and "NL \<notin> set (id_Name (c_Author c))" and "time_ok (c_AuthorTime c)"
  shows "DecodeCommit (obj_Payload (snd (Commit_Encode sha c))) = Inl ErrInvalidObject"
proof -
  let ?l = "''author '' @ Identity_String (c_Author c) @ '' '' @ formatTime (c_AuthorTime c)"
  have id: "Identity_String (c_Author c) = id_Name (c_Author c)"
    using assms(1) by (simp add: Identity_String_def)
  have "CHR ''<'' \<notin> set (Identity_String (c_Author c) @ '' '' @ formatTime (c_AuthorTime c))"
    using assms(2) formatTime_chars(2) [OF assms(4)] by (simp add: id)
  then have "parseIdentityLine (Identity_String (c_Author c) @ '' '' @ formatTime (c_AuthorTime c)) = None"
    by (simp add: parseIdentityLine_def LastIndexByte_None)
  then have "decode_header ?l d = Inl ErrInvalidObject" for d
    using Cut_append [of "CHR '' ''" "''author''" "Identity_String (c_Author c) @ '' '' @ formatTime (c_AuthorTime c)"]
    by (simp add: decode_header_def)
  then have "decode_headers (?l @ NL # rest) d = Inl ErrInvalidObject" for rest d
    using assms(3) formatTime_chars(1) [OF assms(4)] by (subst decode_headers_line) (auto simp: id)
  then show ?thesis
    unfolding Commit_Encode_def Encode_def commit_text_def
    using decode_headers_upto_parents [of c _ decoder_start]
    by (simp add: DecodeCommit_def)
qed

theorem commit_empty_email_unreadable_witness:
  "DecodeCommit (obj_Payload (snd (Commit_Encode sample_sha
      (sample_commit\<lparr>c_Author := \<lparr>id_Name = ''bot'', id_Email = []\<rparr>\<rparr>)))) = Inl ErrInvalidObject"
  by (rule commit_empty_email_unreadable) (simp_all add: sample_commit_def time_ok_def)

end
