(* ===== verification/RefsDB.thy ===== *)
theory RefsDB
  imports CommitCodec
begin

text \<open>
  pkg/refs: zones, branches, tags, HEAD, the reflog, the migration of a repository of the
  old single-zone layout, and the resolution of ref-ish strings.

  A method of \<open>DB\<close> takes the storage \<open>S\<close> and its state \<open>s\<close>; the object hash \<open>sha\<close> where it
  writes a symref.  The clock of \<open>AppendReflog\<close> is the argument \<open>now\<close>, in Unix seconds.
  An error that wraps none of the sentinel errors of pkg/store is an \<^const>\<open>ErrOther\<close>.
\<close>

section \<open>Names\<close>

abbreviation HeadRef :: string where "HeadRef \<equiv> ''HEAD''"
abbreviation BranchPrefix :: string where "BranchPrefix \<equiv> ''refs/heads/''"
abbreviation TagPrefix :: string where "TagPrefix \<equiv> ''refs/tags/''"
abbreviation ZoneMarkerPrefix :: string where "ZoneMarkerPrefix \<equiv> ''refs/zonegit/zones/''"
abbreviation LegacyZoneNameRef :: string where "LegacyZoneNameRef \<equiv> ''refs/zonegit/zone''"

definition CanonZone :: "string \<Rightarrow> string" where
  "CanonZone z =
     (let z = ToLower z in
      if z = [] then [] else if \<not> HasSuffix z ''.'' then z @ ''.'' else z)"

definition zoneSentinel :: Hash where
  "zoneSentinel = hash_of_bytes (bytes_of ''zonegit:zone:marker:v04'' @ replicate 9 0)"

definition decodeLegacyRefSlot :: "Hash \<Rightarrow> string" where
  "decodeLegacyRefSlot h =
     (let bs = hash_bytes h; n = unat (bs ! 0) in
      if n = 0 \<or> n > HashSize - 1 then [] else string_of (take n (drop 1 bs)))"

definition BranchRef :: "string \<Rightarrow> string \<Rightarrow> string" where
  "BranchRef zone branch = BranchPrefix @ CanonZone zone @ ''/'' @ branch"

definition TagRef :: "string \<Rightarrow> string \<Rightarrow> string" where
  "TagRef zone tag = TagPrefix @ CanonZone zone @ ''/'' @ tag"

definition parseBranchTarget :: "string \<Rightarrow> (string \<times> string) option" where
  "parseBranchTarget target =
     (if \<not> HasPrefix target BranchPrefix then None
      else
        let rest = drop (length BranchPrefix) target in
        (case LastIndexByte rest (CHR ''/'') of
           None \<Rightarrow> None
         | Some slash \<Rightarrow>
             if slash = 0 \<or> slash = length rest - 1 then None
             else Some (take slash rest, drop (slash + 1) rest)))"

section \<open>Branches and tags\<close>

definition CreateBranch :: "'s Storage \<Rightarrow> 's \<Rightarrow> string \<Rightarrow> string \<Rightarrow> Hash \<Rightarrow> 's \<times> (error + unit)" where
  "CreateBranch S s zone name commit = CASRef S s (BranchRef zone name) ZeroHash commit"

definition UpdateBranch :: "'s Storage \<Rightarrow> 's \<Rightarrow> string \<Rightarrow> string \<Rightarrow> Hash \<Rightarrow> Hash \<Rightarrow> 's \<times> (error + unit)" where
  "UpdateBranch S s zone name expected next_hash = CASRef S s (BranchRef zone name) expected next_hash"

definition DeleteBranch :: "'s Storage \<Rightarrow> 's \<Rightarrow> string \<Rightarrow> string \<Rightarrow> Hash \<Rightarrow> 's \<times> (error + unit)" where
  "DeleteBranch S s zone name expected = DeleteRef S s (BranchRef zone name) expected"

definition get_ref_or_absent :: "'s Storage \<Rightarrow> 's \<Rightarrow> string \<Rightarrow> error + Hash" where
  "get_ref_or_absent S s r =
     (case GetRef S s r of
        Inl e \<Rightarrow> Inl e
      | Inr None \<Rightarrow> Inl ErrNotFound
      | Inr (Some h) \<Rightarrow> Inr h)"

definition GetBranch :: "'s Storage \<Rightarrow> 's \<Rightarrow> string \<Rightarrow> string \<Rightarrow> error + Hash" where
  "GetBranch S s zone name = get_ref_or_absent S s (BranchRef zone name)"

definition list_names :: "'s Storage \<Rightarrow> 's \<Rightarrow> string \<Rightarrow> error + string list" where
  "list_names S s p =
     (case ListRefs S s p of
        Inl e \<Rightarrow> Inl e
      | Inr entries \<Rightarrow> Inr (sort (map (\<lambda>e. TrimPrefix (re_Name e) p) entries)))"

definition ListBranches :: "'s Storage \<Rightarrow> 's \<Rightarrow> string \<Rightarrow> error + string list" where
  "ListBranches S s zone = list_names S s (BranchPrefix @ CanonZone zone @ ''/'')"

definition CreateTag :: "'s Storage \<Rightarrow> 's \<Rightarrow> string \<Rightarrow> string \<Rightarrow> Hash \<Rightarrow> 's \<times> (error + unit)" where
  "CreateTag S s zone name target = CASRef S s (TagRef zone name) ZeroHash target"

definition GetTag :: "'s Storage \<Rightarrow> 's \<Rightarrow> string \<Rightarrow> string \<Rightarrow> error + Hash" where
  "GetTag S s zone name = get_ref_or_absent S s (TagRef zone name)"

definition ListTags :: "'s Storage \<Rightarrow> 's \<Rightarrow> string \<Rightarrow> error + string list" where
  "ListTags S s zone = list_names S s (TagPrefix @ CanonZone zone @ ''/'')"

definition DeleteTag :: "'s Storage \<Rightarrow> 's \<Rightarrow> string \<Rightarrow> string \<Rightarrow> Hash \<Rightarrow> 's \<times> (error + unit)" where
  "DeleteTag S s zone name expected = DeleteRef S s (TagRef zone name) expected"

section \<open>Zones\<close>

definition RegisterZone :: "'s Storage \<Rightarrow> 's \<Rightarrow> string \<Rightarrow> 's \<times> (error + unit)" where
  "RegisterZone S s zone =
     (let zone = CanonZone zone in
      if zone = [] then (s, Inl (ErrOther ''RegisterZone: empty name''))
      else
        let r = ZoneMarkerPrefix @ zone in
        case GetRef S s r of
          Inl e \<Rightarrow> (s, Inl e)
        | Inr (Some old) \<Rightarrow>
            if old = zoneSentinel then (s, Inr ())
            else (s, Inl (ErrOther ''RegisterZone: unexpected content''))
        | Inr None \<Rightarrow> CASRef S s r ZeroHash zoneSentinel)"

definition UnregisterZone :: "'s Storage \<Rightarrow> 's \<Rightarrow> string \<Rightarrow> bool \<Rightarrow> 's \<times> (error + unit)" where
  "UnregisterZone S s zone force =
     (let zone = CanonZone zone;
          del = DeleteRef S s (ZoneMarkerPrefix @ zone) zoneSentinel
      in if \<not> force then
           (case ListBranches S s zone of
              Inl e \<Rightarrow> (s, Inl e)
            | Inr bs \<Rightarrow>
                if length bs > 0 then (s, Inl (ErrOther ''UnregisterZone: zone has branches'')) else del)
         else del)"

definition ListZones :: "'s Storage \<Rightarrow> 's \<Rightarrow> error + string list" where
  "ListZones S s = list_names S s ZoneMarkerPrefix"

definition IsZoneRegistered :: "'s Storage \<Rightarrow> 's \<Rightarrow> string \<Rightarrow> error + bool" where
  "IsZoneRegistered S s zone =
     (case GetRef S s (ZoneMarkerPrefix @ CanonZone zone) of
        Inl e \<Rightarrow> Inl e
      | Inr r \<Rightarrow> Inr (r \<noteq> None))"

section \<open>HEAD\<close>

definition writeSymref :: "'s Storage \<Rightarrow> (bytes \<Rightarrow> Hash) \<Rightarrow> 's \<Rightarrow> string \<Rightarrow> 's \<times> (error + Hash)" where
  "writeSymref S sha s target =
     (case Encode sha KindSymref (bytes_of target) of (h, obj) \<Rightarrow>
        (case PutObject S s h obj of
           (s', Inl e) \<Rightarrow> (s', Inl e)
         | (s', Inr _) \<Rightarrow> (s', Inr h)))"

definition readSymref :: "'s Storage \<Rightarrow> 's \<Rightarrow> Hash \<Rightarrow> error + string" where
  "readSymref S s h =
     (let r = GetObject S s h;
          symref = (case r of Inl e \<Rightarrow> None
            | Inr obj \<Rightarrow> if obj_Kind obj = KindSymref then Some (string_of (obj_Payload obj)) else None)
      in case symref of
           Some target \<Rightarrow> Inr target
         | None \<Rightarrow>
             let t = decodeLegacyRefSlot h in
             if t \<noteq> [] then Inr t
             else case r of
               Inl e \<Rightarrow> Inl e
             | Inr obj \<Rightarrow> Inl (ErrOther ''symref load: unexpected kind''))"

definition ReadHEAD :: "'s Storage \<Rightarrow> 's \<Rightarrow> error + string \<times> string \<times> Hash" where
  "ReadHEAD S s =
     (case GetRef S s HeadRef of
        Inl e \<Rightarrow> Inl e
      | Inr None \<Rightarrow> Inl ErrNotFound
      | Inr (Some headRef) \<Rightarrow>
          (case readSymref S s headRef of
             Inl e \<Rightarrow> Inl e
           | Inr target \<Rightarrow>
               (case parseBranchTarget target of
                  None \<Rightarrow> Inl (ErrOther ''read HEAD: target is not a branch'')
                | Some (zone, branch) \<Rightarrow>
                    (case GetRef S s target of
                       Inl e \<Rightarrow> Inl e
                     | Inr None \<Rightarrow> Inr (zone, branch, ZeroHash)
                     | Inr (Some commit) \<Rightarrow> Inr (zone, branch, commit)))))"

definition SetHEAD :: "'s Storage \<Rightarrow> (bytes \<Rightarrow> Hash) \<Rightarrow> 's \<Rightarrow> string \<Rightarrow> string \<Rightarrow> 's \<times> (error + unit)" where
  "SetHEAD S sha s zone branch =
     (let target = BranchPrefix @ CanonZone zone @ ''/'' @ branch in
      case writeSymref S sha s target of
        (s1, Inl e) \<Rightarrow> (s1, Inl e)
      | (s1, Inr newH) \<Rightarrow>
          (case GetRef S s1 HeadRef of
             Inl e \<Rightarrow> (s1, Inl e)
           | Inr None \<Rightarrow> CASRef S s1 HeadRef ZeroHash newH
           | Inr (Some old) \<Rightarrow> CASRef S s1 HeadRef old newH))"

section \<open>Reflog\<close>

definition db_AppendReflog :: "'s Storage \<Rightarrow> 's \<Rightarrow> int \<Rightarrow> string \<Rightarrow> Hash \<Rightarrow> Hash \<Rightarrow> string \<Rightarrow> string \<Rightarrow> string \<Rightarrow>
    's \<times> (error + unit)" where
  "db_AppendReflog S s now r old new who op msg =
     AppendReflog S s r \<lparr>rl_Old = old, rl_New = new, rl_Author = who, rl_UnixTime = now,
       rl_TZOffset = 0, rl_Op = op, rl_Message = msg\<rparr>"

definition db_ReadReflog :: "'s Storage \<Rightarrow> 's \<Rightarrow> string \<Rightarrow> error + ReflogEntry list" where
  "db_ReadReflog S s r = ReadReflog S s r"

section \<open>The migration of the single-zone layout\<close>

definition IsLegacyV03 :: "'s Storage \<Rightarrow> 's \<Rightarrow> error + bool \<times> string" where
  "IsLegacyV03 S s =
     (case GetRef S s LegacyZoneNameRef of
        Inl e \<Rightarrow> Inl e
      | Inr None \<Rightarrow> Inr (False, [])
      | Inr (Some h) \<Rightarrow>
          (case ListZones S s of
             Inl e \<Rightarrow> Inl e
           | Inr zones \<Rightarrow>
               if length zones > 0 then Inr (False, []) else Inr (True, decodeLegacyRefSlot h)))"

text \<open>
  The loop of step 2 (branches) and of step 3 (tags): \<open>p\<close> is the prefix, \<open>newRef\<close> the name
  of a ref in the new layout.
\<close>

fun migrate_refs :: "'s Storage \<Rightarrow> string \<Rightarrow> (string \<Rightarrow> string) \<Rightarrow> RefEntry list \<Rightarrow> 's \<Rightarrow> 's \<times> (error + unit)" where
  "migrate_refs S p newRef [] s = (s, Inr ())"
| "migrate_refs S p newRef (e # es) s =
     (let rest = TrimPrefix (re_Name e) p in
      if CHR ''/'' \<in> set rest then migrate_refs S p newRef es s
      else case CASRef S s (newRef rest) ZeroHash (re_Hash e) of
        (s1, Inl er) \<Rightarrow> (s1, Inl er)
      | (s1, Inr _) \<Rightarrow>
          (case DeleteRef S s1 (re_Name e) (re_Hash e) of
             (s2, Inl er) \<Rightarrow> (s2, Inl er)
           | (s2, Inr _) \<Rightarrow> migrate_refs S p newRef es s2))"

definition legacy_head_branch :: "'s Storage \<Rightarrow> 's \<Rightarrow> string" where
  "legacy_head_branch S s =
     (case GetRef S s HeadRef of
        Inr (Some headSlot) \<Rightarrow>
          (let rest = TrimPrefix (decodeLegacyRefSlot headSlot) BranchPrefix in
           if rest \<noteq> [] \<and> CHR ''/'' \<notin> set rest then rest else ''main'')
      | _ \<Rightarrow> ''main'')"

definition migrate_prefix :: "'s Storage \<Rightarrow> string \<Rightarrow> (string \<Rightarrow> string) \<Rightarrow> 's \<Rightarrow> 's \<times> (error + unit)" where
  "migrate_prefix S p newRef s =
     (case ListRefs S s p of
        Inl e \<Rightarrow> (s, Inl e)
      | Inr entries \<Rightarrow> migrate_refs S p newRef entries s)"

definition delete_legacy_marker :: "'s Storage \<Rightarrow> 's \<Rightarrow> 's" where
  "delete_legacy_marker S s =
     (case GetRef S s LegacyZoneNameRef of
        Inr (Some h) \<Rightarrow> fst (DeleteRef S s LegacyZoneNameRef h)
      | _ \<Rightarrow> s)"

definition MigrateLegacyV03 :: "'s Storage \<Rightarrow> (bytes \<Rightarrow> Hash) \<Rightarrow> 's \<Rightarrow> 's \<times> (error + bool \<times> string)" where
  "MigrateLegacyV03 S sha s =
     (case IsLegacyV03 S s of
        Inl e \<Rightarrow> (s, Inl e)
      | Inr (legacy, zoneName) \<Rightarrow>
          if \<not> legacy then (s, Inr (False, []))
          else
            let zoneName = CanonZone zoneName in
            if zoneName = [] then (s, Inl (ErrOther ''legacy zone marker present but empty''))
            else
              let headBranch = legacy_head_branch S s in
              (case RegisterZone S s zoneName of
                 (s1, Inl e) \<Rightarrow> (s1, Inl e)
               | (s1, Inr _) \<Rightarrow>
                   (case migrate_prefix S BranchPrefix (BranchRef zoneName) s1 of
                      (s2, Inl e) \<Rightarrow> (s2, Inl e)
                    | (s2, Inr _) \<Rightarrow>
                        (case migrate_prefix S TagPrefix (TagRef zoneName) s2 of
                           (s3, Inl e) \<Rightarrow> (s3, Inl e)
                         | (s3, Inr _) \<Rightarrow>
                             (case SetHEAD S sha s3 zoneName headBranch of
                                (s4, Inl e) \<Rightarrow> (s4, Inl e)
                              | (s4, Inr _) \<Rightarrow> (delete_legacy_marker S s4, Inr (True, zoneName)))))))"

section \<open>Ref-ish strings\<close>

definition splitAncestor :: "string \<Rightarrow> string \<times> nat" where
  "splitAncestor s =
     (case LastIndexByte s (CHR ''~'') of
        None \<Rightarrow> (s, 0)
      | Some idx \<Rightarrow>
          let base = take idx s; nStr = drop (idx + 1) s in
          if nStr = [] then (base, 1)
          else case ParseInt nStr of
            None \<Rightarrow> (s, 0)
          | Some n \<Rightarrow> if n < 0 then (s, 0) else (base, nat n))"

definition resolve_bare :: "'s Storage \<Rightarrow> 's \<Rightarrow> string \<Rightarrow> string \<Rightarrow> error + Hash option" where
  "resolve_bare S s zone name =
     (case GetRef S s (BranchRef zone name) of
        Inl e \<Rightarrow> Inl e
      | Inr (Some h) \<Rightarrow> Inr (Some h)
      | Inr None \<Rightarrow> GetRef S s (TagRef zone name))"

definition resolveBase :: "'s Storage \<Rightarrow> 's \<Rightarrow> string \<Rightarrow> string \<Rightarrow> error + Hash" where
  "resolveBase S s base zoneOverride =
     (if length base = 2 * HashSize then ParseHash base
      else if base = HeadRef then
        (case ReadHEAD S s of
           Inl e \<Rightarrow> Inl e
         | Inr (_, _, commit) \<Rightarrow>
             if IsZero commit then Inl (ErrOther ''HEAD: orphan branch (no commits)'') else Inr commit)
      else if HasPrefix base ''refs/'' then get_ref_or_absent S s base
      else
        let qualified =
          (case LastIndexByte base (CHR ''/'') of
             None \<Rightarrow> Inr None
           | Some slash \<Rightarrow>
               if slash = 0 then Inr None
               else resolve_bare S s (take slash base) (drop (slash + 1) base))
        in case qualified of
             Inl e \<Rightarrow> Inl e
           | Inr (Some h) \<Rightarrow> Inr h
           | Inr None \<Rightarrow>
               (case (if zoneOverride = [] then
                        (case ReadHEAD S s of Inl e \<Rightarrow> Inl e | Inr (z, _, _) \<Rightarrow> Inr z)
                      else Inr zoneOverride) of
                  Inl e \<Rightarrow> Inl e
                | Inr zone \<Rightarrow>
                    (case resolve_bare S s zone base of
                       Inl e \<Rightarrow> Inl e
                     | Inr (Some h) \<Rightarrow> Inr h
                     | Inr None \<Rightarrow> Inl ErrNotFound)))"

text \<open>
  The walk along first parents.  \<open>Resolve\<close> checks the kind of every object it passes
  (\<open>check\<close>), \<open>ResolveInZone\<close> does not.
\<close>

fun walk_parents :: "'s Storage \<Rightarrow> 's \<Rightarrow> bool \<Rightarrow> nat \<Rightarrow> Hash \<Rightarrow> error + Hash" where
  "walk_parents S s check 0 h = Inr h"
| "walk_parents S s check (Suc n) h =
     (case GetObject S s h of
        Inl e \<Rightarrow> Inl e
      | Inr obj \<Rightarrow>
          if check \<and> obj_Kind obj \<noteq> KindCommit then Inl (ErrOther ''resolve: expected commit'')
          else case DecodeCommit (obj_Payload obj) of
            Inl e \<Rightarrow> Inl e
          | Inr c \<Rightarrow>
              (case c_Parents c of
                 [] \<Rightarrow> Inl (ErrOther ''resolve: no parent'')
               | p # _ \<Rightarrow> walk_parents S s check n p))"

definition Resolve :: "'s Storage \<Rightarrow> 's \<Rightarrow> string \<Rightarrow> error + Hash" where
  "Resolve S s refish =
     (case splitAncestor refish of (base, ancestor) \<Rightarrow>
        (case resolveBase S s base [] of
           Inl e \<Rightarrow> Inl e
         | Inr h \<Rightarrow> walk_parents S s True ancestor h))"

definition ResolveInZone :: "'s Storage \<Rightarrow> 's \<Rightarrow> string \<Rightarrow> string \<Rightarrow> error + Hash" where
  "ResolveInZone S s zone refish =
     (case splitAncestor refish of (base, ancestor) \<Rightarrow>
        (case resolveBase S s base (CanonZone zone) of
           Inl e \<Rightarrow> Inl e
         | Inr h \<Rightarrow> walk_parents S s False ancestor h))"

section \<open>Names of refs\<close>

lemma lower_char_idem [simp]: "lower_char (lower_char c) = lower_char c"
proof (cases "CHR ''A'' \<le> c \<and> c \<le> CHR ''Z''")
  case True
  then have "of_char c \<in> {65..<91 :: nat}"
    by (auto simp: less_eq_char_def)
  then have "of_char (char_of (of_char c + 32 :: nat)) = (of_char c + 32 :: nat)" by simp
  then have "\<not> char_of (of_char c + 32 :: nat) \<le> CHR ''Z''"
    using True by (simp add: less_eq_char_def)
  then have "lower_char (char_of (of_char c + 32 :: nat)) = char_of (of_char c + 32 :: nat)"
    by (simp add: lower_char_def)
  with True show ?thesis by (simp add: lower_char_def [of c])
next
  case False
  then have "lower_char c = c" by (auto simp: lower_char_def)
  then show ?thesis by simp
qed

lemma ToLower_idem [simp]: "ToLower (ToLower s) = ToLower s"
  by (simp add: ToLower_def)

lemma ToLower_Nil [simp]: "ToLower s = [] \<longleftrightarrow> s = []"
  by (simp add: ToLower_def)

lemma ToLower_dot [simp]: "ToLower (s @ ''.'') = ToLower s @ ''.''"
  by (simp add: ToLower_def lower_char_def)

lemma CanonZone_idem [simp]: "CanonZone (CanonZone z) = CanonZone z"
  by (auto simp: CanonZone_def Let_def HasSuffix_def)

lemma CanonZone_Nil [simp]: "CanonZone z = [] \<longleftrightarrow> z = []"
  by (simp add: CanonZone_def Let_def)

lemma last_sep_inject:
  assumes "xs @ c # ys = xs' @ c # ys'" and "c \<notin> set ys" and "c \<notin> set ys'"
  shows "xs = xs' \<and> ys = ys'"
proof -
  have "rev ys @ c # rev xs = rev ys' @ c # rev xs'"
    using arg_cong [OF assms(1), of rev] by simp
  from append_sep_inject [OF this] assms(2,3) show ?thesis by simp
qed

lemma BranchRef_inject:
  assumes "BranchRef z b = BranchRef z' b'" and "CHR ''/'' \<notin> set b" and "CHR ''/'' \<notin> set b'"
  shows "CanonZone z = CanonZone z' \<and> b = b'"
  using assms by (auto simp: BranchRef_def dest: last_sep_inject)

lemma BranchRef_simps [simp]:
  "BranchRef z b \<noteq> HeadRef" "BranchRef (CanonZone z) b = BranchRef z b" "BranchRef z b \<noteq> TagRef z' t"
  "BranchRef z b = BranchRef z b' \<longleftrightarrow> b = b'"
  by (simp_all add: BranchRef_def TagRef_def)

lemma parseBranchTarget_BranchRef:
  assumes "CHR ''/'' \<notin> set b" and "b \<noteq> []" and "z \<noteq> []"
  shows "parseBranchTarget (BranchRef z b) = Some (CanonZone z, b)"
proof -
  have "LastIndexByte (CanonZone z @ CHR ''/'' # b) (CHR ''/'') = Some (length (CanonZone z))"
    using assms(1) by (rule LastIndexByte_append)
  moreover have "length (CanonZone z) \<noteq> 0" using assms(3) by simp
  ultimately show ?thesis
    using assms(2) by (simp add: parseBranchTarget_def BranchRef_def HasPrefix_def)
qed

lemma parseBranchTarget_last_slash:
  assumes "CHR ''/'' \<notin> set b" and "b \<noteq> []"
  shows "parseBranchTarget (BranchRef z (a @ ''/'' @ b)) = Some (CanonZone z @ ''/'' @ a, b)"
proof -
  have "LastIndexByte ((CanonZone z @ ''/'' @ a) @ CHR ''/'' # b) (CHR ''/'') = Some (length (CanonZone z @ ''/'' @ a))"
    using assms(1) by (rule LastIndexByte_append)
  then show ?thesis
    using assms(2) by (simp add: parseBranchTarget_def BranchRef_def HasPrefix_def)
qed

lemma zoneSentinel_nonzero [simp]: "zoneSentinel \<noteq> 0"
  by code_simp

section \<open>Operations on refs under the contract of a backend\<close>

context storage
begin

lemma list_names_spec:
  "\<exists>ns. list_names S s p = Inr ns \<and> sorted ns \<and> distinct ns \<and> set ns = {n. ref s (p @ n) \<noteq> None}"
proof -
  obtain es where es: "ListRefs S s p = Inr es" "sorted_wrt (<) (map re_Name es)"
    "set (map (\<lambda>r. (re_Name r, re_Hash r)) es) = {(n, h). ref s n = Some h \<and> HasPrefix n p}"
    using list_refs by blast
  define ns where "ns = map (\<lambda>e. TrimPrefix (re_Name e) p) es"
  have pre: "\<exists>n. re_Name e = p @ n" if "e \<in> set es" for e
  proof -
    have "(re_Name e, re_Hash e) \<in> set (map (\<lambda>r. (re_Name r, re_Hash r)) es)" using that by auto
    then show ?thesis unfolding es(3) by (auto simp: HasPrefix_def prefix_def)
  qed
  then have "re_Name e = p @ TrimPrefix (re_Name e) p" if "e \<in> set es" for e
    using that by (fastforce simp: TrimPrefix_def HasPrefix_def)
  then have "map re_Name es = map (\<lambda>n. p @ n) ns"
    by (simp add: ns_def)
  moreover have "distinct (map re_Name es)" using es(2) by (simp add: strict_sorted_iff)
  ultimately have dist: "distinct ns" by (metis distinct_map)
  have "n \<in> set ns \<longleftrightarrow> ref s (p @ n) \<noteq> None" for n
  proof -
    have "n \<in> set ns \<longleftrightarrow> p @ n \<in> set (map re_Name es)"
      unfolding \<open>map re_Name es = map (\<lambda>n. p @ n) ns\<close> by auto
    also have "\<dots> \<longleftrightarrow> (\<exists>h. (p @ n, h) \<in> set (map (\<lambda>r. (re_Name r, re_Hash r)) es))" by force
    also have "\<dots> \<longleftrightarrow> ref s (p @ n) \<noteq> None" unfolding es(3) by (auto simp: HasPrefix_def)
    finally show ?thesis .
  qed
  with dist es(1) show ?thesis
    by (intro exI [of _ "sort ns"]) (auto simp: list_names_def ns_def)
qed

lemma writeSymref_spec:
  "\<exists>s1. writeSymref S sha s t = (s1, Inr (HashOf sha KindSymref (bytes_of t))) \<and> ref s1 = ref s \<and> log s1 = log s \<and>
    hist s1 = insert (HashOf sha KindSymref (bytes_of t), \<lparr>obj_Kind = KindSymref, obj_Payload = bytes_of t\<rparr>) (hist s)"
proof -
  let ?obj = "\<lparr>obj_Kind = KindSymref, obj_Payload = bytes_of t\<rparr>"
  let ?h = "HashOf sha KindSymref (bytes_of t)"
  define s1 where "s1 = fst (PutObject S s ?h ?obj)"
  have put: "PutObject S s ?h ?obj = (s1, Inr ())"
    using put_total by (simp add: s1_def prod_eq_iff)
  then have "ref s1 = ref s" "log s1 = log s" "hist s1 = insert (?h, ?obj) (hist s)"
    using put_ref put_log put_ok by (simp_all add: s1_def)
  with put show ?thesis
    by (intro exI [of _ s1]) (simp add: writeSymref_def Encode_def)
qed

text \<open>The new HEAD is stored unless its hash is zero; nothing but HEAD and one object changes.\<close>

lemma SetHEAD_spec:
  assumes "HashOf sha KindSymref (bytes_of (BranchRef z b)) \<noteq> ZeroHash"
  shows "\<exists>s'. SetHEAD S sha s z b = (s', Inr ()) \<and>
    ref s' = (ref s)(HeadRef \<mapsto> HashOf sha KindSymref (bytes_of (BranchRef z b))) \<and> log s' = log s \<and>
    hist s' = insert (HashOf sha KindSymref (bytes_of (BranchRef z b)),
      \<lparr>obj_Kind = KindSymref, obj_Payload = bytes_of (BranchRef z b)\<rparr>) (hist s)"
proof -
  let ?h = "HashOf sha KindSymref (bytes_of (BranchRef z b))"
  obtain s1 where s1: "writeSymref S sha s (BranchRef z b) = (s1, Inr ?h)" "ref s1 = ref s" "log s1 = log s"
    "hist s1 = insert (?h, \<lparr>obj_Kind = KindSymref, obj_Payload = bytes_of (BranchRef z b)\<rparr>) (hist s)"
    using writeSymref_spec by blast
  define e where "e = (case ref s HeadRef of None \<Rightarrow> ZeroHash | Some old \<Rightarrow> old)"
  have set: "SetHEAD S sha s z b = CASRef S s1 HeadRef e ?h"
    using s1(1,2) by (auto simp: SetHEAD_def BranchRef_def Let_def get_ref e_def split: option.splits)
  have "cas_guard (ref s1 HeadRef) e" by (auto simp: s1 e_def cas_guard_def split: option.splits)
  then have "snd (CASRef S s1 HeadRef e ?h) = Inr ()" "ref (fst (CASRef S s1 HeadRef e ?h)) = (ref s)(HeadRef \<mapsto> ?h)"
    using assms s1 by (simp_all add: cas_result cas_ref)
  with set s1 show ?thesis
    by (intro exI [of _ "fst (CASRef S s1 HeadRef e ?h)"]) (auto simp: cas_log cas_hist prod_eq_iff)
qed

lemma ReadHEAD_symref:
  assumes "ref s HeadRef = Some h" and "(h, \<lparr>obj_Kind = KindSymref, obj_Payload = bytes_of t\<rparr>) \<in> hist s"
    and "single_valued (hist s)" and "parseBranchTarget t = Some (z, b)"
  shows "ReadHEAD S s = Inr (z, b, case ref s t of None \<Rightarrow> ZeroHash | Some c \<Rightarrow> c)"
  using assms get_present [OF assms(2,3)]
  by (simp add: ReadHEAD_def readSymref_def get_ref split: option.splits)

lemma ReadHEAD_SetHEAD_target:
  assumes "SetHEAD S sha s z b = (s', Inr ())" and "healthy (hist s')"
    and "parseBranchTarget (BranchRef z b) = Some (z', b')"
  shows "ReadHEAD S s' = Inr (z', b', case ref s (BranchRef z b) of None \<Rightarrow> ZeroHash | Some c \<Rightarrow> c)"
proof -
  let ?h = "HashOf sha KindSymref (bytes_of (BranchRef z b))"
  let ?obj = "\<lparr>obj_Kind = KindSymref, obj_Payload = bytes_of (BranchRef z b)\<rparr>"
  obtain s1 where s1: "writeSymref S sha s (BranchRef z b) = (s1, Inr ?h)" "hist s1 = insert (?h, ?obj) (hist s)"
    using writeSymref_spec by blast
  then have "\<exists>e. CASRef S s1 HeadRef e ?h = (s', Inr ())"
    using assms(1) by (auto simp: SetHEAD_def BranchRef_def Let_def get_ref split: option.splits)
  then have "hist s' = hist s1" using cas_hist by (metis fst_conv)
  then have mem: "(?h, ?obj) \<in> hist s'" using s1 by simp
  with assms(2) have "?h \<noteq> ZeroHash" by (auto simp: healthy_def)
  from SetHEAD_spec [OF this, of s] assms(1)
  have "ref s' = (ref s)(HeadRef \<mapsto> ?h)" by auto
  with ReadHEAD_symref [of s' ?h "BranchRef z b"] mem assms(2) assms(3)
  show ?thesis by (simp add: healthy_def)
qed

lemma ReadHEAD_SetHEAD:
  assumes "SetHEAD S sha s z b = (s', Inr ())" and "healthy (hist s')"
    and "CHR ''/'' \<notin> set b" and "b \<noteq> []" and "z \<noteq> []"
  shows "ReadHEAD S s' = Inr (CanonZone z, b, case ref s (BranchRef z b) of None \<Rightarrow> ZeroHash | Some c \<Rightarrow> c)"
  by (rule ReadHEAD_SetHEAD_target [OF assms(1,2) parseBranchTarget_BranchRef [OF assms(3-5)]])

end

section \<open>The walk along first parents\<close>

definition first_parent :: "'s Storage \<Rightarrow> 's \<Rightarrow> (Hash \<times> Hash) set" where
  "first_parent S s = {(h, p). \<exists>obj c ps. GetObject S s h = Inr obj \<and> obj_Kind obj = KindCommit \<and>
     DecodeCommit (obj_Payload obj) = Inr c \<and> c_Parents c = p # ps}"

lemma walk_parents_iff: "walk_parents S s True n h = Inr p \<longleftrightarrow> (h, p) \<in> first_parent S s ^^ n"
proof (induction n arbitrary: h)
  case (Suc n)
  have "walk_parents S s True (Suc n) h = Inr p \<longleftrightarrow>
      (\<exists>q. (h, q) \<in> first_parent S s \<and> walk_parents S s True n q = Inr p)"
    by (auto simp: first_parent_def split: sum.splits list.splits)
  also have "\<dots> \<longleftrightarrow> (h, p) \<in> first_parent S s ^^ Suc n"
    by (auto simp: Suc relpow_commute [symmetric])
  finally show ?case .
qed auto

lemma splitAncestor_dec [codec]: "n < 2 ^ 63 \<Longrightarrow> splitAncestor (base @ ''~'' @ dec_nat n) = (base, n)"
proof -
  assume n: "n < 2 ^ 63"
  have "CHR ''~'' \<notin> set (dec_nat n)"
    using dec_nat_digits [of n] by (auto simp: list_all_iff is_digit_def)
  then have "LastIndexByte (base @ CHR ''~'' # dec_nat n) (CHR ''~'') = Some (length base)"
    by (rule LastIndexByte_append)
  moreover have "ParseInt (dec_nat n) = Some (int n)"
    using ParseInt_digits [of "dec_nat n"] dec_nat_digits [of n] n by (simp add: digits_val_dec_nat)
  ultimately show ?thesis by (simp add: splitAncestor_def)
qed

lemma splitAncestor_plain: "CHR ''~'' \<notin> set s \<Longrightarrow> splitAncestor s = (s, 0)"
  by (simp add: splitAncestor_def LastIndexByte_None)

section \<open>Properties\<close>

definition sample_head :: "MemStore \<times> (error + unit)" where
  "sample_head = SetHEAD memstore sample_sha New ''Foo.com'' ''main''"

definition sample_slash_head :: "MemStore \<times> (error + unit)" where
  "sample_slash_head = SetHEAD memstore sample_sha New ''foo.com'' ''feature/x''"

lemma sample_heads:
  "sample_head = (fst sample_head, Inr ())" "healthy (mem_hist (fst sample_head))"
  "sample_slash_head = (fst sample_slash_head, Inr ())" "healthy (mem_hist (fst sample_slash_head))"
  by (rule prod_eqI, simp, code_simp, code_simp, rule prod_eqI, simp, code_simp, code_simp)

text \<open>
  C40: reading HEAD after setting it gives the zone in canonical form, the branch, and the
  commit the branch points to, the zero hash when the branch has no commit yet; for
  every branch name without a slash.
\<close>

theorem head_roundtrip:
  assumes "SetHEAD memstore sha s zone branch = (s', Inr ())" and "healthy (mem_hist s')"
    and "CHR ''/'' \<notin> set branch" and "branch \<noteq> []" and "zone \<noteq> []"
  shows "ReadHEAD memstore s' = Inr (CanonZone zone, branch,
    case mem_ref s (BranchRef zone branch) of None \<Rightarrow> ZeroHash | Some c \<Rightarrow> c)"
  using assms by (rule mem.ReadHEAD_SetHEAD)

theorem head_roundtrip_witness:
  "ReadHEAD memstore (fst sample_head) = Inr (''foo.com.'', ''main'', ZeroHash)"
proof -
  have "CanonZone ''Foo.com'' = ''foo.com.''" by code_simp
  moreover have "mem_ref New r = None" for r by (simp add: mem_ref_def New_def)
  ultimately show ?thesis
    using head_roundtrip [of sample_sha New "''Foo.com''" "''main''" "fst sample_head"] sample_heads(1,2)
    by (simp add: sample_head_def [symmetric])
qed

text \<open>
  A branch name with a slash is accepted by \<open>SetHEAD\<close> but read back as another zone:
  everything up to the last slash is taken for the zone.
\<close>

theorem head_slash_misread:
  assumes "SetHEAD memstore sha s zone (a @ ''/'' @ b) = (s', Inr ())" and "healthy (mem_hist s')"
    and "CHR ''/'' \<notin> set b" and "b \<noteq> []"
  shows "\<exists>commit. ReadHEAD memstore s' = Inr (CanonZone zone @ ''/'' @ a, b, commit)"
  using mem.ReadHEAD_SetHEAD_target [OF assms(1,2) parseBranchTarget_last_slash [OF assms(3,4)]] by blast

theorem head_slash_misread_witness:
  "\<exists>commit. ReadHEAD memstore (fst sample_slash_head) = Inr (''foo.com./feature'', ''x'', commit)"
proof -
  have "CanonZone ''foo.com'' = ''foo.com.''" by code_simp
  with head_slash_misread [of sample_sha New "''foo.com''" "''feature''" "''x''" "fst sample_slash_head"] sample_heads(3,4)
  show ?thesis by (simp add: sample_slash_head_def [symmetric])
qed

text \<open>
  The listing of a zone's branches is sorted, names every branch once, and names
  exactly the branches that \<open>GetBranch\<close> finds.
\<close>

theorem branches_listed:
  "\<exists>ns. ListBranches memstore s zone = Inr ns \<and> sorted ns \<and> distinct ns \<and>
    (\<forall>b. b \<in> set ns \<longleftrightarrow> (\<exists>h. GetBranch memstore s zone b = Inr h))"
proof -
  obtain ns where ns: "list_names memstore s (BranchPrefix @ CanonZone zone @ ''/'') = Inr ns" "sorted ns" "distinct ns"
    "set ns = {n. mem_ref s ((BranchPrefix @ CanonZone zone @ ''/'') @ n) \<noteq> None}"
    using mem.list_names_spec by blast
  have "GetBranch memstore s zone b = (case mem_ref s (BranchRef zone b) of None \<Rightarrow> Inl ErrNotFound | Some h \<Rightarrow> Inr h)" for b
    by (simp add: GetBranch_def get_ref_or_absent_def mem.get_ref split: option.splits)
  with ns show ?thesis
    by (intro exI [of _ ns]) (auto simp: ListBranches_def BranchRef_def split: option.splits)
qed

text \<open>
  The branches of different names are independent: moving one branch changes what
  \<open>GetBranch\<close> gives for it, and for no other branch of any zone.
\<close>

theorem branch_update_frame:
  assumes "UpdateBranch memstore s zone name expected next_hash = (s', Inr ())"
    and "CHR ''/'' \<notin> set name" and "CHR ''/'' \<notin> set name'"
  shows "GetBranch memstore s' zone' name' =
    (if CanonZone zone' = CanonZone zone \<and> name' = name then Inr next_hash else GetBranch memstore s zone' name')"
proof -
  have "next_hash \<noteq> 0" "cas_guard (mem_ref s (BranchRef zone name)) expected"
    using assms(1) mem.cas_result [of s "BranchRef zone name" expected next_hash]
    by (auto simp: UpdateBranch_def split: if_splits)
  then have "mem_ref s' = (mem_ref s)(BranchRef zone name \<mapsto> next_hash)"
    using assms(1) mem.cas_ref [of s "BranchRef zone name" expected next_hash] by (simp add: UpdateBranch_def)
  moreover have "BranchRef zone' name' = BranchRef zone name \<longleftrightarrow> CanonZone zone' = CanonZone zone \<and> name' = name"
    using BranchRef_inject [OF _ assms(3,2)] by (auto simp: BranchRef_def)
  ultimately show ?thesis
    by (simp add: GetBranch_def get_ref_or_absent_def mem.get_ref)
qed

theorem branch_update_frame_witness:
  "GetBranch memstore (fst (UpdateBranch memstore New ''a'' ''m'' 0 5)) ''a'' ''m'' = Inr 5 \<and>
   GetBranch memstore (fst (UpdateBranch memstore New ''a'' ''m'' 0 5)) ''a'' ''n'' = Inl ErrNotFound"
proof -
  let ?s = "fst (UpdateBranch memstore New ''a'' ''m'' 0 5)"
  have "snd (UpdateBranch memstore New ''a'' ''m'' 0 5) = Inr ()"
    and none: "GetBranch memstore New ''a'' ''n'' = Inl ErrNotFound" by code_simp+
  then have upd: "UpdateBranch memstore New ''a'' ''m'' 0 5 = (?s, Inr ())" by (simp add: prod_eq_iff)
  show ?thesis
    using branch_update_frame [OF upd, of "''m''" "''a''"] branch_update_frame [OF upd, of "''n''" "''a''"] none by simp
qed

text \<open>
  \<open>base~N\<close> resolves to the commit reached from the one \<open>base\<close> names by N steps to the
  first parent, and to nothing else.
\<close>

theorem resolve_ancestor:
  assumes "n < 2 ^ 63"
  shows "Resolve S s (base @ ''~'' @ dec_nat n) = Inr p \<longleftrightarrow>
    (\<exists>h. resolveBase S s base [] = Inr h \<and> (h, p) \<in> first_parent S s ^^ n)"
  unfolding Resolve_def splitAncestor_dec [OF assms]
  by (simp add: walk_parents_iff split: sum.splits)

theorem resolve_ancestor_witness:
  "Resolve memstore (New\<lparr>ms_refs := [(''refs/heads/m'', 5)]\<rparr>) ''refs/heads/m~0'' = Inr 5"
proof -
  have "resolveBase memstore (New\<lparr>ms_refs := [(''refs/heads/m'', 5)]\<rparr>) ''refs/heads/m'' [] = Inr 5"
    and "dec_nat 0 = ''0''" by code_simp+
  then show ?thesis
    using resolve_ancestor [of 0 memstore "New\<lparr>ms_refs := [(''refs/heads/m'', 5)]\<rparr>" "''refs/heads/m''" 5] by simp
qed

end
