(* ===== verification/RefsMigration.thy ===== *)
theory RefsMigration
  imports RefsDB
begin

text \<open>
  The migration of pkg/refs from the single-zone layout: a complete run moves every
  branch and tag into the zone, rewrites HEAD and is not repeated; an interrupted run
  is not resumed.
\<close>

section \<open>The migration\<close>

text \<open>What a run of the loop over the entries \<open>es\<close> makes of the refs \<open>r\<close>.\<close>

fun migrated :: "string \<Rightarrow> (string \<Rightarrow> string) \<Rightarrow> RefEntry list \<Rightarrow> (string \<rightharpoonup> Hash) \<Rightarrow> (string \<rightharpoonup> Hash)" where
  "migrated p newRef [] r = r"
| "migrated p newRef (e # es) r =
     (let rest = TrimPrefix (re_Name e) p in
      migrated p newRef es (if CHR ''/'' \<in> set rest then r else r(newRef rest \<mapsto> re_Hash e, re_Name e := None)))"

definition flat :: "string \<Rightarrow> bool" where
  "flat b \<longleftrightarrow> CHR ''/'' \<notin> set b"

definition into_zone :: "string \<Rightarrow> (string \<Rightarrow> string) \<Rightarrow> bool" where
  "into_zone p newRef \<longleftrightarrow> inj newRef \<and> (\<forall>b b'. flat b' \<longrightarrow> newRef b \<noteq> p @ b')"

lemma TrimPrefix_append [simp]: "TrimPrefix (p @ b) p = b"
  by (simp add: TrimPrefix_def HasPrefix_def)

text \<open>The refs that are there to be migrated, and no ref in their way.\<close>

definition pending :: "string \<Rightarrow> (string \<Rightarrow> string) \<Rightarrow> (string \<rightharpoonup> Hash) \<Rightarrow> RefEntry list \<Rightarrow> bool" where
  "pending p newRef r es \<longleftrightarrow> distinct (map re_Name es) \<and> (\<forall>e \<in> set es. \<exists>b. re_Name e = p @ b \<and>
     (flat b \<longrightarrow> r (p @ b) = Some (re_Hash e) \<and> re_Hash e \<noteq> ZeroHash \<and> r (newRef b) = None))"

lemma pending_step:
  assumes "pending p newRef r (e # es)" and "into_zone p newRef" and "re_Name e = p @ b" and "flat b"
  shows "pending p newRef (r(newRef b \<mapsto> h, p @ b := None)) es"
proof -
  let ?r = "r(newRef b \<mapsto> h, p @ b := None)"
  have "\<exists>b'. re_Name e' = p @ b' \<and> (flat b' \<longrightarrow> ?r (p @ b') = Some (re_Hash e') \<and> re_Hash e' \<noteq> 0 \<and> ?r (newRef b') = None)"
    if e': "e' \<in> set es" for e'
  proof -
    obtain b' where b': "re_Name e' = p @ b'" "flat b' \<longrightarrow> r (p @ b') = Some (re_Hash e') \<and> re_Hash e' \<noteq> 0 \<and> r (newRef b') = None"
      using assms(1) e' by (auto simp: pending_def)
    have "re_Name e \<notin> re_Name ` set es" using assms(1) by (simp add: pending_def)
    then have "b' \<noteq> b" using assms(3) e' b'(1) by force
    with assms(2) have "newRef b' \<noteq> newRef b" by (auto simp: into_zone_def inj_eq)
    moreover have "flat b' \<Longrightarrow> p @ b' \<noteq> newRef b" using assms(2) unfolding into_zone_def by metis
    ultimately show ?thesis using b' \<open>b' \<noteq> b\<close> by (intro exI [of _ b']) auto
  qed
  with assms(1) show ?thesis by (simp add: pending_def)
qed

lemma migrated_other:
  assumes "into_zone p newRef" and "\<forall>e \<in> set es. \<exists>b. re_Name e = p @ b" and "\<forall>b. flat b \<longrightarrow> n \<noteq> newRef b \<and> n \<noteq> p @ b"
  shows "migrated p newRef es r n = r n"
  using assms(2)
proof (induction es arbitrary: r)
  case (Cons e es)
  then obtain b where b: "re_Name e = p @ b" by auto
  have "flat b \<Longrightarrow> n \<noteq> newRef b \<and> n \<noteq> p @ b" using assms(3) by blast
  with Cons b show ?case by (auto simp: Let_def flat_def)
qed simp

lemma migrated_spec:
  assumes "pending p newRef r es" and "into_zone p newRef"
    and "flat b" and "r (newRef b) = None"
    and "r (p @ b) \<noteq> None \<longrightarrow> p @ b \<in> set (map re_Name es)"
  shows "migrated p newRef es r (newRef b) = r (p @ b)" and "migrated p newRef es r (p @ b) = None"
proof -
  have ne: "newRef b \<noteq> p @ b'" if "flat b'" for b b' using assms(2) that by (auto simp: into_zone_def)
  have inj: "newRef b = newRef b' \<longleftrightarrow> b = b'" for b b' using assms(2) by (auto simp: into_zone_def inj_eq)
  have keep: "migrated p newRef es r (newRef b) = r (newRef b) \<and> migrated p newRef es r (p @ b) = r (p @ b)"
    if "pending p newRef r es" "p @ b \<notin> set (map re_Name es)" for r es
    using that
  proof (induction es arbitrary: r)
    case (Cons e es)
    then obtain b' where b': "re_Name e = p @ b'" by (auto simp: pending_def)
    then have "b \<noteq> b'" using Cons.prems(2) by auto
    moreover have "pending p newRef (if flat b' then r(newRef b' \<mapsto> re_Hash e, p @ b' := None) else r) es"
      using Cons.prems(1) pending_step [OF Cons.prems(1) assms(2) b'] by (auto simp: pending_def)
    ultimately show ?case
      using Cons.IH [of "if flat b' then r(newRef b' \<mapsto> re_Hash e, p @ b' := None) else r"] Cons.prems(2)
        b' ne [OF assms(3), of b'] ne [of b' b] inj [of b b'] by (auto simp: Let_def flat_def)
  qed simp
  have "migrated p newRef es r (newRef b) = r (p @ b) \<and> migrated p newRef es r (p @ b) = None"
    using assms(1,4,5)
  proof (induction es arbitrary: r)
    case (Cons e es)
    then obtain b' where b': "re_Name e = p @ b'" by (auto simp: pending_def)
    show ?case
    proof (cases "b = b'")
      case True
      have "p @ b \<notin> set (map re_Name es)" using Cons.prems(1) b' True by (auto simp: pending_def)
      moreover have "pending p newRef (r(newRef b \<mapsto> re_Hash e, p @ b := None)) es"
        using pending_step [OF Cons.prems(1) assms(2) b'] assms(3) True by simp
      ultimately show ?thesis
        using keep [of "r(newRef b \<mapsto> re_Hash e, p @ b := None)" es] Cons.prems(1) b' True assms(3) ne [OF assms(3), of b]
        by (auto simp: flat_def pending_def)
    next
      case False
      have pend: "pending p newRef (if flat b' then r(newRef b' \<mapsto> re_Hash e, p @ b' := None) else r) es"
        using Cons.prems(1) pending_step [OF Cons.prems(1) assms(2) b'] by (auto simp: pending_def)
      let ?r = "if flat b' then r(newRef b' \<mapsto> re_Hash e, p @ b' := None) else r"
      have "?r (newRef b) = None" "?r (p @ b) = r (p @ b)"
        using Cons.prems(2) False ne [OF assms(3), of b'] ne [of b' b] inj [of b b'] by auto
      moreover have "migrated p newRef (e # es) r = migrated p newRef es ?r"
        using b' by (simp add: Let_def flat_def del: fun_upd_apply)
      ultimately show ?thesis
        using Cons.IH [OF pend] Cons.prems(3) b' False by auto
    qed
  qed simp
  then show "migrated p newRef es r (newRef b) = r (p @ b)" "migrated p newRef es r (p @ b) = None" by auto
qed

context storage
begin

lemma migrate_refs_spec:
  assumes "pending p newRef (ref s) es" and "into_zone p newRef"
  shows "\<exists>s'. migrate_refs S p newRef es s = (s', Inr ()) \<and> ref s' = migrated p newRef es (ref s) \<and>
    log s' = log s \<and> hist s' = hist s"
  using assms(1)
proof (induction es arbitrary: s)
  case (Cons e es)
  then obtain b where b: "re_Name e = p @ b" by (auto simp: pending_def)
  show ?case
  proof (cases "flat b")
    case True
    have r: "ref s (p @ b) = Some (re_Hash e)" "re_Hash e \<noteq> 0" "ref s (newRef b) = None"
      using Cons.prems b True by (auto simp: pending_def)
    have ne: "newRef b \<noteq> p @ b" using assms(2) True by (auto simp: into_zone_def)
    define s1 where "s1 = fst (CASRef S s (newRef b) ZeroHash (re_Hash e))"
    have s1: "CASRef S s (newRef b) ZeroHash (re_Hash e) = (s1, Inr ())" "ref s1 = (ref s)(newRef b \<mapsto> re_Hash e)"
      using r by (simp_all add: s1_def prod_eq_iff cas_result cas_ref cas_guard_def)
    define s2 where "s2 = fst (DeleteRef S s1 (p @ b) (re_Hash e))"
    have s2: "DeleteRef S s1 (p @ b) (re_Hash e) = (s2, Inr ())"
      "ref s2 = (ref s)(newRef b \<mapsto> re_Hash e, p @ b := None)"
      using r s1 ne by (simp_all add: s2_def prod_eq_iff del_result del_ref)
    have "log s2 = log s" "hist s2 = hist s"
      by (simp_all add: s2_def s1_def del_log del_hist cas_log cas_hist)
    moreover have "pending p newRef (ref s2) es"
      unfolding s2(2) by (rule pending_step [OF Cons.prems assms(2) b True])
    moreover have "migrate_refs S p newRef (e # es) s = migrate_refs S p newRef es s2"
      using s1(1) s2(1) b True by (simp add: flat_def)
    moreover have "migrated p newRef (e # es) (ref s) = migrated p newRef es (ref s2)"
      using b True by (simp add: s2(2) flat_def del: fun_upd_apply)
    ultimately show ?thesis
      using Cons.IH [of s2] by simp
  next
    case False
    with Cons b show ?thesis by (auto simp: flat_def pending_def)
  qed
qed simp

lemma migrate_prefix_spec:
  assumes "into_zone p newRef" and "\<forall>n. ref s n \<noteq> Some ZeroHash"
    and "\<forall>b. flat b \<longrightarrow> ref s (newRef b) = None"
  shows "\<exists>s'. migrate_prefix S p newRef s = (s', Inr ()) \<and> log s' = log s \<and> hist s' = hist s \<and>
    (\<forall>b. flat b \<longrightarrow> ref s' (newRef b) = ref s (p @ b) \<and> ref s' (p @ b) = None) \<and>
    (\<forall>n. (\<forall>b. flat b \<longrightarrow> n \<noteq> newRef b \<and> n \<noteq> p @ b) \<longrightarrow> ref s' n = ref s n)"
proof -
  obtain es where es: "ListRefs S s p = Inr es" "sorted_wrt (<) (map re_Name es)"
    "set (map (\<lambda>r. (re_Name r, re_Hash r)) es) = {(n, h). ref s n = Some h \<and> HasPrefix n p}"
    using list_refs by blast
  have e: "ref s (re_Name e) = Some (re_Hash e)" "\<exists>b. re_Name e = p @ b" if "e \<in> set es" for e
  proof -
    have "(re_Name e, re_Hash e) \<in> set (map (\<lambda>r. (re_Name r, re_Hash r)) es)" using that by auto
    then show "ref s (re_Name e) = Some (re_Hash e)" "\<exists>b. re_Name e = p @ b"
      unfolding es(3) by (auto simp: HasPrefix_def prefix_def)
  qed
  have pend: "pending p newRef (ref s) es"
    using es(2) e assms(2,3) by (fastforce simp: pending_def strict_sorted_iff)
  have covered: "p @ b \<in> set (map re_Name es)" if "ref s (p @ b) \<noteq> None" for b
  proof -
    from that obtain h where "(p @ b, h) \<in> set (map (\<lambda>r. (re_Name r, re_Hash r)) es)"
      unfolding es(3) by (auto simp: HasPrefix_def)
    then show ?thesis by auto
  qed
  obtain s' where s': "migrate_refs S p newRef es s = (s', Inr ())" "ref s' = migrated p newRef es (ref s)"
    "log s' = log s" "hist s' = hist s"
    using migrate_refs_spec [OF pend assms(1)] by blast
  have "ref s' (newRef b) = ref s (p @ b) \<and> ref s' (p @ b) = None" if "flat b" for b
    using migrated_spec [OF pend assms(1) that] assms(3) that covered s'(2) by simp
  moreover have "ref s' n = ref s n" if "\<forall>b. flat b \<longrightarrow> n \<noteq> newRef b \<and> n \<noteq> p @ b" for n
    unfolding s'(2) using e(2) that by (intro migrated_other [OF assms(1)]) auto
  ultimately show ?thesis using s' es(1) by (simp add: migrate_prefix_def)
qed

lemma RegisterZone_spec:
  assumes "z \<noteq> []" and "ref s (ZoneMarkerPrefix @ CanonZone z) \<in> {None, Some zoneSentinel}"
  shows "\<exists>s'. RegisterZone S s z = (s', Inr ()) \<and> log s' = log s \<and> hist s' = hist s \<and>
    ref s' = (ref s)(ZoneMarkerPrefix @ CanonZone z \<mapsto> zoneSentinel)"
proof (cases "ref s (ZoneMarkerPrefix @ CanonZone z)")
  case None
  let ?r = "CASRef S s (ZoneMarkerPrefix @ CanonZone z) ZeroHash zoneSentinel"
  have "RegisterZone S s z = ?r" using None assms(1) by (simp add: RegisterZone_def get_ref)
  then show ?thesis
    using None by (intro exI [of _ "fst ?r"])
      (simp add: prod_eq_iff cas_result cas_log cas_hist cas_ref cas_guard_def)
next
  case (Some h)
  with assms show ?thesis by (auto simp: RegisterZone_def get_ref)
qed

lemma RegisterZone_ok:
  assumes "RegisterZone S s z = (s', Inr ())"
  shows "z \<noteq> [] \<and> ref s' = (ref s)(ZoneMarkerPrefix @ CanonZone z \<mapsto> zoneSentinel)"
proof -
  have "z \<noteq> []" "ref s (ZoneMarkerPrefix @ CanonZone z) \<in> {None, Some zoneSentinel}"
    using assms by (auto simp: RegisterZone_def get_ref Let_def split: if_splits option.splits)
  with RegisterZone_spec [of z s] assms show ?thesis by auto
qed

end

lemma into_zone_BranchRef: "into_zone BranchPrefix (BranchRef z)"
  by (auto simp: into_zone_def inj_def BranchRef_def flat_def)

lemma into_zone_TagRef: "into_zone TagPrefix (TagRef z)"
  by (auto simp: into_zone_def inj_def TagRef_def flat_def)

lemma legacy_head_branch_flat: "flat (legacy_head_branch S s) \<and> legacy_head_branch S s \<noteq> []"
  by (auto simp: legacy_head_branch_def flat_def Let_def split: sum.splits option.splits)

text \<open>The refs before (\<open>r\<close>) and after (\<open>r'\<close>) a migration to zone \<open>z\<close>.\<close>

definition refs_migrated :: "string \<Rightarrow> (string \<rightharpoonup> Hash) \<Rightarrow> (string \<rightharpoonup> Hash) \<Rightarrow> bool" where
  "refs_migrated z r r' \<longleftrightarrow> (\<forall>b. flat b \<longrightarrow>
     r' (BranchRef z b) = r (BranchPrefix @ b) \<and> r' (BranchPrefix @ b) = None \<and>
     r' (TagRef z b) = r (TagPrefix @ b) \<and> r' (TagPrefix @ b) = None)"

context storage
begin

lemma IsLegacyV03_True:
  assumes "IsLegacyV03 S s = Inr (True, zn)"
  shows "\<exists>h. ref s LegacyZoneNameRef = Some h \<and> decodeLegacyRefSlot h = zn" and "ref s (ZoneMarkerPrefix @ n) = None"
proof -
  obtain ns where "list_names S s ZoneMarkerPrefix = Inr ns" "set ns = {n. ref s (ZoneMarkerPrefix @ n) \<noteq> None}"
    using list_names_spec by blast
  with assms show "\<exists>h. ref s LegacyZoneNameRef = Some h \<and> decodeLegacyRefSlot h = zn" "ref s (ZoneMarkerPrefix @ n) = None"
    by (auto simp: IsLegacyV03_def ListZones_def get_ref split: option.splits if_splits)
qed

lemma IsLegacyV03_registered:
  assumes "ref s (ZoneMarkerPrefix @ z) \<noteq> None"
  shows "IsLegacyV03 S s = Inr (False, [])"
proof -
  obtain ns where ns: "list_names S s ZoneMarkerPrefix = Inr ns" "set ns = {n. ref s (ZoneMarkerPrefix @ n) \<noteq> None}"
    using list_names_spec by blast
  with assms have "z \<in> set ns" by simp
  then have "0 < length ns" by (rule length_pos_if_in_set)
  with ns show ?thesis by (simp add: IsLegacyV03_def ListZones_def get_ref split: option.splits)
qed

lemma migrate_all:
  assumes "\<forall>n. ref s n \<noteq> Some ZeroHash" and "\<forall>b. ref s (BranchRef z b) = None \<and> ref s (TagRef z b) = None"
  shows "\<exists>s2 s3. migrate_prefix S BranchPrefix (BranchRef z) s = (s2, Inr ()) \<and>
    migrate_prefix S TagPrefix (TagRef z) s2 = (s3, Inr ()) \<and> log s3 = log s \<and> hist s3 = hist s \<and>
    refs_migrated z (ref s) (ref s3) \<and>
    (\<forall>n. \<not> HasPrefix n BranchPrefix \<longrightarrow> \<not> HasPrefix n TagPrefix \<longrightarrow> ref s3 n = ref s n)"
proof -
  obtain s2 where s2: "migrate_prefix S BranchPrefix (BranchRef z) s = (s2, Inr ())" "log s2 = log s" "hist s2 = hist s"
    and new2: "\<And>b. flat b \<Longrightarrow> ref s2 (BranchRef z b) = ref s (BranchPrefix @ b) \<and> ref s2 (BranchPrefix @ b) = None"
    and old2: "\<And>n. \<forall>b. flat b \<longrightarrow> n \<noteq> BranchRef z b \<and> n \<noteq> BranchPrefix @ b \<Longrightarrow> ref s2 n = ref s n"
    using migrate_prefix_spec [OF into_zone_BranchRef assms(1), of z] assms(2) by blast
  have tag2: "ref s2 (TagPrefix @ b) = ref s (TagPrefix @ b)" "ref s2 (TagRef z b) = ref s (TagRef z b)" for b
    by (rule old2, simp add: BranchRef_def TagRef_def)+
  have "ref s2 n \<noteq> Some ZeroHash" for n
  proof (cases "\<exists>b. flat b \<and> (n = BranchRef z b \<or> n = BranchPrefix @ b)")
    case True
    then obtain b where "flat b" "n = BranchRef z b \<or> n = BranchPrefix @ b" by blast
    then have "ref s2 n = ref s (BranchPrefix @ b) \<or> ref s2 n = None"
      using new2 [OF \<open>flat b\<close>] by (elim disjE) simp_all
    then show ?thesis using assms(1) by auto
  next
    case False
    then have "ref s2 n = ref s n" by (intro old2) blast
    with assms(1) show ?thesis by simp
  qed
  moreover have "ref s2 (TagRef z b) = None" for b using tag2 assms(2) by simp
  ultimately obtain s3 where s3: "migrate_prefix S TagPrefix (TagRef z) s2 = (s3, Inr ())" "log s3 = log s2" "hist s3 = hist s2"
    and new3: "\<And>b. flat b \<Longrightarrow> ref s3 (TagRef z b) = ref s2 (TagPrefix @ b) \<and> ref s3 (TagPrefix @ b) = None"
    and old3: "\<And>n. \<forall>b. flat b \<longrightarrow> n \<noteq> TagRef z b \<and> n \<noteq> TagPrefix @ b \<Longrightarrow> ref s3 n = ref s2 n"
    using migrate_prefix_spec [OF into_zone_TagRef, of s2 z] by blast
  have branch3: "ref s3 (BranchPrefix @ b) = ref s2 (BranchPrefix @ b)" "ref s3 (BranchRef z b) = ref s2 (BranchRef z b)" for b
    by (rule old3, simp add: BranchRef_def TagRef_def)+
  have "refs_migrated z (ref s) (ref s3)"
    unfolding refs_migrated_def using new2 new3 tag2 branch3 by simp
  moreover have "ref s3 n = ref s n" if "\<not> HasPrefix n BranchPrefix" "\<not> HasPrefix n TagPrefix" for n
  proof -
    have "ref s3 n = ref s2 n" using that by (intro old3) (auto simp: HasPrefix_def TagRef_def)
    also have "\<dots> = ref s n" using that by (intro old2) (auto simp: HasPrefix_def BranchRef_def)
    finally show ?thesis .
  qed
  ultimately show ?thesis using s2 s3 by (intro exI [of _ s2] exI [of _ s3]) auto
qed

lemma MigrateLegacyV03_spec:
  assumes leg: "IsLegacyV03 S s = Inr (True, zn)" and zn: "zn \<noteq> []"
    and fresh: "\<forall>b. ref s (BranchRef zn b) = None \<and> ref s (TagRef zn b) = None"
    and nz: "\<forall>n. ref s n \<noteq> Some ZeroHash"
    and hz: "HashOf sha KindSymref (bytes_of (BranchRef zn (legacy_head_branch S s))) \<noteq> ZeroHash"
  shows "\<exists>s' h. MigrateLegacyV03 S sha s = (s', Inr (True, CanonZone zn)) \<and> refs_migrated zn (ref s) (ref s') \<and>
    ref s' (ZoneMarkerPrefix @ CanonZone zn) = Some zoneSentinel \<and> ref s' LegacyZoneNameRef = None \<and>
    ref s' HeadRef = Some h \<and>
    hist s' = insert (h, \<lparr>obj_Kind = KindSymref, obj_Payload = bytes_of (BranchRef zn (legacy_head_branch S s))\<rparr>) (hist s)"
proof -
  let ?z = "CanonZone zn" and ?b = "legacy_head_branch S s"
  let ?h = "HashOf sha KindSymref (bytes_of (BranchRef zn ?b))"
  have z: "BranchRef ?z = BranchRef zn" "TagRef ?z = TagRef zn"
    by (simp_all add: BranchRef_def TagRef_def fun_eq_iff)
  obtain s1 where s1: "RegisterZone S s ?z = (s1, Inr ())" "hist s1 = hist s"
    "ref s1 = (ref s)(ZoneMarkerPrefix @ ?z \<mapsto> zoneSentinel)"
    using RegisterZone_spec [of ?z s] IsLegacyV03_True(2) [OF leg] zn by auto
  have fresh1: "\<forall>b. ref s1 (BranchRef zn b) = None \<and> ref s1 (TagRef zn b) = None"
    using fresh by (simp add: s1 BranchRef_def TagRef_def)
  have nz1: "\<forall>n. ref s1 n \<noteq> Some ZeroHash" using nz by (simp add: s1)
  obtain s2 s3 where s3: "migrate_prefix S BranchPrefix (BranchRef zn) s1 = (s2, Inr ())"
    "migrate_prefix S TagPrefix (TagRef zn) s2 = (s3, Inr ())" "hist s3 = hist s1" "refs_migrated zn (ref s1) (ref s3)"
    and other: "\<And>n. \<not> HasPrefix n BranchPrefix \<Longrightarrow> \<not> HasPrefix n TagPrefix \<Longrightarrow> ref s3 n = ref s1 n"
    using migrate_all [OF nz1 fresh1] by blast
  obtain s4 where s4: "SetHEAD S sha s3 zn ?b = (s4, Inr ())" "ref s4 = (ref s3)(HeadRef \<mapsto> ?h)"
    "hist s4 = insert (?h, \<lparr>obj_Kind = KindSymref, obj_Payload = bytes_of (BranchRef zn ?b)\<rparr>) (hist s3)"
    using SetHEAD_spec [OF hz, of s3] by blast
  have head: "SetHEAD S sha s3 ?z ?b = SetHEAD S sha s3 zn ?b" by (simp add: SetHEAD_def)
  obtain m where m: "ref s LegacyZoneNameRef = Some m" using IsLegacyV03_True(1) [OF leg] by blast
  then have m4: "ref s4 LegacyZoneNameRef = Some m"
    by (simp add: s4 other HasPrefix_def s1)
  define s5 where "s5 = fst (DeleteRef S s4 LegacyZoneNameRef m)"
  have del: "delete_legacy_marker S s4 = s5" using m4 by (simp add: delete_legacy_marker_def get_ref s5_def)
  have s5: "ref s5 = (ref s4)(LegacyZoneNameRef := None)" "hist s5 = hist s4"
    using m4 by (simp_all add: s5_def del_ref del_hist)
  have "MigrateLegacyV03 S sha s = (s5, Inr (True, ?z))"
    using leg zn s1(1) s3(1,2) s4(1) by (simp add: MigrateLegacyV03_def z head del)
  moreover have "refs_migrated zn (ref s) (ref s5)"
    using s3(4) by (simp add: refs_migrated_def s5 s4 s1 BranchRef_def TagRef_def)
  moreover have "ref s5 (ZoneMarkerPrefix @ ?z) = Some zoneSentinel"
    by (simp add: s5 s4 other HasPrefix_def s1)
  ultimately show ?thesis
    using s5 s4 s3(3) s1(2) by (intro exI [of _ s5] exI [of _ ?h]) simp
qed

end

section \<open>Properties\<close>

text \<open>
  C34: on a repository of the old layout whose zone has no refs of the new layout yet, the
  migration succeeds: every branch and tag is under its new name with the same target and
  gone under the old one, the zone is registered, HEAD reads as the old branch of that
  zone, and the repository is no longer seen as legacy, so that a second run does
  nothing.
\<close>

theorem migrate_correct:
  assumes leg: "IsLegacyV03 memstore s = Inr (True, zn)" and zn: "zn \<noteq> []"
    and "\<forall>b. mem_ref s (BranchRef zn b) = None \<and> mem_ref s (TagRef zn b) = None"
    and "\<forall>n. mem_ref s n \<noteq> Some ZeroHash"
    and "HashOf sha KindSymref (bytes_of (BranchRef zn (legacy_head_branch memstore s))) \<noteq> ZeroHash"
    and "single_valued (mem_hist (fst (MigrateLegacyV03 memstore sha s)))"
  shows "\<exists>s' c. MigrateLegacyV03 memstore sha s = (s', Inr (True, CanonZone zn)) \<and>
    refs_migrated zn (mem_ref s) (mem_ref s') \<and> IsZoneRegistered memstore s' zn = Inr True \<and>
    ReadHEAD memstore s' = Inr (CanonZone zn, legacy_head_branch memstore s, c) \<and>
    MigrateLegacyV03 memstore sha s' = (s', Inr (False, []))"
proof -
  let ?b = "legacy_head_branch memstore s"
  obtain s' h where s': "MigrateLegacyV03 memstore sha s = (s', Inr (True, CanonZone zn))"
    "refs_migrated zn (mem_ref s) (mem_ref s')" "mem_ref s' (ZoneMarkerPrefix @ CanonZone zn) = Some zoneSentinel"
    "mem_ref s' HeadRef = Some h"
    "mem_hist s' = insert (h, \<lparr>obj_Kind = KindSymref, obj_Payload = bytes_of (BranchRef zn ?b)\<rparr>) (mem_hist s)"
    using mem.MigrateLegacyV03_spec [OF assms(1-5)] by blast
  have "parseBranchTarget (BranchRef zn ?b) = Some (CanonZone zn, ?b)"
    using legacy_head_branch_flat [of memstore s] zn by (intro parseBranchTarget_BranchRef) (auto simp: flat_def)
  then have "ReadHEAD memstore s' = Inr (CanonZone zn, ?b,
      case mem_ref s' (BranchRef zn ?b) of None \<Rightarrow> ZeroHash | Some c \<Rightarrow> c)"
    using assms(6) s' by (intro mem.ReadHEAD_symref [OF s'(4)]) simp_all
  moreover have "IsLegacyV03 memstore s' = Inr (False, [])"
    using s'(3) by (intro mem.IsLegacyV03_registered [of _ "CanonZone zn"]) simp
  then have "MigrateLegacyV03 memstore sha s' = (s', Inr (False, []))"
    by (simp add: MigrateLegacyV03_def)
  moreover have "IsZoneRegistered memstore s' zn = Inr True"
    using s'(3) by (simp add: IsZoneRegistered_def mem.get_ref)
  ultimately show ?thesis using s'(1,2) by blast
qed

definition legacy_slot :: "string \<Rightarrow> Hash" where
  "legacy_slot t = hash_of_bytes (of_nat (length t) # bytes_of t @ replicate (31 - length t) 0)"

definition sample_legacy :: MemStore where
  "sample_legacy = New\<lparr>ms_refs := [(LegacyZoneNameRef, legacy_slot ''a.''),
     (''refs/heads/dev'', 7), (HeadRef, legacy_slot ''refs/heads/dev'')]\<rparr>"

lemma sample_legacy_facts:
  "IsLegacyV03 memstore sample_legacy = Inr (True, ''a.'')" "legacy_slot ''a.'' \<noteq> 0" "legacy_slot ''refs/heads/dev'' \<noteq> 0"
  "legacy_head_branch memstore sample_legacy = ''dev''"
  "HashOf sample_sha KindSymref (bytes_of (BranchRef ''a.'' ''dev'')) \<noteq> ZeroHash"
  "healthy (mem_hist (fst (MigrateLegacyV03 memstore sample_sha sample_legacy)))"
  "CanonZone ''a.'' = ''a.''"
  by code_simp+

lemma mem_ref_sample_legacy:
  "mem_ref sample_legacy n =
    (if n = LegacyZoneNameRef then Some (legacy_slot ''a.'') else if n = ''refs/heads/dev'' then Some 7
     else if n = HeadRef then Some (legacy_slot ''refs/heads/dev'') else None)"
  by (simp add: mem_ref_def sample_legacy_def)

theorem migrate_correct_witness:
  "\<exists>s' c. MigrateLegacyV03 memstore sample_sha sample_legacy = (s', Inr (True, ''a.'')) \<and>
    ReadHEAD memstore s' = Inr (''a.'', ''dev'', c) \<and> mem_ref s' (BranchRef ''a.'' ''dev'') = Some 7"
proof -
  have "\<forall>b. mem_ref sample_legacy (BranchRef ''a.'' b) = None \<and> mem_ref sample_legacy (TagRef ''a.'' b) = None"
    by (simp add: mem_ref_sample_legacy BranchRef_def TagRef_def sample_legacy_facts)
  moreover have "\<forall>n. mem_ref sample_legacy n \<noteq> Some ZeroHash"
    using sample_legacy_facts by (simp add: mem_ref_sample_legacy)
  moreover have "single_valued (mem_hist (fst (MigrateLegacyV03 memstore sample_sha sample_legacy)))"
    using sample_legacy_facts(6) by (simp add: healthy_def)
  ultimately obtain s' c where "MigrateLegacyV03 memstore sample_sha sample_legacy = (s', Inr (True, ''a.''))"
    "refs_migrated ''a.'' (mem_ref sample_legacy) (mem_ref s')" "ReadHEAD memstore s' = Inr (''a.'', ''dev'', c)"
    using migrate_correct [of sample_legacy "''a.''" sample_sha] sample_legacy_facts by auto
  then show ?thesis
    by (fastforce simp: refs_migrated_def flat_def mem_ref_sample_legacy)
qed

text \<open>
  A migration that stops after its first step is never taken up again.  Once the zone
  is registered the repository does not count as legacy any more, and a later run
  changes nothing, whatever branches are still under their old names.
\<close>

theorem migrate_interrupted:
  assumes "RegisterZone memstore s zone = (s1, Inr ())"
  shows "MigrateLegacyV03 memstore sha s1 = (s1, Inr (False, []))"
proof -
  have "mem_ref s1 (ZoneMarkerPrefix @ CanonZone zone) \<noteq> None"
    using mem.RegisterZone_ok [OF assms] by simp
  then have "IsLegacyV03 memstore s1 = Inr (False, [])" by (rule mem.IsLegacyV03_registered)
  then show ?thesis by (simp add: MigrateLegacyV03_def)
qed

theorem migrate_interrupted_witness:
  "\<exists>s1. MigrateLegacyV03 memstore sample_sha s1 = (s1, Inr (False, [])) \<and>
    mem_ref s1 ''refs/heads/dev'' = Some 7 \<and> mem_ref s1 (BranchRef ''a.'' ''dev'') = None"
proof -
  have "mem_ref sample_legacy (ZoneMarkerPrefix @ CanonZone ''a.'') = None"
    by (simp add: mem_ref_sample_legacy sample_legacy_facts)
  then obtain s1 where s1: "RegisterZone memstore sample_legacy ''a.'' = (s1, Inr ())"
    "mem_ref s1 = (mem_ref sample_legacy)(ZoneMarkerPrefix @ CanonZone ''a.'' \<mapsto> zoneSentinel)"
    using mem.RegisterZone_spec [of "''a.''" sample_legacy] by auto
  then show ?thesis
    using migrate_interrupted [OF s1(1), of sample_sha]
    by (intro exI [of _ s1]) (simp add: mem_ref_sample_legacy sample_legacy_facts BranchRef_def)
qed

end
