(* ===== verification/History.thy ===== *)
theory History
  imports RefsMigration
begin

text \<open>
  pkg/history: the log of a branch (log.go), the difference of two trees (diff.go) and the
  search for the commit that introduced a record (blame.go).

  The loops over the first-parent chain and the recursions over trees follow hashes
  through the store; they take fuel, and \<^const>\<open>None\<close> is running out of it.
\<close>

section \<open>The log (log.go)\<close>

record Entry =
  en_Hash :: Hash
  en_Commit :: Commit

fun log_loop :: "'s Storage \<Rightarrow> 's \<Rightarrow> int \<Rightarrow> nat \<Rightarrow> Hash \<Rightarrow> Entry list \<Rightarrow> (error + Entry list) option" where
  "log_loop S s mx 0 cur out = None"
| "log_loop S s mx (Suc n) cur out =
     (if IsZero cur then Some (Inr out)
      else if mx > 0 \<and> int (length out) \<ge> mx then Some (Inr out)
      else case GetObject S s cur of
        Inl e \<Rightarrow> Some (Inl e)
      | Inr obj \<Rightarrow>
          if obj_Kind obj \<noteq> KindCommit then Some (Inl (ErrOther ''log: not commit''))
          else case DecodeCommit (obj_Payload obj) of
            Inl e \<Rightarrow> Some (Inl e)
          | Inr c \<Rightarrow>
              let out' = out @ [\<lparr>en_Hash = cur, en_Commit = c\<rparr>] in
              (case c_Parents c of
                 [] \<Rightarrow> Some (Inr out')
               | p # _ \<Rightarrow> log_loop S s mx n p out'))"

definition Log :: "'s Storage \<Rightarrow> 's \<Rightarrow> nat \<Rightarrow> Hash \<Rightarrow> int \<Rightarrow> (error + Entry list) option" where
  "Log S s fuel head mx = log_loop S s mx fuel head []"

definition Time_After :: "Time \<Rightarrow> Time \<Rightarrow> bool" where
  "Time_After a b \<longleftrightarrow> t_Unix a > t_Unix b \<or> (t_Unix a = t_Unix b \<and> t_Nsec a > t_Nsec b)"

fun WalkAt :: "'s Storage \<Rightarrow> 's \<Rightarrow> nat \<Rightarrow> Hash \<Rightarrow> Time \<Rightarrow> (error + Hash \<times> Commit) option" where
  "WalkAt S s 0 cur t = None"
| "WalkAt S s (Suc n) cur t =
     (if IsZero cur then Some (Inl ErrNotFound)
      else case GetObject S s cur of
        Inl e \<Rightarrow> Some (Inl e)
      | Inr obj \<Rightarrow>
          (case DecodeCommit (obj_Payload obj) of
             Inl e \<Rightarrow> Some (Inl e)
           | Inr c \<Rightarrow>
               if \<not> Time_After (c_CommitTime c) t then Some (Inr (cur, c))
               else case c_Parents c of
                 [] \<Rightarrow> Some (Inl ErrNotFound)
               | p # _ \<Rightarrow> WalkAt S s n p t))"

section \<open>The difference of two trees (diff.go)\<close>

datatype ChangeOp = OpAdded | OpRemoved | OpModified

record Change =
  ch_Path :: "string list"
  ch_RRType :: string
  ch_Op :: ChangeOp
  ch_OldBlob :: Hash
  ch_NewBlob :: Hash

definition path_FQDN :: "string list \<Rightarrow> string" where
  "path_FQDN path = (if path = [] then ''@'' else Join path ''.'')"

definition Change_FQDN :: "Change \<Rightarrow> string" where
  "Change_FQDN c = path_FQDN (ch_Path c)"

definition hist_cmpEntry :: "TreeEntry \<Rightarrow> TreeEntry \<Rightarrow> int" where
  "hist_cmpEntry a b =
     (if te_Kind a \<noteq> te_Kind b then (if te_Kind a < te_Kind b then -1 else 1)
      else if te_Name a < te_Name b then -1 else if te_Name a > te_Name b then 1 else 0)"

text \<open>
  An entry that is present on one side only.  The list of changes is threaded through as
  \<open>out\<close>; on an error it is dropped by \<open>Diff\<close>.
\<close>

definition only_side_change :: "string list \<Rightarrow> TreeEntry \<Rightarrow> ChangeOp \<Rightarrow> Change" where
  "only_side_change path e op =
     \<lparr>ch_Path = path, ch_RRType = te_Name e, ch_Op = op,
      ch_OldBlob = (if op = OpAdded then ZeroHash else te_Hash e),
      ch_NewBlob = (if op = OpAdded then te_Hash e else ZeroHash)\<rparr>"

fun emitOnlySide :: "'s Storage \<Rightarrow> (bytes \<Rightarrow> Hash) \<Rightarrow> 's \<Rightarrow> nat \<Rightarrow> string list \<Rightarrow> TreeEntry \<Rightarrow> ChangeOp \<Rightarrow>
    Change list \<Rightarrow> (error + Change list) option"
  and emit_children :: "'s Storage \<Rightarrow> (bytes \<Rightarrow> Hash) \<Rightarrow> 's \<Rightarrow> nat \<Rightarrow> string list \<Rightarrow> TreeEntry list \<Rightarrow> ChangeOp \<Rightarrow>
    Change list \<Rightarrow> (error + Change list) option" where
  "emitOnlySide S sha s n path e op out =
     (if te_Kind e = EntryLeaf then Some (Inr (out @ [only_side_change path e op]))
      else case n of
        0 \<Rightarrow> None
      | Suc m \<Rightarrow>
          (case LoadTree S sha s (te_Hash e) of
             Inl er \<Rightarrow> Some (Inl er)
           | Inr t \<Rightarrow> emit_children S sha s m (path @ [te_Name e]) (Entries t) op out))"
| "emit_children S sha s n path [] op out = Some (Inr out)"
| "emit_children S sha s n path (e # es) op out =
     (case emitOnlySide S sha s n path e op out of
        None \<Rightarrow> None
      | Some (Inl er) \<Rightarrow> Some (Inl er)
      | Some (Inr out') \<Rightarrow> emit_children S sha s n path es op out')"

definition load_or_empty :: "'s Storage \<Rightarrow> (bytes \<Rightarrow> Hash) \<Rightarrow> 's \<Rightarrow> Hash \<Rightarrow> error + Tree" where
  "load_or_empty S sha s h = (if IsZero h then Inr empty_tree else LoadTree S sha s h)"

text \<open>
  \<open>diffWalk\<close> with its merge of the two sorted entry lists: \<open>oa\<close> and \<open>na\<close> are the entries
  from the positions \<open>i\<close> and \<open>j\<close> on.
\<close>

fun diffWalk :: "'s Storage \<Rightarrow> (bytes \<Rightarrow> Hash) \<Rightarrow> 's \<Rightarrow> nat \<Rightarrow> string list \<Rightarrow> Hash \<Rightarrow> Hash \<Rightarrow>
    Change list \<Rightarrow> (error + Change list) option"
  and diff_entries :: "'s Storage \<Rightarrow> (bytes \<Rightarrow> Hash) \<Rightarrow> 's \<Rightarrow> nat \<Rightarrow> string list \<Rightarrow> TreeEntry list \<Rightarrow> TreeEntry list \<Rightarrow>
    Change list \<Rightarrow> (error + Change list) option" where
  "diffWalk S sha s n path oldH newH out =
     (if oldH = newH then Some (Inr out)
      else case n of
        0 \<Rightarrow> None
      | Suc m \<Rightarrow>
          (case load_or_empty S sha s oldH of
             Inl e \<Rightarrow> Some (Inl e)
           | Inr oldTree \<Rightarrow>
               (case load_or_empty S sha s newH of
                  Inl e \<Rightarrow> Some (Inl e)
                | Inr newTree \<Rightarrow> diff_entries S sha s m path (Entries oldTree) (Entries newTree) out)))"
| "diff_entries S sha s n path [] [] out = Some (Inr out)"
| "diff_entries S sha s n path [] (b # na) out =
     (case emitOnlySide S sha s n path b OpAdded out of
        None \<Rightarrow> None
      | Some (Inl er) \<Rightarrow> Some (Inl er)
      | Some (Inr out') \<Rightarrow> diff_entries S sha s n path [] na out')"
| "diff_entries S sha s n path (a # oa) [] out =
     (case emitOnlySide S sha s n path a OpRemoved out of
        None \<Rightarrow> None
      | Some (Inl er) \<Rightarrow> Some (Inl er)
      | Some (Inr out') \<Rightarrow> diff_entries S sha s n path oa [] out')"
| "diff_entries S sha s n path (a # oa) (b # na) out =
     (if hist_cmpEntry a b < 0 then
        (case emitOnlySide S sha s n path a OpRemoved out of
           None \<Rightarrow> None
         | Some (Inl er) \<Rightarrow> Some (Inl er)
         | Some (Inr out') \<Rightarrow> diff_entries S sha s n path oa (b # na) out')
      else if hist_cmpEntry a b > 0 then
        (case emitOnlySide S sha s n path b OpAdded out of
           None \<Rightarrow> None
         | Some (Inl er) \<Rightarrow> Some (Inl er)
         | Some (Inr out') \<Rightarrow> diff_entries S sha s n path (a # oa) na out')
      else if te_Hash a \<noteq> te_Hash b then
        (if te_Kind a = EntryLeaf then
           diff_entries S sha s n path oa na
             (out @ [\<lparr>ch_Path = path, ch_RRType = te_Name a, ch_Op = OpModified,
                      ch_OldBlob = te_Hash a, ch_NewBlob = te_Hash b\<rparr>])
         else case diffWalk S sha s n (path @ [te_Name a]) (te_Hash a) (te_Hash b) out of
           None \<Rightarrow> None
         | Some (Inl er) \<Rightarrow> Some (Inl er)
         | Some (Inr out') \<Rightarrow> diff_entries S sha s n path oa na out')
      else diff_entries S sha s n path oa na out)"

definition Diff :: "'s Storage \<Rightarrow> (bytes \<Rightarrow> Hash) \<Rightarrow> 's \<Rightarrow> nat \<Rightarrow> Hash \<Rightarrow> Hash \<Rightarrow> (error + Change list) option" where
  "Diff S sha s fuel oldTree newTree =
     (if oldTree = newTree then Some (Inr [])
      else case diffWalk S sha s fuel [] oldTree newTree [] of
        None \<Rightarrow> None
      | Some (Inl e) \<Rightarrow> Some (Inl e)
      | Some (Inr out) \<Rightarrow> Some (Inr (sort_key (\<lambda>c. (Change_FQDN c, ch_RRType c)) out)))"

section \<open>Blame (blame.go)\<close>

record BlameInfo =
  bl_Commit :: Hash
  bl_Author :: Identity
  bl_Message :: string
  bl_Blob :: Hash
  bl_Found :: bool

definition no_blame :: BlameInfo where
  "no_blame = \<lparr>bl_Commit = ZeroHash, bl_Author = zero_identity, bl_Message = [], bl_Blob = ZeroHash, bl_Found = False\<rparr>"

definition lookupBlobInTree :: "'s Storage \<Rightarrow> (bytes \<Rightarrow> Hash) \<Rightarrow> 's \<Rightarrow> Hash \<Rightarrow> string list \<Rightarrow> string \<Rightarrow> error + Hash" where
  "lookupBlobInTree S sha s tree path rrtype =
     (if IsZero tree then Inl ErrNotFound else WalkTree S sha s tree path rrtype)"

definition lookupBlob :: "'s Storage \<Rightarrow> (bytes \<Rightarrow> Hash) \<Rightarrow> 's \<Rightarrow> Hash \<Rightarrow> string list \<Rightarrow> string \<Rightarrow> error + Hash" where
  "lookupBlob S sha s commit path rrtype =
     (case GetObject S s commit of
        Inl e \<Rightarrow> Inl e
      | Inr obj \<Rightarrow>
          (case DecodeCommit (obj_Payload obj) of
             Inl e \<Rightarrow> Inl e
           | Inr c \<Rightarrow> lookupBlobInTree S sha s (c_Tree c) path rrtype))"

text \<open>The walk of step 2: \<open>intro\<close> is the introducing commit found so far.\<close>

fun blame_loop :: "'s Storage \<Rightarrow> (bytes \<Rightarrow> Hash) \<Rightarrow> 's \<Rightarrow> string list \<Rightarrow> string \<Rightarrow> Hash \<Rightarrow> nat \<Rightarrow> Hash \<Rightarrow>
    (Hash \<times> Commit) \<Rightarrow> (error + Hash \<times> Commit) option" where
  "blame_loop S sha s path rrtype headBlob 0 cur introducing = None"
| "blame_loop S sha s path rrtype headBlob (Suc n) cur introducing =
     (if IsZero cur then Some (Inr introducing)
      else case GetObject S s cur of
        Inl e \<Rightarrow> Some (Inl e)
      | Inr obj \<Rightarrow>
          (case DecodeCommit (obj_Payload obj) of
             Inl e \<Rightarrow> Some (Inl e)
           | Inr c \<Rightarrow>
               (case lookupBlobInTree S sha s (c_Tree c) path rrtype of
                  Inl e \<Rightarrow> if e = ErrNotFound then Some (Inr introducing) else Some (Inl e)
                | Inr curBlob \<Rightarrow>
                    if curBlob \<noteq> headBlob then Some (Inr introducing)
                    else case c_Parents c of
                      [] \<Rightarrow> Some (Inr (cur, c))
                    | p # _ \<Rightarrow> blame_loop S sha s path rrtype headBlob n p (cur, c))))"

definition Blame :: "'s Storage \<Rightarrow> (bytes \<Rightarrow> Hash) \<Rightarrow> 's \<Rightarrow> nat \<Rightarrow> Hash \<Rightarrow> string list \<Rightarrow> string \<Rightarrow>
    (error + BlameInfo) option" where
  "Blame S sha s fuel head path rrtype =
     (if IsZero head then Some (Inl (ErrOther ''blame: head is zero''))
      else case lookupBlob S sha s head path rrtype of
        Inl e \<Rightarrow> if e = ErrNotFound then Some (Inr no_blame) else Some (Inl e)
      | Inr headBlob \<Rightarrow>
          (case blame_loop S sha s path rrtype headBlob fuel head (ZeroHash, zero_commit) of
             None \<Rightarrow> None
           | Some (Inl e) \<Rightarrow> Some (Inl e)
           | Some (Inr (introducing, introCommit)) \<Rightarrow>
               if IsZero introducing then Some (Inl (ErrOther ''blame: internal''))
               else Some (Inr \<lparr>bl_Commit = introducing, bl_Author = c_Author introCommit,
                 bl_Message = c_Message introCommit, bl_Blob = headBlob, bl_Found = True\<rparr>)))"

section \<open>The first-parent chain\<close>

text \<open>
  The chain from a commit to the root of its history, newest first.  It is defined when
  the history is complete and at most \<open>n\<close> commits long.
\<close>

fun chain :: "'s Storage \<Rightarrow> 's \<Rightarrow> nat \<Rightarrow> Hash \<Rightarrow> Entry list option" where
  "chain S s 0 h = None"
| "chain S s (Suc n) h =
     (if IsZero h then Some []
      else case GetObject S s h of
        Inl e \<Rightarrow> None
      | Inr obj \<Rightarrow>
          if obj_Kind obj \<noteq> KindCommit then None
          else case DecodeCommit (obj_Payload obj) of
            Inl e \<Rightarrow> None
          | Inr c \<Rightarrow>
              (case c_Parents c of
                 [] \<Rightarrow> Some [\<lparr>en_Hash = h, en_Commit = c\<rparr>]
               | p # _ \<Rightarrow> map_option (\<lambda>es. \<lparr>en_Hash = h, en_Commit = c\<rparr> # es) (chain S s n p)))"

lemma chain_Cons:
  assumes "chain S s (Suc n) h = Some es" and "h \<noteq> ZeroHash"
  obtains obj c es' where "GetObject S s h = Inr obj" "obj_Kind obj = KindCommit"
    "DecodeCommit (obj_Payload obj) = Inr c" "es = \<lparr>en_Hash = h, en_Commit = c\<rparr> # es'"
    "c_Parents c = [] \<and> es' = [] \<or> (\<exists>p ps. c_Parents c = p # ps \<and> chain S s n p = Some es')"
  using assms by (auto split: sum.splits if_splits list.splits)

lemma log_loop_chain:
  "chain S s n h = Some es \<Longrightarrow> (mx > 0 \<longrightarrow> length out \<le> nat mx) \<Longrightarrow>
    log_loop S s mx n h out = Some (Inr (out @ (if mx > 0 then take (nat mx - length out) es else es)))"
proof (induction n arbitrary: h es out)
  case (Suc n)
  show ?case
  proof (cases "h = 0 \<or> mx > 0 \<and> int (length out) \<ge> mx")
    case True
    with Suc.prems show ?thesis by (cases "h = 0") auto
  next
    case False
    then have h: "h \<noteq> 0" by simp
    from Suc.prems(1) h show ?thesis
    proof (rule chain_Cons)
      fix obj c es'
      assume *: "GetObject S s h = Inr obj" "obj_Kind obj = KindCommit" "DecodeCommit (obj_Payload obj) = Inr c"
        "es = \<lparr>en_Hash = h, en_Commit = c\<rparr> # es'"
        "c_Parents c = [] \<and> es' = [] \<or> (\<exists>p ps. c_Parents c = p # ps \<and> chain S s n p = Some es')"
      define k where "k = nat mx - Suc (length out)"
      have tk: "mx > 0 \<Longrightarrow> nat mx - length out = Suc k" using False by (auto simp: k_def)
      have "mx > 0 \<longrightarrow> length (out @ [\<lparr>en_Hash = h, en_Commit = c\<rparr>]) \<le> nat mx" using False by auto
      note IH = Suc.IH [OF _ this]
      from *(5) show ?thesis
      proof
        assume "c_Parents c = [] \<and> es' = []"
        with * False tk show ?thesis by (auto simp: Let_def)
      next
        assume "\<exists>p ps. c_Parents c = p # ps \<and> chain S s n p = Some es'"
        then obtain p ps where p: "c_Parents c = p # ps" "chain S s n p = Some es'" by blast
        with * False tk IH [OF p(2)] show ?thesis by (auto simp: Let_def k_def)
      qed
    qed
  qed
qed simp

lemma WalkAt_chain:
  "chain S s n h = Some es \<Longrightarrow>
    WalkAt S s n h t = Some (case find (\<lambda>e. \<not> Time_After (c_CommitTime (en_Commit e)) t) es of
      None \<Rightarrow> Inl ErrNotFound | Some e \<Rightarrow> Inr (en_Hash e, en_Commit e))"
proof (induction n arbitrary: h es)
  case (Suc n)
  show ?case
  proof (cases "h = 0")
    case False
    from Suc.prems False show ?thesis
      by (rule chain_Cons) (use False in \<open>auto simp: Suc.IH split: option.splits\<close>)
  qed (use Suc.prems in simp)
qed simp

section \<open>Lookups in complete trees\<close>

lemma WalkTree_node:
  assumes "LoadTree S sha s h = Inr t"
  shows "WalkTree S sha s h p rt = (case p of
      [] \<Rightarrow> (case Get t EntryLeaf rt of None \<Rightarrow> Inl ErrNotFound | Some e \<Rightarrow> Inr (te_Hash e))
    | l # q \<Rightarrow> (case Get t EntrySubtree l of None \<Rightarrow> Inl ErrNotFound | Some e \<Rightarrow> WalkTree S sha s (te_Hash e) q rt))"
  using assms by (cases p) (auto simp: WalkTree_def split: option.splits)

lemma WalkTree_total:
  "tree_ok S sha s n h \<Longrightarrow>
    WalkTree S sha s h p rt = (case lookup S sha s h p rt of None \<Rightarrow> Inl ErrNotFound | Some b \<Rightarrow> Inr b)"
proof (induction n arbitrary: h p)
  case (Suc n)
  then obtain t where t: "LoadTree S sha s h = Inr t" "node_ok S sha s n t" by (auto simp: tree_ok_Suc)
  show ?case
    unfolding WalkTree_node [OF t(1)] lookup_node [OF t(1)] node_lookup_def
    using Suc.IH node_ok_Get [OF t(2)] by (auto split: list.splits option.splits)
qed simp

text \<open>The contents below a hash that may be zero: a complete tree, or nothing.\<close>

definition zone_of :: "'s Storage \<Rightarrow> (bytes \<Rightarrow> Hash) \<Rightarrow> 's \<Rightarrow> Hash \<Rightarrow> zone_map" where
  "zone_of S sha s h = (if h = ZeroHash then (\<lambda>_ _. None) else lookup S sha s h)"

definition root_ok :: "'s Storage \<Rightarrow> (bytes \<Rightarrow> Hash) \<Rightarrow> 's \<Rightarrow> nat \<Rightarrow> Hash \<Rightarrow> bool" where
  "root_ok S sha s n h \<longleftrightarrow> h = ZeroHash \<or> tree_ok S sha s n h"

lemma lookupBlobInTree_total:
  "root_ok S sha s n h \<Longrightarrow>
    lookupBlobInTree S sha s h p rt = (case zone_of S sha s h p rt of None \<Rightarrow> Inl ErrNotFound | Some b \<Rightarrow> Inr b)"
  by (auto simp: lookupBlobInTree_def root_ok_def zone_of_def WalkTree_total)

section \<open>Blame\<close>

definition blob_at :: "'s Storage \<Rightarrow> (bytes \<Rightarrow> Hash) \<Rightarrow> 's \<Rightarrow> string list \<Rightarrow> string \<Rightarrow> Entry \<Rightarrow> Hash option" where
  "blob_at S sha s p rt e = zone_of S sha s (c_Tree (en_Commit e)) p rt"

lemma blame_loop_chain:
  assumes "chain S s n h = Some es" and "\<forall>e \<in> set es. root_ok S sha s k (c_Tree (en_Commit e))"
  shows "blame_loop S sha s p rt b n h i = Some (Inr
    (case rev (takeWhile (\<lambda>e. blob_at S sha s p rt e = Some b) es) of
       [] \<Rightarrow> i | e # _ \<Rightarrow> (en_Hash e, en_Commit e)))"
  using assms
proof (induction n arbitrary: h es i)
  case (Suc n)
  show ?case
  proof (cases "h = 0")
    case False
    from Suc.prems(1) False show ?thesis
    proof (rule chain_Cons)
      fix obj c es'
      assume *: "GetObject S s h = Inr obj" "obj_Kind obj = KindCommit" "DecodeCommit (obj_Payload obj) = Inr c"
        "es = \<lparr>en_Hash = h, en_Commit = c\<rparr> # es'"
        "c_Parents c = [] \<and> es' = [] \<or> (\<exists>q ps. c_Parents c = q # ps \<and> chain S s n q = Some es')"
      have look: "lookupBlobInTree S sha s (c_Tree c) p rt
          = (case zone_of S sha s (c_Tree c) p rt of None \<Rightarrow> Inl ErrNotFound | Some b \<Rightarrow> Inr b)"
        using Suc.prems(2) *(4) by (intro lookupBlobInTree_total) auto
      from *(5) show ?thesis
      proof
        assume "c_Parents c = [] \<and> es' = []"
        with * False look show ?thesis by (auto simp: blob_at_def split: option.splits)
      next
        assume "\<exists>q ps. c_Parents c = q # ps \<and> chain S s n q = Some es'"
        then obtain q ps where q: "c_Parents c = q # ps" "chain S s n q = Some es'" by blast
        with * False look Suc.IH [OF q(2)] Suc.prems(2) show ?thesis
          by (auto simp: blob_at_def split: option.splits list.splits)
      qed
    qed
  qed (use Suc.prems in simp)
qed simp

lemma Blame_chain:
  assumes "chain S s n h = Some (e0 # es)" and "\<forall>e \<in> set (e0 # es). root_ok S sha s k (c_Tree (en_Commit e))"
    and "blob_at S sha s p rt e0 = Some b"
  shows "\<exists>pre e post. e0 # es = pre @ e # post \<and> (\<forall>x \<in> set (pre @ [e]). blob_at S sha s p rt x = Some b) \<and>
    (post \<noteq> [] \<longrightarrow> blob_at S sha s p rt (hd post) \<noteq> Some b) \<and>
    (en_Hash e \<noteq> ZeroHash \<longrightarrow> Blame S sha s n h p rt = Some (Inr \<lparr>bl_Commit = en_Hash e, bl_Author = c_Author (en_Commit e),
      bl_Message = c_Message (en_Commit e), bl_Blob = b, bl_Found = True\<rparr>))"
proof -
  let ?P = "\<lambda>e. blob_at S sha s p rt e = Some b"
  let ?run = "takeWhile ?P (e0 # es)"
  have ne: "?run \<noteq> []" using assms(3) by simp
  define e pre post where "e = last ?run" and "pre = butlast ?run" and "post = dropWhile ?P (e0 # es)"
  have run: "?run = pre @ [e]" using ne by (simp add: e_def pre_def)
  have split: "e0 # es = pre @ e # post"
    using takeWhile_dropWhile_id [of ?P "e0 # es"] by (simp add: post_def run del: takeWhile_dropWhile_id takeWhile.simps dropWhile.simps)
  have all: "\<forall>x \<in> set (pre @ [e]). ?P x"
    unfolding run [symmetric] using set_takeWhileD by fast
  have post: "post \<noteq> [] \<longrightarrow> \<not> ?P (hd post)"
    unfolding post_def using hd_dropWhile [of ?P "e0 # es"] by blast
  obtain m where n: "n = Suc m" using assms(1) by (cases n) auto
  have h: "h \<noteq> 0" using assms(1) n by auto
  from assms(1) h have head: "lookupBlob S sha s h p rt = Inr b"
    unfolding n
  proof (rule chain_Cons)
    fix obj c es'
    assume *: "GetObject S s h = Inr obj" "DecodeCommit (obj_Payload obj) = Inr c" "e0 # es = \<lparr>en_Hash = h, en_Commit = c\<rparr> # es'"
    have "root_ok S sha s k (c_Tree c)" "zone_of S sha s (c_Tree c) p rt = Some b"
      using assms(2,3) *(3) by (auto simp: blob_at_def)
    with * show "lookupBlob S sha s h p rt = Inr b"
      by (simp add: lookupBlob_def lookupBlobInTree_total)
  qed
  have loop: "blame_loop S sha s p rt b n h (ZeroHash, zero_commit) = Some (Inr (en_Hash e, en_Commit e))"
    unfolding blame_loop_chain [OF assms(1,2)] run by simp
  have "Blame S sha s n h p rt = Some (Inr \<lparr>bl_Commit = en_Hash e, bl_Author = c_Author (en_Commit e),
      bl_Message = c_Message (en_Commit e), bl_Blob = b, bl_Found = True\<rparr>)" if "en_Hash e \<noteq> 0"
    using h head loop that by (simp add: Blame_def)
  with split all post show ?thesis by blast
qed

lemma chain_nonzero: "chain S s n h = Some es \<Longrightarrow> e \<in> set es \<Longrightarrow> en_Hash e \<noteq> ZeroHash"
proof (induction n arbitrary: h es)
  case (Suc n)
  show ?case
  proof (cases "h = 0")
    case False
    from Suc.prems(1) False show ?thesis
      by (rule chain_Cons) (use Suc.IH Suc.prems(2) False in auto)
  qed (use Suc.prems in simp)
qed simp

section \<open>Properties\<close>

definition store_commit :: "MemStore \<Rightarrow> Commit \<Rightarrow> MemStore" where
  "store_commit s c = (case Commit_Encode sample_sha c of (h, obj) \<Rightarrow> fst (PutObject memstore s h obj))"

definition sample_c1 :: Commit where
  "sample_c1 = sample_commit\<lparr>c_Tree := 536715, c_Parents := [], c_AuthorTime := \<lparr>t_Unix = 9, t_Nsec = 0, t_Offset = 0\<rparr>\<rparr>"

definition sample_h1 :: Hash where
  "sample_h1 = fst (Commit_Encode sample_sha sample_c1)"

definition sample_history :: MemStore where
  "sample_history = store_commit (fst sample_update) sample_c1"

lemma sample_chain: "chain memstore sample_history 2 sample_h1 = Some [\<lparr>en_Hash = sample_h1, en_Commit = sample_c1\<rparr>]"
  by code_simp

lemma sample_history_tree: "tree_ok memstore sample_sha sample_history 2 536715"
  by code_simp

text \<open>
  The log lists the first-parent chain from the head, newest first, cut to the newest
  \<open>max\<close> commits when \<open>max\<close> is positive; on a complete history it ends without an error.
\<close>

theorem log_lists_chain:
  assumes "chain S s n head = Some es"
  shows "Log S s n head mx = Some (Inr (if mx > 0 then take (nat mx) es else es))"
  using log_loop_chain [OF assms, of mx "[]"] by (simp add: Log_def)

theorem log_lists_chain_witness:
  "Log memstore sample_history 2 sample_h1 0 = Some (Inr [\<lparr>en_Hash = sample_h1, en_Commit = sample_c1\<rparr>])"
  using log_lists_chain [OF sample_chain, of 0] by simp

text \<open>
  The walk to a point in time finds the newest commit of the first-parent chain that is
  not after it: every commit between the head and the result is later, and the answer is
  \<open>ErrNotFound\<close> exactly when every commit of the chain is later.
\<close>

theorem walk_at_newest:
  assumes "chain S s n head = Some es"
  shows "(\<exists>pre e post. es = pre @ e # post \<and> (\<forall>x \<in> set pre. Time_After (c_CommitTime (en_Commit x)) t) \<and>
      \<not> Time_After (c_CommitTime (en_Commit e)) t \<and> WalkAt S s n head t = Some (Inr (en_Hash e, en_Commit e))) \<or>
    ((\<forall>x \<in> set es. Time_After (c_CommitTime (en_Commit x)) t) \<and> WalkAt S s n head t = Some (Inl ErrNotFound))"
proof (cases "find (\<lambda>e. \<not> Time_After (c_CommitTime (en_Commit e)) t) es")
  case None
  then have "\<forall>x \<in> set es. Time_After (c_CommitTime (en_Commit x)) t" by (simp add: find_None_iff)
  moreover have "WalkAt S s n head t = Some (Inl ErrNotFound)"
    using WalkAt_chain [OF assms, of t] None by simp
  ultimately show ?thesis by blast
next
  case (Some e)
  then obtain i where i: "i < length es" "e = es ! i" "\<not> Time_After (c_CommitTime (en_Commit e)) t"
    "\<forall>j < i. Time_After (c_CommitTime (en_Commit (es ! j))) t"
    by (auto simp: find_Some_iff)
  have "es = take i es @ e # drop (Suc i) es" using i by (simp add: id_take_nth_drop)
  moreover have "\<forall>x \<in> set (take i es). Time_After (c_CommitTime (en_Commit x)) t"
    using i by (auto simp: in_set_conv_nth)
  moreover have "WalkAt S s n head t = Some (Inr (en_Hash e, en_Commit e))"
    using WalkAt_chain [OF assms, of t] Some by simp
  ultimately show ?thesis using i(3) by blast
qed

theorem walk_at_newest_witness:
  "WalkAt memstore sample_history 2 sample_h1 \<lparr>t_Unix = 3, t_Nsec = 0, t_Offset = 0\<rparr> = Some (Inl ErrNotFound)"
proof -
  have "Time_After (c_CommitTime sample_c1) \<lparr>t_Unix = 3, t_Nsec = 0, t_Offset = 0\<rparr>" by code_simp
  with walk_at_newest [OF sample_chain, of "\<lparr>t_Unix = 3, t_Nsec = 0, t_Offset = 0\<rparr>"] show ?thesis
    by (auto simp: Cons_eq_append_conv)
qed

text \<open>
  C27: blame names the commit that introduced the current value of a record: that commit and
  every later one of the first-parent chain has the value the head has, and the commit
  before it, if there is one, has not.
\<close>

theorem blame_introducing:
  assumes "chain S s n head = Some (e0 # es)" and "\<forall>e \<in> set (e0 # es). root_ok S sha s k (c_Tree (en_Commit e))"
    and "blob_at S sha s p rt e0 = Some b"
  shows "\<exists>pre e post. e0 # es = pre @ e # post \<and> (\<forall>x \<in> set (pre @ [e]). blob_at S sha s p rt x = Some b) \<and>
    (post \<noteq> [] \<longrightarrow> blob_at S sha s p rt (hd post) \<noteq> Some b) \<and>
    Blame S sha s n head p rt = Some (Inr \<lparr>bl_Commit = en_Hash e, bl_Author = c_Author (en_Commit e),
      bl_Message = c_Message (en_Commit e), bl_Blob = b, bl_Found = True\<rparr>)"
proof -
  obtain pre e post where *: "e0 # es = pre @ e # post" "\<forall>x \<in> set (pre @ [e]). blob_at S sha s p rt x = Some b"
    "post \<noteq> [] \<longrightarrow> blob_at S sha s p rt (hd post) \<noteq> Some b"
    "en_Hash e \<noteq> ZeroHash \<longrightarrow> Blame S sha s n head p rt = Some (Inr \<lparr>bl_Commit = en_Hash e, bl_Author = c_Author (en_Commit e),
      bl_Message = c_Message (en_Commit e), bl_Blob = b, bl_Found = True\<rparr>)"
    using Blame_chain [OF assms] by blast
  have "e \<in> set (e0 # es)" unfolding *(1) by simp
  then have "en_Hash e \<noteq> ZeroHash" by (rule chain_nonzero [OF assms(1)])
  with * show ?thesis by blast
qed

theorem blame_introducing_witness:
  "Blame memstore sample_sha sample_history 2 sample_h1 [''www''] ''A''
    = Some (Inr \<lparr>bl_Commit = sample_h1, bl_Author = sample_id, bl_Message = ''m'', bl_Blob = 5, bl_Found = True\<rparr>)"
proof -
  let ?e = "\<lparr>en_Hash = sample_h1, en_Commit = sample_c1\<rparr>"
  have "\<forall>e \<in> set [?e]. root_ok memstore sample_sha sample_history 2 (c_Tree (en_Commit e))"
    using sample_history_tree by (simp add: root_ok_def sample_c1_def)
  moreover have "blob_at memstore sample_sha sample_history [''www''] ''A'' ?e = Some 5" by code_simp
  moreover have "c_Author sample_c1 = sample_id" "c_Message sample_c1 = ''m''"
    by (simp_all add: sample_c1_def sample_commit_def)
  ultimately show ?thesis
    using blame_introducing [OF sample_chain, of sample_sha 2 "[''www'']" "''A''" 5] by (auto simp: Cons_eq_append_conv)
qed

end
