(* ===== verification/DiffTrees.thy ===== *)
theory DiffTrees
  imports History
begin

text \<open>
  The difference of two trees (pkg/history/diff.go) is exact: one change for every record
  whose value differs, and no other.
\<close>

section \<open>The contents of an entry list\<close>

text \<open>
  A record at path \<open>p\<close> and of type \<open>t\<close> is reached through the one entry of a node whose key is
  \<open>coord p t\<close>.
\<close>

definition coord :: "string list \<Rightarrow> string \<Rightarrow> EntryKind \<times> string" where
  "coord p t = (case p of [] \<Rightarrow> (EntryLeaf, t) | l # _ \<Rightarrow> (EntrySubtree, l))"

definition entry_map :: "'s Storage \<Rightarrow> (bytes \<Rightarrow> Hash) \<Rightarrow> 's \<Rightarrow> TreeEntry \<Rightarrow> zone_map" where
  "entry_map S sha s e p t =
     (if coord p t \<noteq> te_key e then None
      else if te_Kind e = EntryLeaf then Some (te_Hash e) else lookup S sha s (te_Hash e) (tl p) t)"

fun list_map :: "'s Storage \<Rightarrow> (bytes \<Rightarrow> Hash) \<Rightarrow> 's \<Rightarrow> TreeEntry list \<Rightarrow> zone_map" where
  "list_map S sha s [] p t = None"
| "list_map S sha s (e # es) p t =
     (if coord p t = te_key e then entry_map S sha s e p t else list_map S sha s es p t)"

definition ascending :: "TreeEntry list \<Rightarrow> bool" where
  "ascending es \<longleftrightarrow> sorted_wrt (<) (map te_key es)"

lemma ascending_simps [simp]:
  "ascending []" "ascending (e # es) \<longleftrightarrow> (\<forall>x \<in> set es. te_key e < te_key x) \<and> ascending es"
  by (auto simp: ascending_def)

lemma list_map_None: "coord p t \<notin> te_key ` set es \<Longrightarrow> list_map S sha s es p t = None"
  by (induction es) auto

lemma list_map_mem:
  "ascending es \<Longrightarrow> e \<in> set es \<Longrightarrow> coord p t = te_key e \<Longrightarrow> list_map S sha s es p t = entry_map S sha s e p t"
  by (induction es) auto

lemma node_lookup_list_map:
  assumes "canonical t"
  shows "node_lookup S sha s t = list_map S sha s (Entries t)"
proof (intro ext)
  fix p rt
  have asc: "ascending (Entries t)" using assms by (simp add: ascending_def canonical_def)
  let ?k = "fst (coord p rt)" and ?n = "snd (coord p rt)"
  show "node_lookup S sha s t p rt = list_map S sha s (Entries t) p rt"
  proof (cases "Get t ?k ?n")
    case None
    then have "list_map S sha s (Entries t) p rt = None"
      using Get_None [OF assms, of ?k ?n] by (intro list_map_None) auto
    with None show ?thesis by (auto simp: node_lookup_def coord_def split: list.splits)
  next
    case (Some e)
    then have e: "e \<in> set (Entries t)" "te_key e = coord p rt"
      using Get_canonical [OF assms, of ?k ?n e] by auto
    then have "list_map S sha s (Entries t) p rt = entry_map S sha s e p rt"
      using asc by (intro list_map_mem) auto
    with Some e show ?thesis
      by (auto simp: node_lookup_def coord_def entry_map_def te_key_def split: list.splits)
  qed
qed

section \<open>Differences of contents\<close>

text \<open>The change that takes the value \<open>a\<close> at a place to the value \<open>b\<close>.\<close>

definition change_of :: "string list \<Rightarrow> string \<Rightarrow> Hash option \<Rightarrow> Hash option \<Rightarrow> Change" where
  "change_of p t a b =
     \<lparr>ch_Path = p, ch_RRType = t,
      ch_Op = (if a = None then OpAdded else if b = None then OpRemoved else OpModified),
      ch_OldBlob = (case a of None \<Rightarrow> ZeroHash | Some h \<Rightarrow> h),
      ch_NewBlob = (case b of None \<Rightarrow> ZeroHash | Some h \<Rightarrow> h)\<rparr>"

definition changes :: "string list \<Rightarrow> zone_map \<Rightarrow> zone_map \<Rightarrow> Change set" where
  "changes path f g = {change_of (path @ p) t (f p t) (g p t) |p t. f p t \<noteq> g p t}"

lemma change_of_sel [simp]: "ch_Path (change_of p t a b) = p" "ch_RRType (change_of p t a b) = t"
  by (simp_all add: change_of_def)

abbreviation nothing :: zone_map where
  "nothing \<equiv> \<lambda>_ _. None"

lemma list_map_Nil: "list_map S sha s [] = nothing"
  by (simp add: fun_eq_iff)

lemma changes_same [simp]: "changes path f f = {}"
  by (simp add: changes_def)

text \<open>The changes at one coordinate \<open>k\<close> and those at the others.\<close>

lemma changes_split:
  assumes "\<And>p t. coord p t = k \<Longrightarrow> f p t = f1 p t \<and> g p t = g1 p t \<and> f2 p t = None \<and> g2 p t = None"
    and "\<And>p t. coord p t \<noteq> k \<Longrightarrow> f p t = f2 p t \<and> g p t = g2 p t \<and> f1 p t = None \<and> g1 p t = None"
  shows "changes path f g = changes path f1 g1 \<union> changes path f2 g2"
    and "changes path f1 g1 \<inter> changes path f2 g2 = {}"
proof -
  have m1: "coord p t = k" if "f1 p t \<noteq> g1 p t" for p t using that assms(2) by force
  have m2: "coord p t \<noteq> k" if "f2 p t \<noteq> g2 p t" for p t using that assms(1) by force
  show "changes path f g = changes path f1 g1 \<union> changes path f2 g2"
  proof (intro set_eqI iffI)
    fix c assume "c \<in> changes path f g"
    then obtain p t where c: "c = change_of (path @ p) t (f p t) (g p t)" "f p t \<noteq> g p t"
      by (auto simp: changes_def)
    show "c \<in> changes path f1 g1 \<union> changes path f2 g2"
      using c assms(1) [of p t] assms(2) [of p t] by (cases "coord p t = k") (auto simp: changes_def)
  next
    fix c assume "c \<in> changes path f1 g1 \<union> changes path f2 g2"
    then consider p t where "c = change_of (path @ p) t (f1 p t) (g1 p t)" "f1 p t \<noteq> g1 p t"
      | p t where "c = change_of (path @ p) t (f2 p t) (g2 p t)" "f2 p t \<noteq> g2 p t"
      by (auto simp: changes_def)
    then show "c \<in> changes path f g"
    proof cases
      case 1
      with assms(1) [OF m1 [OF 1(2)]] show ?thesis
        unfolding changes_def by (intro CollectI exI [of _ p] exI [of _ t]) simp
    next
      case 2
      with assms(2) [OF m2 [OF 2(2)]] show ?thesis
        unfolding changes_def by (intro CollectI exI [of _ p] exI [of _ t]) simp
    qed
  qed
  show "changes path f1 g1 \<inter> changes path f2 g2 = {}"
  proof -
    have False if c1: "c \<in> changes path f1 g1" and c2: "c \<in> changes path f2 g2" for c
    proof -
      obtain p t where 1: "c = change_of (path @ p) t (f1 p t) (g1 p t)" "f1 p t \<noteq> g1 p t"
        using c1 unfolding changes_def by blast
      obtain q u where 2: "c = change_of (path @ q) u (f2 q u) (g2 q u)" "f2 q u \<noteq> g2 q u"
        using c2 unfolding changes_def by blast
      have "path @ p = path @ q" "t = u" using 1(1) 2(1) change_of_sel by metis+
      then show False using m1 [OF 1(2)] m2 [OF 2(2)] by simp
    qed
    then show ?thesis by blast
  qed
qed

definition below :: "string \<Rightarrow> zone_map \<Rightarrow> zone_map" where
  "below l m p t = (case p of [] \<Rightarrow> None | x # q \<Rightarrow> if x = l then m q t else None)"

lemma below_nothing [simp]: "below l nothing = nothing"
  by (auto simp: below_def fun_eq_iff split: list.splits)

lemma entry_map_subtree:
  "te_Kind e = EntrySubtree \<Longrightarrow> entry_map S sha s e = below (te_Name e) (lookup S sha s (te_Hash e))"
  by (auto simp: entry_map_def below_def coord_def te_key_def fun_eq_iff split: list.splits)

lemma changes_below: "changes path (below l f) (below l g) = changes (path @ [l]) f g"
proof (intro set_eqI iffI)
  fix c assume "c \<in> changes path (below l f) (below l g)"
  then obtain p t where c: "c = change_of (path @ p) t (below l f p t) (below l g p t)" "below l f p t \<noteq> below l g p t"
    unfolding changes_def by blast
  then obtain q where p: "p = l # q" by (cases p) (auto simp: below_def split: if_splits)
  with c show "c \<in> changes (path @ [l]) f g"
    unfolding changes_def by (intro CollectI exI [of _ q] exI [of _ t]) (simp add: below_def)
next
  fix c assume "c \<in> changes (path @ [l]) f g"
  then obtain p t where "c = change_of (path @ l # p) t (f p t) (g p t)" "f p t \<noteq> g p t"
    by (auto simp: changes_def)
  then show "c \<in> changes path (below l f) (below l g)"
    unfolding changes_def by (intro CollectI exI [of _ "l # p"] exI [of _ t]) (simp add: below_def)
qed

lemma changes_leaf:
  assumes "te_Kind a = EntryLeaf"
  shows "changes path (entry_map S sha s a) nothing = {only_side_change path a OpRemoved}"
    and "changes path nothing (entry_map S sha s a) = {only_side_change path a OpAdded}"
    and "te_Kind b = EntryLeaf \<Longrightarrow> te_Name b = te_Name a \<Longrightarrow> te_Hash a \<noteq> te_Hash b \<Longrightarrow>
      changes path (entry_map S sha s a) (entry_map S sha s b)
        = {\<lparr>ch_Path = path, ch_RRType = te_Name a, ch_Op = OpModified, ch_OldBlob = te_Hash a, ch_NewBlob = te_Hash b\<rparr>}"
proof -
  have em: "entry_map S sha s e = (\<lambda>p t. if p = [] \<and> t = te_Name e then Some (te_Hash e) else None)"
    if "te_Kind e = EntryLeaf" for e
    using that by (auto simp: entry_map_def coord_def te_key_def fun_eq_iff split: list.splits)
  show "changes path (entry_map S sha s a) nothing = {only_side_change path a OpRemoved}"
    "changes path nothing (entry_map S sha s a) = {only_side_change path a OpAdded}"
    by (auto simp: em assms changes_def change_of_def only_side_change_def)
  show "te_Kind b = EntryLeaf \<Longrightarrow> te_Name b = te_Name a \<Longrightarrow> te_Hash a \<noteq> te_Hash b \<Longrightarrow>
      changes path (entry_map S sha s a) (entry_map S sha s b)
        = {\<lparr>ch_Path = path, ch_RRType = te_Name a, ch_Op = OpModified, ch_OldBlob = te_Hash a, ch_NewBlob = te_Hash b\<rparr>}"
    by (auto simp: em assms changes_def change_of_def)
qed

declare emitOnlySide.simps [simp del] diffWalk.simps [simp del]

text \<open>Entries whose subtrees are complete and at most \<open>n\<close> nodes deep.\<close>

definition entry_ok :: "'s Storage \<Rightarrow> (bytes \<Rightarrow> Hash) \<Rightarrow> 's \<Rightarrow> nat \<Rightarrow> TreeEntry \<Rightarrow> bool" where
  "entry_ok S sha s n e \<longleftrightarrow> EntryKind_IsValid (te_Kind e) \<and> te_Hash e \<noteq> ZeroHash \<and>
     (te_Kind e = EntrySubtree \<longrightarrow> tree_ok S sha s n (te_Hash e))"

lemma entry_ok_Suc:
  assumes "entry_ok S sha s n e" and "te_Kind e \<noteq> EntryLeaf"
  obtains m t where "n = Suc m" "te_Kind e = EntrySubtree" "LoadTree S sha s (te_Hash e) = Inr t"
    "canonical t" "\<forall>x \<in> set (Entries t). entry_ok S sha s m x"
proof -
  have k: "te_Kind e = EntrySubtree" and ok: "tree_ok S sha s n (te_Hash e)"
    using assms by (auto simp: entry_ok_def EntryKind_IsValid_def)
  obtain m where n: "n = Suc m" using ok by (cases n) auto
  obtain t where t: "LoadTree S sha s (te_Hash e) = Inr t" "node_ok S sha s m t"
    using ok by (auto simp: n tree_ok_Suc)
  have "\<forall>x \<in> set (Entries t). entry_ok S sha s m x"
    using t(2) node_storable_load [OF t] by (auto simp: node_ok_def entry_ok_def node_storable_def storable_def)
  with that n k t(1) node_ok_canonical [OF t(2)] show ?thesis by blast
qed

text \<open>The result of a step that appends exactly the changes \<open>X\<close>, each once.\<close>

definition emits :: "(error + Change list) option \<Rightarrow> Change list \<Rightarrow> Change set \<Rightarrow> bool" where
  "emits r out X \<longleftrightarrow> (\<exists>ds. r = Some (Inr (out @ ds)) \<and> distinct ds \<and> set ds = X)"

lemma emits_bind:
  assumes "emits r out X" and "\<And>out'. emits (f out') out' Y" and "X \<inter> Y = {}"
  shows "emits (case r of None \<Rightarrow> None | Some (Inl er) \<Rightarrow> Some (Inl er) | Some (Inr out') \<Rightarrow> f out') out (X \<union> Y)"
proof -
  obtain ds where ds: "r = Some (Inr (out @ ds))" "distinct ds" "set ds = X"
    using assms(1) by (auto simp: emits_def)
  obtain es where "f (out @ ds) = Some (Inr ((out @ ds) @ es))" "distinct es" "set es = Y"
    using assms(2) [of "out @ ds"] by (auto simp: emits_def)
  with ds assms(3) show ?thesis
    by (auto simp: emits_def)
qed

lemma emits_nothing: "emits (Some (Inr out)) out {}"
  by (simp add: emits_def)

abbreviation side :: "ChangeOp \<Rightarrow> string list \<Rightarrow> zone_map \<Rightarrow> Change set" where
  "side op path m \<equiv> (if op = OpAdded then changes path nothing m else changes path m nothing)"

lemma list_map_Cons:
  assumes "\<forall>x \<in> set es. te_key e < te_key x"
  shows "coord p t = te_key e \<Longrightarrow> list_map S sha s (e # es) p t = entry_map S sha s e p t \<and> list_map S sha s es p t = None"
    and "coord p t \<noteq> te_key e \<Longrightarrow> list_map S sha s (e # es) p t = list_map S sha s es p t \<and> entry_map S sha s e p t = None"
  using assms by (auto simp: entry_map_def intro!: list_map_None)

lemma hist_cmpEntry_key:
  "hist_cmpEntry a b < 0 \<longleftrightarrow> te_key a < te_key b" "hist_cmpEntry a b > 0 \<longleftrightarrow> te_key b < te_key a"
  by (auto simp: hist_cmpEntry_def te_key_def less_prod_def)

lemma list_map_above:
  "\<forall>x \<in> set es. k < te_key x \<Longrightarrow> coord p t = k \<Longrightarrow> list_map S sha s es p t = None"
  by (intro list_map_None) auto

lemma diff_step_old:
  assumes "\<forall>x \<in> set oa. te_key a < te_key x" and "\<forall>x \<in> set na. te_key a < te_key x"
  shows "changes path (list_map S sha s (a # oa)) (list_map S sha s na)
      = changes path (entry_map S sha s a) nothing \<union> changes path (list_map S sha s oa) (list_map S sha s na)"
    and "changes path (entry_map S sha s a) nothing \<inter> changes path (list_map S sha s oa) (list_map S sha s na) = {}"
  by (rule changes_split(1) [where k = "te_key a"];
      use list_map_Cons [OF assms(1), of _ _ S sha s] list_map_above [OF assms(2), of _ _ S sha s] in simp)
    (rule changes_split(2) [where k = "te_key a" and f = "list_map S sha s (a # oa)" and g = "list_map S sha s na"];
      use list_map_Cons [OF assms(1), of _ _ S sha s] list_map_above [OF assms(2), of _ _ S sha s] in simp)

lemma diff_step_new:
  assumes "\<forall>x \<in> set oa. te_key b < te_key x" and "\<forall>x \<in> set na. te_key b < te_key x"
  shows "changes path (list_map S sha s oa) (list_map S sha s (b # na))
      = changes path nothing (entry_map S sha s b) \<union> changes path (list_map S sha s oa) (list_map S sha s na)"
    and "changes path nothing (entry_map S sha s b) \<inter> changes path (list_map S sha s oa) (list_map S sha s na) = {}"
  by (rule changes_split(1) [where k = "te_key b"];
      use list_map_Cons [OF assms(2), of _ _ S sha s] list_map_above [OF assms(1), of _ _ S sha s] in simp)
    (rule changes_split(2) [where k = "te_key b" and f = "list_map S sha s oa" and g = "list_map S sha s (b # na)"];
      use list_map_Cons [OF assms(2), of _ _ S sha s] list_map_above [OF assms(1), of _ _ S sha s] in simp)

lemma diff_step_both:
  assumes "\<forall>x \<in> set oa. te_key a < te_key x" and "\<forall>x \<in> set na. te_key b < te_key x" and "te_key a = te_key b"
  shows "changes path (list_map S sha s (a # oa)) (list_map S sha s (b # na))
      = changes path (entry_map S sha s a) (entry_map S sha s b) \<union> changes path (list_map S sha s oa) (list_map S sha s na)"
    and "changes path (entry_map S sha s a) (entry_map S sha s b) \<inter> changes path (list_map S sha s oa) (list_map S sha s na) = {}"
  by (rule changes_split(1) [where k = "te_key a"];
      use list_map_Cons [OF assms(1), of _ _ S sha s] list_map_Cons [OF assms(2), of _ _ S sha s] assms(3) in simp)
    (rule changes_split(2) [where k = "te_key a" and f = "list_map S sha s (a # oa)" and g = "list_map S sha s (b # na)"];
      use list_map_Cons [OF assms(1), of _ _ S sha s] list_map_Cons [OF assms(2), of _ _ S sha s] assms(3) in simp)

lemma emitOnlySide_spec:
  assumes "op = OpAdded \<or> op = OpRemoved"
  shows "entry_ok S sha s n e \<Longrightarrow>
    emits (emitOnlySide S sha s n path e op out) out (side op path (entry_map S sha s e))"
proof (induction n arbitrary: path e out rule: less_induct)
  case (less n)
  show ?case
  proof (cases "te_Kind e = EntryLeaf")
    case True
    then show ?thesis
      using assms changes_leaf(1,2) [OF True, of path S sha s]
      by (auto simp: emitOnlySide.simps emits_def)
  next
    case False
    from less.prems False show ?thesis
    proof (rule entry_ok_Suc)
      fix m t
      assume n: "n = Suc m" and k: "te_Kind e = EntrySubtree" and t: "LoadTree S sha s (te_Hash e) = Inr t" "canonical t"
        and ok: "\<forall>x \<in> set (Entries t). entry_ok S sha s m x"
      let ?path = "path @ [te_Name e]"
      have kids: "emits (emit_children S sha s m ?path es op out) out (side op ?path (list_map S sha s es))"
        if "ascending es" "\<forall>x \<in> set es. entry_ok S sha s m x" for es out
        using that
      proof (induction es arbitrary: out)
        case (Cons x es)
        have asc: "\<forall>y \<in> set es. te_key x < te_key y" using Cons.prems by simp
        note st = diff_step_old [OF asc, of "[]" ?path S sha s] diff_step_new [of "[]", OF _ asc, of ?path S sha s]
        have U: "side op ?path (list_map S sha s (x # es)) = side op ?path (entry_map S sha s x) \<union> side op ?path (list_map S sha s es)"
          and I: "side op ?path (entry_map S sha s x) \<inter> side op ?path (list_map S sha s es) = {}"
          using st by (simp_all add: list_map_Nil)
        show ?case
          unfolding emit_children.simps U
          using less.IH [of m x ?path] Cons.IH Cons.prems n I by (intro emits_bind) auto
      qed (simp_all add: emits_nothing list_map_Nil)
      have lm: "list_map S sha s (Entries t) = lookup S sha s (te_Hash e)"
        using node_lookup_list_map [OF t(2), of S sha s] by (auto simp: fun_eq_iff lookup_node [OF t(1)])
      have asc: "ascending (Entries t)" using t(2) by (simp add: ascending_def canonical_def)
      have below: "side op ?path (lookup S sha s (te_Hash e)) = side op path (entry_map S sha s e)"
        using changes_below [of path "te_Name e" nothing] changes_below [of path "te_Name e" _ nothing]
        by (simp add: entry_map_subtree [OF k])
      have "emitOnlySide S sha s n path e op out = emit_children S sha s m ?path (Entries t) op out"
        using n k t(1) by (simp add: emitOnlySide.simps)
      then show ?thesis
        using kids [OF asc ok, of out] unfolding lm below by simp
    qed
  qed
qed


text \<open>
  The merge of two ascending entry lists, given that \<open>diffWalk\<close> is right on the subtrees.
\<close>

lemma diff_entries_spec:
  assumes walk: "\<And>path a b out. tree_ok S sha s n a \<Longrightarrow> tree_ok S sha s n b \<Longrightarrow> a \<noteq> ZeroHash \<Longrightarrow> b \<noteq> ZeroHash \<Longrightarrow>
      emits (diffWalk S sha s n path a b out) out (changes path (lookup S sha s a) (lookup S sha s b))"
    and "ascending oa" and "ascending na"
    and "\<forall>x \<in> set oa. entry_ok S sha s n x" and "\<forall>x \<in> set na. entry_ok S sha s n x"
  shows "emits (diff_entries S sha s n path oa na out) out (changes path (list_map S sha s oa) (list_map S sha s na))"
  using assms(2-)
proof (induction "length oa + length na" arbitrary: oa na out rule: less_induct)
  case less
  note emit = emitOnlySide_spec [where S = S and sha = sha and s = s and n = n and path = path]
  have old: ?case if oa: "oa = a # oa'" and lt: "\<forall>x \<in> set na. te_key a < te_key x"
    and step: "diff_entries S sha s n path oa na out = (case emitOnlySide S sha s n path a OpRemoved out of
      None \<Rightarrow> None | Some (Inl er) \<Rightarrow> Some (Inl er) | Some (Inr out') \<Rightarrow> diff_entries S sha s n path oa' na out')" for a oa'
  proof -
    have "\<forall>x \<in> set oa'. te_key a < te_key x" using less.prems oa by simp
    note d = diff_step_old [OF this lt, of path S sha s]
    show ?thesis
      unfolding step unfolding oa d(1)
      using less.prems oa emit [of OpRemoved a out] less.hyps [of oa' na] d(2) by (intro emits_bind) auto
  qed
  have new: ?case if na: "na = b # na'" and lt: "\<forall>x \<in> set oa. te_key b < te_key x"
    and step: "diff_entries S sha s n path oa na out = (case emitOnlySide S sha s n path b OpAdded out of
      None \<Rightarrow> None | Some (Inl er) \<Rightarrow> Some (Inl er) | Some (Inr out') \<Rightarrow> diff_entries S sha s n path oa na' out')" for b na'
  proof -
    have "\<forall>x \<in> set na'. te_key b < te_key x" using less.prems na by simp
    note d = diff_step_new [OF lt this, of path S sha s]
    show ?thesis
      unfolding step unfolding na d(1)
      using less.prems na emit [of OpAdded b out] less.hyps [of oa na'] d(2) by (intro emits_bind) auto
  qed
  show ?case
  proof (cases oa)
    case Nil
    show ?thesis
    proof (cases na)
      case Nil
      with \<open>oa = []\<close> show ?thesis by (simp add: emits_nothing)
    next
      case (Cons b na')
      with \<open>oa = []\<close> show ?thesis by (intro new [of b na']) (simp_all cong: option.case_cong sum.case_cong)
    qed
  next
    case oa: (Cons a oa')
    show ?thesis
    proof (cases na)
      case Nil
      with oa show ?thesis by (intro old [of a oa']) (simp_all cong: option.case_cong sum.case_cong)
    next
      case na: (Cons b na')
      have asc: "\<forall>x \<in> set oa'. te_key a < te_key x" "\<forall>x \<in> set na'. te_key b < te_key x"
        using less.prems oa na by simp_all
      consider "te_key a < te_key b" | "te_key b < te_key a" | "te_key a = te_key b" by (rule linorder_cases)
      then show ?thesis
      proof cases
        case 1
        with oa na asc show ?thesis by (intro old [of a oa']) (auto simp: hist_cmpEntry_key)
      next
        case 2
        with oa na asc show ?thesis by (intro new [of b na']) (auto simp: hist_cmpEntry_key)
      next
        case 3
        note d = diff_step_both [OF asc 3, of path S sha s]
        have rest: "emits (diff_entries S sha s n path oa' na' out) out (changes path (list_map S sha s oa') (list_map S sha s na'))" for out
          using less.prems oa na by (intro less.hyps) auto
        have k: "te_Kind a = te_Kind b" "te_Name a = te_Name b" using 3 by (simp_all add: te_key_def)
        have ok: "entry_ok S sha s n a" "entry_ok S sha s n b" using less.prems oa na by simp_all
        show ?thesis
        proof (cases "te_Hash a = te_Hash b")
          case True
          then have "entry_map S sha s a = entry_map S sha s b"
            using k by (simp add: entry_map_def te_key_def fun_eq_iff)
          with rest [of out] True 3 d(1) show ?thesis
            by (simp add: oa na hist_cmpEntry_key)
        next
          case ne: False
          show ?thesis
          proof (cases "te_Kind a = EntryLeaf")
            case True
            let ?c = "\<lparr>ch_Path = path, ch_RRType = te_Name a, ch_Op = OpModified, ch_OldBlob = te_Hash a, ch_NewBlob = te_Hash b\<rparr>"
            have c: "changes path (entry_map S sha s a) (entry_map S sha s b) = {?c}"
              using changes_leaf(3) [OF True, of b path S sha s] True k ne by simp
            have "emits (Some (Inr (out @ [?c]))) out {?c}" by (simp add: emits_def)
            from emits_bind [OF this rest] d show ?thesis
              using True ne 3 by (simp add: oa na hist_cmpEntry_key c)
          next
            case False
            then have sub: "te_Kind a = EntrySubtree" "te_Kind b = EntrySubtree"
              using ok k by (auto simp: entry_ok_def EntryKind_IsValid_def)
            have c: "changes path (entry_map S sha s a) (entry_map S sha s b)
                = changes (path @ [te_Name a]) (lookup S sha s (te_Hash a)) (lookup S sha s (te_Hash b))"
              using changes_below k by (simp add: entry_map_subtree sub)
            have "emits (diffWalk S sha s n (path @ [te_Name a]) (te_Hash a) (te_Hash b) out) out
                (changes path (entry_map S sha s a) (entry_map S sha s b))"
              unfolding c using ok sub by (intro walk) (simp_all add: entry_ok_def)
            from emits_bind [OF this rest d(2)] d(1) show ?thesis
              using False ne 3 by (simp add: oa na hist_cmpEntry_key)
          qed
        qed
      qed
    qed
  qed
qed

lemma root_ok_load:
  assumes "root_ok S sha s (Suc m) h"
  obtains t where "load_or_empty S sha s h = Inr t" "ascending (Entries t)"
    "\<forall>x \<in> set (Entries t). entry_ok S sha s m x" "list_map S sha s (Entries t) = zone_of S sha s h"
proof (cases "h = 0")
  case True
  then show ?thesis using that [of empty_tree] by (simp add: load_or_empty_def zone_of_def list_map_Nil)
next
  case False
  then obtain t where t: "LoadTree S sha s h = Inr t" "node_ok S sha s m t"
    using assms by (auto simp: root_ok_def tree_ok_Suc)
  note can = node_ok_canonical [OF t(2)]
  have "\<forall>x \<in> set (Entries t). entry_ok S sha s m x"
    using t(2) node_storable_load [OF t] by (auto simp: node_ok_def entry_ok_def node_storable_def storable_def)
  moreover have "list_map S sha s (Entries t) = zone_of S sha s h"
    using False node_lookup_list_map [OF can, of S sha s] by (auto simp: zone_of_def fun_eq_iff lookup_node [OF t(1)])
  ultimately show ?thesis
    using that [of t] t(1) can False by (simp add: load_or_empty_def ascending_def canonical_def)
qed

lemma root_ok_0: "root_ok S sha s 0 h \<Longrightarrow> h = ZeroHash"
  by (simp add: root_ok_def)

lemma tree_ok_nonzero: "tree_ok S sha s n h \<Longrightarrow> root_ok S sha s n h"
  by (simp add: root_ok_def)

lemma diffWalk_spec:
  "root_ok S sha s n a \<Longrightarrow> root_ok S sha s n b \<Longrightarrow>
    emits (diffWalk S sha s n path a b out) out (changes path (zone_of S sha s a) (zone_of S sha s b))"
proof (induction n arbitrary: path a b out)
  case 0
  then have "a = b" using root_ok_0 by metis
  then show ?case by (simp add: diffWalk.simps emits_nothing)
next
  case (Suc m)
  show ?case
  proof (cases "a = b")
    case True
    then show ?thesis by (simp add: diffWalk.simps emits_nothing)
  next
    case False
    obtain ta where ta: "load_or_empty S sha s a = Inr ta" "ascending (Entries ta)"
      "\<forall>x \<in> set (Entries ta). entry_ok S sha s m x" "list_map S sha s (Entries ta) = zone_of S sha s a"
      using root_ok_load [OF Suc.prems(1)] .
    obtain tb where tb: "load_or_empty S sha s b = Inr tb" "ascending (Entries tb)"
      "\<forall>x \<in> set (Entries tb). entry_ok S sha s m x" "list_map S sha s (Entries tb) = zone_of S sha s b"
      using root_ok_load [OF Suc.prems(2)] .
    have "emits (diff_entries S sha s m path (Entries ta) (Entries tb) out) out
        (changes path (list_map S sha s (Entries ta)) (list_map S sha s (Entries tb)))"
    proof (rule diff_entries_spec [OF _ ta(2) tb(2) ta(3) tb(3)])
      fix path x y out
      assume "tree_ok S sha s m x" "tree_ok S sha s m y" "x \<noteq> 0" "y \<noteq> 0"
      then show "emits (diffWalk S sha s m path x y out) out (changes path (lookup S sha s x) (lookup S sha s y))"
        using Suc.IH [of x y path out] by (simp add: root_ok_def zone_of_def)
    qed
    then show ?thesis
      using False ta(1,4) tb(1,4) by (simp add: diffWalk.simps)
  qed
qed

section \<open>Properties\<close>

lemma Diff_spec:
  assumes "root_ok S sha s n a" and "root_ok S sha s n b"
  shows "\<exists>cs. Diff S sha s n a b = Some (Inr cs) \<and> distinct cs \<and>
    set cs = changes [] (zone_of S sha s a) (zone_of S sha s b) \<and>
    sorted (map (\<lambda>c. (Change_FQDN c, ch_RRType c)) cs)"
proof -
  obtain ds where "diffWalk S sha s n [] a b [] = Some (Inr ds)" "distinct ds"
    "set ds = changes [] (zone_of S sha s a) (zone_of S sha s b)"
    using diffWalk_spec [OF assms, of "[]" "[]"] by (auto simp: emits_def)
  then show ?thesis by (cases "a = b") (simp_all add: Diff_def)
qed

text \<open>
  C21: the difference of two complete trees, either of which may be empty, has one change for
  every path and type where the two trees hold different values, with the old and the
  new blob and the kind of change, and no other change; the list has no duplicates, is
  in the order of name and type, and the computation ends without an error.
\<close>

theorem diff_exact:
  assumes "root_ok S sha s n a" and "root_ok S sha s n b"
  shows "\<exists>cs. Diff S sha s n a b = Some (Inr cs) \<and> distinct cs \<and>
    set cs = changes [] (zone_of S sha s a) (zone_of S sha s b) \<and>
    sorted (map (\<lambda>c. (Change_FQDN c, ch_RRType c)) cs)"
  using assms by (rule Diff_spec)

theorem diff_exact_witness:
  "\<exists>cs. Diff memstore sample_sha sample_history 2 ZeroHash 536715 = Some (Inr cs) \<and>
    change_of [''www''] ''A'' None (Some 5) \<in> set cs"
proof -
  have "root_ok memstore sample_sha sample_history 2 0" "root_ok memstore sample_sha sample_history 2 536715"
    using sample_history_tree by (simp_all add: root_ok_def)
  from diff_exact [OF this] obtain cs where cs: "Diff memstore sample_sha sample_history 2 ZeroHash 536715 = Some (Inr cs)"
    "set cs = changes [] (zone_of memstore sample_sha sample_history 0) (zone_of memstore sample_sha sample_history 536715)"
    by blast
  have "zone_of memstore sample_sha sample_history 536715 [''www''] ''A'' = Some 5"
    "zone_of memstore sample_sha sample_history 0 [''www''] ''A'' = None" by code_simp+
  then have "change_of [''www''] ''A'' None (Some 5) \<in> set cs"
    unfolding cs(2) changes_def by (intro CollectI exI [of _ "[''www'']"] exI [of _ "''A''"]) simp
  with cs(1) show ?thesis by blast
qed

end
