(* ===== verification/MergeTrees.thy ===== *)
theory MergeTrees
  imports DiffTrees
begin

text \<open>
  pkg/merge: the three-way merge of trees.

  The recursion follows hashes through the store and writes merged nodes as it returns,
  so that the state is threaded through.  A result consists of the state, the
  conflicts so far, and the value or error; \<^const>\<open>None\<close> in its place is running out of fuel.
\<close>

section \<open>Conflicts\<close>

datatype ConflictReason = ReasonBothModified | ReasonDeletedModified | ReasonAddAdd

definition ConflictReason_String :: "ConflictReason \<Rightarrow> string" where
  "ConflictReason_String r =
     (case r of
        ReasonBothModified \<Rightarrow> ''both-modified''
      | ReasonDeletedModified \<Rightarrow> ''deleted-modified''
      | ReasonAddAdd \<Rightarrow> ''add-add'')"

record Conflict =
  cf_Path :: "string list"
  cf_RRType :: string
  cf_Reason :: ConflictReason
  cf_Base :: Hash
  cf_Ours :: Hash
  cf_Theirs :: Hash

definition Conflict_FQDN :: "Conflict \<Rightarrow> string" where
  "Conflict_FQDN c = (if cf_Path c = [] then ''@'' else Join (cf_Path c) ''.'')"

definition Conflict_String :: "Conflict \<Rightarrow> string" where
  "Conflict_String c = Conflict_FQDN c @ '' '' @ cf_RRType c @ '': '' @ ConflictReason_String (cf_Reason c)"

definition resolveLeaf :: "Hash \<Rightarrow> Hash \<Rightarrow> Hash \<Rightarrow> Hash \<times> Conflict option" where
  "resolveLeaf base ours theirs =
     (let conflict = (\<lambda>reason. Some \<lparr>cf_Path = [], cf_RRType = [], cf_Reason = reason,
            cf_Base = base, cf_Ours = ours, cf_Theirs = theirs\<rparr>)
      in if ours = theirs then (ours, None)
         else if ours = base then (theirs, None)
         else if theirs = base then (ours, None)
         else if IsZero base then (ours, conflict ReasonAddAdd)
         else if IsZero ours \<or> IsZero theirs then (ours, conflict ReasonDeletedModified)
         else (ours, conflict ReasonBothModified))"

section \<open>The merge walk\<close>

definition lessKN :: "EntryKind \<Rightarrow> string \<Rightarrow> EntryKind \<Rightarrow> string \<Rightarrow> bool" where
  "lessKN ka na kb nb = (if ka \<noteq> kb then ka < kb else na < nb)"

definition minKey_step :: "(string \<times> EntryKind) option \<Rightarrow> TreeEntry list \<Rightarrow> (string \<times> EntryKind) option" where
  "minKey_step best es =
     (case es of
        [] \<Rightarrow> best
      | x # _ \<Rightarrow>
          (case best of
             None \<Rightarrow> Some (te_Name x, te_Kind x)
           | Some (name, kind) \<Rightarrow>
               if lessKN (te_Kind x) (te_Name x) kind name then Some (te_Name x, te_Kind x) else best))"

text \<open>The lists are the entries from the three cursors on.\<close>

definition minKey :: "TreeEntry list \<Rightarrow> TreeEntry list \<Rightarrow> TreeEntry list \<Rightarrow> (string \<times> EntryKind) option" where
  "minKey b o3 t = foldl minKey_step None [b, o3, t]"

text \<open>The hash under the cursor if it is at the key, and the cursor moved past it.\<close>

definition advance :: "string \<Rightarrow> EntryKind \<Rightarrow> TreeEntry list \<Rightarrow> Hash \<times> TreeEntry list" where
  "advance key kind es =
     (case es of
        [] \<Rightarrow> (ZeroHash, [])
      | e # es' \<Rightarrow> if te_Name e = key \<and> te_Kind e = kind then (te_Hash e, es') else (ZeroHash, es))"

definition add_entry :: "TreeEntry list \<Rightarrow> EntryKind \<Rightarrow> string \<Rightarrow> Hash \<Rightarrow> TreeEntry list" where
  "add_entry merged kind key h =
     (if \<not> IsZero h then merged @ [\<lparr>te_Kind = kind, te_Name = key, te_Hash = h\<rparr>] else merged)"

lemma lessKN_iff: "lessKN ka na kb nb \<longleftrightarrow> (ka, na) < (kb, nb)"
  by (auto simp: lessKN_def less_prod_def)

lemma minKey_step_None: "minKey_step best es = None \<longleftrightarrow> best = None \<and> es = []"
  by (auto simp: minKey_step_def split: list.splits option.splits)

lemma minKey_None: "minKey b o3 t = None \<longleftrightarrow> b = [] \<and> o3 = [] \<and> t = []"
  by (simp add: minKey_def minKey_step_None)

lemma minKey_step_Some:
  assumes "minKey_step best es = Some (name, kind)"
  shows "best = Some (name, kind) \<or> (es \<noteq> [] \<and> te_key (hd es) = (kind, name))"
    and "es \<noteq> [] \<Longrightarrow> (kind, name) \<le> te_key (hd es)"
    and "best = Some (n', k') \<Longrightarrow> (kind, name) \<le> (k', n')"
  using assms by (auto simp: minKey_step_def te_key_def lessKN_iff split: list.splits option.splits if_splits)

lemma minKey_Some:
  assumes "minKey b o3 t = Some (name, kind)"
  shows "\<exists>es \<in> {b, o3, t}. es \<noteq> [] \<and> te_key (hd es) = (kind, name)"
    and "\<forall>es \<in> {b, o3, t}. es \<noteq> [] \<longrightarrow> (kind, name) \<le> te_key (hd es)"
proof -
  let ?r1 = "minKey_step None b" and ?r2 = "minKey_step (minKey_step None b) o3"
  have r3: "minKey_step ?r2 t = Some (name, kind)" using assms by (simp add: minKey_def)
  have "?r2 = Some (name, kind) \<or> (t \<noteq> [] \<and> te_key (hd t) = (kind, name))"
    by (rule minKey_step_Some(1) [OF r3])
  moreover have "\<And>n k. ?r2 = Some (n, k) \<Longrightarrow> ?r1 = Some (n, k) \<or> (o3 \<noteq> [] \<and> te_key (hd o3) = (k, n))"
    by (rule minKey_step_Some(1))
  moreover have "\<And>n k. ?r1 = Some (n, k) \<Longrightarrow> b \<noteq> [] \<and> te_key (hd b) = (k, n)"
    using minKey_step_Some(1) [of None b] by auto
  ultimately show "\<exists>es \<in> {b, o3, t}. es \<noteq> [] \<and> te_key (hd es) = (kind, name)" by blast
  have le2: "?r2 = Some (n, k) \<Longrightarrow> (kind, name) \<le> (k, n)" for n k by (rule minKey_step_Some(3) [OF r3])
  have le1: "?r1 = Some (n, k) \<Longrightarrow> (kind, name) \<le> (k, n)" for n k
  proof (cases ?r2)
    case (Some q)
    assume "?r1 = Some (n, k)"
    with Some minKey_step_Some(3) [of ?r1 o3 "fst q" "snd q" n k] have "(snd q, fst q) \<le> (k, n)" by simp
    moreover have "(kind, name) \<le> (snd q, fst q)" using Some by (intro le2) simp
    ultimately show ?thesis by (rule order_trans [rotated])
  qed (simp add: minKey_step_None)
  show "\<forall>es \<in> {b, o3, t}. es \<noteq> [] \<longrightarrow> (kind, name) \<le> te_key (hd es)"
  proof (intro ballI impI)
    fix es assume "es \<in> {b, o3, t}" "es \<noteq> []"
    then consider "es = b" | "es = o3" | "es = t" by blast
    then show "(kind, name) \<le> te_key (hd es)"
    proof cases
      case 1
      obtain n k where "?r1 = Some (n, k)" using \<open>es \<noteq> []\<close> 1 minKey_step_None [of None b] by (cases ?r1) auto
      then show ?thesis using le1 minKey_step_Some(2) [of None b n k] \<open>es \<noteq> []\<close> 1 by (meson order_trans)
    next
      case 2
      obtain n k where "?r2 = Some (n, k)" using \<open>es \<noteq> []\<close> 2 minKey_step_None [of ?r1 o3] by (cases ?r2) auto
      then show ?thesis using le2 minKey_step_Some(2) [of ?r1 o3 n k] \<open>es \<noteq> []\<close> 2 by (meson order_trans)
    next
      case 3
      then show ?thesis using minKey_step_Some(2) [OF r3] \<open>es \<noteq> []\<close> by simp
    qed
  qed
qed

lemma length_advance: "length (snd (advance key kind es)) \<le> length es"
  and length_advance_hit: "es \<noteq> [] \<Longrightarrow> te_key (hd es) = (kind, key) \<Longrightarrow> length (snd (advance key kind es)) < length es"
  by (auto simp: advance_def te_key_def split: list.splits)

lemma minKey_decreases:
  assumes "minKey b o3 t = Some (key, kind)"
  shows "length (snd (advance key kind b)) + length (snd (advance key kind o3)) + length (snd (advance key kind t))
    < length b + length o3 + length t"
proof -
  obtain es where "es \<in> {b, o3, t}" "length (snd (advance key kind es)) < length es"
    using minKey_Some(1) [OF assms] length_advance_hit by blast
  then show ?thesis
    using length_advance [of key kind b] length_advance [of key kind o3] length_advance [of key kind t]
    by auto
qed

function mergeTreesAt :: "'s Storage \<Rightarrow> (bytes \<Rightarrow> Hash) \<Rightarrow> nat \<Rightarrow> 's \<Rightarrow> string list \<Rightarrow> Hash \<Rightarrow> Hash \<Rightarrow> Hash \<Rightarrow>
    Conflict list \<Rightarrow> 's \<times> Conflict list \<times> (error + Hash) option"
  and merge_loop :: "'s Storage \<Rightarrow> (bytes \<Rightarrow> Hash) \<Rightarrow> nat \<Rightarrow> 's \<Rightarrow> string list \<Rightarrow> TreeEntry list \<Rightarrow> TreeEntry list \<Rightarrow>
    TreeEntry list \<Rightarrow> TreeEntry list \<Rightarrow> Conflict list \<Rightarrow> 's \<times> Conflict list \<times> (error + TreeEntry list) option" where
  "mergeTreesAt S sha n s path base ours theirs out =
     (if ours = theirs then (s, out, Some (Inr ours))
      else if base = ours then (s, out, Some (Inr theirs))
      else if base = theirs then (s, out, Some (Inr ours))
      else case n of
        0 \<Rightarrow> (s, out, None)
      | Suc m \<Rightarrow>
          (case load_or_empty S sha s base of
             Inl e \<Rightarrow> (s, out, Some (Inl e))
           | Inr bt \<Rightarrow>
               (case load_or_empty S sha s ours of
                  Inl e \<Rightarrow> (s, out, Some (Inl e))
                | Inr ot \<Rightarrow>
                    (case load_or_empty S sha s theirs of
                       Inl e \<Rightarrow> (s, out, Some (Inl e))
                     | Inr tt \<Rightarrow>
                         (case merge_loop S sha m s path (Entries bt) (Entries ot) (Entries tt) [] out of
                            (s', out', None) \<Rightarrow> (s', out', None)
                          | (s', out', Some (Inl e)) \<Rightarrow> (s', out', Some (Inl e))
                          | (s', out', Some (Inr merged)) \<Rightarrow>
                              if merged = [] then (s', out', Some (Inr ZeroHash))
                              else (case PutTree S sha s' \<lparr>Entries = merged\<rparr> of
                                (s'', r) \<Rightarrow> (s'', out', Some r)))))))"
| "merge_loop S sha n s path b o3 t merged out =
     (case minKey b o3 t of
        None \<Rightarrow> (s, out, Some (Inr merged))
      | Some (key, kind) \<Rightarrow>
          let (bh, b') = advance key kind b;
              (oh, o') = advance key kind o3;
              (th, t') = advance key kind t
          in if kind = EntryLeaf then
               (case resolveLeaf bh oh th of (resolved, conflict) \<Rightarrow>
                  merge_loop S sha n s path b' o' t' (add_entry merged EntryLeaf key resolved)
                    (case conflict of
                       None \<Rightarrow> out
                     | Some c \<Rightarrow> out @ [c\<lparr>cf_Path := path, cf_RRType := key\<rparr>]))
             else
               (case mergeTreesAt S sha n s (path @ [key]) bh oh th out of
                  (s', out', None) \<Rightarrow> (s', out', None)
                | (s', out', Some (Inl e)) \<Rightarrow> (s', out', Some (Inl e))
                | (s', out', Some (Inr mh)) \<Rightarrow>
                    merge_loop S sha n s' path b' o' t' (add_entry merged EntrySubtree key mh) out'))"
  by pat_completeness auto

termination
proof (relation "inv_image (less_than <*lex*> less_than) (\<lambda>x. case x of
    Inl (S, sha, n, s, path, base, ours, theirs, out) \<Rightarrow> (n, 0)
  | Inr (S, sha, n, s, path, b, o3, t, merged, out) \<Rightarrow> (n, Suc (length b + length o3 + length t)))", goal_cases)
  case 1
  show ?case by auto
next
  case 2
  then show ?case by simp
next
  case (3 S sha n s path b o3 t merged out x key kind)
  then show ?case using minKey_decreases [of b o3 t key kind] by (auto simp: prod_eq_iff)
qed (auto simp: prod_eq_iff dest!: minKey_decreases)

declare mergeTreesAt.simps [simp del] merge_loop.simps [simp del]

definition sortConflicts :: "Conflict list \<Rightarrow> Conflict list" where
  "sortConflicts cs = sort_key (\<lambda>c. (Conflict_FQDN c, cf_RRType c)) cs"

definition MergeTrees :: "'s Storage \<Rightarrow> (bytes \<Rightarrow> Hash) \<Rightarrow> nat \<Rightarrow> 's \<Rightarrow> Hash \<Rightarrow> Hash \<Rightarrow> Hash \<Rightarrow>
    's \<times> (error + Hash \<times> Conflict list) option" where
  "MergeTrees S sha fuel s base ours theirs =
     (case mergeTreesAt S sha fuel s [] base ours theirs [] of
        (s', out, None) \<Rightarrow> (s', None)
      | (s', out, Some (Inl e)) \<Rightarrow> (s', Some (Inl e))
      | (s', out, Some (Inr merged)) \<Rightarrow> (s', Some (Inr (merged, sortConflicts out))))"

section \<open>The three-way merge of contents\<close>

definition merge3 :: "Hash option \<Rightarrow> Hash option \<Rightarrow> Hash option \<Rightarrow> Hash option" where
  "merge3 b o3 t = (if o3 = t then o3 else if o3 = b then t else o3)"

definition clash :: "Hash option \<Rightarrow> Hash option \<Rightarrow> Hash option \<Rightarrow> bool" where
  "clash b o3 t \<longleftrightarrow> o3 \<noteq> t \<and> o3 \<noteq> b \<and> t \<noteq> b"

definition merged_map :: "zone_map \<Rightarrow> zone_map \<Rightarrow> zone_map \<Rightarrow> zone_map" where
  "merged_map b o3 t p rt = merge3 (b p rt) (o3 p rt) (t p rt)"

definition hash_or_zero :: "Hash option \<Rightarrow> Hash" where
  "hash_or_zero x = (case x of None \<Rightarrow> ZeroHash | Some h \<Rightarrow> h)"

definition conflict_of :: "string list \<Rightarrow> string \<Rightarrow> Hash option \<Rightarrow> Hash option \<Rightarrow> Hash option \<Rightarrow> Conflict" where
  "conflict_of p rt b o3 t =
     \<lparr>cf_Path = p, cf_RRType = rt,
      cf_Reason = (if b = None then ReasonAddAdd else if o3 = None \<or> t = None then ReasonDeletedModified else ReasonBothModified),
      cf_Base = hash_or_zero b, cf_Ours = hash_or_zero o3, cf_Theirs = hash_or_zero t\<rparr>"

definition conflicts :: "string list \<Rightarrow> zone_map \<Rightarrow> zone_map \<Rightarrow> zone_map \<Rightarrow> Conflict set" where
  "conflicts path b o3 t =
     {conflict_of (path @ p) rt (b p rt) (o3 p rt) (t p rt) |p rt. clash (b p rt) (o3 p rt) (t p rt)}"

lemma conflict_of_sel [simp]: "cf_Path (conflict_of p rt b o3 t) = p" "cf_RRType (conflict_of p rt b o3 t) = rt"
  by (simp_all add: conflict_of_def)

lemma merged_map_same [simp]: "merged_map b m m = m" "merged_map b b m = m" "merged_map b m b = m"
  by (auto simp: merged_map_def merge3_def fun_eq_iff)

lemma conflicts_same [simp]: "conflicts path b m m = {}" "conflicts path b b m = {}" "conflicts path b m b = {}"
  by (simp_all add: conflicts_def clash_def)

lemma clash_None [simp]: "\<not> clash None None None"
  by (simp add: clash_def)

lemma conflicts_split:
  assumes "\<And>p t. coord p t = k \<Longrightarrow> f p t = f1 p t \<and> g p t = g1 p t \<and> h p t = h1 p t \<and> f2 p t = None \<and> g2 p t = None \<and> h2 p t = None"
    and "\<And>p t. coord p t \<noteq> k \<Longrightarrow> f p t = f2 p t \<and> g p t = g2 p t \<and> h p t = h2 p t \<and> f1 p t = None \<and> g1 p t = None \<and> h1 p t = None"
  shows "conflicts path f g h = conflicts path f1 g1 h1 \<union> conflicts path f2 g2 h2"
    and "conflicts path f1 g1 h1 \<inter> conflicts path f2 g2 h2 = {}"
proof -
  have m1: "coord p t = k" if "clash (f1 p t) (g1 p t) (h1 p t)" for p t using that assms(2) [of p t] by (force simp: clash_def)
  have m2: "coord p t \<noteq> k" if "clash (f2 p t) (g2 p t) (h2 p t)" for p t using that assms(1) [of p t] by (force simp: clash_def)
  show "conflicts path f g h = conflicts path f1 g1 h1 \<union> conflicts path f2 g2 h2"
  proof (intro set_eqI iffI)
    fix c assume "c \<in> conflicts path f g h"
    then obtain p t where c: "c = conflict_of (path @ p) t (f p t) (g p t) (h p t)" "clash (f p t) (g p t) (h p t)"
      unfolding conflicts_def by blast
    show "c \<in> conflicts path f1 g1 h1 \<union> conflicts path f2 g2 h2"
      using c assms(1) [of p t] assms(2) [of p t] by (cases "coord p t = k") (auto simp: conflicts_def)
  next
    fix c assume "c \<in> conflicts path f1 g1 h1 \<union> conflicts path f2 g2 h2"
    then consider p t where "c = conflict_of (path @ p) t (f1 p t) (g1 p t) (h1 p t)" "clash (f1 p t) (g1 p t) (h1 p t)"
      | p t where "c = conflict_of (path @ p) t (f2 p t) (g2 p t) (h2 p t)" "clash (f2 p t) (g2 p t) (h2 p t)"
      unfolding conflicts_def by blast
    then show "c \<in> conflicts path f g h"
    proof cases
      case 1
      with assms(1) [OF m1 [OF 1(2)]] show ?thesis
        unfolding conflicts_def by (intro CollectI exI [of _ p] exI [of _ t]) simp
    next
      case 2
      with assms(2) [OF m2 [OF 2(2)]] show ?thesis
        unfolding conflicts_def by (intro CollectI exI [of _ p] exI [of _ t]) simp
    qed
  qed
  have False if c1: "c \<in> conflicts path f1 g1 h1" and c2: "c \<in> conflicts path f2 g2 h2" for c
  proof -
    obtain p t where 1: "c = conflict_of (path @ p) t (f1 p t) (g1 p t) (h1 p t)" "clash (f1 p t) (g1 p t) (h1 p t)"
      using c1 unfolding conflicts_def by blast
    obtain q u where 2: "c = conflict_of (path @ q) u (f2 q u) (g2 q u) (h2 q u)" "clash (f2 q u) (g2 q u) (h2 q u)"
      using c2 unfolding conflicts_def by blast
    have "path @ p = path @ q" "t = u" using 1(1) 2(1) conflict_of_sel by metis+
    then show False using m1 [OF 1(2)] m2 [OF 2(2)] by simp
  qed
  then show "conflicts path f1 g1 h1 \<inter> conflicts path f2 g2 h2 = {}" by blast
qed

lemma conflicts_below: "conflicts path (below l f) (below l g) (below l h) = conflicts (path @ [l]) f g h"
proof (intro set_eqI iffI)
  fix c assume "c \<in> conflicts path (below l f) (below l g) (below l h)"
  then obtain p t where c: "c = conflict_of (path @ p) t (below l f p t) (below l g p t) (below l h p t)"
    "clash (below l f p t) (below l g p t) (below l h p t)"
    unfolding conflicts_def by blast
  then obtain q where p: "p = l # q" by (cases p) (auto simp: below_def split: if_splits)
  with c show "c \<in> conflicts (path @ [l]) f g h"
    unfolding conflicts_def by (intro CollectI exI [of _ q] exI [of _ t]) (simp add: below_def)
next
  fix c assume "c \<in> conflicts (path @ [l]) f g h"
  then obtain p t where "c = conflict_of (path @ l # p) t (f p t) (g p t) (h p t)" "clash (f p t) (g p t) (h p t)"
    by (auto simp: conflicts_def)
  then show "c \<in> conflicts path (below l f) (below l g) (below l h)"
    unfolding conflicts_def by (intro CollectI exI [of _ "l # p"] exI [of _ t]) (simp add: below_def)
qed

section \<open>One step of the walk\<close>

text \<open>What a hash under a key stands for; the zero hash for nothing.\<close>

definition value_map :: "'s Storage \<Rightarrow> (bytes \<Rightarrow> Hash) \<Rightarrow> 's \<Rightarrow> EntryKind \<Rightarrow> string \<Rightarrow> Hash \<Rightarrow> zone_map" where
  "value_map S sha s kind key h =
     (if h = ZeroHash then nothing else entry_map S sha s \<lparr>te_Kind = kind, te_Name = key, te_Hash = h\<rparr>)"

definition good_entry :: "'s Storage \<Rightarrow> (bytes \<Rightarrow> Hash) \<Rightarrow> 's \<Rightarrow> nat \<Rightarrow> TreeEntry \<Rightarrow> bool" where
  "good_entry S sha s n e \<longleftrightarrow> entry_ok S sha s n e \<and> storable e \<and> te_Name e \<noteq> []"

lemma value_map_subtree: "value_map S sha s EntrySubtree key h = below key (zone_of S sha s h)"
  using entry_map_subtree [of "\<lparr>te_Kind = EntrySubtree, te_Name = key, te_Hash = h\<rparr>" S sha s]
  by (simp add: value_map_def zone_of_def)

lemma value_map_leaf:
  "value_map S sha s EntryLeaf key h = (\<lambda>p t. if p = [] \<and> t = key \<and> h \<noteq> ZeroHash then Some h else None)"
  by (auto simp: value_map_def entry_map_def coord_def te_key_def fun_eq_iff split: list.splits)

lemma advance_spec:
  assumes "advance key kind es = (h, es')" and "ascending es" and "es \<noteq> [] \<longrightarrow> (kind, key) \<le> te_key (hd es)"
    and "\<forall>e \<in> set es. good_entry S sha s n e"
  shows "ascending es'" and "\<forall>e \<in> set es'. good_entry S sha s n e \<and> (kind, key) < te_key e"
    and "coord p t = (kind, key) \<Longrightarrow> list_map S sha s es p t = value_map S sha s kind key h p t \<and> list_map S sha s es' p t = None"
    and "coord p t \<noteq> (kind, key) \<Longrightarrow> list_map S sha s es p t = list_map S sha s es' p t \<and> value_map S sha s kind key h p t = None"
    and "kind = EntrySubtree \<Longrightarrow> root_ok S sha s n h"
    and "h \<noteq> ZeroHash \<Longrightarrow> good_entry S sha s n \<lparr>te_Kind = kind, te_Name = key, te_Hash = h\<rparr>"
proof -
  show asc: "ascending es'"
    using assms(1,2) by (auto simp: advance_def split: list.splits if_splits)
  have above: "\<forall>e \<in> set es'. (kind, key) < te_key e"
  proof (cases es)
    case (Cons e es1)
    have le: "(kind, key) \<le> te_key e" using assms(3) Cons by simp
    have asc1: "\<forall>x \<in> set es1. te_key e < te_key x" using assms(2) Cons by simp
    show ?thesis
    proof (cases "te_Name e = key \<and> te_Kind e = kind")
      case True
      then have "es' = es1" "te_key e = (kind, key)" using assms(1) Cons by (simp_all add: advance_def te_key_def)
      with asc1 show ?thesis by simp
    next
      case False
      then have "es' = es" "te_key e \<noteq> (kind, key)" using assms(1) Cons by (auto simp: advance_def te_key_def)
      with le have "(kind, key) < te_key e" by simp
      with asc1 \<open>es' = es\<close> Cons show ?thesis by auto
    qed
  qed (use assms(1) in \<open>simp add: advance_def\<close>)
  have sub: "set es' \<subseteq> set es" using assms(1) by (auto simp: advance_def split: list.splits if_splits)
  with above assms(4) show "\<forall>e \<in> set es'. good_entry S sha s n e \<and> (kind, key) < te_key e" by blast
  have hit: "h \<noteq> 0 \<Longrightarrow> es = \<lparr>te_Kind = kind, te_Name = key, te_Hash = h\<rparr> # es'"
    using assms(1) by (cases es) (auto simp: advance_def split: if_splits)
  have miss: "h = 0 \<Longrightarrow> es = es'"
    using assms(1,4) by (cases es) (auto simp: advance_def good_entry_def entry_ok_def split: if_splits)
  have none: "coord p t = (kind, key) \<Longrightarrow> list_map S sha s es' p t = None" for p t
    using above by (intro list_map_above) auto
  show "coord p t = (kind, key) \<Longrightarrow> list_map S sha s es p t = value_map S sha s kind key h p t \<and> list_map S sha s es' p t = None"
    using none hit miss by (cases "h = 0") (auto simp: value_map_def te_key_def)
  show "coord p t \<noteq> (kind, key) \<Longrightarrow> list_map S sha s es p t = list_map S sha s es' p t \<and> value_map S sha s kind key h p t = None"
    using hit miss by (cases "h = 0") (auto simp: value_map_def te_key_def entry_map_def)
  show good: "h \<noteq> ZeroHash \<Longrightarrow> good_entry S sha s n \<lparr>te_Kind = kind, te_Name = key, te_Hash = h\<rparr>"
    using hit assms(4) by auto
  then show "kind = EntrySubtree \<Longrightarrow> root_ok S sha s n h"
    by (auto simp: root_ok_def good_entry_def entry_ok_def)
qed

definition opt_hash :: "Hash \<Rightarrow> Hash option" where
  "opt_hash h = (if h = ZeroHash then None else Some h)"

lemma conflicts_leaf:
  "conflicts path (value_map S sha s EntryLeaf key a) (value_map S sha s EntryLeaf key b) (value_map S sha s EntryLeaf key c) =
    (if clash (opt_hash a) (opt_hash b) (opt_hash c)
     then {conflict_of path key (opt_hash a) (opt_hash b) (opt_hash c)} else {})"
proof -
  have v: "value_map S sha s EntryLeaf key h p t = (if p = [] \<and> t = key then opt_hash h else None)" for h p t
    by (simp add: value_map_leaf opt_hash_def)
  show ?thesis
    unfolding conflicts_def v by auto
qed

lemma resolveLeaf_spec:
  fixes S :: "'s Storage" and sha :: "bytes \<Rightarrow> Hash" and s :: "'s" and key :: string and bh oh th :: Hash
  defines "v \<equiv> \<lambda>h. value_map S sha s EntryLeaf key h"
  assumes "resolveLeaf bh oh th = (r, conf)"
  shows "v r = merged_map (v bh) (v oh) (v th)"
    and "conflicts path (v bh) (v oh) (v th) = (case conf of None \<Rightarrow> {} | Some c \<Rightarrow> {c\<lparr>cf_Path := path, cf_RRType := key\<rparr>})"
    and "r \<in> {bh, oh, th}"
proof -
  show "v r = merged_map (v bh) (v oh) (v th)"
    using assms(2) by (auto simp: v_def value_map_leaf resolveLeaf_def merged_map_def merge3_def Let_def fun_eq_iff split: if_splits)
  show "r \<in> {bh, oh, th}"
    using assms(2) by (auto simp: resolveLeaf_def Let_def split: if_splits)
  show "conflicts path (v bh) (v oh) (v th) = (case conf of None \<Rightarrow> {} | Some c \<Rightarrow> {c\<lparr>cf_Path := path, cf_RRType := key\<rparr>})"
    unfolding v_def conflicts_leaf
    using assms(2) by (auto simp: resolveLeaf_def conflict_of_def hash_or_zero_def clash_def opt_hash_def Let_def split: if_splits)
qed

section \<open>The merge under the contract of a backend\<close>

lemma merge_loop_end: "minKey b o3 t = None \<Longrightarrow> merge_loop S sha n s path b o3 t merged out = (s, out, Some (Inr merged))"
  by (simp add: merge_loop.simps)

lemma merge_loop_leaf:
  assumes "minKey b o3 t = Some (key, EntryLeaf)" and "advance key EntryLeaf b = (bh, b')"
    and "advance key EntryLeaf o3 = (oh, o')" and "advance key EntryLeaf t = (th, t')"
    and "resolveLeaf bh oh th = (r, conf)"
  shows "merge_loop S sha n s path b o3 t merged out =
    merge_loop S sha n s path b' o' t' (add_entry merged EntryLeaf key r)
      (case conf of None \<Rightarrow> out | Some c \<Rightarrow> out @ [c\<lparr>cf_Path := path, cf_RRType := key\<rparr>])"
  using assms by (simp add: merge_loop.simps [of S sha n s path b o3 t merged out])

lemma merge_loop_subtree:
  assumes "minKey b o3 t = Some (key, kind)" and "kind \<noteq> EntryLeaf" and "advance key kind b = (bh, b')"
    and "advance key kind o3 = (oh, o')" and "advance key kind t = (th, t')"
  shows "merge_loop S sha n s path b o3 t merged out =
    (case mergeTreesAt S sha n s (path @ [key]) bh oh th out of
       (s', out', None) \<Rightarrow> (s', out', None)
     | (s', out', Some (Inl e)) \<Rightarrow> (s', out', Some (Inl e))
     | (s', out', Some (Inr mh)) \<Rightarrow> merge_loop S sha n s' path b' o' t' (add_entry merged EntrySubtree key mh) out')"
  using assms by (simp add: merge_loop.simps [of S sha n s path b o3 t merged out])

context object_store
begin

lemma good_entry_stable:
  "good_entry S sha s n e \<Longrightarrow> hist s \<subseteq> hist s' \<Longrightarrow> single_valued (hist s') \<Longrightarrow> good_entry S sha s' n e"
  by (auto simp: good_entry_def entry_ok_def intro: tree_ok_stable)

lemma root_ok_stable:
  "root_ok S sha s n h \<Longrightarrow> hist s \<subseteq> hist s' \<Longrightarrow> single_valued (hist s') \<Longrightarrow> root_ok S sha s' n h"
  by (auto simp: root_ok_def intro: tree_ok_stable)

lemma zone_of_stable:
  "root_ok S sha s n h \<Longrightarrow> hist s \<subseteq> hist s' \<Longrightarrow> single_valued (hist s') \<Longrightarrow> zone_of S sha s' h = zone_of S sha s h"
  by (auto simp: root_ok_def zone_of_def fun_eq_iff lookup_stable)

lemma entry_map_stable:
  "good_entry S sha s n e \<Longrightarrow> hist s \<subseteq> hist s' \<Longrightarrow> single_valued (hist s') \<Longrightarrow> entry_map S sha s' e = entry_map S sha s e"
  by (auto simp: good_entry_def entry_ok_def entry_map_def fun_eq_iff EntryKind_IsValid_def lookup_stable)

lemma list_map_stable:
  "\<forall>e \<in> set es. good_entry S sha s n e \<Longrightarrow> hist s \<subseteq> hist s' \<Longrightarrow> single_valued (hist s') \<Longrightarrow>
    list_map S sha s' es = list_map S sha s es"
proof (induction es)
  case (Cons e es)
  then have "entry_map S sha s' e = entry_map S sha s e" by (intro entry_map_stable) auto
  with Cons show ?case by (simp add: fun_eq_iff)
qed (simp add: list_map_Nil)

end

text \<open>The state only grows in objects; refs and reflog stay.\<close>

definition extends :: "('s \<Rightarrow> (Hash \<times> Object) set) \<Rightarrow> ('s \<Rightarrow> string \<Rightarrow> Hash option) \<Rightarrow>
    ('s \<Rightarrow> string \<Rightarrow> ReflogEntry list) \<Rightarrow> 's \<Rightarrow> 's \<Rightarrow> bool" where
  "extends hist ref log s s' \<longleftrightarrow> hist s \<subseteq> hist s' \<and> ref s' = ref s \<and> log s' = log s"

lemma extends_refl [simp]: "extends hist ref log s s"
  by (simp add: extends_def)

lemma extends_trans: "extends hist ref log s s1 \<Longrightarrow> extends hist ref log s1 s2 \<Longrightarrow> extends hist ref log s s2"
  by (auto simp: extends_def)

context storage
begin

abbreviation grows :: "'s \<Rightarrow> 's \<Rightarrow> bool" where
  "grows \<equiv> extends hist ref log"

lemma PutObject_grows: "grows s (fst (PutObject S s h obj))"
  using hist_mono put_ref put_log by (auto simp: extends_def)

lemma PutTree_grows: "grows s (fst (PutTree S sha s t))"
  using PutObject_grows [of s]
  by (auto simp: PutTree_def split: sum.splits prod.splits) (metis fst_conv)+

lemma merge_loop_grows:
  assumes "\<And>s path b o3 t out. grows s (fst (mergeTreesAt S sha n s path b o3 t out))"
  shows "grows s (fst (merge_loop S sha n s path b o3 t merged out))"
proof (induction "length b + length o3 + length t" arbitrary: s b o3 t merged out rule: less_induct)
  case less
  show ?case
  proof (cases "minKey b o3 t")
    case None
    then show ?thesis by (simp add: merge_loop.simps)
  next
    case (Some kk)
    obtain key kind where kk: "kk = (key, kind)" by (cases kk)
    obtain bh b' oh o' th t' where adv: "advance key kind b = (bh, b')" "advance key kind o3 = (oh, o')" "advance key kind t = (th, t')"
      by (metis surj_pair)
    have dec: "length b' + length o' + length t' < length b + length o3 + length t"
      using minKey_decreases [of b o3 t key kind] Some kk adv by simp
    note IH = less.hyps [OF dec]
    show ?thesis
    proof (cases "kind = EntryLeaf")
      case True
      obtain r conf where "resolveLeaf bh oh th = (r, conf)" by (cases "resolveLeaf bh oh th")
      with Some kk adv True IH show ?thesis by (simp add: merge_loop_leaf)
    next
      case False
      obtain s1 out1 r1 where sub: "mergeTreesAt S sha n s (path @ [key]) bh oh th out = (s1, out1, r1)" by (metis surj_pair)
      have s1: "grows s s1" using assms [of s "path @ [key]" bh oh th out] sub by simp
      have "merge_loop S sha n s path b o3 t merged out = (case r1 of None \<Rightarrow> (s1, out1, None)
          | Some (Inl e) \<Rightarrow> (s1, out1, Some (Inl e))
          | Some (Inr mh) \<Rightarrow> merge_loop S sha n s1 path b' o' t' (add_entry merged EntrySubtree key mh) out1)"
        using merge_loop_subtree [OF _ False adv, of S sha n s path merged out] Some kk sub by simp
      with s1 IH [of s1] show ?thesis
        by (auto split: option.splits sum.splits intro: extends_trans)
    qed
  qed
qed

lemma mergeTreesAt_grows: "grows s (fst (mergeTreesAt S sha n s path b o3 t out))"
proof (induction n arbitrary: s path b o3 t out)
  case 0
  show ?case by (simp add: mergeTreesAt.simps)
next
  case (Suc m)
  have loop: "grows s (fst (merge_loop S sha m s path bs os ts merged out))" for s bs os ts merged out
    by (rule merge_loop_grows [OF Suc.IH])
  have put: "grows s s2" if "merge_loop S sha m s path bs os ts merged out = (s1, r)" "PutTree S sha s1 tr = (s2, q)"
    for bs os ts merged s1 r tr s2 q
    using loop [of s bs os ts merged out] PutTree_grows [of s1 sha tr] that by (auto intro: extends_trans)
  show ?case
    using loop put
    by (auto simp: mergeTreesAt.simps split: sum.splits prod.splits option.splits) (metis fst_conv)+
qed

end

end
