(* ===== verification/MergeCorrect.thy ===== *)
theory MergeCorrect
  imports MergeTrees
begin

text \<open>
  The three-way merge of pkg/merge is right record by record: the merged tree holds the
  three-way merge of the values of every record, and the conflicts are exactly the
  records that all three sides disagree on.
\<close>

definition merge_right :: "'s Storage \<Rightarrow> ('s \<Rightarrow> (Hash \<times> Object) set) \<Rightarrow> (bytes \<Rightarrow> Hash) \<Rightarrow> nat \<Rightarrow> bool" where
  "merge_right S hist sha n \<longleftrightarrow> (\<forall>s path b o3 t out s' out' res.
     mergeTreesAt S sha n s path b o3 t out = (s', out', res) \<longrightarrow> healthy (hist s') \<longrightarrow>
     root_ok S sha s n b \<longrightarrow> root_ok S sha s n o3 \<longrightarrow> root_ok S sha s n t \<longrightarrow>
     (\<exists>r cs. res = Some (Inr r) \<and> out' = out @ cs \<and> distinct cs \<and>
       set cs = conflicts path (zone_of S sha s b) (zone_of S sha s o3) (zone_of S sha s t) \<and>
       root_ok S sha s' n r \<and>
       zone_of S sha s' r = merged_map (zone_of S sha s b) (zone_of S sha s o3) (zone_of S sha s t)))"

text \<open>A map that is \<open>v\<close> at the coordinate \<open>k\<close> and \<open>m'\<close> elsewhere.\<close>

definition parted :: "EntryKind \<times> string \<Rightarrow> zone_map \<Rightarrow> zone_map \<Rightarrow> zone_map \<Rightarrow> bool" where
  "parted k m v m' \<longleftrightarrow> (\<forall>p t. (coord p t = k \<longrightarrow> m p t = v p t \<and> m' p t = None) \<and>
     (coord p t \<noteq> k \<longrightarrow> m p t = m' p t \<and> v p t = None))"

lemma parted_conflicts:
  assumes "parted k b vb b'" and "parted k o3 vo o'" and "parted k t vt t'"
  shows "conflicts path b o3 t = conflicts path vb vo vt \<union> conflicts path b' o' t'"
    and "conflicts path vb vo vt \<inter> conflicts path b' o' t' = {}"
  using assms unfolding parted_def by (blast intro!: conflicts_split(1), blast intro!: conflicts_split(2))

lemma parted_merged:
  assumes "parted k b vb b'" and "parted k o3 vo o'" and "parted k t vt t'"
  shows "merged_map b o3 t = (\<lambda>p rt. if coord p rt = k then merged_map vb vo vt p rt else merged_map b' o' t' p rt)"
  using assms by (auto simp: parted_def merged_map_def fun_eq_iff)

lemma merged_below: "below l (merged_map b o3 t) = merged_map (below l b) (below l o3) (below l t)"
  by (auto simp: below_def merged_map_def merge3_def fun_eq_iff split: list.splits)

lemma ascending_append:
  "ascending (es @ ds) \<longleftrightarrow> ascending es \<and> ascending ds \<and> (\<forall>e \<in> set es. \<forall>d \<in> set ds. te_key e < te_key d)"
  by (auto simp: ascending_def sorted_wrt_append)

lemma add_entry_value:
  assumes "good_entry S sha s n \<lparr>te_Kind = kind, te_Name = key, te_Hash = r\<rparr> \<or> r = ZeroHash"
  obtains es where "add_entry merged kind key r = merged @ es" "\<forall>e \<in> set es. te_key e = (kind, key) \<and> good_entry S sha s n e"
    "ascending es" "list_map S sha s (es @ ds) = (\<lambda>p t. if coord p t = (kind, key) \<and> r \<noteq> 0
      then value_map S sha s kind key r p t else list_map S sha s ds p t)"
proof (cases "r = 0")
  case True
  then show ?thesis using that [of "[]"] by (simp add: add_entry_def)
next
  case False
  let ?e = "\<lparr>te_Kind = kind, te_Name = key, te_Hash = r\<rparr>"
  show ?thesis
    using that [of "[?e]"] False assms by (auto simp: add_entry_def te_key_def value_map_def fun_eq_iff)
qed

lemma root_ok_load_good:
  assumes "root_ok S sha s (Suc m) h"
  obtains t where "load_or_empty S sha s h = Inr t" "ascending (Entries t)"
    "\<forall>x \<in> set (Entries t). good_entry S sha s m x" "list_map S sha s (Entries t) = zone_of S sha s h"
proof -
  obtain t where t: "load_or_empty S sha s h = Inr t" "ascending (Entries t)"
    "\<forall>x \<in> set (Entries t). entry_ok S sha s m x" "list_map S sha s (Entries t) = zone_of S sha s h"
    using root_ok_load [OF assms] .
  have "\<forall>x \<in> set (Entries t). storable x \<and> te_Name x \<noteq> []"
  proof (cases "h = 0")
    case False
    then obtain t' where t': "LoadTree S sha s h = Inr t'" "node_ok S sha s m t'"
      using assms by (auto simp: root_ok_def tree_ok_Suc)
    then have "t' = t" using t(1) False by (simp add: load_or_empty_def)
    with node_storable_load [OF t'] show ?thesis by (simp add: node_storable_def)
  qed (use t(1) in \<open>auto simp: load_or_empty_def\<close>)
  with that t show ?thesis by (auto simp: good_entry_def)
qed

context storage
begin

text \<open>
  The walk over three ascending lists: what it adds to the merged list are good entries
  in ascending order whose contents are the merge of the contents of the lists.
\<close>

lemma merge_loop_right:
  assumes at: "merge_right S hist sha n"
    and run: "merge_loop S sha n s path b o3 t merged out = (s', out', res)" and "healthy (hist s')"
    and "ascending b" "ascending o3" "ascending t"
    and "\<forall>e \<in> set b \<union> set o3 \<union> set t. good_entry S sha s n e \<and> lo < te_key e"
  shows "\<exists>ds cs. res = Some (Inr (merged @ ds)) \<and> out' = out @ cs \<and> distinct cs \<and>
    set cs = conflicts path (list_map S sha s b) (list_map S sha s o3) (list_map S sha s t) \<and>
    ascending ds \<and> (\<forall>e \<in> set ds. good_entry S sha s' n e \<and> lo < te_key e) \<and>
    list_map S sha s' ds = merged_map (list_map S sha s b) (list_map S sha s o3) (list_map S sha s t)"
  using run assms(3-)
proof (induction "length b + length o3 + length t" arbitrary: s b o3 t merged out lo rule: less_induct)
  case less
  show ?case
  proof (cases "minKey b o3 t")
    case None
    then have "b = [] \<and> o3 = [] \<and> t = []" by (simp add: minKey_None)
    with less.prems None show ?thesis by (auto simp: merge_loop_end list_map_Nil)
  next
    case (Some kk)
    obtain key kind where kk: "minKey b o3 t = Some (key, kind)" using Some by (cases kk) auto
    obtain bh b' oh o' th t' where adv: "advance key kind b = (bh, b')" "advance key kind o3 = (oh, o')" "advance key kind t = (th, t')"
      by (metis surj_pair)
    have dec: "length b' + length o' + length t' < length b + length o3 + length t"
      using minKey_decreases [OF kk] adv by simp
    have le: "x \<noteq> [] \<longrightarrow> (kind, key) \<le> te_key (hd x)" if "x \<in> {b, o3, t}" for x
      using minKey_Some(2) [OF kk] that by blast
    have ge: "\<forall>e \<in> set x. good_entry S sha s n e" if "x \<in> {b, o3, t}" for x
      using less.prems(6) that by auto
    have lo: "lo < (kind, key)"
    proof -
      obtain x where "x \<in> {b, o3, t}" "x \<noteq> []" "te_key (hd x) = (kind, key)" using minKey_Some(1) [OF kk] by blast
      then show ?thesis using less.prems(6) by (metis UnCI hd_in_set insertE singletonD)
    qed
    note B = advance_spec [OF adv(1) less.prems(3) le [of b] ge [of b], simplified]
    note O' = advance_spec [OF adv(2) less.prems(4) le [of o3] ge [of o3], simplified]
    note T = advance_spec [OF adv(3) less.prems(5) le [of t] ge [of t], simplified]
    let ?k = "(kind, key)" and ?v = "\<lambda>h. value_map S sha s kind key h"
    have parts: "parted ?k (list_map S sha s b) (?v bh) (list_map S sha s b')"
      "parted ?k (list_map S sha s o3) (?v oh) (list_map S sha s o')"
      "parted ?k (list_map S sha s t) (?v th) (list_map S sha s t')"
      using B(3,4) O'(3,4) T(3,4) by (simp_all add: parted_def)
    have rest: "\<forall>e \<in> set b' \<union> set o' \<union> set t'. good_entry S sha s n e \<and> ?k < te_key e"
      using B(2) O'(2) T(2) by blast
    have finish: ?thesis
      if step: "merge_loop S sha n s1 path b' o' t' (add_entry merged kind key r) (out @ cs1) = (s', out', res)"
        and s1: "hist s \<subseteq> hist s1" "hist s1 \<subseteq> hist s'"
        and cs1: "distinct cs1" "set cs1 = conflicts path (?v bh) (?v oh) (?v th)"
        and good: "good_entry S sha s1 n \<lparr>te_Kind = kind, te_Name = key, te_Hash = r\<rparr> \<or> r = ZeroHash"
        and val: "value_map S sha s1 kind key r = merged_map (?v bh) (?v oh) (?v th)" for s1 cs1 r
    proof -
      have sv: "single_valued (hist s')" using less.prems(2) by (simp add: healthy_def)
      have sv1: "single_valued (hist s1)" by (rule single_valued_subset [OF s1(2) sv])
      have rest1: "\<forall>e \<in> set b' \<union> set o' \<union> set t'. good_entry S sha s1 n e \<and> ?k < te_key e"
        using rest good_entry_stable [OF _ s1(1) sv1] by blast
      have lm: "list_map S sha s1 b' = list_map S sha s b'" "list_map S sha s1 o' = list_map S sha s o'"
        "list_map S sha s1 t' = list_map S sha s t'"
        using rest by (auto intro!: list_map_stable [OF _ s1(1) sv1])
      obtain ds cs2 where ds: "res = Some (Inr (add_entry merged kind key r @ ds))" "out' = (out @ cs1) @ cs2" "distinct cs2"
        "set cs2 = conflicts path (list_map S sha s b') (list_map S sha s o') (list_map S sha s t')"
        "ascending ds" "\<forall>e \<in> set ds. good_entry S sha s' n e \<and> ?k < te_key e"
        "list_map S sha s' ds = merged_map (list_map S sha s b') (list_map S sha s o') (list_map S sha s t')"
        using less.hyps [OF dec step less.prems(2) B(1) O'(1) T(1) rest1] unfolding lm by blast
      have good': "good_entry S sha s' n \<lparr>te_Kind = kind, te_Name = key, te_Hash = r\<rparr> \<or> r = ZeroHash"
        using good good_entry_stable [OF _ s1(2) sv] by blast
      have val': "value_map S sha s' kind key r = merged_map (?v bh) (?v oh) (?v th)"
        using val good entry_map_stable [OF _ s1(2) sv] by (auto simp: value_map_def)
      obtain es where es: "add_entry merged kind key r = merged @ es" "\<forall>e \<in> set es. te_key e = ?k \<and> good_entry S sha s' n e"
        "ascending es" "list_map S sha s' (es @ ds) = (\<lambda>p t. if coord p t = ?k \<and> r \<noteq> 0
          then value_map S sha s' kind key r p t else list_map S sha s' ds p t)"
        by (rule add_entry_value [OF good'])
      have "list_map S sha s' ds p t = None" if "coord p t = ?k" for p t
        using that ds(6) by (intro list_map_above) auto
      moreover have "r = 0 \<Longrightarrow> merged_map (?v bh) (?v oh) (?v th) = nothing" using val' by (simp add: value_map_def)
      ultimately have "list_map S sha s' (es @ ds) = merged_map (list_map S sha s b) (list_map S sha s o3) (list_map S sha s t)"
        unfolding es(4) parted_merged [OF parts] val' ds(7) [symmetric] by (auto simp: fun_eq_iff)
      moreover have "ascending (es @ ds)" using es(2,3) ds(5,6) by (auto simp: ascending_append)
      moreover have "\<forall>e \<in> set (es @ ds). good_entry S sha s' n e \<and> lo < te_key e"
        using es(2) ds(6) lo by auto
      moreover have "distinct (cs1 @ cs2)" "set (cs1 @ cs2) = conflicts path (list_map S sha s b) (list_map S sha s o3) (list_map S sha s t)"
        using cs1 ds(3,4) parted_conflicts [OF parts, of path] by auto
      ultimately show ?thesis
        using ds(1,2) es(1) by (intro exI [of _ "es @ ds"] exI [of _ "cs1 @ cs2"]) simp
    qed
    show ?thesis
    proof (cases "kind = EntryLeaf")
      case True
      obtain r conf where rl: "resolveLeaf bh oh th = (r, conf)" by (cases "resolveLeaf bh oh th")
      define cs1 where "cs1 = (case conf of None \<Rightarrow> [] | Some c \<Rightarrow> [c\<lparr>cf_Path := path, cf_RRType := key\<rparr>])"
      note R1 = resolveLeaf_spec(1) [OF rl, where S = S and sha = sha and s = s and key = key]
      note R2 = resolveLeaf_spec(2) [OF rl, where S = S and sha = sha and s = s and key = key and path = path]
      have "merge_loop S sha n s path b' o' t' (add_entry merged kind key r) (out @ cs1) = (s', out', res)"
        using less.prems(1) merge_loop_leaf [OF kk [unfolded True] adv [unfolded True] rl, of S sha n s path merged out]
        by (simp add: True cs1_def split: option.splits)
      moreover have "hist s \<subseteq> hist s'"
        using merge_loop_grows [OF mergeTreesAt_grows, of s sha n path b o3 t merged out] less.prems(1) by (simp add: extends_def)
      moreover have "good_entry S sha s n \<lparr>te_Kind = kind, te_Name = key, te_Hash = r\<rparr> \<or> r = ZeroHash"
        using resolveLeaf_spec(3) [OF rl] B(6) O'(6) T(6) by blast
      ultimately show ?thesis
        using R1 R2 by (intro finish [of s r cs1]) (auto simp: True cs1_def split: option.splits)
    next
      case False
      obtain x where x: "x \<in> {b, o3, t}" "x \<noteq> []" "te_key (hd x) = (kind, key)" using minKey_Some(1) [OF kk] by blast
      have hx: "good_entry S sha s n (hd x)" "te_Kind (hd x) = kind" "te_Name (hd x) = key"
        using ge [OF x(1)] x(2,3) by (auto simp: te_key_def)
      then have kind: "kind = EntrySubtree" and name: "key \<noteq> []" "length key \<le> 255"
        using False by (auto simp: good_entry_def storable_def EntryKind_IsValid_def)
      obtain s1 out1 r1 where sub: "mergeTreesAt S sha n s (path @ [key]) bh oh th out = (s1, out1, r1)" by (metis surj_pair)
      have loop: "(case r1 of None \<Rightarrow> (s1, out1, None) | Some (Inl e) \<Rightarrow> (s1, out1, Some (Inl e))
          | Some (Inr mh) \<Rightarrow> merge_loop S sha n s1 path b' o' t' (add_entry merged EntrySubtree key mh) out1) = (s', out', res)"
        using merge_loop_subtree [OF kk False adv, of S sha n s path merged out] less.prems(1) sub by simp
      have m0: "hist s \<subseteq> hist s1"
        using mergeTreesAt_grows [of s sha n "path @ [key]" bh oh th out] sub by (simp add: extends_def)
      have m1: "hist s1 \<subseteq> hist s'"
        using loop merge_loop_grows [OF mergeTreesAt_grows, of s1 sha n path b' o' t' _ out1]
        by (auto simp: extends_def split: option.splits sum.splits) (metis fst_conv subsetD)
      have "healthy (hist s1)" by (rule healthy_subset [OF less.prems(2) m1])
      then obtain mh cs1 where mh: "r1 = Some (Inr mh)" "out1 = out @ cs1" "distinct cs1"
        "set cs1 = conflicts (path @ [key]) (zone_of S sha s bh) (zone_of S sha s oh) (zone_of S sha s th)"
        "root_ok S sha s1 n mh"
        "zone_of S sha s1 mh = merged_map (zone_of S sha s bh) (zone_of S sha s oh) (zone_of S sha s th)"
        using at sub B(5) [OF kind] O'(5) [OF kind] T(5) [OF kind] unfolding merge_right_def by blast
      have good: "good_entry S sha s1 n \<lparr>te_Kind = kind, te_Name = key, te_Hash = mh\<rparr> \<or> mh = ZeroHash"
        using mh(5) name by (auto simp: kind good_entry_def entry_ok_def storable_def EntryKind_IsValid_def root_ok_def)
      have "value_map S sha s1 kind key mh = merged_map (?v bh) (?v oh) (?v th)"
        by (simp add: kind value_map_subtree mh(6) merged_below)
      moreover have "set cs1 = conflicts path (?v bh) (?v oh) (?v th)"
        by (simp add: kind value_map_subtree conflicts_below mh(4))
      moreover have "merge_loop S sha n s1 path b' o' t' (add_entry merged kind key mh) (out @ cs1) = (s', out', res)"
        using loop mh(1,2) by (simp add: kind)
      ultimately show ?thesis using m0 m1 mh(3) good by (intro finish [of s1 mh cs1]) auto
    qed
  qed
qed

end

context storage
begin

lemma merge_right_all: "merge_right S hist sha n"
proof (induction n)
  case 0
  show ?case
    unfolding merge_right_def
    by (auto simp: mergeTreesAt.simps dest!: root_ok_0)
next
  case (Suc m)
  show ?case
    unfolding merge_right_def
  proof (intro allI impI)
    fix s path b o3 t out s' out' res
    assume run: "mergeTreesAt S sha (Suc m) s path b o3 t out = (s', out', res)" and hl: "healthy (hist s')"
      and ok: "root_ok S sha s (Suc m) b" "root_ok S sha s (Suc m) o3" "root_ok S sha s (Suc m) t"
    let ?z = "zone_of S sha s"
    show "\<exists>r cs. res = Some (Inr r) \<and> out' = out @ cs \<and> distinct cs \<and>
       set cs = conflicts path (?z b) (?z o3) (?z t) \<and> root_ok S sha s' (Suc m) r \<and>
       zone_of S sha s' r = merged_map (?z b) (?z o3) (?z t)"
    proof (cases "o3 = t \<or> b = o3 \<or> b = t")
      case True
      define r where "r = (if o3 = t then o3 else if b = o3 then t else o3)"
      have "s' = s" "out' = out" "res = Some (Inr r)"
        using run True by (auto simp: mergeTreesAt.simps r_def split: if_splits)
      moreover have "zone_of S sha s r = merged_map (?z b) (?z o3) (?z t)" "conflicts path (?z b) (?z o3) (?z t) = {}"
        using True by (auto simp: r_def)
      ultimately show ?thesis using ok by (auto simp: r_def)
    next
      case False
      obtain tb where tb: "load_or_empty S sha s b = Inr tb" "ascending (Entries tb)"
        "\<forall>x \<in> set (Entries tb). good_entry S sha s m x" "list_map S sha s (Entries tb) = ?z b"
        using root_ok_load_good [OF ok(1)] .
      obtain t_o where t_o: "load_or_empty S sha s o3 = Inr t_o" "ascending (Entries t_o)"
        "\<forall>x \<in> set (Entries t_o). good_entry S sha s m x" "list_map S sha s (Entries t_o) = ?z o3"
        using root_ok_load_good [OF ok(2)] .
      obtain tt where tt: "load_or_empty S sha s t = Inr tt" "ascending (Entries tt)"
        "\<forall>x \<in> set (Entries tt). good_entry S sha s m x" "list_map S sha s (Entries tt) = ?z t"
        using root_ok_load_good [OF ok(3)] .
      obtain s1 out1 r1 where loop: "merge_loop S sha m s path (Entries tb) (Entries t_o) (Entries tt) [] out = (s1, out1, r1)"
        by (metis surj_pair)
      have run': "(case r1 of None \<Rightarrow> (s1, out1, None) | Some (Inl e) \<Rightarrow> (s1, out1, Some (Inl e))
          | Some (Inr merged) \<Rightarrow> if merged = [] then (s1, out1, Some (Inr ZeroHash))
              else (case PutTree S sha s1 \<lparr>Entries = merged\<rparr> of (s'', r) \<Rightarrow> (s'', out1, Some r))) = (s', out', res)"
        using run False tb(1) t_o(1) tt(1) loop by (simp add: mergeTreesAt.simps)
      have m1: "hist s1 \<subseteq> hist s'"
        using run' PutTree_mono [of s1 sha]
        by (auto split: option.splits sum.splits if_splits prod.splits) (metis fst_conv subsetD)
      have hl1: "healthy (hist s1)" by (rule healthy_subset [OF hl m1])
      define lo where "lo = (EntrySubtree, [] :: string)"
      have "lo < te_key e" if "good_entry S sha s m e" for e
        using that by (cases "te_Name e") (auto simp: good_entry_def lo_def te_key_def word_gt_0 less_prod_def)
      with tb(3) t_o(3) tt(3)
      have good: "\<forall>e \<in> set (Entries tb) \<union> set (Entries t_o) \<union> set (Entries tt). good_entry S sha s m e \<and> lo < te_key e"
        by blast
      obtain ds cs where ds: "r1 = Some (Inr ([] @ ds))" "out1 = out @ cs" "distinct cs"
        "set cs = conflicts path (?z b) (?z o3) (?z t)" "ascending ds" "\<forall>e \<in> set ds. good_entry S sha s1 m e \<and> lo < te_key e"
        "list_map S sha s1 ds = merged_map (?z b) (?z o3) (?z t)"
        using merge_loop_right [OF Suc.IH loop hl1 tb(2) t_o(2) tt(2) good] unfolding tb(4) t_o(4) tt(4) by blast
      show ?thesis
      proof (cases "ds = []")
        case True
        then have "res = Some (Inr ZeroHash)" "out' = out @ cs" "s' = s1" using run' ds(1,2) by auto
        moreover have "zone_of S sha s1 0 = merged_map (?z b) (?z o3) (?z t)"
          using ds(7) True by (simp add: zone_of_def list_map_Nil)
        ultimately show ?thesis using ds(3,4) by (auto simp: root_ok_def)
      next
        case ne: False
        let ?t = "\<lparr>Entries = ds\<rparr>"
        have can: "canonical ?t" using ds(5) by (simp add: canonical_def ascending_def)
        have "node_storable ?t" using ds(6) by (auto simp: node_storable_def good_entry_def)
        then obtain s2 r where put: "PutTree S sha s1 ?t = (s2, Inr r)" using PutTree_total by blast
        then have res: "res = Some (Inr r)" "out' = out @ cs" "s' = s2" using run' ds(1,2) ne by auto
        note load = LoadTree_PutTree [OF put can subset_refl hl [unfolded res(3)]]
        have sv: "single_valued (hist s2)" using hl res(3) by (simp add: healthy_def)
        have m2: "hist s1 \<subseteq> hist s2" using m1 res(3) by simp
        have good2: "\<forall>e \<in> set ds. good_entry S sha s2 m e"
          using ds(6) good_entry_stable [OF _ m2 sv] by blast
        then have "node_ok S sha s2 m ?t"
          using can by (auto simp: node_ok_def good_entry_def entry_ok_def)
        then have "tree_ok S sha s2 (Suc m) r" using load(1) by (simp add: tree_ok_Suc)
        moreover have "list_map S sha s2 ds = merged_map (?z b) (?z o3) (?z t)"
          using list_map_stable [of ds sha s1 m s2, OF _ m2 sv] ds(6,7) by simp
        then have "zone_of S sha s2 r = merged_map (?z b) (?z o3) (?z t)"
          using load node_lookup_list_map [OF can, of S sha s2]
          by (auto simp: zone_of_def lookup_node [OF load(1)] fun_eq_iff)
        ultimately show ?thesis using res ds(3,4) by (auto simp: root_ok_def)
      qed
    qed
  qed
qed

lemma MergeTrees_spec:
  assumes "MergeTrees S sha n s base ours theirs = (s', res)" and "healthy (hist s')"
    and "root_ok S sha s n base" and "root_ok S sha s n ours" and "root_ok S sha s n theirs"
  shows "\<exists>r cs. res = Some (Inr (r, cs)) \<and> root_ok S sha s' n r \<and>
    zone_of S sha s' r =
      merged_map (zone_of S sha s base) (zone_of S sha s ours) (zone_of S sha s theirs) \<and>
    distinct cs \<and>
    set cs = conflicts [] (zone_of S sha s base) (zone_of S sha s ours) (zone_of S sha s theirs)"
proof -
  obtain s1 out1 r1 where at: "mergeTreesAt S sha n s [] base ours theirs [] = (s1, out1, r1)"
    by (metis surj_pair)
  then have s1: "s1 = s'" using assms(1) by (auto simp: MergeTrees_def split: option.splits sum.splits)
  obtain r cs where r: "r1 = Some (Inr r)" "out1 = [] @ cs" "distinct cs"
    "set cs = conflicts [] (zone_of S sha s base) (zone_of S sha s ours) (zone_of S sha s theirs)"
    "root_ok S sha s1 n r"
    "zone_of S sha s1 r =
      merged_map (zone_of S sha s base) (zone_of S sha s ours) (zone_of S sha s theirs)"
    using merge_right_all [of sha n] at assms(2-5) unfolding merge_right_def s1 by blast
  have "res = Some (Inr (r, sortConflicts cs))" using assms(1) at r(1,2) by (simp add: MergeTrees_def)
  with r s1 show ?thesis by (auto simp: sortConflicts_def)
qed

end

section \<open>Properties\<close>

lemma MergeTrees_result:
  assumes "MergeTrees memstore sha n s base ours theirs = (s', res)" and "healthy (mem_hist s')"
    and "root_ok memstore sha s n base" and "root_ok memstore sha s n ours" and "root_ok memstore sha s n theirs"
  shows "\<exists>r cs. res = Some (Inr (r, cs)) \<and> root_ok memstore sha s' n r \<and>
    zone_of memstore sha s' r =
      merged_map (zone_of memstore sha s base) (zone_of memstore sha s ours) (zone_of memstore sha s theirs) \<and>
    distinct cs \<and>
    set cs = conflicts [] (zone_of memstore sha s base) (zone_of memstore sha s ours) (zone_of memstore sha s theirs)"
  using assms by (rule mem.MergeTrees_spec)

text \<open>
  C19: the merge of three complete trees, any of which may be empty, is right record by
  record.  For every path and type the merged tree holds ours where both sides agree,
  theirs where only theirs changed, ours where only ours changed, and ours where both
  changed to different values; the conflicts are exactly the records of the last kind,
  each listed once with its reason and its three values.  The merge returns without
  an error, and the merged tree is complete in the store.
\<close>

theorem merge_trees_correct:
  assumes "MergeTrees memstore sha n s base ours theirs = (s', res)" and "healthy (mem_hist s')"
    and "root_ok memstore sha s n base" and "root_ok memstore sha s n ours" and "root_ok memstore sha s n theirs"
  shows "\<exists>r cs. res = Some (Inr (r, cs)) \<and> root_ok memstore sha s' n r \<and>
    zone_of memstore sha s' r =
      merged_map (zone_of memstore sha s base) (zone_of memstore sha s ours) (zone_of memstore sha s theirs) \<and>
    distinct cs \<and>
    set cs = conflicts [] (zone_of memstore sha s base) (zone_of memstore sha s ours) (zone_of memstore sha s theirs)"
  using assms by (rule MergeTrees_result)

definition sample_theirs :: "MemStore \<times> (error + Hash)" where
  "sample_theirs = UpdateTree memstore sample_sha (fst sample_update) ZeroHash [''www''] ''A'' 6"

definition sample_merge :: "MemStore \<times> (error + Hash \<times> Conflict list) option" where
  "sample_merge = MergeTrees memstore sample_sha 2 (fst sample_theirs) ZeroHash 536715 (projr (snd sample_theirs))"

lemma sample_merge_facts:
  "healthy (mem_hist (fst sample_merge))"
  "root_ok memstore sample_sha (fst sample_theirs) 2 536715"
  "root_ok memstore sample_sha (fst sample_theirs) 2 (projr (snd sample_theirs))"
  "zone_of memstore sample_sha (fst sample_theirs) 536715 [''www''] ''A'' = Some 5"
  "zone_of memstore sample_sha (fst sample_theirs) (projr (snd sample_theirs)) [''www''] ''A'' = Some 6"
  by code_simp+

theorem merge_trees_correct_witness:
  "\<exists>r cs. snd sample_merge = Some (Inr (r, cs)) \<and> zone_of memstore sample_sha (fst sample_merge) r [''www''] ''A'' = Some 5 \<and>
    conflict_of [''www''] ''A'' None (Some 5) (Some 6) \<in> set cs"
proof -
  let ?z = "zone_of memstore sample_sha (fst sample_theirs)" and ?t = "projr (snd sample_theirs)"
  have "MergeTrees memstore sample_sha 2 (fst sample_theirs) ZeroHash 536715 ?t = (fst sample_merge, snd sample_merge)"
    by (simp add: sample_merge_def)
  from merge_trees_correct [OF this sample_merge_facts(1) _ sample_merge_facts(2,3)]
  obtain r cs where r: "snd sample_merge = Some (Inr (r, cs))"
    "zone_of memstore sample_sha (fst sample_merge) r = merged_map (?z 0) (?z 536715) (?z ?t)"
    "set cs = conflicts [] (?z 0) (?z 536715) (?z ?t)" by (auto simp: root_ok_def)
  have z: "?z 0 [''www''] ''A'' = None" by (simp add: zone_of_def)
  have "conflict_of [''www''] ''A'' None (Some 5) (Some 6) \<in> set cs"
    unfolding r(3) conflicts_def using sample_merge_facts(4,5) z
    by (intro CollectI exI [of _ "[''www'']"] exI [of _ "''A''"]) (simp add: clash_def)
  moreover have "zone_of memstore sample_sha (fst sample_merge) r [''www''] ''A'' = Some 5"
    unfolding r(2) merged_map_def using sample_merge_facts(4,5) z by (simp add: merge3_def)
  ultimately show ?thesis using r(1) by blast
qed

text \<open>
  C26: a merge without conflicts does not depend on which side is called ours: merging the
  other way round gives a tree with the same contents and no conflicts either.
\<close>

theorem merge_trees_symmetric:
  assumes "MergeTrees memstore sha n s base ours theirs = (s1, Some (Inr (r1, [])))" and "healthy (mem_hist s1)"
    and "MergeTrees memstore sha n s base theirs ours = (s2, res)" and "healthy (mem_hist s2)"
    and "root_ok memstore sha s n base" and "root_ok memstore sha s n ours" and "root_ok memstore sha s n theirs"
  shows "\<exists>r2. res = Some (Inr (r2, [])) \<and> zone_of memstore sha s2 r2 = zone_of memstore sha s1 r1"
proof -
  let ?b = "zone_of memstore sha s base" and ?o = "zone_of memstore sha s ours" and ?t = "zone_of memstore sha s theirs"
  have c1: "conflicts [] ?b ?o ?t = {}" and z1: "zone_of memstore sha s1 r1 = merged_map ?b ?o ?t"
    using MergeTrees_result [OF assms(1,2,5,6,7)] by auto
  obtain r2 cs where r2: "res = Some (Inr (r2, cs))" "zone_of memstore sha s2 r2 = merged_map ?b ?t ?o" "set cs = conflicts [] ?b ?t ?o"
    using MergeTrees_result [OF assms(3,4,5,7,6)] by blast
  have nc: "\<not> clash (?b p rt) (?o p rt) (?t p rt)" for p rt
    using c1 by (auto simp: conflicts_def)
  have "\<not> clash (?b p rt) (?t p rt) (?o p rt)" for p rt
    using nc [of p rt] unfolding clash_def by metis
  then have "set cs = {}" unfolding r2(3) by (simp add: conflicts_def)
  moreover have "merged_map ?b ?t ?o = merged_map ?b ?o ?t"
  proof (intro ext)
    fix p rt
    show "merged_map ?b ?t ?o p rt = merged_map ?b ?o ?t p rt"
      using nc [of p rt] by (auto simp: merged_map_def merge3_def clash_def)
  qed
  ultimately show ?thesis using r2(1,2) z1 by simp
qed

theorem merge_trees_symmetric_witness:
  "\<exists>r2. snd (MergeTrees memstore sample_sha 2 (fst sample_update) ZeroHash ZeroHash 536715) = Some (Inr (r2, [])) \<and>
    zone_of memstore sample_sha (fst sample_update) r2 = zone_of memstore sample_sha (fst sample_update) 536715"
proof -
  have m: "MergeTrees memstore sample_sha 2 (fst sample_update) ZeroHash 536715 ZeroHash = (fst sample_update, Some (Inr (536715, [])))"
    "MergeTrees memstore sample_sha 2 (fst sample_update) ZeroHash ZeroHash 536715 = (fst sample_update, Some (Inr (536715, [])))"
    by (simp_all add: MergeTrees_def mergeTreesAt.simps sortConflicts_def)
  have "tree_ok memstore sample_sha (fst sample_update) 2 536715" by code_simp
  then have "root_ok memstore sample_sha (fst sample_update) 2 0" "root_ok memstore sample_sha (fst sample_update) 2 536715"
    by (simp_all add: root_ok_def)
  from merge_trees_symmetric [OF m(1) sample_update_healthy m(2) sample_update_healthy this(1) this(2) this(1)]
  show ?thesis unfolding m(2) by simp
qed

end
