(* ===== verification/ZoneCodec.thy ===== *)
theory ZoneCodec
  imports MergeCorrect "HOL-Library.Multiset"
begin

text \<open>
  pkg/zone: the canonical encoding of an RRset (blob.go), the increment of a SOA serial
  (soa.go) and the import of a zone file (zonefile.go).

  The DNS library (github.com/miekg/dns) is a parameter: a record \<open>D\<close> of the functions
  the package calls.  A resource record is its header and the data the library keeps for
  its type (\<open>'d\<close>).  Packing is always without compression.  What the theorems need of
  the library is a hypothesis on the records at hand (\<open>name_packs\<close>, \<open>rr_packs\<close>).
\<close>

section \<open>The library\<close>

record 'd RR =
  rr_Name :: string
  rr_Rrtype :: "16 word"
  rr_Class :: "16 word"
  rr_Ttl :: "32 word"
  rr_Data :: 'd

text \<open>
  \<open>UnpackDomainName\<close> and \<open>UnpackRR\<close> take a message and an offset and return the new
  offset.  \<open>AsSOA\<close> is the type assertion to \<open>*dns.SOA\<close> with the serial it gives access to,
  \<open>WithSerial\<close> the data with another serial.  \<open>ZoneParser\<close> gives the records a parser
  for the text and the origin yields, and whether it ends with an error.
\<close>

record 'd DNS =
  PackDomainName :: "string \<Rightarrow> bytes option"
  UnpackDomainName :: "bytes \<Rightarrow> nat \<Rightarrow> (string \<times> nat) option"
  PackRR :: "'d RR \<Rightarrow> bytes option"
  UnpackRR :: "bytes \<Rightarrow> nat \<Rightarrow> ('d RR \<times> nat) option"
  AsSOA :: "'d \<Rightarrow> 32 word option"
  WithSerial :: "'d \<Rightarrow> 32 word \<Rightarrow> 'd"
  TypeToString :: "16 word \<Rightarrow> string"
  ClassToString :: "16 word \<Rightarrow> string"
  ZoneParser :: "string \<Rightarrow> string \<Rightarrow> 'd RR list \<times> bool"

section \<open>RRsets (blob.go)\<close>

abbreviation blobVersion :: byte where
  "blobVersion \<equiv> 1"

record RRsetKey =
  k_Name :: string
  k_Class :: "16 word"
  k_Type :: "16 word"

definition RRsetKey_String :: "'d DNS \<Rightarrow> RRsetKey \<Rightarrow> string" where
  "RRsetKey_String D k = k_Name k @ '' '' @ ClassToString D (k_Class k) @ '' '' @ TypeToString D (k_Type k)"

record 'd RRset =
  rs_Key :: RRsetKey
  rs_TTL :: "32 word"
  rs_RRs :: "'d RR list"

definition canonicalName :: "string \<Rightarrow> string" where
  "canonicalName s = (let s = ToLower s in if \<not> HasSuffix s ''.'' then s @ ''.'' else s)"

text \<open>Big-endian integers of two and four bytes.\<close>

definition be16 :: "16 word \<Rightarrow> bytes" where
  "be16 x = be_bytes 2 (unat x)"

definition be32 :: "32 word \<Rightarrow> bytes" where
  "be32 x = be_bytes 4 (unat x)"

definition Uint16 :: "bytes \<Rightarrow> 16 word" where
  "Uint16 bs = of_nat (be_val (take 2 bs))"

definition Uint32 :: "bytes \<Rightarrow> 32 word" where
  "Uint32 bs = of_nat (be_val (take 4 bs))"

text \<open>The length of a list as \<open>uint16(len(x))\<close>, and the test whether it fits.\<close>

definition len16 :: "'a list \<Rightarrow> 16 word" where
  [simp]: "len16 xs = of_nat (length xs)"

definition exceeds16 :: "'a list \<Rightarrow> bool" where
  [simp]: "exceeds16 xs \<longleftrightarrow> length xs > 0xffff"

definition packRdata :: "'d DNS \<Rightarrow> 'd RR \<Rightarrow> error + bytes" where
  "packRdata D rr =
     (case PackRR D rr of
        None \<Rightarrow> Inl (ErrOther ''pack rr'')
      | Some full \<Rightarrow>
          (case UnpackDomainName D full 0 of
             None \<Rightarrow> Inl (ErrOther ''walk owner'')
           | Some (_, hdrEnd) \<Rightarrow>
               if hdrEnd + 10 > length full then Inl (ErrOther ''header walk past end'')
               else Inr (drop (hdrEnd + 10) full)))"

definition rr_header :: "16 word \<Rightarrow> 16 word \<Rightarrow> 32 word \<Rightarrow> nat \<Rightarrow> bytes" where
  "rr_header rrtype class ttl rdlen = be16 rrtype @ be16 class @ be32 ttl @ be16 (of_nat rdlen)"

definition unpackRdata :: "'d DNS \<Rightarrow> string \<Rightarrow> 16 word \<Rightarrow> 16 word \<Rightarrow> 32 word \<Rightarrow> bytes \<Rightarrow> error + 'd RR" where
  "unpackRdata D owner rrtype class ttl rdata =
     (case PackDomainName D owner of
        None \<Rightarrow> Inl (ErrOther ''pack owner'')
      | Some ownerWire \<Rightarrow>
          (case UnpackRR D (ownerWire @ rr_header rrtype class ttl (length rdata) @ rdata) 0 of
             None \<Rightarrow> Inl (ErrOther ''unpack rr'')
           | Some (rr, _) \<Rightarrow> Inr rr))"

fun pack_all :: "'d DNS \<Rightarrow> 'd RR \<Rightarrow> 'd RR list \<Rightarrow> error + bytes list" where
  "pack_all D hdr [] = Inr []"
| "pack_all D hdr (rr # rrs) =
     (if canonicalName (rr_Name rr) \<noteq> canonicalName (rr_Name hdr) then Inl (ErrOther ''heterogeneous owner'')
      else if rr_Class rr \<noteq> rr_Class hdr then Inl (ErrOther ''heterogeneous class'')
      else if rr_Rrtype rr \<noteq> rr_Rrtype hdr then Inl (ErrOther ''heterogeneous type'')
      else if rr_Ttl rr \<noteq> rr_Ttl hdr then Inl (ErrOther ''heterogeneous TTL'')
      else case packRdata D rr of
        Inl e \<Rightarrow> Inl e
      | Inr rd \<Rightarrow>
          (case pack_all D hdr rrs of
             Inl e \<Rightarrow> Inl e
           | Inr rds \<Rightarrow> Inr (rd # rds)))"

fun write_rdatas :: "bytes list \<Rightarrow> error + bytes" where
  "write_rdatas [] = Inr []"
| "write_rdatas (rd # rds) =
     (if exceeds16 rd then Inl (ErrOther ''rdata too long'')
      else case write_rdatas rds of
        Inl e \<Rightarrow> Inl e
      | Inr rest \<Rightarrow> Inr (be16 (len16 rd) @ rd @ rest))"

definition EncodeRRset :: "'d DNS \<Rightarrow> 'd RR list \<Rightarrow> error + bytes" where
  "EncodeRRset D rrs =
     (case rrs of
        [] \<Rightarrow> Inl (ErrOther ''cannot encode empty RRset'')
      | hdr # _ \<Rightarrow>
          (case pack_all D hdr rrs of
             Inl e \<Rightarrow> Inl e
           | Inr packed \<Rightarrow>
               let rdatas = sort packed in
               (case PackDomainName D (canonicalName (rr_Name hdr)) of
                  None \<Rightarrow> Inl (ErrOther ''pack owner'')
                | Some ownerWire \<Rightarrow>
                    if exceeds16 rdatas then Inl (ErrOther ''too many RRs in RRset'')
                    else case write_rdatas rdatas of
                      Inl e \<Rightarrow> Inl e
                    | Inr recs \<Rightarrow>
                        Inr (blobVersion # ownerWire @ be16 (rr_Class hdr) @ be16 (rr_Rrtype hdr) @
                          be32 (rr_Ttl hdr) @ be16 (len16 rdatas) @ recs))))"

text \<open>The loop of \<open>DecodeRRset\<close> over the records; it returns the records and the final offset.\<close>

fun read_rdatas :: "'d DNS \<Rightarrow> bytes \<Rightarrow> string \<Rightarrow> 16 word \<Rightarrow> 16 word \<Rightarrow> 32 word \<Rightarrow> nat \<Rightarrow> nat \<Rightarrow> error + 'd RR list \<times> nat" where
  "read_rdatas D payload owner rrtype class ttl 0 off = Inr ([], off)"
| "read_rdatas D payload owner rrtype class ttl (Suc n) off =
     (if length payload < off + 2 then Inl (ErrOther ''truncated rdata length'')
      else
        let ln = unat (Uint16 (drop off payload)) in
        if length payload < off + 2 + ln then Inl (ErrOther ''truncated rdata'')
        else case unpackRdata D owner rrtype class ttl (take ln (drop (off + 2) payload)) of
          Inl e \<Rightarrow> Inl e
        | Inr rr \<Rightarrow>
            (case read_rdatas D payload owner rrtype class ttl n (off + 2 + ln) of
               Inl e \<Rightarrow> Inl e
             | Inr (rrs, off') \<Rightarrow> Inr (rr # rrs, off')))"

definition DecodeRRset :: "'d DNS \<Rightarrow> bytes \<Rightarrow> error + 'd RRset" where
  "DecodeRRset D payload =
     (if length payload < 1 then Inl (ErrOther ''empty payload'')
      else if payload ! 0 \<noteq> blobVersion then Inl (ErrOther ''unsupported blob version'')
      else case UnpackDomainName D payload 1 of
        None \<Rightarrow> Inl (ErrOther ''unpack owner'')
      | Some (owner, off) \<Rightarrow>
          if length payload < off + 10 then Inl (ErrOther ''payload truncated at header'')
          else
            let class = Uint16 (drop off payload);
                rrtype = Uint16 (drop (off + 2) payload);
                ttl = Uint32 (drop (off + 4) payload);
                count = Uint16 (drop (off + 8) payload)
            in case read_rdatas D payload owner rrtype class ttl (unat count) (off + 10) of
                 Inl e \<Rightarrow> Inl e
               | Inr (rrs, off') \<Rightarrow>
                   if off' \<noteq> length payload then Inl (ErrOther ''trailing bytes'')
                   else Inr \<lparr>rs_Key = \<lparr>k_Name = owner, k_Class = class, k_Type = rrtype\<rparr>,
                             rs_TTL = ttl, rs_RRs = rrs\<rparr>)"

section \<open>SOA serials (soa.go)\<close>

definition BumpSOASerial :: "'d DNS \<Rightarrow> 'd RRset \<Rightarrow> error + 'd RRset" where
  "BumpSOASerial D soa =
     (case rs_RRs soa of
        [rr] \<Rightarrow>
          (case AsSOA D (rr_Data rr) of
             None \<Rightarrow> Inl (ErrOther ''BumpSOASerial: expected *dns.SOA'')
           | Some serial \<Rightarrow> Inr (soa\<lparr>rs_RRs := [rr\<lparr>rr_Data := WithSerial D (rr_Data rr) (serial + 1)\<rparr>]\<rparr>))
      | _ \<Rightarrow> Inl (ErrOther ''BumpSOASerial: expected exactly 1 RR''))"

section \<open>Zone files (zonefile.go)\<close>

definition rr_key :: "'d RR \<Rightarrow> RRsetKey" where
  "rr_key rr = \<lparr>k_Name = canonicalName (rr_Name rr), k_Class = rr_Class rr, k_Type = rr_Rrtype rr\<rparr>"

fun min_ttl :: "32 word \<Rightarrow> 'd RR list \<Rightarrow> 32 word" where
  "min_ttl m [] = m"
| "min_ttl m (rr # rrs) = min_ttl (if rr_Ttl rr < m then rr_Ttl rr else m) rrs"

definition group_rrset :: "'d RR list \<Rightarrow> RRsetKey \<Rightarrow> 'd RRset" where
  "group_rrset all k =
     (let rrs = filter (\<lambda>rr. rr_key rr = k) all;
          m = min_ttl (rr_Ttl (hd rrs)) (tl rrs)
      in \<lparr>rs_Key = k, rs_TTL = m, rs_RRs = map (\<lambda>rr. rr\<lparr>rr_Ttl := m, rr_Name := k_Name k\<rparr>) rrs\<rparr>)"

definition key_order :: "RRsetKey \<Rightarrow> string \<times> 16 word \<times> 16 word" where
  "key_order k = (k_Name k, k_Class k, k_Type k)"

definition ImportZonefile :: "'d DNS \<Rightarrow> string \<Rightarrow> string \<Rightarrow> error + 'd RRset list" where
  "ImportZonefile D src origin =
     (let origin = (if \<not> HasSuffix origin ''.'' then origin @ ''.'' else origin) in
      case ZoneParser D src origin of (rrs, failed) \<Rightarrow>
        if failed then Inl (ErrOther ''zone: parse'')
        else Inr (sort_key (\<lambda>rs. key_order (rs_Key rs)) (map (group_rrset rrs) (remdups (map rr_key rrs)))))"

section \<open>Integers on the wire\<close>

lemma length_be16 [simp]: "length (be16 x) = 2" and length_be32 [simp]: "length (be32 y) = 4"
  by (simp_all add: be16_def be32_def)

lemma Uint16_be16 [simp]: "Uint16 (be16 x @ rest) = x"
proof -
  have "unat x < 256 ^ 2" using unsigned_less [of x] by simp
  then show ?thesis by (simp add: Uint16_def be16_def be_val_be_bytes)
qed

lemma Uint32_be32 [simp]: "Uint32 (be32 x @ rest) = x"
proof -
  have "unat x < 256 ^ 4" using unsigned_less [of x] by simp
  then show ?thesis by (simp add: Uint32_def be32_def be_val_be_bytes)
qed

lemma length_rr_header [simp]: "length (rr_header t c ttl n) = 10"
  by (simp add: rr_header_def)

lemma unat_of_nat16: "n \<le> 0xffff \<Longrightarrow> unat (of_nat n :: 16 word) = n"
  by (simp add: unat_of_nat take_bit_eq_mod)

text \<open>Equations for evaluation.\<close>

lemma be16_code [code]: "be16 x = int_bytes 2 (uint x) []"
  using int_bytes [of 2 "unat x"] by (simp add: be16_def)

lemma be32_code [code]: "be32 x = int_bytes 4 (uint x) []"
  using int_bytes [of 4 "unat x"] by (simp add: be32_def)

lemma be_val_int: "int (be_val bs) = foldl (\<lambda>a b. a * 256 + uint b) 0 bs"
  by (induction bs rule: rev_induct) auto

lemma Uint_code [code]:
  "Uint16 bs = word_of_int (foldl (\<lambda>a b. a * 256 + uint b) 0 (take 2 bs))"
  "Uint32 bs = word_of_int (foldl (\<lambda>a b. a * 256 + uint b) 0 (take 4 bs))"
  by (simp_all add: Uint16_def Uint32_def be_val_int [symmetric])

lemma len16_code [code]: "len16 xs = word_of_int (int (length xs))"
  by simp

lemma exceeds16_code [code]: "exceeds16 xs \<longleftrightarrow> int (length xs) > 0xffff"
  by simp

section \<open>Encoding\<close>

definition same_rrset :: "'d DNS \<Rightarrow> 'd RR \<Rightarrow> 'd RR \<Rightarrow> bool" where
  "same_rrset D hdr rr \<longleftrightarrow> canonicalName (rr_Name rr) = canonicalName (rr_Name hdr) \<and> rr_Class rr = rr_Class hdr \<and>
     rr_Rrtype rr = rr_Rrtype hdr \<and> rr_Ttl rr = rr_Ttl hdr \<and> (\<exists>rd. packRdata D rr = Inr rd)"

lemma pack_all_iff:
  "pack_all D hdr rrs = Inr rds \<longleftrightarrow> (\<forall>rr \<in> set rrs. same_rrset D hdr rr) \<and> rds = map (\<lambda>rr. projr (packRdata D rr)) rrs"
proof (induction rrs arbitrary: rds)
  case (Cons rr rrs)
  show ?case
  proof (cases "same_rrset D hdr rr")
    case True
    then obtain rd where "packRdata D rr = Inr rd" by (auto simp: same_rrset_def)
    with True have step: "pack_all D hdr (rr # rrs) = (case pack_all D hdr rrs of Inl e \<Rightarrow> Inl e | Inr rds \<Rightarrow> Inr (rd # rds))"
      by (simp add: same_rrset_def)
    show ?thesis
    proof (cases "pack_all D hdr rrs")
      case (Inl e)
      with Cons.IH [of "map (\<lambda>rr. projr (packRdata D rr)) rrs"] have "\<not> (\<forall>rr \<in> set rrs. same_rrset D hdr rr)" by simp
      with Inl show ?thesis unfolding step by auto
    next
      case (Inr q)
      with Cons.IH [of q] True \<open>packRdata D rr = Inr rd\<close> show ?thesis unfolding step by auto
    qed
  next
    case False
    then show ?thesis by (auto simp: same_rrset_def split: sum.splits)
  qed
qed auto

lemma EncodeRRset_mset:
  assumes enc: "EncodeRRset D rrs = Inr p" and perm: "mset rrs' = mset rrs"
  shows "EncodeRRset D rrs' = Inr p"
proof -
  obtain hdr tl where rrs: "rrs = hdr # tl" using enc by (cases rrs) (auto simp: EncodeRRset_def)
  obtain hdr' tl' where rrs': "rrs' = hdr' # tl'" using perm rrs by (cases rrs') auto
  let ?f = "\<lambda>rr. projr (packRdata D rr)"
  have set: "set rrs' = set rrs" using perm by (metis set_mset_mset)
  obtain packed where packed: "pack_all D hdr rrs = Inr packed"
    using enc rrs by (auto simp: EncodeRRset_def split: sum.splits)
  then have all: "\<forall>rr \<in> set rrs. same_rrset D hdr rr" "packed = map ?f rrs" by (auto simp: pack_all_iff)
  have hdr': "hdr' \<in> set rrs" using set rrs' by auto
  then have same: "canonicalName (rr_Name hdr') = canonicalName (rr_Name hdr)" "rr_Class hdr' = rr_Class hdr"
    "rr_Rrtype hdr' = rr_Rrtype hdr" "rr_Ttl hdr' = rr_Ttl hdr"
    using all(1) by (auto simp: same_rrset_def)
  have "\<forall>rr \<in> set rrs'. same_rrset D hdr' rr" using all(1) same by (auto simp: set same_rrset_def)
  then have packed': "pack_all D hdr' rrs' = Inr (map ?f rrs')" by (simp add: pack_all_iff)
  have "mset (map ?f rrs') = mset (map ?f rrs)" using perm by simp
  then have sort: "sort (map ?f rrs') = sort packed"
    unfolding all(2) by (intro properties_for_sort) simp_all
  have "EncodeRRset D (hdr' # tl') = EncodeRRset D (hdr # tl)"
    unfolding EncodeRRset_def list.case packed [unfolded rrs] packed' [unfolded rrs'] sum.case Let_def same sort [unfolded rrs'] ..
  with enc show ?thesis by (simp add: rrs rrs')
qed

section \<open>What is expected of the library\<close>

text \<open>The wire form of a name is read back at any place of a message.\<close>

definition name_packs :: "'d DNS \<Rightarrow> string \<Rightarrow> bytes \<Rightarrow> bool" where
  "name_packs D n w \<longleftrightarrow> PackDomainName D n = Some w \<and>
     (\<forall>pre rest. UnpackDomainName D (pre @ w @ rest) (length pre) = Some (n, length pre + length w))"

text \<open>
  The wire form of a record is its name, its header and its data, and the same with the
  wire form \<open>w\<close> of the owner in place of the name is read back as the record of that owner.
\<close>

definition rr_packs :: "'d DNS \<Rightarrow> string \<Rightarrow> bytes \<Rightarrow> 'd RR \<Rightarrow> bool" where
  "rr_packs D owner w rr \<longleftrightarrow> (\<exists>ow nm rd end_off.
     (let h = rr_header (rr_Rrtype rr) (rr_Class rr) (rr_Ttl rr) (length rd) in
      PackRR D rr = Some (ow @ h @ rd) \<and> UnpackDomainName D (ow @ h @ rd) 0 = Some (nm, length ow) \<and>
      UnpackRR D (w @ h @ rd) 0 = Some (rr\<lparr>rr_Name := owner\<rparr>, end_off)))"

lemma rr_packs_rdata:
  assumes "rr_packs D owner w rr" and "PackDomainName D owner = Some w"
  shows "\<exists>rd. packRdata D rr = Inr rd \<and>
    unpackRdata D owner (rr_Rrtype rr) (rr_Class rr) (rr_Ttl rr) rd = Inr (rr\<lparr>rr_Name := owner\<rparr>)"
  using assms by (fastforce simp: rr_packs_def packRdata_def unpackRdata_def Let_def)

section \<open>Decoding\<close>

lemma read_rdatas_write:
  assumes "write_rdatas rds = Inr body" and "\<forall>rd \<in> set rds. unpackRdata D owner rrtype class ttl rd = Inr (U rd)"
  shows "read_rdatas D (pre @ body) owner rrtype class ttl (length rds) (length pre)
    = Inr (map U rds, length pre + length body)"
  using assms
proof (induction rds arbitrary: pre body)
  case (Cons rd rds)
  then obtain rest where rest: "write_rdatas rds = Inr rest" "length rd \<le> 0xffff"
    and body: "body = be16 (of_nat (length rd)) @ rd @ rest"
    by (auto split: if_splits sum.splits)
  let ?pre = "pre @ be16 (of_nat (length rd)) @ rd"
  have IH: "read_rdatas D (?pre @ rest) owner rrtype class ttl (length rds) (length ?pre)
      = Inr (map U rds, length ?pre + length rest)"
    using Cons.prems(2) rest(1) by (intro Cons.IH) auto
  have ln: "unat (of_nat (length rd) :: 16 word) = length rd" by (rule unat_of_nat16 [OF rest(2)])
  show ?case
    using IH Cons.prems(2) by (simp add: body ln)
qed simp

lemma write_rdatas_bound: "write_rdatas rds = Inr body \<Longrightarrow> rd \<in> set rds \<Longrightarrow> length rd \<le> 0xffff"
  by (induction rds arbitrary: body) (auto split: if_splits sum.splits)

lemma DecodeRRset_EncodeRRset:
  assumes enc: "EncodeRRset D rrs = Inr p" and name: "name_packs D (canonicalName (rr_Name (hd rrs))) w"
    and rr: "\<forall>rr \<in> set rrs. rr_packs D (canonicalName (rr_Name (hd rrs))) w rr"
  shows "\<exists>rs. DecodeRRset D p = Inr \<lparr>rs_Key = rr_key (hd rrs), rs_TTL = rr_Ttl (hd rrs), rs_RRs = rs\<rparr> \<and>
    mset rs = mset (map (\<lambda>rr. rr\<lparr>rr_Name := canonicalName (rr_Name (hd rrs))\<rparr>) rrs)"
proof -
  obtain hdr tl where rrs: "rrs = hdr # tl" using enc by (cases rrs) (auto simp: EncodeRRset_def)
  let ?f = "\<lambda>rr. projr (packRdata D rr)" and ?n = "canonicalName (rr_Name hdr)"
  let ?un = "unpackRdata D ?n (rr_Rrtype hdr) (rr_Class hdr) (rr_Ttl hdr)"
  define rds where "rds = sort (map ?f rrs)"
  have w: "PackDomainName D ?n = Some w" using name by (simp add: name_packs_def rrs)
  obtain recs where same: "\<forall>rr \<in> set rrs. same_rrset D hdr rr" and recs: "write_rdatas rds = Inr recs"
    and count: "length rds \<le> 0xffff"
    and p: "p = blobVersion # w @ be16 (rr_Class hdr) @ be16 (rr_Rrtype hdr) @ be32 (rr_Ttl hdr) @ be16 (of_nat (length rds)) @ recs"
    using enc w unfolding EncodeRRset_def rrs list.case
    by (auto simp: pack_all_iff rds_def rrs Let_def simp del: pack_all.simps split: sum.splits if_splits)
  have un: "?un (?f rr) = Inr (rr\<lparr>rr_Name := ?n\<rparr>)" if r: "rr \<in> set rrs" for rr
  proof -
    have "rr_packs D ?n w rr" using rr r by (auto simp: rrs)
    from rr_packs_rdata [OF this w] obtain rd where "packRdata D rr = Inr rd" "unpackRdata D ?n (rr_Rrtype rr) (rr_Class rr) (rr_Ttl rr) rd = Inr (rr\<lparr>rr_Name := ?n\<rparr>)"
      by blast
    with same r show ?thesis by (simp add: same_rrset_def)
  qed
  define U where "U = (\<lambda>rd. projr (?un rd))"
  have U: "\<forall>rd \<in> set rds. ?un rd = Inr (U rd)" using un by (auto simp: rds_def U_def)
  let ?pre = "blobVersion # w @ be16 (rr_Class hdr) @ be16 (rr_Rrtype hdr) @ be32 (rr_Ttl hdr) @ be16 (of_nat (length rds))"
  have read: "read_rdatas D p ?n (rr_Rrtype hdr) (rr_Class hdr) (rr_Ttl hdr) (length rds) (length w + 11)
      = Inr (map U rds, length p)"
    using read_rdatas_write [OF recs U, of ?pre] by (simp add: p add.commute)
  have "UnpackDomainName D ([blobVersion] @ w @ be16 (rr_Class hdr) @ be16 (rr_Rrtype hdr) @ be32 (rr_Ttl hdr) @
      be16 (of_nat (length rds)) @ recs) (length [blobVersion]) = Some (?n, length [blobVersion] + length w)"
    using name unfolding name_packs_def rrs list.sel by blast
  then have owner: "UnpackDomainName D p 1 = Some (?n, Suc (length w))" by (simp add: p)
  have cnt: "unat (of_nat (length rds) :: 16 word) = length rds" by (rule unat_of_nat16 [OF count])
  have dr: "drop (Suc (length w) + k) p = drop k (be16 (rr_Class hdr) @ be16 (rr_Rrtype hdr) @ be32 (rr_Ttl hdr) @
      be16 (of_nat (length rds)) @ recs)" for k
    by (simp add: p)
  have flds: "Uint16 (drop (Suc (length w)) p) = rr_Class hdr" "Uint16 (drop (Suc (length w) + 2) p) = rr_Rrtype hdr"
    "Uint32 (drop (Suc (length w) + 4) p) = rr_Ttl hdr" "Uint16 (drop (Suc (length w) + 8) p) = of_nat (length rds)"
    using dr [of 0] by (simp_all only: dr add_0_right drop_0) simp_all
  have "DecodeRRset D p = Inr \<lparr>rs_Key = rr_key hdr, rs_TTL = rr_Ttl hdr, rs_RRs = map U rds\<rparr>"
  proof -
    have guards: "(length p < 1) = False" "(p ! 0 \<noteq> blobVersion) = False" "(length p < Suc (length w) + 10) = False"
      by (simp_all add: p)
    have read': "read_rdatas D p ?n (rr_Rrtype hdr) (rr_Class hdr) (rr_Ttl hdr) (length rds) (Suc (length w) + 10)
        = Inr (map U rds, length p)" using read by (simp add: add.commute)
    show ?thesis
      unfolding DecodeRRset_def owner option.case prod.case Let_def flds cnt guards if_False read' sum.case rr_key_def
      by simp
  qed
  moreover have "mset (map U rds) = mset (map (\<lambda>rr. rr\<lparr>rr_Name := ?n\<rparr>) rrs)"
  proof -
    have "mset (map U rds) = image_mset U (mset (map ?f rrs))" by (simp only: rds_def mset_map mset_sort)
    also have "\<dots> = mset (map (\<lambda>rr. U (?f rr)) rrs)" by (simp add: image_mset.compositionality comp_def)
    also have "map (\<lambda>rr. U (?f rr)) rrs = map (\<lambda>rr. rr\<lparr>rr_Name := ?n\<rparr>) rrs"
      using un by (intro map_cong) (simp_all add: U_def)
    finally show ?thesis .
  qed
  ultimately show ?thesis by (auto simp: rrs)
qed

section \<open>Grouping\<close>

lemma min_ttl_spec: "min_ttl m rrs \<in> insert m (rr_Ttl ` set rrs) \<and> (\<forall>x \<in> insert m (rr_Ttl ` set rrs). min_ttl m rrs \<le> x)"
proof (induction rrs arbitrary: m)
  case (Cons rr rrs)
  show ?case
  proof (cases "rr_Ttl rr < m")
    case True
    with Cons.IH [of "rr_Ttl rr"] show ?thesis by (auto intro: order_trans)
  next
    case False
    with Cons.IH [of m] show ?thesis by (auto intro: order_trans)
  qed
qed simp

lemma key_order_inj: "key_order k = key_order k' \<longleftrightarrow> k = k'"
  by (cases k; cases k') (auto simp: key_order_def)

definition well_grouped :: "'d RR list \<Rightarrow> 'd RRset \<Rightarrow> bool" where
  "well_grouped rrs rs \<longleftrightarrow>
     (\<exists>members. members = filter (\<lambda>rr. rr_key rr = rs_Key rs) rrs \<and> members \<noteq> [] \<and>
       map rr_Data (rs_RRs rs) = map rr_Data members \<and>
       rs_TTL rs \<in> rr_Ttl ` set members \<and> (\<forall>rr \<in> set members. rs_TTL rs \<le> rr_Ttl rr)) \<and>
     (\<forall>rr \<in> set (rs_RRs rs). rr_Name rr = k_Name (rs_Key rs) \<and> rr_Class rr = k_Class (rs_Key rs) \<and>
       rr_Rrtype rr = k_Type (rs_Key rs) \<and> rr_Ttl rr = rs_TTL rs)"

lemma group_rrset_well:
  assumes "k \<in> rr_key ` set rrs"
  shows "well_grouped rrs (group_rrset rrs k)" and "rs_Key (group_rrset rrs k) = k"
proof -
  let ?m = "filter (\<lambda>rr. rr_key rr = k) rrs"
  have ne: "?m \<noteq> []" using assms by (auto simp: filter_empty_conv)
  have "insert (rr_Ttl (hd ?m)) (rr_Ttl ` set (tl ?m)) = rr_Ttl ` set ?m"
    using ne by (cases ?m) auto
  then have "min_ttl (rr_Ttl (hd ?m)) (tl ?m) \<in> rr_Ttl ` set ?m"
    "\<forall>x \<in> rr_Ttl ` set ?m. min_ttl (rr_Ttl (hd ?m)) (tl ?m) \<le> x"
    using min_ttl_spec [of "rr_Ttl (hd ?m)" "tl ?m"] by metis+
  with ne show "well_grouped rrs (group_rrset rrs k)"
    by (auto simp: well_grouped_def group_rrset_def Let_def rr_key_def comp_def)
  show "rs_Key (group_rrset rrs k) = k" by (simp add: group_rrset_def Let_def)
qed

lemma ImportZonefile_groups:
  assumes "ZoneParser D src (if HasSuffix origin ''.'' then origin else origin @ ''.'') = (rrs, False)"
  shows "\<exists>out. ImportZonefile D src origin = Inr out \<and> sorted_wrt (<) (map (\<lambda>rs. key_order (rs_Key rs)) out) \<and>
    (\<forall>rs \<in> set out. well_grouped rrs rs) \<and> rs_Key ` set out = rr_key ` set rrs"
proof -
  define gs where "gs = map (group_rrset rrs) (remdups (map rr_key rrs))"
  define out where "out = sort_key (\<lambda>rs. key_order (rs_Key rs)) gs"
  have imp: "ImportZonefile D src origin = Inr out"
    using assms by (simp add: ImportZonefile_def out_def gs_def Let_def split: if_splits)
  have key: "rs_Key (group_rrset rrs k) = k" for k by (simp add: group_rrset_def Let_def)
  have "distinct (map (\<lambda>rs. key_order (rs_Key rs)) gs)"
    by (simp add: gs_def comp_def key distinct_map inj_on_def key_order_inj)
  moreover have "mset (map (\<lambda>rs. key_order (rs_Key rs)) out) = mset (map (\<lambda>rs. key_order (rs_Key rs)) gs)"
    by (simp add: out_def)
  ultimately have "distinct (map (\<lambda>rs. key_order (rs_Key rs)) out)" by (metis mset_eq_imp_distinct_iff)
  moreover have "sorted (map (\<lambda>rs. key_order (rs_Key rs)) out)" by (simp add: out_def)
  ultimately have "sorted_wrt (<) (map (\<lambda>rs. key_order (rs_Key rs)) out)" by (simp add: strict_sorted_iff)
  moreover have "\<forall>rs \<in> set out. well_grouped rrs rs"
    using group_rrset_well(1) [of _ rrs] by (auto simp: out_def gs_def)
  moreover have "rs_Key ` set out = rr_key ` set rrs"
    by (force simp: out_def gs_def key)
  ultimately show ?thesis using imp by blast
qed

section \<open>A small library for examples\<close>

text \<open>
  Names are written as one label with a length byte, record data is its own wire form,
  and the serial of a SOA is its first four bytes.
\<close>

definition sample_short :: "string \<Rightarrow> bool" where
  [simp]: "sample_short n \<longleftrightarrow> length n \<le> 255"

definition sample_len :: "string \<Rightarrow> byte" where
  [simp]: "sample_len n = of_nat (length n)"

lemma sample_code [code]: "sample_short n \<longleftrightarrow> int (length n) \<le> 255" "sample_len n = word_of_int (int (length n))"
  by simp_all

definition sample_unpack_name :: "bytes \<Rightarrow> nat \<Rightarrow> (string \<times> nat) option" where
  "sample_unpack_name bs off =
     (if off < length bs \<and> off + unat (bs ! off) < length bs
      then Some (string_of (take (unat (bs ! off)) (drop (Suc off) bs)), off + Suc (unat (bs ! off))) else None)"

definition sample_dns :: "bytes DNS" where
  "sample_dns = \<lparr>
     PackDomainName = (\<lambda>n. if sample_short n then Some (sample_len n # bytes_of n) else None),
     UnpackDomainName = sample_unpack_name,
     PackRR = (\<lambda>rr. if sample_short (rr_Name rr) then Some (sample_len (rr_Name rr) # bytes_of (rr_Name rr) @
       rr_header (rr_Rrtype rr) (rr_Class rr) (rr_Ttl rr) (length (rr_Data rr)) @ rr_Data rr) else None),
     UnpackRR = (\<lambda>bs off. case sample_unpack_name bs off of
         None \<Rightarrow> None
       | Some (n, o2) \<Rightarrow> Some (\<lparr>rr_Name = n, rr_Rrtype = Uint16 (drop o2 bs), rr_Class = Uint16 (drop (o2 + 2) bs),
           rr_Ttl = Uint32 (drop (o2 + 4) bs), rr_Data = drop (o2 + 10) bs\<rparr>, length bs)),
     AsSOA = (\<lambda>d. if length d = 4 then Some (Uint32 d) else None),
     WithSerial = (\<lambda>d x. be32 x @ drop 4 d),
     TypeToString = (\<lambda>t. if t = 1 then ''A'' else if t = 6 then ''SOA'' else []),
     ClassToString = (\<lambda>c. if c = 1 then ''IN'' else []),
     ZoneParser = (\<lambda>src origin. ([\<lparr>rr_Name = origin, rr_Rrtype = 1, rr_Class = 1, rr_Ttl = 60, rr_Data = bytes_of src\<rparr>], False))\<rparr>"

lemma sample_unpack_name:
  "length n \<le> 255 \<Longrightarrow> sample_unpack_name (pre @ of_nat (length n) # bytes_of n @ rest) (length pre)
    = Some (n, length pre + Suc (length n))"
  by (simp add: sample_unpack_name_def unat_of_nat_byte nth_append)

lemma sample_name_packs:
  "length n \<le> 255 \<Longrightarrow> name_packs sample_dns n (of_nat (length n) # bytes_of n)"
  using sample_unpack_name [of n] by (simp add: name_packs_def sample_dns_def)

lemma sample_rr_packs:
  assumes "length (rr_Name rr) \<le> 255" and "length owner \<le> 255"
  shows "rr_packs sample_dns owner (of_nat (length owner) # bytes_of owner) rr"
proof -
  let ?h = "rr_header (rr_Rrtype rr) (rr_Class rr) (rr_Ttl rr) (length (rr_Data rr))"
  have 1: "sample_unpack_name (of_nat (length n) # bytes_of n @ ?h @ rr_Data rr) 0 = Some (n, Suc (length n))"
    if "length n \<le> 255" for n
    using sample_unpack_name [OF that, of "[]" "?h @ rr_Data rr"] by simp
  have flds: "Uint16 (?h @ x) = rr_Rrtype rr" "Uint16 (drop 2 (?h @ x)) = rr_Class rr" "Uint32 (drop 4 (?h @ x)) = rr_Ttl rr" for x
    by (simp_all add: rr_header_def)
  let ?msg = "(of_nat (length owner) # bytes_of owner) @ ?h @ rr_Data rr"
  have dr: "drop (Suc (length owner) + k) ?msg = drop k (?h @ rr_Data rr)" for k by simp
  have "drop (Suc (length owner) + 0) ?msg = ?h @ rr_Data rr" "drop (Suc (length owner) + 10) ?msg = rr_Data rr"
    by (simp_all only: dr) simp_all
  then have "UnpackRR sample_dns ?msg 0 = Some (\<lparr>rr_Name = owner, rr_Rrtype = rr_Rrtype rr, rr_Class = rr_Class rr,
      rr_Ttl = rr_Ttl rr, rr_Data = rr_Data rr\<rparr>, length ?msg)"
    using 1 [OF assms(2)] dr [of 2] dr [of 4] flds [of "rr_Data rr"]
    by (simp add: sample_dns_def del: drop_Suc_Cons drop_append)
  then have "UnpackRR sample_dns ?msg 0 = Some (rr\<lparr>rr_Name := owner\<rparr>, length ?msg)" by (cases rr) simp
  then show ?thesis
    unfolding rr_packs_def Let_def using assms(1) 1 [OF assms(1)]
    by (intro exI [of _ "of_nat (length (rr_Name rr)) # bytes_of (rr_Name rr)"] exI [of _ "rr_Name rr"] exI [of _ "rr_Data rr"] exI conjI)
      (auto simp: sample_dns_def)
qed

section \<open>Serials\<close>

lemma Uint32_be32_only [simp]: "Uint32 (be32 x) = x"
  using Uint32_be32 [of x "[]"] by simp

text \<open>What the SOA data of the library promises: a serial that was set is the one that is read.\<close>

definition soa_laws :: "'d DNS \<Rightarrow> 'd \<Rightarrow> bool" where
  "soa_laws D d \<longleftrightarrow> (\<forall>x. AsSOA D (WithSerial D d x) = Some x \<and> (\<forall>y. WithSerial D (WithSerial D d x) y = WithSerial D d y))"

primrec bump_times :: "'d DNS \<Rightarrow> nat \<Rightarrow> 'd RRset \<Rightarrow> error + 'd RRset" where
  "bump_times D 0 soa = Inr soa"
| "bump_times D (Suc n) soa = (case bump_times D n soa of Inl e \<Rightarrow> Inl e | Inr soa' \<Rightarrow> BumpSOASerial D soa')"

lemma bump_times_serial:
  assumes "rs_RRs soa = [rr]" and "AsSOA D (rr_Data rr) = Some serial" and "soa_laws D (rr_Data rr)"
  shows "bump_times D (Suc n) soa =
    Inr (soa\<lparr>rs_RRs := [rr\<lparr>rr_Data := WithSerial D (rr_Data rr) (serial + of_nat (Suc n))\<rparr>]\<rparr>)"
proof (induction n)
  case (Suc n)
  then show ?case using assms(3) by (simp add: BumpSOASerial_def soa_laws_def add.commute add.left_commute)
qed (use assms in \<open>simp add: BumpSOASerial_def\<close>)

lemma bump_soa_serial_errors:
  "(\<exists>soa'. BumpSOASerial D soa = Inr soa') \<longleftrightarrow> (\<exists>rr. rs_RRs soa = [rr] \<and> AsSOA D (rr_Data rr) \<noteq> None)"
  by (auto simp: BumpSOASerial_def split: list.splits option.splits)

section \<open>Properties\<close>

text \<open>
  \<open>EncodeRRset\<close> is canonical: the blob of an RRset does not depend on the order its
  records are given in, so equal RRsets have the same blob and the same hash.
\<close>

theorem rrset_encode_order_independent:
  assumes "EncodeRRset D rrs = Inr p" and "mset rrs' = mset rrs"
  shows "EncodeRRset D rrs' = Inr p"
  using assms by (rule EncodeRRset_mset)

definition sample_rrs :: "bytes RR list" where
  "sample_rrs = [\<lparr>rr_Name = ''Www'', rr_Rrtype = 1, rr_Class = 1, rr_Ttl = 7, rr_Data = [9, 2]\<rparr>,
     \<lparr>rr_Name = ''www.'', rr_Rrtype = 1, rr_Class = 1, rr_Ttl = 7, rr_Data = [9, 1, 4]\<rparr>]"

lemma sample_names: "canonicalName ''Www'' = ''www.''" "canonicalName ''www.'' = ''www.''" "bytes_of ''Www'' = [87, 119, 119]"
    "bytes_of ''www.'' = [119, 119, 119, 46]" "be16 1 = [0, 1]" "be16 2 = [0, 2]" "be16 3 = [0, 3]" "be32 7 = [0, 0, 0, 7]"
  by code_simp+

lemma sample_rrs_encode: "EncodeRRset sample_dns sample_rrs =
  Inr [1, 4, 119, 119, 119, 46, 0, 1, 0, 1, 0, 0, 0, 7, 0, 2, 0, 3, 9, 1, 4, 0, 2, 9, 2]"
  by (simp add: EncodeRRset_def sample_rrs_def packRdata_def sample_dns_def sample_unpack_name_def rr_header_def sample_names)

theorem rrset_encode_order_independent_witness:
  "EncodeRRset sample_dns (rev sample_rrs) =
    Inr [1, 4, 119, 119, 119, 46, 0, 1, 0, 1, 0, 0, 0, 7, 0, 2, 0, 3, 9, 1, 4, 0, 2, 9, 2]"
  by (rule rrset_encode_order_independent [OF sample_rrs_encode]) simp

text \<open>
  C32: \<open>DecodeRRset\<close> inverts \<open>EncodeRRset\<close>: when the library reads the owner's wire form
  and each record's wire form back, the decoded RRset has the canonical owner name, class,
  type and TTL of the encoded records and the same records, under the canonical name.
\<close>

theorem rrset_codec_roundtrip:
  assumes "EncodeRRset D rrs = Inr p"
    and "name_packs D (canonicalName (rr_Name (hd rrs))) w"
    and "\<forall>rr \<in> set rrs. rr_packs D (canonicalName (rr_Name (hd rrs))) w rr"
  shows "\<exists>rs. DecodeRRset D p = Inr \<lparr>rs_Key = rr_key (hd rrs), rs_TTL = rr_Ttl (hd rrs), rs_RRs = rs\<rparr> \<and>
    mset rs = mset (map (\<lambda>rr. rr\<lparr>rr_Name := canonicalName (rr_Name (hd rrs))\<rparr>) rrs)"
  using assms by (rule DecodeRRset_EncodeRRset)

theorem rrset_codec_roundtrip_witness:
  "\<exists>rs. DecodeRRset sample_dns [1, 4, 119, 119, 119, 46, 0, 1, 0, 1, 0, 0, 0, 7, 0, 2, 0, 3, 9, 1, 4, 0, 2, 9, 2]
      = Inr \<lparr>rs_Key = rr_key (hd sample_rrs), rs_TTL = rr_Ttl (hd sample_rrs), rs_RRs = rs\<rparr> \<and>
    mset rs = mset (map (\<lambda>rr. rr\<lparr>rr_Name := canonicalName (rr_Name (hd sample_rrs))\<rparr>) sample_rrs)"
proof (rule rrset_codec_roundtrip [OF sample_rrs_encode])
  let ?n = "canonicalName (rr_Name (hd sample_rrs))"
  have n: "?n = ''www.''" by code_simp
  show "name_packs sample_dns ?n (of_nat (length ?n) # bytes_of ?n)" by (rule sample_name_packs) (simp add: n)
  show "\<forall>rr \<in> set sample_rrs. rr_packs sample_dns ?n (of_nat (length ?n) # bytes_of ?n) rr"
    by (intro ballI sample_rr_packs) (auto simp: n sample_rrs_def sample_names)
qed


definition sample_soa :: "bytes RRset" where
  "sample_soa = \<lparr>rs_Key = \<lparr>k_Name = ''a.'', k_Class = 1, k_Type = 6\<rparr>, rs_TTL = 60,
     rs_RRs = [\<lparr>rr_Name = ''a.'', rr_Rrtype = 6, rr_Class = 1, rr_Ttl = 60, rr_Data = [255, 255, 255, 255]\<rparr>]\<rparr>"


text \<open>
  \<open>ImportZonefile\<close> turns the parsed records into one RRset per name, class and type,
  strictly ascending in that key; each RRset has exactly the data of the records with its
  key, in their order, and all its records carry the key and the smallest TTL among them.
\<close>

theorem import_zonefile_groups:
  assumes "ZoneParser D src (if HasSuffix origin ''.'' then origin else origin @ ''.'') = (rrs, False)"
  shows "\<exists>out. ImportZonefile D src origin = Inr out \<and> sorted_wrt (<) (map (\<lambda>rs. key_order (rs_Key rs)) out) \<and>
    (\<forall>rs \<in> set out. well_grouped rrs rs) \<and> rs_Key ` set out = rr_key ` set rrs"
  using assms by (rule ImportZonefile_groups)

definition sample_zonefile :: "bytes RR list" where
  "sample_zonefile = [\<lparr>rr_Name = ''b.a.'', rr_Rrtype = 1, rr_Class = 1, rr_Ttl = 60, rr_Data = [1]\<rparr>,
     \<lparr>rr_Name = ''A.'', rr_Rrtype = 1, rr_Class = 1, rr_Ttl = 50, rr_Data = [2]\<rparr>,
     \<lparr>rr_Name = ''B.a.'', rr_Rrtype = 1, rr_Class = 1, rr_Ttl = 40, rr_Data = [3]\<rparr>]"

theorem import_zonefile_groups_witness:
  "\<exists>out. ImportZonefile (sample_dns\<lparr>ZoneParser := (\<lambda>_ _. (sample_zonefile, False))\<rparr>) [] ''a'' = Inr out \<and>
    sorted_wrt (<) (map (\<lambda>rs. key_order (rs_Key rs)) out) \<and>
    (\<forall>rs \<in> set out. well_grouped sample_zonefile rs) \<and> rs_Key ` set out = rr_key ` set sample_zonefile"
  by (rule import_zonefile_groups) simp

end
