(* ===== verification/RepoCore.thy ===== *)
theory RepoCore
  imports ZoneCodec "HOL-Library.AList"
begin

text \<open>
  pkg/repo, repo.go: the repository handle with its staging area and its active zone.

  A \<open>Repo\<close> holds the state of its storage (the methods are the argument \<open>S\<close>), the staged
  edits and the cached active zone.  A method that may change any of these returns the
  new handle beside its result, also when it fails.  The lock only serialises the
  methods, so each is one step.  The clock is an argument: \<open>now\<close> for the commit, \<open>rnow\<close>
  (in seconds) for the reflog entry.  \<open>sha\<close> is the object hash and \<open>D\<close> the DNS library.
  Operations that follow a history or a whole tree take fuel.
\<close>

section \<open>The handle\<close>

abbreviation DefaultBranch :: string where "DefaultBranch \<equiv> ''main''"

record stagingKey =
  sk_fqdn :: string
  sk_rrtype :: string

record stagingValue =
  sv_tombstone :: bool
  sv_blob :: Hash

type_synonym staging_area = "(stagingKey \<times> stagingValue) list"

record 's Repo =
  r_storage :: 's
  r_staging :: staging_area
  r_activeZone :: string

section \<open>Names\<close>

definition normFQDN :: "string \<Rightarrow> string" where
  "normFQDN s = (let s = TrimSuffix (ToLower s) ''.'' in if s = ''@'' then [] else s)"

definition splitFQDN :: "string \<Rightarrow> string list" where
  "splitFQDN fqdn = (let fqdn = normFQDN fqdn in if fqdn = [] then [] else rev (Split fqdn (CHR ''.'')))"

definition stripZoneSuffix :: "string \<Rightarrow> string \<Rightarrow> string" where
  "stripZoneSuffix owner zoneName =
     (if owner = zoneName then []
      else if HasSuffix owner (''.'' @ zoneName) then TrimSuffix owner (''.'' @ zoneName)
      else if HasSuffix owner zoneName then TrimSuffix owner zoneName
      else TrimSuffix owner ''.'')"

definition sortedKeys :: "staging_area \<Rightarrow> stagingKey list" where
  "sortedKeys m = sort_key (\<lambda>k. (sk_fqdn k, sk_rrtype k)) (map fst m)"

section \<open>Opening, zones\<close>

text \<open>
  \<open>Open\<close> after the backend has been chosen; \<open>readOnly\<close> is the option.  A failed open closes
  the storage, which is not modelled.
\<close>

definition Repo_Open :: "'s Storage \<Rightarrow> (bytes \<Rightarrow> Hash) \<Rightarrow> 's \<Rightarrow> bool \<Rightarrow> 's \<times> (error + 's Repo)" where
  "Repo_Open S sha s readOnly =
     (let migrated =
        (case IsLegacyV03 S s of
           Inr (True, _) \<Rightarrow>
             if readOnly then (s, Inl (ErrOther ''legacy v0.3 repo opened read-only''))
             else (case MigrateLegacyV03 S sha s of
                     (s', Inl e) \<Rightarrow> (s', Inl e)
                   | (s', Inr _) \<Rightarrow> (s', Inr ()))
         | _ \<Rightarrow> (s, Inr ()))
      in case migrated of
           (s', Inl e) \<Rightarrow> (s', Inl e)
         | (s', Inr _) \<Rightarrow>
             (s', Inr \<lparr>r_storage = s', r_staging = [],
                       r_activeZone = (case ReadHEAD S s' of Inr (z, _, _) \<Rightarrow> z | Inl _ \<Rightarrow> [])\<rparr>))"

definition Repo_Init :: "'s Storage \<Rightarrow> (bytes \<Rightarrow> Hash) \<Rightarrow> 's Repo \<Rightarrow> string \<Rightarrow> 's Repo \<times> (error + unit)" where
  "Repo_Init S sha r zoneName =
     (let zoneName = CanonZone zoneName in
      case RegisterZone S (r_storage r) zoneName of
        (s1, Inl e) \<Rightarrow> (r\<lparr>r_storage := s1\<rparr>, Inl e)
      | (s1, Inr _) \<Rightarrow>
          (case ReadHEAD S s1 of
             Inr _ \<Rightarrow> (r\<lparr>r_storage := s1\<rparr>, Inr ())
           | Inl _ \<Rightarrow>
               (case SetHEAD S sha s1 zoneName DefaultBranch of
                  (s2, Inl e) \<Rightarrow> (r\<lparr>r_storage := s2\<rparr>, Inl e)
                | (s2, Inr _) \<Rightarrow> (r\<lparr>r_storage := s2, r_activeZone := zoneName\<rparr>, Inr ()))))"

definition Repo_AddZone :: "'s Storage \<Rightarrow> 's Repo \<Rightarrow> string \<Rightarrow> 's Repo \<times> (error + unit)" where
  "Repo_AddZone S r zoneName =
     (case RegisterZone S (r_storage r) (CanonZone zoneName) of (s1, res) \<Rightarrow> (r\<lparr>r_storage := s1\<rparr>, res))"

definition Repo_Zones :: "'s Storage \<Rightarrow> 's Repo \<Rightarrow> error + string list" where
  "Repo_Zones S r = ListZones S (r_storage r)"

definition Repo_SwitchZone :: "'s Storage \<Rightarrow> (bytes \<Rightarrow> Hash) \<Rightarrow> 's Repo \<Rightarrow> string \<Rightarrow> string \<Rightarrow> 's Repo \<times> (error + unit)" where
  "Repo_SwitchZone S sha r zoneName branch =
     (let zoneName = CanonZone zoneName in
      case IsZoneRegistered S (r_storage r) zoneName of
        Inl e \<Rightarrow> (r, Inl e)
      | Inr ok \<Rightarrow>
          if \<not> ok then (r, Inl (ErrOther ''SwitchZone: zone is not registered''))
          else case SetHEAD S sha (r_storage r) zoneName branch of
            (s1, Inl e) \<Rightarrow> (r\<lparr>r_storage := s1\<rparr>, Inl e)
          | (s1, Inr _) \<Rightarrow> (r\<lparr>r_storage := s1, r_activeZone := zoneName\<rparr>, Inr ()))"

section \<open>Staging\<close>

definition Repo_Set :: "'s Storage \<Rightarrow> (bytes \<Rightarrow> Hash) \<Rightarrow> 'd DNS \<Rightarrow> 's Repo \<Rightarrow> 'd RR list \<Rightarrow> 's Repo \<times> (error + unit)" where
  "Repo_Set S sha D r rrs =
     (case rrs of
        [] \<Rightarrow> (r, Inl (ErrOther ''Set: empty RRset''))
      | hdr # _ \<Rightarrow>
          if r_activeZone r = [] then (r, Inl (ErrOther ''Set: no active zone''))
          else case EncodeRRset D rrs of
            Inl e \<Rightarrow> (r, Inl e)
          | Inr payload \<Rightarrow>
              (case Blob_Encode sha payload of (h, obj) \<Rightarrow>
                 (case PutObject S (r_storage r) h obj of
                    (s1, Inl e) \<Rightarrow> (r\<lparr>r_storage := s1\<rparr>, Inl e)
                  | (s1, Inr _) \<Rightarrow>
                      let owner = ToLower (rr_Name hdr);
                          owner = (if \<not> HasSuffix owner ''.'' then owner @ ''.'' else owner);
                          key = \<lparr>sk_fqdn = stripZoneSuffix owner (r_activeZone r),
                                 sk_rrtype = TypeToString D (rr_Rrtype hdr)\<rparr>
                      in (r\<lparr>r_storage := s1,
                            r_staging := AList.update key \<lparr>sv_tombstone = False, sv_blob = h\<rparr> (r_staging r)\<rparr>, Inr ()))))"

definition Repo_Delete :: "'s Repo \<Rightarrow> string \<Rightarrow> string \<Rightarrow> 's Repo" where
  "Repo_Delete r fqdn rrtype =
     r\<lparr>r_staging := AList.update \<lparr>sk_fqdn = normFQDN fqdn, sk_rrtype = ToUpper rrtype\<rparr>
         \<lparr>sv_tombstone = True, sv_blob = ZeroHash\<rparr> (r_staging r)\<rparr>"

definition Repo_StagedCount :: "'s Repo \<Rightarrow> nat" where
  "Repo_StagedCount r = length (r_staging r)"

fun import_sets :: "'s Storage \<Rightarrow> (bytes \<Rightarrow> Hash) \<Rightarrow> 'd DNS \<Rightarrow> 's Repo \<Rightarrow> 'd RRset list \<Rightarrow> 's Repo \<times> (error + unit)" where
  "import_sets S sha D r [] = (r, Inr ())"
| "import_sets S sha D r (rs # rest) =
     (case Repo_Set S sha D r (rs_RRs rs) of
        (r1, Inl e) \<Rightarrow> (r1, Inl e)
      | (r1, Inr _) \<Rightarrow> import_sets S sha D r1 rest)"

definition Repo_Import :: "'s Storage \<Rightarrow> (bytes \<Rightarrow> Hash) \<Rightarrow> 'd DNS \<Rightarrow> 's Repo \<Rightarrow> string \<Rightarrow> 's Repo \<times> (error + nat)" where
  "Repo_Import S sha D r src =
     (if r_activeZone r = [] then (r, Inl (ErrOther ''Import: no active zone''))
      else case ImportZonefile D src (r_activeZone r) of
        Inl e \<Rightarrow> (r, Inl e)
      | Inr rrsets \<Rightarrow>
          (case import_sets S sha D r rrsets of
             (r1, Inl e) \<Rightarrow> (r1, Inl e)
           | (r1, Inr _) \<Rightarrow> (r1, Inr (length rrsets))))"

section \<open>Loading commits (merge.go)\<close>

definition loadCommit :: "'s Storage \<Rightarrow> 's \<Rightarrow> Hash \<Rightarrow> error + Commit" where
  "loadCommit S s h =
     (case GetObject S s h of
        Inl e \<Rightarrow> Inl e
      | Inr obj \<Rightarrow> DecodeCommit (obj_Payload obj))"

section \<open>Commit\<close>

definition soa_key :: stagingKey where
  "soa_key = \<lparr>sk_fqdn = [], sk_rrtype = ''SOA''\<rparr>"

text \<open>The loop over the staging area looks for an explicit SOA edit; any other edit sets the flag.\<close>

definition maybeBumpSOA :: "'s Storage \<Rightarrow> (bytes \<Rightarrow> Hash) \<Rightarrow> 'd DNS \<Rightarrow> 's Repo \<Rightarrow> Hash \<Rightarrow> 's Repo \<times> (error + unit)" where
  "maybeBumpSOA S sha D r parentTree =
     (if IsZero parentTree then (r, Inr ())
      else if soa_key \<in> fst ` set (r_staging r) then (r, Inr ())
      else if r_staging r = [] then (r, Inr ())
      else case WalkTree S sha (r_storage r) parentTree [] ''SOA'' of
        Inl e \<Rightarrow> (r, if e = ErrNotFound then Inr () else Inl e)
      | Inr soaBlobHash \<Rightarrow>
          (case GetObject S (r_storage r) soaBlobHash of
             Inl e \<Rightarrow> (r, Inl e)
           | Inr obj \<Rightarrow>
               (case DecodeRRset D (obj_Payload obj) of
                  Inl e \<Rightarrow> (r, Inl e)
                | Inr soa \<Rightarrow>
                    (case BumpSOASerial D soa of
                       Inl e \<Rightarrow> (r, Inl e)
                     | Inr bumped \<Rightarrow>
                         (case EncodeRRset D (rs_RRs bumped) of
                            Inl e \<Rightarrow> (r, Inl e)
                          | Inr payload \<Rightarrow>
                              (case Blob_Encode sha payload of (h, blobObj) \<Rightarrow>
                                 (case PutObject S (r_storage r) h blobObj of
                                    (s1, Inl e) \<Rightarrow> (r\<lparr>r_storage := s1\<rparr>, Inl e)
                                  | (s1, Inr _) \<Rightarrow>
                                      (r\<lparr>r_storage := s1,
                                         r_staging := AList.update soa_key \<lparr>sv_tombstone = False, sv_blob = h\<rparr> (r_staging r)\<rparr>,
                                       Inr ()))))))))"

definition staged_leaf :: "staging_area \<Rightarrow> stagingKey \<Rightarrow> Hash" where
  "staged_leaf m k =
     (case map_of m k of
        None \<Rightarrow> ZeroHash
      | Some v \<Rightarrow> if \<not> sv_tombstone v then sv_blob v else ZeroHash)"

fun apply_staged :: "'s Storage \<Rightarrow> (bytes \<Rightarrow> Hash) \<Rightarrow> staging_area \<Rightarrow> stagingKey list \<Rightarrow> 's \<Rightarrow> Hash \<Rightarrow> 's \<times> (error + Hash)" where
  "apply_staged S sha m [] s tree = (s, Inr tree)"
| "apply_staged S sha m (k # ks) s tree =
     (case UpdateTree S sha s tree (splitFQDN (sk_fqdn k)) (sk_rrtype k) (staged_leaf m k) of
        (s1, Inl e) \<Rightarrow> (s1, Inl e)
      | (s1, Inr newRoot) \<Rightarrow> apply_staged S sha m ks s1 newRoot)"

definition new_commit :: "Hash \<Rightarrow> Hash list \<Rightarrow> Identity \<Rightarrow> Time \<Rightarrow> string \<Rightarrow> Commit" where
  "new_commit tree parents author now msg =
     \<lparr>c_Tree = tree, c_Parents = parents, c_Author = author, c_Committer = author,
      c_AuthorTime = now, c_CommitTime = now, c_Selector = [], c_Signature = [], c_Message = msg\<rparr>"

text \<open>
  The tail of \<open>Commit\<close>, \<open>Merge\<close> and \<open>Revert\<close>: write the commit, move the branch from
  \<open>parent\<close> to it (or create the branch when \<open>parent\<close> is zero) and note it in the reflog,
  whose error is ignored.
\<close>

definition advance_branch :: "'s Storage \<Rightarrow> 's \<Rightarrow> int \<Rightarrow> string \<Rightarrow> string \<Rightarrow> Hash \<Rightarrow> Hash \<Rightarrow> Identity \<Rightarrow> string \<Rightarrow> string \<Rightarrow>
    's \<times> (error + unit)" where
  "advance_branch S s rnow zoneName branch old new author op msg =
     (case (if IsZero old then CreateBranch S s zoneName branch new
            else UpdateBranch S s zoneName branch old new) of
        (s1, Inl e) \<Rightarrow> (s1, Inl e)
      | (s1, Inr _) \<Rightarrow>
          (fst (db_AppendReflog S s1 rnow (BranchRef zoneName branch) old new (Identity_String author) op msg), Inr ()))"

definition write_commit :: "'s Storage \<Rightarrow> (bytes \<Rightarrow> Hash) \<Rightarrow> 's \<Rightarrow> int \<Rightarrow> string \<Rightarrow> string \<Rightarrow> Hash \<Rightarrow> Commit \<Rightarrow> string \<Rightarrow>
    's \<times> (error + Hash)" where
  "write_commit S sha s rnow zoneName branch parent c op =
     (case Commit_Encode sha c of (commitHash, commitObj) \<Rightarrow>
        (case PutObject S s commitHash commitObj of
           (s1, Inl e) \<Rightarrow> (s1, Inl e)
         | (s1, Inr _) \<Rightarrow>
             (case advance_branch S s1 rnow zoneName branch parent commitHash (c_Author c) op (c_Message c) of
                (s2, Inl e) \<Rightarrow> (s2, Inl e)
              | (s2, Inr _) \<Rightarrow> (s2, Inr commitHash))))"

definition parent_tree :: "'s Storage \<Rightarrow> 's \<Rightarrow> Hash \<Rightarrow> error + Hash" where
  "parent_tree S s parent =
     (if IsZero parent then Inr ZeroHash
      else case GetObject S s parent of
        Inl e \<Rightarrow> Inl e
      | Inr obj \<Rightarrow>
          (case DecodeCommit (obj_Payload obj) of
             Inl e \<Rightarrow> Inl e
           | Inr pc \<Rightarrow> Inr (c_Tree pc)))"

definition Repo_Commit :: "'s Storage \<Rightarrow> (bytes \<Rightarrow> Hash) \<Rightarrow> 'd DNS \<Rightarrow> Time \<Rightarrow> int \<Rightarrow> 's Repo \<Rightarrow> Identity \<Rightarrow> string \<Rightarrow>
    's Repo \<times> (error + Hash)" where
  "Repo_Commit S sha D now rnow r author msg =
     (if r_staging r = [] then (r, Inl (ErrOther ''Commit: no staged changes''))
      else case ReadHEAD S (r_storage r) of
        Inl e \<Rightarrow> (r, Inl e)
      | Inr (zoneName, branch, parent) \<Rightarrow>
          (case parent_tree S (r_storage r) parent of
             Inl e \<Rightarrow> (r, Inl e)
           | Inr parentTree \<Rightarrow>
               (case maybeBumpSOA S sha D r parentTree of
                  (r1, Inl e) \<Rightarrow> (r1, Inl e)
                | (r1, Inr _) \<Rightarrow>
                    (case apply_staged S sha (r_staging r1) (sortedKeys (r_staging r1)) (r_storage r1) parentTree of
                       (s2, Inl e) \<Rightarrow> (r1\<lparr>r_storage := s2\<rparr>, Inl e)
                     | (s2, Inr tree) \<Rightarrow>
                         (case write_commit S sha s2 rnow zoneName branch parent
                                 (new_commit tree (if IsZero parent then [] else [parent]) author now msg) ''commit'' of
                            (s3, Inl e) \<Rightarrow> (r1\<lparr>r_storage := s3\<rparr>, Inl e)
                          | (s3, Inr commitHash) \<Rightarrow> (r1\<lparr>r_storage := s3, r_staging := []\<rparr>, Inr commitHash))))))"

section \<open>Reading\<close>

definition Repo_Head :: "'s Storage \<Rightarrow> 's Repo \<Rightarrow> error + string \<times> string \<times> Hash" where
  "Repo_Head S r = ReadHEAD S (r_storage r)"

definition Repo_Resolve :: "'s Storage \<Rightarrow> 's Repo \<Rightarrow> string \<Rightarrow> error + Hash" where
  "Repo_Resolve S r refish = Resolve S (r_storage r) refish"

definition Repo_Log :: "'s Storage \<Rightarrow> nat \<Rightarrow> 's Repo \<Rightarrow> string \<Rightarrow> int \<Rightarrow> (error + Entry list) option" where
  "Repo_Log S fuel r refish mx =
     (let refish = (if refish = [] then ''HEAD'' else refish) in
      case Resolve S (r_storage r) refish of
        Inl e \<Rightarrow> Some (Inl e)
      | Inr h \<Rightarrow> Log S (r_storage r) fuel h mx)"

definition Repo_Diff :: "'s Storage \<Rightarrow> (bytes \<Rightarrow> Hash) \<Rightarrow> nat \<Rightarrow> 's Repo \<Rightarrow> string \<Rightarrow> string \<Rightarrow> (error + Change list) option" where
  "Repo_Diff S sha fuel r fromRefish toRefish =
     (case Resolve S (r_storage r) fromRefish of
        Inl e \<Rightarrow> Some (Inl e)
      | Inr a \<Rightarrow>
          (case Resolve S (r_storage r) toRefish of
             Inl e \<Rightarrow> Some (Inl e)
           | Inr b \<Rightarrow> Diff S sha (r_storage r) fuel (TreeOf S (r_storage r) a) (TreeOf S (r_storage r) b)))"

definition Repo_Blame :: "'s Storage \<Rightarrow> (bytes \<Rightarrow> Hash) \<Rightarrow> nat \<Rightarrow> 's Repo \<Rightarrow> string \<Rightarrow> string \<Rightarrow> (error + BlameInfo) option" where
  "Repo_Blame S sha fuel r fqdn rrtype =
     (case ReadHEAD S (r_storage r) of
        Inl e \<Rightarrow> Some (Inl e)
      | Inr (_, _, head) \<Rightarrow>
          if IsZero head then Some (Inl (ErrOther ''Blame: HEAD is empty''))
          else Blame S sha (r_storage r) fuel head (splitFQDN (normFQDN fqdn)) (ToUpper rrtype))"

definition Repo_Lookup :: "'s Storage \<Rightarrow> (bytes \<Rightarrow> Hash) \<Rightarrow> 'd DNS \<Rightarrow> 's Repo \<Rightarrow> Hash \<Rightarrow> string \<Rightarrow> string \<Rightarrow> error + 'd RRset" where
  "Repo_Lookup S sha D r commit fqdn rrtype =
     (let s = r_storage r in
      case (if IsZero commit then (case ReadHEAD S s of Inl e \<Rightarrow> Inl e | Inr (_, _, h) \<Rightarrow> Inr h) else Inr commit) of
        Inl e \<Rightarrow> Inl e
      | Inr commit \<Rightarrow>
          if IsZero commit then Inl (ErrOther ''Lookup: empty repo'')
          else case GetObject S s commit of
            Inl e \<Rightarrow> Inl e
          | Inr obj \<Rightarrow>
              (case DecodeCommit (obj_Payload obj) of
                 Inl e \<Rightarrow> Inl e
               | Inr c \<Rightarrow>
                   (case WalkTree S sha s (c_Tree c) (splitFQDN (normFQDN fqdn)) (ToUpper rrtype) of
                      Inl e \<Rightarrow> Inl e
                    | Inr blobHash \<Rightarrow>
                        (case GetObject S s blobHash of
                           Inl e \<Rightarrow> Inl e
                         | Inr bobj \<Rightarrow> DecodeRRset D (obj_Payload bobj)))))"

definition Repo_NameExists :: "'s Storage \<Rightarrow> (bytes \<Rightarrow> Hash) \<Rightarrow> 's Repo \<Rightarrow> Hash \<Rightarrow> string \<Rightarrow> error + bool" where
  "Repo_NameExists S sha r commit fqdn =
     (if IsZero commit then Inr False
      else NodeExists S sha (r_storage r) (TreeOf S (r_storage r) commit) (splitFQDN (normFQDN fqdn)))"

end
