(* ===== verification/RepoCommit.thy ===== *)
theory RepoCommit
  imports RepoCore
begin

text \<open>
  The correctness of pkg/repo, repo.go: staging, committing and looking up.  The lemmas
  hold for every backend that keeps the contract \<open>storage\<close>; the properties are stated for
  the in-memory backend.

  A staging area is well-formed (\<open>staging_ok\<close>) when its keys are distinct names in normal
  form without empty labels; it is then an \<open>overlay\<close> over the contents of the parent.
\<close>

section \<open>Names\<close>

lemma Join_Cons: "xs \<noteq> [] \<Longrightarrow> Join (x # xs) sep = x @ sep @ Join xs sep"
  by (cases xs) simp_all

lemma split_by_nonempty [simp]: "split_by P s \<noteq> []"
  by (induction s) (auto split: list.splits)

lemma Join_Split [codec]: "Join (Split s c) [c] = s"
proof -
  have "Join (split_by (\<lambda>x. x = c) s) [c] = s"
  proof (induction s)
    case (Cons x xs)
    obtain y ys where ys: "split_by (\<lambda>x. x = c) xs = y # ys" by (cases "split_by (\<lambda>x. x = c) xs") auto
    then have "Join (y # ys) [c] = xs" using Cons by simp
    then show ?case by (cases ys) (auto simp: ys)
  qed simp
  then show ?thesis by (simp add: Split_def)
qed

text \<open>A relative name in normal form without empty labels; the apex is the empty string.\<close>

definition name_ok :: "string \<Rightarrow> bool" where
  "name_ok n \<longleftrightarrow> normFQDN n = n \<and> [] \<notin> set (splitFQDN n)"

lemma splitFQDN_inject:
  assumes "name_ok n" and "name_ok n'" and "splitFQDN n = splitFQDN n'"
  shows "n = n'"
proof -
  have "splitFQDN x = (if x = [] then [] else rev (Split x (CHR ''.'')))" if "name_ok x" for x
    using that by (auto simp: splitFQDN_def name_ok_def Let_def)
  moreover have "Split x (CHR ''.'') \<noteq> []" for x by (simp add: Split_def)
  ultimately show ?thesis
    using assms Join_Split [of n "CHR ''.''"] Join_Split [of n' "CHR ''.''"]
    by (metis rev_is_Nil_conv rev_rev_ident)
qed

lemma stripZoneSuffix_sub:
  "n \<noteq> [] \<Longrightarrow> stripZoneSuffix (n @ ''.'' @ z) z = n"
proof -
  assume "n \<noteq> []"
  moreover have "suffix (''.'' @ z) (n @ ''.'' @ z)" by (rule suffixI) simp
  ultimately show ?thesis by (simp add: stripZoneSuffix_def HasSuffix_def TrimSuffix_def)
qed

lemma stripZoneSuffix_apex [simp]: "stripZoneSuffix z z = []"
  by (simp add: stripZoneSuffix_def)

section \<open>The staging area\<close>

definition staging_ok :: "staging_area \<Rightarrow> bool" where
  "staging_ok m \<longleftrightarrow> distinct (map fst m) \<and> (\<forall>k \<in> fst ` set m. name_ok (sk_fqdn k) \<and> sk_rrtype k \<noteq> [])"

lemma staging_ok_update:
  "staging_ok m \<Longrightarrow> name_ok (sk_fqdn k) \<Longrightarrow> sk_rrtype k \<noteq> [] \<Longrightarrow> staging_ok (AList.update k v m)"
  by (auto simp: staging_ok_def distinct_update dom_update)

lemma staging_ok_Nil [simp]: "staging_ok []"
  by (simp add: staging_ok_def)

lemma soa_key_ok [simp]: "name_ok (sk_fqdn soa_key)" "sk_rrtype soa_key \<noteq> []" "splitFQDN (sk_fqdn soa_key) = []"
  by (simp_all add: soa_key_def name_ok_def normFQDN_def splitFQDN_def ToLower_def TrimSuffix_def)

definition at_coord :: "string list \<Rightarrow> string \<Rightarrow> stagingKey \<Rightarrow> bool" where
  "at_coord p t k \<longleftrightarrow> splitFQDN (sk_fqdn k) = p \<and> sk_rrtype k = t"

lemma at_coord_inject:
  assumes "staging_ok m" and "k \<in> fst ` set m" and "k' \<in> fst ` set m" and "at_coord p t k" and "at_coord p t k'"
  shows "k = k'"
proof -
  have "name_ok (sk_fqdn k)" "name_ok (sk_fqdn k')" using assms(1-3) by (auto simp: staging_ok_def)
  then have "sk_fqdn k = sk_fqdn k'" using splitFQDN_inject assms(4,5) by (simp add: at_coord_def)
  with assms(4,5) show ?thesis by (simp add: at_coord_def)
qed

text \<open>What the staging area says of a path and type: nothing, a removal, or a blob.\<close>

definition staged_at :: "staging_area \<Rightarrow> string list \<Rightarrow> string \<Rightarrow> Hash option option" where
  "staged_at m p t =
     map_option (\<lambda>(k, v). if sv_tombstone v then None else Some (sv_blob v)) (find (\<lambda>(k, v). at_coord p t k) m)"

lemma staged_at_iff:
  assumes "staging_ok m"
  shows "staged_at m p t = Some x \<longleftrightarrow>
    (\<exists>k v. (k, v) \<in> set m \<and> at_coord p t k \<and> x = (if sv_tombstone v then None else Some (sv_blob v)))"
proof
  assume "staged_at m p t = Some x"
  then obtain k v where f: "find (\<lambda>(k, v). at_coord p t k) m = Some (k, v)" and x: "x = (if sv_tombstone v then None else Some (sv_blob v))"
    by (auto simp: staged_at_def)
  from f have "(k, v) \<in> set m" "at_coord p t k" by (auto simp: find_Some_iff) (metis nth_mem)
  with x show "\<exists>k v. (k, v) \<in> set m \<and> at_coord p t k \<and> x = (if sv_tombstone v then None else Some (sv_blob v))"
    by blast
next
  assume "\<exists>k v. (k, v) \<in> set m \<and> at_coord p t k \<and> x = (if sv_tombstone v then None else Some (sv_blob v))"
  then obtain k v where kv: "(k, v) \<in> set m" "at_coord p t k" and x: "x = (if sv_tombstone v then None else Some (sv_blob v))"
    by blast
  have "find (\<lambda>(k, v). at_coord p t k) m \<noteq> None" using kv by (auto simp: find_None_iff)
  then obtain k' v' where f: "find (\<lambda>(k, v). at_coord p t k) m = Some (k', v')" by auto
  then have k': "(k', v') \<in> set m" "at_coord p t k'" by (auto simp: find_Some_iff) (metis nth_mem)
  then have "k' = k" using at_coord_inject [OF assms, of k' k p t] kv by force
  moreover have "distinct (map fst m)" using assms by (simp add: staging_ok_def)
  ultimately have "v' = v" using kv k' by (meson eq_key_imp_eq_value)
  with f x show "staged_at m p t = Some x" by (simp add: staged_at_def)
qed

lemma staged_leaf_mem:
  assumes "staging_ok m" and "(k, v) \<in> set m"
  shows "staged_leaf m k = (if sv_tombstone v then ZeroHash else sv_blob v)"
  using assms by (simp add: staging_ok_def staged_leaf_def)

text \<open>The edits as a sequence of updates, in any order of the keys, and as one overlay.\<close>

definition overlay :: "staging_area \<Rightarrow> zone_map \<Rightarrow> zone_map" where
  "overlay m z = (\<lambda>p t. case staged_at m p t of None \<Rightarrow> z p t | Some x \<Rightarrow> x)"

definition apply_keys :: "staging_area \<Rightarrow> stagingKey list \<Rightarrow> zone_map \<Rightarrow> zone_map" where
  "apply_keys m ks z = foldl (\<lambda>z k. zone_update z (splitFQDN (sk_fqdn k)) (sk_rrtype k) (staged_leaf m k)) z ks"

lemma apply_keys_at:
  assumes "\<And>k k'. k \<in> set ks \<Longrightarrow> k' \<in> set ks \<Longrightarrow> at_coord p t k \<Longrightarrow> at_coord p t k' \<Longrightarrow> k = k'"
  shows "apply_keys m ks z p t =
    (case find (at_coord p t) ks of None \<Rightarrow> z p t
     | Some k \<Rightarrow> if staged_leaf m k = ZeroHash then None else Some (staged_leaf m k))"
  using assms
proof (induction ks arbitrary: z)
  case Nil
  show ?case by (simp add: apply_keys_def)
next
  case (Cons k ks)
  let ?z = "zone_update z (splitFQDN (sk_fqdn k)) (sk_rrtype k) (staged_leaf m k)"
  have IH: "apply_keys m (k # ks) z p t = (case find (at_coord p t) ks of None \<Rightarrow> ?z p t
     | Some k \<Rightarrow> if staged_leaf m k = ZeroHash then None else Some (staged_leaf m k))"
    using Cons.IH [of ?z] Cons.prems by (simp add: apply_keys_def)
  show ?case
  proof (cases "at_coord p t k")
    case True
    have "find (at_coord p t) ks \<in> {None, Some k}"
    proof (cases "find (at_coord p t) ks")
      case (Some k')
      then have "k' \<in> set ks" "at_coord p t k'" by (auto simp: find_Some_iff)
      with True Cons.prems [of k' k] Some show ?thesis by simp
    qed simp
    with True show ?thesis unfolding IH by (auto simp: zone_update_def at_coord_def)
  next
    case False
    then have "?z p t = z p t" by (auto simp: zone_update_def at_coord_def)
    with False show ?thesis unfolding IH by (simp cong: option.case_cong)
  qed
qed

lemma apply_keys_overlay:
  assumes "staging_ok m" and "\<forall>(k, v) \<in> set m. sv_tombstone v \<or> sv_blob v \<noteq> ZeroHash" and "set ks = fst ` set m"
  shows "apply_keys m ks z = overlay m z"
proof (intro ext)
  fix p t
  have at: "apply_keys m ks z p t = (case find (at_coord p t) ks of None \<Rightarrow> z p t
     | Some k \<Rightarrow> if staged_leaf m k = ZeroHash then None else Some (staged_leaf m k))"
    using at_coord_inject [OF assms(1)] by (intro apply_keys_at) (auto simp: assms(3))
  show "apply_keys m ks z p t = overlay m z p t"
  proof (cases "find (at_coord p t) ks")
    case None
    then have "staged_at m p t = None" using assms(3) by (force simp: find_None_iff staged_at_def)
    with None show ?thesis unfolding at by (simp add: overlay_def)
  next
    case (Some k)
    then have k: "k \<in> fst ` set m" "at_coord p t k" using assms(3) by (auto simp: find_Some_iff)
    then obtain v where v: "(k, v) \<in> set m" by force
    have "staged_at m p t = Some (if sv_tombstone v then None else Some (sv_blob v))"
      unfolding staged_at_iff [OF assms(1)] using v k(2) by blast
    with Some show ?thesis
      unfolding at using staged_leaf_mem [OF assms(1) v] assms(2) v by (auto simp: overlay_def)
  qed
qed

section \<open>Writing a commit\<close>

definition reflog_entry :: "Hash \<Rightarrow> Hash \<Rightarrow> Identity \<Rightarrow> int \<Rightarrow> string \<Rightarrow> string \<Rightarrow> ReflogEntry" where
  "reflog_entry old new author rnow op msg = \<lparr>rl_Old = old, rl_New = new, rl_Author = Identity_String author,
     rl_UnixTime = rnow, rl_TZOffset = 0, rl_Op = op, rl_Message = msg\<rparr>"

definition commit_object :: "Commit \<Rightarrow> Object" where
  "commit_object c = \<lparr>obj_Kind = KindCommit, obj_Payload = bytes_of (commit_text c)\<rparr>"

definition commit_hash :: "(bytes \<Rightarrow> Hash) \<Rightarrow> Commit \<Rightarrow> Hash" where
  "commit_hash sha c = HashOf sha KindCommit (bytes_of (commit_text c))"

lemma Commit_Encode_parts: "Commit_Encode sha c = (commit_hash sha c, commit_object c)"
  by (simp add: Commit_Encode_def Encode_def commit_hash_def commit_object_def)

context storage
begin

lemma write_back_grows: "grows s (fst (write_back S sha s t ps ls))"
proof (induction ps arbitrary: s t ls)
  case Nil
  show ?case by (simp add: PutTree_grows)
next
  case (Cons p ps)
  show ?case
  proof (cases ls)
    case (Cons l ls')
    obtain s1 r where put: "PutTree S sha s t = (s1, r)" by (cases "PutTree S sha s t")
    then have "grows s s1" using PutTree_grows [of s sha t] by simp
    with Cons.IH Cons put show ?thesis
      by (cases r) (simp_all, meson extends_trans)
  qed simp
qed

lemma UpdateTree_grows: "grows s (fst (UpdateTree S sha s root path rt h))"
  using write_back_grows by (auto simp: UpdateTree_def Let_def split: sum.splits)

lemma apply_staged_grows: "grows s (fst (apply_staged S sha m ks s tree))"
proof (induction ks arbitrary: s tree)
  case (Cons k ks)
  let ?u = "UpdateTree S sha s tree (splitFQDN (sk_fqdn k)) (sk_rrtype k) (staged_leaf m k)"
  have "grows s (fst ?u)" by (rule UpdateTree_grows)
  with Cons show ?case by (auto split: prod.splits sum.splits intro: extends_trans)
qed simp

lemma lookup_zero: "ZeroHash \<notin> Domain (hist s) \<Longrightarrow> lookup S sha s ZeroHash = (\<lambda>_ _. None)"
proof (intro ext)
  fix p rt
  assume "ZeroHash \<notin> Domain (hist s)"
  then have "LoadTree S sha s ZeroHash = Inl ErrNotFound" by (simp add: LoadTree_def get_absent)
  then show "lookup S sha s ZeroHash p rt = None" by (cases p) (simp_all add: lookup_def WalkTree_def)
qed

lemma UpdateTree_zone:
  assumes "UpdateTree S sha s root path rt h = (s', Inr root')" and "root_ok S sha s n root"
    and "rt \<noteq> []" and "[] \<notin> set path" and "healthy (hist s')"
  shows "root_ok S sha s' (Suc (n + length path)) root' \<and> zone_of S sha s' root' = zone_update (zone_of S sha s root) path rt h"
proof -
  have "hist s \<subseteq> hist s'" using UpdateTree_grows [of s sha root path rt h] assms(1) by (simp add: extends_def)
  then have zero: "ZeroHash \<notin> Domain (hist s)" using assms(5) by (auto simp: healthy_def)
  have root: "root = ZeroHash \<or> tree_ok S sha s (Suc n) root"
    using assms(2) tree_ok_mono [of S sha s n root "Suc n"] by (auto simp: root_ok_def)
  have labels: "\<forall>l \<in> set path. l \<noteq> []" using assms(4) by auto
  have "zone_of S sha s root = lookup S sha s root" using lookup_zero [OF zero] by (simp add: zone_of_def)
  with UpdateTree_spec [OF assms(1) root assms(3) labels assms(5) zero] show ?thesis
    by (auto simp: root_ok_def zone_of_def)
qed

lemma apply_staged_zone:
  assumes "apply_staged S sha m ks s tree = (s', Inr tree')" and "root_ok S sha s n tree"
    and "\<forall>k \<in> set ks. sk_rrtype k \<noteq> [] \<and> [] \<notin> set (splitFQDN (sk_fqdn k))" and "healthy (hist s')"
  shows "\<exists>n'. root_ok S sha s' n' tree' \<and> zone_of S sha s' tree' = apply_keys m ks (zone_of S sha s tree)"
  using assms
proof (induction ks arbitrary: s tree n)
  case (Cons k ks)
  let ?p = "splitFQDN (sk_fqdn k)"
  obtain s1 t1 where u: "UpdateTree S sha s tree ?p (sk_rrtype k) (staged_leaf m k) = (s1, Inr t1)"
    and rest: "apply_staged S sha m ks s1 t1 = (s', Inr tree')"
    using Cons.prems(1) by (auto split: prod.splits sum.splits)
  have "hist s1 \<subseteq> hist s'" using apply_staged_grows [of s1 sha m ks t1] rest by (simp add: extends_def)
  then have "healthy (hist s1)" using Cons.prems(4) healthy_subset by blast
  then have u1: "root_ok S sha s1 (Suc (n + length ?p)) t1"
    "zone_of S sha s1 t1 = zone_update (zone_of S sha s tree) ?p (sk_rrtype k) (staged_leaf m k)"
    using UpdateTree_zone [OF u Cons.prems(2)] Cons.prems(3) by auto
  from Cons.IH [OF rest u1(1)] Cons.prems(3,4) show ?case by (auto simp: apply_keys_def u1(2))
qed (auto simp: apply_keys_def)

lemma PutObject_done:
  "\<exists>s1. PutObject S s h obj = (s1, Inr ()) \<and> hist s1 = insert (h, obj) (hist s) \<and> ref s1 = ref s \<and> log s1 = log s"
proof -
  have "PutObject S s h obj = (fst (PutObject S s h obj), Inr ())" using put_total by (simp add: prod_eq_iff)
  with put_ok put_ref put_log show ?thesis by blast
qed

lemma advance_branch_spec:
  assumes "advance_branch S s rnow z b old new author op msg = (s', res)"
  shows "hist s' = hist s"
    and "res = Inr () \<Longrightarrow> new \<noteq> ZeroHash \<and> cas_guard (ref s (BranchRef z b)) old \<and> ref s' = (ref s)(BranchRef z b \<mapsto> new) \<and>
      log s' = (log s)(BranchRef z b := log s (BranchRef z b) @ [reflog_entry old new author rnow op msg])"
    and "res = Inl e \<Longrightarrow> ref s' = ref s \<and> log s' = log s \<and> (new \<noteq> ZeroHash \<longrightarrow> e = ErrConflict \<and> \<not> cas_guard (ref s (BranchRef z b)) old)"
    and "new \<noteq> ZeroHash \<Longrightarrow> cas_guard (ref s (BranchRef z b)) old \<Longrightarrow> res = Inr ()"
proof -
  let ?r = "BranchRef z b"
  obtain s1 q where cas: "CASRef S s ?r old new = (s1, q)" by (cases "CASRef S s ?r old new")
  then have run: "(s', res) = (case q of Inl e \<Rightarrow> (s1, Inl e)
      | Inr _ \<Rightarrow> (fst (AppendReflog S s1 ?r (reflog_entry old new author rnow op msg)), Inr ()))"
    using assms by (auto simp: advance_branch_def CreateBranch_def UpdateBranch_def db_AppendReflog_def reflog_entry_def split: if_splits sum.splits)
  have q: "q = (if new = 0 then Inl ErrInvalidObject else if cas_guard (ref s ?r) old then Inr () else Inl ErrConflict)"
    "ref s1 = (if new \<noteq> 0 \<and> cas_guard (ref s ?r) old then (ref s)(?r \<mapsto> new) else ref s)" "hist s1 = hist s" "log s1 = log s"
    using cas_result [of s ?r old new] cas_ref [of s ?r old new] cas_hist [of s ?r old new] cas_log [of s ?r old new] cas
    by simp_all
  show "hist s' = hist s" using run q(3) by (cases q) (auto simp: append_hist)
  show "res = Inr () \<Longrightarrow> new \<noteq> ZeroHash \<and> cas_guard (ref s ?r) old \<and> ref s' = (ref s)(?r \<mapsto> new) \<and>
      log s' = (log s)(?r := log s ?r @ [reflog_entry old new author rnow op msg])"
    using run q by (auto simp: append_ref append_log split: if_splits)
  show "res = Inl e \<Longrightarrow> ref s' = ref s \<and> log s' = log s \<and> (new \<noteq> ZeroHash \<longrightarrow> e = ErrConflict \<and> \<not> cas_guard (ref s ?r) old)"
    using run q by (auto split: if_splits)
  show "new \<noteq> ZeroHash \<Longrightarrow> cas_guard (ref s ?r) old \<Longrightarrow> res = Inr ()"
    using run q by auto
qed

lemma write_commit_spec:
  assumes "write_commit S sha s rnow z b parent c op = (s', res)"
  shows "hist s' = insert (commit_hash sha c, commit_object c) (hist s)"
    and "res = Inr h \<Longrightarrow> h = commit_hash sha c \<and> h \<noteq> ZeroHash \<and> cas_guard (ref s (BranchRef z b)) parent \<and>
      ref s' = (ref s)(BranchRef z b \<mapsto> h) \<and>
      log s' = (log s)(BranchRef z b := log s (BranchRef z b) @ [reflog_entry parent h (c_Author c) rnow op (c_Message c)])"
    and "res = Inl e \<Longrightarrow> ref s' = ref s \<and> log s' = log s \<and>
      (commit_hash sha c \<noteq> ZeroHash \<longrightarrow> e = ErrConflict \<and> \<not> cas_guard (ref s (BranchRef z b)) parent)"
    and "commit_hash sha c \<noteq> ZeroHash \<Longrightarrow> cas_guard (ref s (BranchRef z b)) parent \<Longrightarrow> res = Inr (commit_hash sha c)"
proof -
  let ?h = "commit_hash sha c"
  obtain s1 where s1: "PutObject S s ?h (commit_object c) = (s1, Inr ())" "hist s1 = insert (?h, commit_object c) (hist s)"
    "ref s1 = ref s" "log s1 = log s"
    using PutObject_done by blast
  obtain s2 q where adv: "advance_branch S s1 rnow z b parent ?h (c_Author c) op (c_Message c) = (s2, q)" by (metis surj_pair)
  have s': "s' = s2" and res: "res = (case q of Inl e \<Rightarrow> Inl e | Inr _ \<Rightarrow> Inr ?h)"
    using assms s1(1) adv by (auto simp: write_commit_def Commit_Encode_parts split: sum.splits)
  note spec = advance_branch_spec [OF adv, unfolded s1]
  show "hist s' = insert (?h, commit_object c) (hist s)" using spec(1) by (simp add: s')
  show "res = Inr h \<Longrightarrow> h = ?h \<and> h \<noteq> ZeroHash \<and> cas_guard (ref s (BranchRef z b)) parent \<and>
      ref s' = (ref s)(BranchRef z b \<mapsto> h) \<and>
      log s' = (log s)(BranchRef z b := log s (BranchRef z b) @ [reflog_entry parent h (c_Author c) rnow op (c_Message c)])"
    using spec(2) by (auto simp: s' res split: sum.splits)
  show "res = Inl e \<Longrightarrow> ref s' = ref s \<and> log s' = log s \<and>
      (?h \<noteq> ZeroHash \<longrightarrow> e = ErrConflict \<and> \<not> cas_guard (ref s (BranchRef z b)) parent)"
    using spec(3) [of e] by (auto simp: s' res split: sum.splits)
  show "?h \<noteq> ZeroHash \<Longrightarrow> cas_guard (ref s (BranchRef z b)) parent \<Longrightarrow> res = Inr ?h"
    using spec(4) by (auto simp: res)
qed

lemma TreeOf_commit:
  assumes "(commit_hash sha c, commit_object c) \<in> hist s" and "healthy (hist s)" and "commit_ok c"
  shows "TreeOf S s (commit_hash sha c) = c_Tree c"
    and "GetObject S s (commit_hash sha c) = Inr (commit_object c)"
    and "DecodeCommit (obj_Payload (commit_object c)) = Inr (norm_commit c)"
proof -
  show get: "GetObject S s (commit_hash sha c) = Inr (commit_object c)"
    using assms(1,2) get_present by (simp add: healthy_def)
  show dec: "DecodeCommit (obj_Payload (commit_object c)) = Inr (norm_commit c)"
    using DecodeCommit_commit_text [OF assms(3)] by (simp add: commit_object_def)
  have "commit_hash sha c \<noteq> ZeroHash" using assms(1,2) by (auto simp: healthy_def)
  with get dec show "TreeOf S s (commit_hash sha c) = c_Tree c"
    by (simp add: TreeOf_def norm_commit_def)
qed

lemma parent_tree_TreeOf: "parent_tree S s parent = Inr t \<Longrightarrow> TreeOf S s parent = t"
  by (auto simp: parent_tree_def TreeOf_def split: if_splits sum.splits)

end

section \<open>Commit\<close>

definition staged_stored :: "staging_area \<Rightarrow> (Hash \<times> Object) set \<Rightarrow> bool" where
  "staged_stored m H \<longleftrightarrow> (\<forall>(k, v) \<in> set m. sv_tombstone v \<or> sv_blob v \<in> Domain H)"

lemma set_update_subset: "set (AList.update k v m) \<subseteq> insert (k, v) (set m)"
  by (induction m) auto

lemma staged_stored_update:
  "staged_stored m H \<Longrightarrow> H \<subseteq> H' \<Longrightarrow> sv_tombstone v \<or> sv_blob v \<in> Domain H' \<Longrightarrow> staged_stored (AList.update k v m) H'"
  using set_update_subset [of k v m] unfolding staged_stored_def by blast

lemma staged_stored_mono: "staged_stored m H \<Longrightarrow> H \<subseteq> H' \<Longrightarrow> staged_stored m H'"
  unfolding staged_stored_def by blast

definition blob_object :: "bytes \<Rightarrow> Object" where
  "blob_object p = \<lparr>obj_Kind = KindBlob, obj_Payload = p\<rparr>"

definition blob_hash :: "(bytes \<Rightarrow> Hash) \<Rightarrow> bytes \<Rightarrow> Hash" where
  "blob_hash sha p = HashOf sha KindBlob p"

lemma Blob_Encode_parts: "Blob_Encode sha p = (blob_hash sha p, blob_object p)"
  by (simp add: Blob_Encode_def Encode_def blob_hash_def blob_object_def)

lemma set_sortedKeys [simp]: "set (sortedKeys m) = fst ` set m"
  by (simp add: sortedKeys_def)

context storage
begin

lemma maybeBumpSOA_cases:
  assumes "maybeBumpSOA S sha D r t = (r1, res)"
  shows "r1 = r \<or> (\<exists>payload. res = Inr () \<and> soa_key \<notin> fst ` set (r_staging r) \<and> r_activeZone r1 = r_activeZone r \<and>
    r_staging r1 = AList.update soa_key \<lparr>sv_tombstone = False, sv_blob = blob_hash sha payload\<rparr> (r_staging r) \<and>
    hist (r_storage r1) = insert (blob_hash sha payload, blob_object payload) (hist (r_storage r)) \<and>
    ref (r_storage r1) = ref (r_storage r) \<and> log (r_storage r1) = log (r_storage r))"
proof (cases "r1 = r")
  case False
  let ?put = "\<lambda>payload. case PutObject S (r_storage r) (blob_hash sha payload) (blob_object payload) of
      (s1, Inl e) \<Rightarrow> (r\<lparr>r_storage := s1\<rparr>, Inl e)
    | (s1, Inr _) \<Rightarrow> (r\<lparr>r_storage := s1,
         r_staging := AList.update soa_key \<lparr>sv_tombstone = False, sv_blob = blob_hash sha payload\<rparr> (r_staging r)\<rparr>, Inr ())"
  have "\<exists>payload. soa_key \<notin> fst ` set (r_staging r) \<and> ?put payload = (r1, res)"
    using assms False by (auto simp: maybeBumpSOA_def Blob_Encode_parts split: if_splits sum.splits)
  then obtain payload where key: "soa_key \<notin> fst ` set (r_staging r)" and put: "?put payload = (r1, res)" by blast
  obtain s1 where "PutObject S (r_storage r) (blob_hash sha payload) (blob_object payload) = (s1, Inr ())"
    "hist s1 = insert (blob_hash sha payload, blob_object payload) (hist (r_storage r))"
    "ref s1 = ref (r_storage r)" "log s1 = log (r_storage r)"
    using PutObject_done by blast
  with put key show ?thesis by auto
qed simp

lemma maybeBumpSOA_keeps:
  assumes "maybeBumpSOA S sha D r t = (r1, res)"
  shows "grows (r_storage r) (r_storage r1)" and "staging_ok (r_staging r) \<Longrightarrow> staging_ok (r_staging r1)"
    and "staged_stored (r_staging r) (hist (r_storage r)) \<Longrightarrow> staged_stored (r_staging r1) (hist (r_storage r1))"
    and "r_activeZone r1 = r_activeZone r"
  using maybeBumpSOA_cases [OF assms]
  by (auto simp: extends_def staging_ok_update intro!: staged_stored_update)

lemma maybeBumpSOA_staged:
  assumes "maybeBumpSOA S sha D r t = (r1, res)" and "k \<in> fst ` set (r_staging r)"
  shows "map_of (r_staging r1) k = map_of (r_staging r) k"
  using maybeBumpSOA_cases [OF assms(1)] assms(2) by (cases "k = soa_key") (auto simp: update_conv)

lemma Commit_runs:
  assumes "Repo_Commit S sha D now rnow r author msg = (r', Inr h)" and "ReadHEAD S (r_storage r) = Inr (z, b, parent)"
  obtains r1 s2 tree where "maybeBumpSOA S sha D r (TreeOf S (r_storage r) parent) = (r1, Inr ())"
    "apply_staged S sha (r_staging r1) (sortedKeys (r_staging r1)) (r_storage r1) (TreeOf S (r_storage r) parent) = (s2, Inr tree)"
    "write_commit S sha s2 rnow z b parent (new_commit tree (if IsZero parent then [] else [parent]) author now msg) ''commit''
      = (r_storage r', Inr h)"
    "r_staging r' = []" "r_activeZone r' = r_activeZone r1"
proof -
  obtain pt where pt: "parent_tree S (r_storage r) parent = Inr pt"
    using assms by (auto simp: Repo_Commit_def split: if_splits sum.splits)
  note t = parent_tree_TreeOf [OF pt]
  obtain r1 res where bump: "maybeBumpSOA S sha D r pt = (r1, res)" by (metis surj_pair)
  obtain s2 q where app: "apply_staged S sha (r_staging r1) (sortedKeys (r_staging r1)) (r_storage r1) pt = (s2, q)"
    by (metis surj_pair)
  from assms pt bump app have "res = Inr ()" and "\<exists>tree. q = Inr tree"
    by (auto simp: Repo_Commit_def split: if_splits sum.splits)
  then obtain tree where q: "q = Inr tree" by blast
  obtain s3 p where w: "write_commit S sha s2 rnow z b parent
      (new_commit tree (if IsZero parent then [] else [parent]) author now msg) ''commit'' = (s3, p)" by (metis surj_pair)
  from assms pt bump app w \<open>res = Inr ()\<close> q have "p = Inr h" "r' = r1\<lparr>r_storage := s3, r_staging := []\<rparr>"
    by (auto simp: Repo_Commit_def split: if_splits sum.splits)
  with that [of r1 s2 tree] bump app w \<open>res = Inr ()\<close> q t show thesis by simp
qed

lemma Commit_spec:
  fixes r r' :: "'s Repo"
  defines "s \<equiv> r_storage r" and "s' \<equiv> r_storage r'"
  assumes run: "Repo_Commit S sha D now rnow r author msg = (r', Inr h)" and hl: "healthy (hist s')"
    and head: "ReadHEAD S s = Inr (z, b, parent)"
    and ok: "staging_ok (r_staging r)" "staged_stored (r_staging r) (hist s)"
    and root: "root_ok S sha s n (TreeOf S s parent)" and id: "identity_ok author" "time_ok now"
  shows "\<exists>n' c. root_ok S sha s' n' (c_Tree c) \<and>
      zone_of S sha s' (c_Tree c) =
        overlay (r_staging (fst (maybeBumpSOA S sha D r (TreeOf S s parent)))) (zone_of S sha s (TreeOf S s parent)) \<and>
      c = new_commit (c_Tree c) (if parent = ZeroHash then [] else [parent]) author now msg \<and>
      h = commit_hash sha c \<and> (h, commit_object c) \<in> hist s' \<and> commit_ok c \<and>
      cas_guard (ref s (BranchRef z b)) parent"
    and "ref s' = (ref s)(BranchRef z b \<mapsto> h)"
    and "log s' = (log s)(BranchRef z b := log s (BranchRef z b) @ [reflog_entry parent h author rnow ''commit'' msg])"
    and "hist s \<subseteq> hist s'" and "h \<noteq> ZeroHash" and "r_staging r' = []" and "r_activeZone r' = r_activeZone r"
proof -
  obtain r1 s2 tree where bump: "maybeBumpSOA S sha D r (TreeOf S s parent) = (r1, Inr ())"
    and app: "apply_staged S sha (r_staging r1) (sortedKeys (r_staging r1)) (r_storage r1) (TreeOf S s parent) = (s2, Inr tree)"
    and w: "write_commit S sha s2 rnow z b parent (new_commit tree (if IsZero parent then [] else [parent]) author now msg) ''commit''
      = (s', Inr h)"
    and st: "r_staging r' = []" "r_activeZone r' = r_activeZone r1"
    using Commit_runs [OF run head [unfolded s_def]] unfolding s_def s'_def by metis
  let ?c = "new_commit tree (if parent = 0 then [] else [parent]) author now msg"
  note keeps = maybeBumpSOA_keeps [OF bump, folded s_def]
  note spec = write_commit_spec [OF w, unfolded IsZero_iff]
  have g2: "grows (r_storage r1) s2" using apply_staged_grows [of "r_storage r1"] app by (metis fst_conv)
  with keeps(1) have g: "grows s s2" by (rule extends_trans)
  have sub: "hist (r_storage r1) \<subseteq> hist s2" "hist s2 \<subseteq> hist s'" "hist s \<subseteq> hist (r_storage r1)" using g2 spec(1) keeps(1) by (auto simp: extends_def)
  have hl2: "healthy (hist s2)" and hl1: "healthy (hist (r_storage r1))" using healthy_subset hl sub by blast+
  have sv: "single_valued (hist (r_storage r1))" "single_valued (hist s')" using hl hl1 by (simp_all add: healthy_def)
  have root1: "root_ok S sha (r_storage r1) n (TreeOf S s parent)" "zone_of S sha (r_storage r1) (TreeOf S s parent) = zone_of S sha s (TreeOf S s parent)"
    using root_ok_stable [OF root sub(3) sv(1)] zone_of_stable [OF root sub(3) sv(1)] by auto
  have keys: "\<forall>k \<in> set (sortedKeys (r_staging r1)). sk_rrtype k \<noteq> [] \<and> [] \<notin> set (splitFQDN (sk_fqdn k))"
    using keeps(2) [OF ok(1)] by (auto simp: staging_ok_def name_ok_def)
  from apply_staged_zone [OF app root1(1) keys hl2] obtain n' where
    tree: "root_ok S sha s2 n' tree" "zone_of S sha s2 tree = apply_keys (r_staging r1) (sortedKeys (r_staging r1)) (zone_of S sha s (TreeOf S s parent))"
    unfolding root1(2) by blast
  have nz: "\<forall>(k, v) \<in> set (r_staging r1). sv_tombstone v \<or> sv_blob v \<noteq> ZeroHash"
    using keeps(3) ok(2) hl1 unfolding staged_stored_def healthy_def s_def by fastforce
  have "zone_of S sha s' tree = overlay (r_staging r1) (zone_of S sha s (TreeOf S s parent))"
    using zone_of_stable [OF tree(1) sub(2) sv(2)] apply_keys_overlay [OF keeps(2) [OF ok(1)] nz] tree(2) by simp
  moreover have "root_ok S sha s' n' tree" by (rule root_ok_stable [OF tree(1) sub(2) sv(2)])
  moreover have "commit_ok ?c" using id by (simp add: new_commit_def commit_ok_def)
  moreover have "c_Tree ?c = tree" by (simp add: new_commit_def)
  moreover have "ref s2 = ref s" "log s2 = log s" using g by (simp_all add: extends_def)
  ultimately show "\<exists>n' c. root_ok S sha s' n' (c_Tree c) \<and>
      zone_of S sha s' (c_Tree c) =
        overlay (r_staging (fst (maybeBumpSOA S sha D r (TreeOf S s parent)))) (zone_of S sha s (TreeOf S s parent)) \<and>
      c = new_commit (c_Tree c) (if parent = ZeroHash then [] else [parent]) author now msg \<and>
      h = commit_hash sha c \<and> (h, commit_object c) \<in> hist s' \<and> commit_ok c \<and> cas_guard (ref s (BranchRef z b)) parent"
    using spec(1) spec(2) [OF refl] bump by (intro exI [of _ n'] exI [of _ ?c]) simp
  show "ref s' = (ref s)(BranchRef z b \<mapsto> h)"
    "log s' = (log s)(BranchRef z b := log s (BranchRef z b) @ [reflog_entry parent h author rnow ''commit'' msg])"
    using spec(2) [OF refl] \<open>ref s2 = ref s\<close> \<open>log s2 = log s\<close> by (simp_all add: new_commit_def)
  show "hist s \<subseteq> hist s'" "h \<noteq> ZeroHash" "r_staging r' = []" "r_activeZone r' = r_activeZone r"
    using sub spec(2) [OF refl] st keeps(4) by auto
qed

end

section \<open>Staging and reading\<close>

lemma staged_at_update:
  assumes "staging_ok m" and "name_ok (sk_fqdn k)" and "sk_rrtype k \<noteq> []"
  shows "staged_at (AList.update k v m) (splitFQDN (sk_fqdn k)) (sk_rrtype k)
    = Some (if sv_tombstone v then None else Some (sv_blob v))"
proof -
  have ok: "staging_ok (AList.update k v m)" by (rule staging_ok_update [OF assms])
  have "map_of (AList.update k v m) k = Some v" by (simp add: update_conv)
  then have "(k, v) \<in> set (AList.update k v m)" by (rule map_of_SomeD)
  then show ?thesis unfolding staged_at_iff [OF ok] by (auto simp: at_coord_def)
qed

lemma staged_at_map_of:
  assumes "staging_ok m" and "map_of m k = Some v"
  shows "staged_at m (splitFQDN (sk_fqdn k)) (sk_rrtype k) = Some (if sv_tombstone v then None else Some (sv_blob v))"
  unfolding staged_at_iff [OF assms(1)] using map_of_SomeD [OF assms(2)] by (auto simp: at_coord_def)

definition set_key :: "'d DNS \<Rightarrow> string \<Rightarrow> 'd RR \<Rightarrow> stagingKey" where
  "set_key D zone hdr = \<lparr>sk_fqdn = stripZoneSuffix (canonicalName (rr_Name hdr)) zone, sk_rrtype = TypeToString D (rr_Rrtype hdr)\<rparr>"

lemma name_ok_norm [simp]: "name_ok n \<Longrightarrow> splitFQDN (normFQDN n) = splitFQDN n"
  by (simp add: name_ok_def)

context storage
begin

lemma Set_ok:
  assumes "Repo_Set S sha D r rrs = (r1, Inr ())"
  obtains payload where "EncodeRRset D rrs = Inr payload" "rrs \<noteq> []" "r_activeZone r \<noteq> []"
    "hist (r_storage r1) = insert (blob_hash sha payload, blob_object payload) (hist (r_storage r))"
    "ref (r_storage r1) = ref (r_storage r)" "log (r_storage r1) = log (r_storage r)"
    "r_staging r1 = AList.update (set_key D (r_activeZone r) (hd rrs))
       \<lparr>sv_tombstone = False, sv_blob = blob_hash sha payload\<rparr> (r_staging r)"
    "r_activeZone r1 = r_activeZone r"
proof -
  obtain hdr tl where rrs: "rrs = hdr # tl" using assms by (cases rrs) (auto simp: Repo_Set_def)
  then obtain payload where p: "EncodeRRset D rrs = Inr payload"
    using assms by (auto simp: Repo_Set_def split: if_splits sum.splits)
  obtain s1 where s1: "PutObject S (r_storage r) (blob_hash sha payload) (blob_object payload) = (s1, Inr ())"
    "hist s1 = insert (blob_hash sha payload, blob_object payload) (hist (r_storage r))"
    "ref s1 = ref (r_storage r)" "log s1 = log (r_storage r)"
    using PutObject_done by blast
  have "r_activeZone r \<noteq> []" using assms by (auto simp: Repo_Set_def rrs split: if_splits)
  moreover from this have "r1 = r\<lparr>r_storage := s1, r_staging := AList.update (set_key D (r_activeZone r) hdr)
       \<lparr>sv_tombstone = False, sv_blob = blob_hash sha payload\<rparr> (r_staging r)\<rparr>"
    using assms p s1(1) by (simp add: Repo_Set_def rrs Blob_Encode_parts Let_def set_key_def canonicalName_def)
  ultimately show thesis using that [OF p] s1 rrs by simp
qed

lemma Set_keeps:
  assumes "Repo_Set S sha D r rrs = (r1, Inr ())"
  shows "staging_ok (r_staging r) \<Longrightarrow> name_ok (sk_fqdn (set_key D (r_activeZone r) (hd rrs))) \<Longrightarrow>
      TypeToString D (rr_Rrtype (hd rrs)) \<noteq> [] \<Longrightarrow> staging_ok (r_staging r1)"
    and "staged_stored (r_staging r) (hist (r_storage r)) \<Longrightarrow> staged_stored (r_staging r1) (hist (r_storage r1))"
  by (rule Set_ok [OF assms]; simp add: staging_ok_update set_key_def)
    (rule Set_ok [OF assms]; auto intro!: staged_stored_update)

lemma Commit_fail:
  assumes "Repo_Commit S sha D now rnow r author msg = (r', Inl e)"
  shows "grows (r_storage r) (r_storage r') \<and> r_activeZone r' = r_activeZone r \<and>
    (\<forall>k \<in> fst ` set (r_staging r). map_of (r_staging r') k = map_of (r_staging r) k) \<and>
    (\<forall>k. k \<notin> insert soa_key (fst ` set (r_staging r)) \<longrightarrow> map_of (r_staging r') k = None)"
proof (cases "r' = r")
  case True
  then show ?thesis by (auto simp: map_of_eq_None_iff)
next
  case False
  obtain z b parent pt where "ReadHEAD S (r_storage r) = Inr (z, b, parent)" "parent_tree S (r_storage r) parent = Inr pt"
    using assms False by (auto simp: Repo_Commit_def split: if_splits sum.splits)
  moreover obtain r1 res where bump: "maybeBumpSOA S sha D r pt = (r1, res)" by (metis surj_pair)
  moreover obtain s2 q where app: "apply_staged S sha (r_staging r1) (sortedKeys (r_staging r1)) (r_storage r1) pt = (s2, q)"
    by (metis surj_pair)
  ultimately have r': "r_staging r' = r_staging r1 \<and> r_activeZone r' = r_activeZone r1 \<and> grows (r_storage r1) (r_storage r')"
  proof -
    have g2: "grows (r_storage r1) s2" using apply_staged_grows [of "r_storage r1"] app by (metis fst_conv)
    have w: "grows (r_storage r1) s3" if "write_commit S sha s2 rnow z b p c op = (s3, Inl e)" for p c op s3
      using write_commit_spec(1,3) [OF that] g2 by (auto simp: extends_def)
    show ?thesis
      using assms \<open>ReadHEAD S (r_storage r) = Inr (z, b, parent)\<close> \<open>parent_tree S (r_storage r) parent = Inr pt\<close> bump app False g2
      by (auto simp: Repo_Commit_def split: if_splits sum.splits prod.splits intro: extends_trans dest: w)
  qed
  have "\<forall>k. k \<notin> insert soa_key (fst ` set (r_staging r)) \<longrightarrow> map_of (r_staging r1) k = None"
    unfolding map_of_eq_None_iff using maybeBumpSOA_cases [OF bump] by (auto dest!: set_update_subset [THEN subsetD] simp: rev_image_eqI)
  with r' maybeBumpSOA_keeps(1,4) [OF bump] maybeBumpSOA_staged [OF bump] show ?thesis
    by (auto intro: extends_trans)
qed

lemma WalkTree_zone_of:
  assumes "root_ok S sha s n h" and "ZeroHash \<notin> Domain (hist s)"
  shows "WalkTree S sha s h p rt = (case zone_of S sha s h p rt of None \<Rightarrow> Inl ErrNotFound | Some b \<Rightarrow> Inr b)"
proof (cases "h = ZeroHash")
  case True
  have "LoadTree S sha s ZeroHash = Inl ErrNotFound" using assms(2) by (simp add: LoadTree_def get_absent)
  with True show ?thesis by (cases p) (simp_all add: WalkTree_def zone_of_def)
next
  case False
  with assms(1) show ?thesis by (simp add: root_ok_def zone_of_def WalkTree_total)
qed

lemma Lookup_spec:
  assumes "commit \<noteq> ZeroHash" and "GetObject S (r_storage r) commit = Inr obj" and "DecodeCommit (obj_Payload obj) = Inr c"
    and "root_ok S sha (r_storage r) n (c_Tree c)" and "ZeroHash \<notin> Domain (hist (r_storage r))"
  shows "Repo_Lookup S sha D r commit fqdn rrtype =
    (case zone_of S sha (r_storage r) (c_Tree c) (splitFQDN (normFQDN fqdn)) (ToUpper rrtype) of
       None \<Rightarrow> Inl ErrNotFound
     | Some bh \<Rightarrow> (case GetObject S (r_storage r) bh of Inl e \<Rightarrow> Inl e | Inr bobj \<Rightarrow> DecodeRRset D (obj_Payload bobj)))"
  using assms WalkTree_zone_of [OF assms(4,5)] by (simp add: Repo_Lookup_def Let_def split: option.splits)

end

context storage
begin

lemma Lookup_after_commit:
  fixes r r' :: "'s Repo"
  defines "s \<equiv> r_storage r" and "s' \<equiv> r_storage r'"
  assumes run: "Repo_Commit S sha D now rnow r author msg = (r', Inr h)" and hl: "healthy (hist s')"
    and head: "ReadHEAD S s = Inr (z, b, parent)"
    and ok: "staging_ok (r_staging r)" "staged_stored (r_staging r) (hist s)"
    and root: "root_ok S sha s n (TreeOf S s parent)" and id: "identity_ok author" "time_ok now"
    and p: "splitFQDN (normFQDN fqdn) = p" "ToUpper rrtype = t"
    and at: "overlay (r_staging (fst (maybeBumpSOA S sha D r (TreeOf S s parent)))) (zone_of S sha s (TreeOf S s parent)) p t
      = Some (blob_hash sha payload)"
    and mem: "(blob_hash sha payload, blob_object payload) \<in> hist s'"
  shows "Repo_Lookup S sha D r' h fqdn rrtype = DecodeRRset D payload"
proof -
  note spec = Commit_spec [OF run hl [unfolded s'_def] head [unfolded s_def] ok [unfolded s_def] root [unfolded s_def] id, folded s_def s'_def]
  from spec(1) obtain n' c where c: "root_ok S sha s' n' (c_Tree c)" "zone_of S sha s' (c_Tree c) p t = Some (blob_hash sha payload)"
    "h = commit_hash sha c" "(h, commit_object c) \<in> hist s'" "commit_ok c"
    using at by auto
  have zero: "ZeroHash \<notin> Domain (hist s')" using hl by (simp add: healthy_def)
  note com = TreeOf_commit [OF c(4) [unfolded c(3)] hl c(5), folded c(3)]
  have "GetObject S s' (blob_hash sha payload) = Inr (blob_object payload)"
    using mem hl get_present by (simp add: healthy_def)
  with Lookup_spec [OF spec(5) com(2,3) [unfolded s'_def], of sha n' D fqdn rrtype] c(1,2) zero show ?thesis
    by (simp add: s'_def p norm_commit_def blob_object_def)
qed

lemma maybeBumpSOA_done:
  assumes "maybeBumpSOA S sha D r t = (r1, Inr ())" and "soa_key \<notin> fst ` set (r_staging r)" and "r_staging r \<noteq> []"
    and "root_ok S sha (r_storage r) n t" and "healthy (hist (r_storage r))"
    and "zone_of S sha (r_storage r) t [] ''SOA'' = Some bh" and "GetObject S (r_storage r) bh = Inr obj"
    and "DecodeRRset D (obj_Payload obj) = Inr soa" and "BumpSOASerial D soa = Inr bumped"
  shows "\<exists>payload. EncodeRRset D (rs_RRs bumped) = Inr payload \<and> map_of (r_staging r1) soa_key =
      Some \<lparr>sv_tombstone = False, sv_blob = blob_hash sha payload\<rparr> \<and>
    (blob_hash sha payload, blob_object payload) \<in> hist (r_storage r1)"
proof -
  have "t \<noteq> ZeroHash" using assms(6) by (auto simp: zone_of_def)
  moreover have "WalkTree S sha (r_storage r) t [] ''SOA'' = Inr bh"
    using WalkTree_zone_of [OF assms(4), of "[]" "''SOA''"] assms(5,6) by (simp add: healthy_def)
  moreover obtain payload where p: "EncodeRRset D (rs_RRs bumped) = Inr payload"
    using assms calculation by (auto simp: maybeBumpSOA_def split: sum.splits)
  moreover obtain s1 where "PutObject S (r_storage r) (blob_hash sha payload) (blob_object payload) = (s1, Inr ())"
    "hist s1 = insert (blob_hash sha payload, blob_object payload) (hist (r_storage r))"
    using PutObject_done by blast
  ultimately show ?thesis
    using assms by (auto simp: maybeBumpSOA_def Blob_Encode_parts update_conv)
qed

end

lemma overlay_staged:
  "staging_ok m \<Longrightarrow> map_of m k = Some v \<Longrightarrow> p = splitFQDN (sk_fqdn k) \<Longrightarrow> t = sk_rrtype k \<Longrightarrow>
    overlay m z p t = (if sv_tombstone v then None else Some (sv_blob v))"
  by (simp add: overlay_def staged_at_map_of)

lemma soa_key_coord: "[] = splitFQDN (sk_fqdn soa_key)" "''SOA'' = sk_rrtype soa_key"
  by (simp_all add: soa_key_def normFQDN_def splitFQDN_def ToLower_def TrimSuffix_def)

lemma ToUpper_SOA [simp]: "ToUpper ''SOA'' = ''SOA''"
  by code_simp

lemma normFQDN_Nil [simp]: "normFQDN [] = []" "splitFQDN [] = []"
  by (simp_all add: normFQDN_def splitFQDN_def ToLower_def TrimSuffix_def)

context storage
begin

lemma set_commit_lookup_lemma:
  assumes set: "Repo_Set S sha D r rrs = (r1, Inr ())"
    and run: "Repo_Commit S sha D now rnow r1 author msg = (r2, Inr h)" and hl: "healthy (hist (r_storage r2))"
    and head: "ReadHEAD S (r_storage r1) = Inr (z, b, parent)"
    and ok: "staging_ok (r_staging r)" "staged_stored (r_staging r) (hist (r_storage r))"
    and root: "root_ok S sha (r_storage r1) n (TreeOf S (r_storage r1) parent)" and id: "identity_ok author" "time_ok now"
    and owner: "canonicalName (rr_Name (hd rrs)) = (if fqdn = [] then r_activeZone r else fqdn @ ''.'' @ r_activeZone r)"
    and name: "name_ok fqdn" and ty: "TypeToString D (rr_Rrtype (hd rrs)) = ty" "ty \<noteq> []" "ToUpper ty = ty"
  shows "\<exists>payload. EncodeRRset D rrs = Inr payload \<and> Repo_Lookup S sha D r2 h fqdn ty = DecodeRRset D payload"
  using set
proof (rule Set_ok)
  fix payload
  assume p: "EncodeRRset D rrs = Inr payload"
    and h1: "hist (r_storage r1) = insert (blob_hash sha payload, blob_object payload) (hist (r_storage r))"
    and st: "r_staging r1 = AList.update (set_key D (r_activeZone r) (hd rrs))
      \<lparr>sv_tombstone = False, sv_blob = blob_hash sha payload\<rparr> (r_staging r)"
  let ?k = "set_key D (r_activeZone r) (hd rrs)"
  let ?v = "\<lparr>sv_tombstone = False, sv_blob = blob_hash sha payload\<rparr>"
  have k: "?k = \<lparr>sk_fqdn = fqdn, sk_rrtype = ty\<rparr>"
    using stripZoneSuffix_sub [of fqdn "r_activeZone r"] by (simp add: set_key_def owner ty)
  have ok1: "staging_ok (r_staging r1)" "staged_stored (r_staging r1) (hist (r_storage r1))"
    using Set_keeps [OF set] ok name ty by (simp_all add: k)
  obtain r1' res where bump: "maybeBumpSOA S sha D r1 (TreeOf S (r_storage r1) parent) = (r1', res)" by (metis surj_pair)
  have "map_of (r_staging r1) ?k = Some ?v" by (simp add: st update_conv)
  moreover from this have "?k \<in> fst ` set (r_staging r1)" by (metis fst_conv image_eqI map_of_SomeD)
  ultimately have "map_of (r_staging r1') ?k = Some ?v" using maybeBumpSOA_staged [OF bump] by simp
  from overlay_staged [OF maybeBumpSOA_keeps(2) [OF bump ok1(1)] this refl refl]
  have at: "overlay (r_staging (fst (maybeBumpSOA S sha D r1 (TreeOf S (r_storage r1) parent)))) zm (splitFQDN fqdn) ty
      = Some (blob_hash sha payload)" for zm
    by (simp add: bump k)
  have mem: "(blob_hash sha payload, blob_object payload) \<in> hist (r_storage r2)"
    using Commit_spec(4) [OF run hl head ok1 root id] h1 by auto
  have "splitFQDN (normFQDN fqdn) = splitFQDN fqdn" using name by simp
  from Lookup_after_commit [OF run hl head ok1 root id this ty(3) at mem] p show ?thesis by blast
qed

lemma commit_bumps_soa_lemma:
  assumes run: "Repo_Commit S sha D now rnow r author msg = (r', Inr h)" and hl: "healthy (hist (r_storage r'))"
    and head: "ReadHEAD S (r_storage r) = Inr (z, b, parent)"
    and ok: "staging_ok (r_staging r)" "staged_stored (r_staging r) (hist (r_storage r))"
    and root: "root_ok S sha (r_storage r) n (TreeOf S (r_storage r) parent)" and id: "identity_ok author" "time_ok now"
    and no: "soa_key \<notin> fst ` set (r_staging r)"
    and soa: "Repo_Lookup S sha D r parent [] ''SOA'' = Inr soa" and bump: "BumpSOASerial D soa = Inr bumped"
    and zero: "parent \<noteq> ZeroHash"
  shows "\<exists>payload. EncodeRRset D (rs_RRs bumped) = Inr payload \<and> Repo_Lookup S sha D r' h [] ''SOA'' = DecodeRRset D payload"
proof -
  let ?t = "TreeOf S (r_storage r) parent"
  obtain r1 s2 tree where b: "maybeBumpSOA S sha D r ?t = (r1, Inr ())"
    and app: "apply_staged S sha (r_staging r1) (sortedKeys (r_staging r1)) (r_storage r1) ?t = (s2, Inr tree)"
    and w: "write_commit S sha s2 rnow z b parent (new_commit tree (if IsZero parent then [] else [parent]) author now msg) ''commit''
      = (r_storage r', Inr h)"
    using Commit_runs [OF run head] by metis
  have g2: "hist (r_storage r1) \<subseteq> hist (r_storage r')"
    using apply_staged_grows [of "r_storage r1" sha "r_staging r1" "sortedKeys (r_staging r1)" ?t] app write_commit_spec(1) [OF w]
    by (auto simp: extends_def)
  note sub = Commit_spec(4) [OF run hl head ok root id]
  have hs: "healthy (hist (r_storage r))" using healthy_subset [OF hl sub] .
  obtain bh obj where bh: "zone_of S sha (r_storage r) ?t [] ''SOA'' = Some bh" "GetObject S (r_storage r) bh = Inr obj"
    "DecodeRRset D (obj_Payload obj) = Inr soa"
  proof -
    obtain cobj c where c: "GetObject S (r_storage r) parent = Inr cobj" "DecodeCommit (obj_Payload cobj) = Inr c"
      using soa zero by (auto simp: Repo_Lookup_def Let_def split: sum.splits)
    then have t: "?t = c_Tree c" using zero by (simp add: TreeOf_def)
    have "ZeroHash \<notin> Domain (hist (r_storage r))" using hs by (simp add: healthy_def)
    from Lookup_spec [OF zero c root [unfolded t] this, of D "[]" "''SOA''"] soa that show thesis
      by (auto simp: t split: option.splits sum.splits)
  qed
  have ne: "r_staging r \<noteq> []" using run by (auto simp: Repo_Commit_def)
  from maybeBumpSOA_done [OF b no ne root hs bh bump] obtain payload where
    p: "EncodeRRset D (rs_RRs bumped) = Inr payload" "map_of (r_staging r1) soa_key = Some \<lparr>sv_tombstone = False, sv_blob = blob_hash sha payload\<rparr>"
    "(blob_hash sha payload, blob_object payload) \<in> hist (r_storage r1)" by blast
  have at: "overlay (r_staging (fst (maybeBumpSOA S sha D r ?t))) (zone_of S sha (r_storage r) ?t) [] ''SOA'' = Some (blob_hash sha payload)"
    using overlay_staged [OF maybeBumpSOA_keeps(2) [OF b ok(1)] p(2) soa_key_coord(1,2)] by (simp add: b)
  have mem: "(blob_hash sha payload, blob_object payload) \<in> hist (r_storage r')" using p(3) g2 by blast
  from Lookup_after_commit [OF run hl head ok root id _ ToUpper_SOA at mem, of "[]"] p(1) show ?thesis by simp
qed

end

section \<open>Commit succeeds\<close>

lemma LastIndexByte_SomeD: "LastIndexByte s c = Some i \<Longrightarrow> s = take i s @ c # drop (Suc i) s"
  by (induction s arbitrary: i) (auto split: option.splits if_splits)

lemma parseBranchTargetD:
  assumes "parseBranchTarget t = Some (z, b)"
  shows "t = BranchPrefix @ z @ ''/'' @ b"
proof -
  let ?rest = "drop (length BranchPrefix) t"
  obtain i where i: "LastIndexByte ?rest (CHR ''/'') = Some i" "z = take i ?rest" "b = drop (Suc i) ?rest"
    and pre: "HasPrefix t BranchPrefix"
    using assms by (auto simp: parseBranchTarget_def Let_def split: if_splits option.splits)
  have "t = BranchPrefix @ ?rest" using pre by (auto simp: HasPrefix_def prefix_def)
  also have "?rest = z @ CHR ''/'' # b" using LastIndexByte_SomeD [OF i(1)] i(2,3) by simp
  finally show ?thesis by simp
qed

definition staged_short :: "staging_area \<Rightarrow> bool" where
  "staged_short m \<longleftrightarrow> (\<forall>k \<in> fst ` set m. length (sk_rrtype k) \<le> 255 \<and> (\<forall>l \<in> set (splitFQDN (sk_fqdn k)). length l \<le> 255))"

lemma staged_short_update:
  assumes "staged_short m" and "length (sk_rrtype k) \<le> 255" and "\<forall>l \<in> set (splitFQDN (sk_fqdn k)). length l \<le> 255"
  shows "staged_short (AList.update k v m)"
proof -
  have "fst ` set (AList.update k v m) \<subseteq> insert k (fst ` set m)" using set_update_subset [of k v m] by force
  with assms show ?thesis unfolding staged_short_def by blast
qed

context storage
begin

lemma ReadHEAD_branch:
  assumes "ReadHEAD S s = Inr (z, b, c)" and "CanonZone z = z"
  shows "c = (case ref s (BranchRef z b) of None \<Rightarrow> ZeroHash | Some h \<Rightarrow> h)"
proof -
  obtain t where t: "parseBranchTarget t = Some (z, b)" "c = (case ref s t of None \<Rightarrow> ZeroHash | Some h \<Rightarrow> h)"
    using assms(1) by (auto simp: ReadHEAD_def get_ref split: sum.splits option.splits)
  have "t = BranchRef z b" using parseBranchTargetD [OF t(1)] assms(2) by (simp add: BranchRef_def)
  with t(2) show ?thesis by simp
qed

lemma apply_staged_total:
  assumes "root_ok S sha s n tree" and "healthy (hist (fst (apply_staged S sha m ks s tree)))"
    and "\<forall>k \<in> set ks. sk_rrtype k \<noteq> [] \<and> length (sk_rrtype k) \<le> 255 \<and> (\<forall>l \<in> set (splitFQDN (sk_fqdn k)). l \<noteq> [] \<and> length l \<le> 255)"
  shows "\<exists>s' t. apply_staged S sha m ks s tree = (s', Inr t)"
  using assms
proof (induction ks arbitrary: s tree n)
  case (Cons k ks)
  let ?p = "splitFQDN (sk_fqdn k)"
  have "tree = ZeroHash \<or> tree_ok S sha s (Suc n) tree"
    using Cons.prems(1) tree_ok_mono [of S sha s n tree "Suc n"] by (auto simp: root_ok_def)
  then obtain s1 t1 where u: "UpdateTree S sha s tree ?p (sk_rrtype k) (staged_leaf m k) = (s1, Inr t1)"
    using UpdateTree_total [of tree sha s n "sk_rrtype k" ?p "staged_leaf m k"] Cons.prems(3) by auto
  then have run: "apply_staged S sha m (k # ks) s tree = apply_staged S sha m ks s1 t1" by simp
  have hl: "healthy (hist (fst (apply_staged S sha m ks s1 t1)))" using Cons.prems(2) run by simp
  have "hist s1 \<subseteq> hist (fst (apply_staged S sha m ks s1 t1))"
    using apply_staged_grows [of s1] by (simp add: extends_def)
  then have "healthy (hist s1)" using hl healthy_subset by blast
  then have "root_ok S sha s1 (Suc (n + length ?p)) t1"
    using UpdateTree_zone [OF u Cons.prems(1)] Cons.prems(3) by auto
  from Cons.IH [OF this hl] Cons.prems(3) show ?case unfolding run by simp
qed simp

lemma Commit_total:
  assumes run: "Repo_Commit S sha D now rnow r author msg = (r', res)" and hl: "healthy (hist (r_storage r'))"
    and ne: "r_staging r \<noteq> []" and head: "ReadHEAD S (r_storage r) = Inr (z, b, parent)" and canon: "CanonZone z = z"
    and pt: "parent_tree S (r_storage r) parent = Inr t" and root: "root_ok S sha (r_storage r) n t"
    and ok: "staging_ok (r_staging r)" "staged_short (r_staging r)" and bump: "snd (maybeBumpSOA S sha D r t) = Inr ()"
  shows "\<exists>h. res = Inr h"
proof -
  let ?c = "\<lambda>tree. new_commit tree (if IsZero parent then [] else [parent]) author now msg"
  obtain r1 where b1: "maybeBumpSOA S sha D r t = (r1, Inr ())" using bump by (metis prod.collapse)
  obtain s2 q where app: "apply_staged S sha (r_staging r1) (sortedKeys (r_staging r1)) (r_storage r1) t = (s2, q)"
    by (metis surj_pair)
  have tail: "(r', res) = (case q of Inl e \<Rightarrow> (r1\<lparr>r_storage := s2\<rparr>, Inl e)
    | Inr tree \<Rightarrow> (case write_commit S sha s2 rnow z b parent (?c tree) ''commit'' of
        (s3, Inl e) \<Rightarrow> (r1\<lparr>r_storage := s3\<rparr>, Inl e)
      | (s3, Inr h) \<Rightarrow> (r1\<lparr>r_storage := s3, r_staging := []\<rparr>, Inr h)))"
    unfolding run [symmetric] Repo_Commit_def head pt b1 app sum.case prod.case using ne by (simp only: if_False)
  have "hist s2 \<subseteq> hist (r_storage r')"
  proof (cases q)
    case (Inr tree)
    obtain s3 p where w: "write_commit S sha s2 rnow z b parent (?c tree) ''commit'' = (s3, p)" by (metis surj_pair)
    then have "r_storage r' = s3" using tail Inr by (cases p) auto
    with write_commit_spec(1) [OF w] show ?thesis by auto
  qed (use tail in auto)
  then have hl2: "healthy (hist s2)" using hl healthy_subset by blast
  note keeps = maybeBumpSOA_keeps [OF b1]
  have g2: "grows (r_storage r1) s2" using apply_staged_grows [of "r_storage r1"] app by (metis fst_conv)
  have sv: "single_valued (hist (r_storage r1))" using healthy_subset [OF hl2] g2 by (auto simp: extends_def healthy_def intro: single_valued_subset)
  have root1: "root_ok S sha (r_storage r1) n t"
    using root_ok_stable [OF root _ sv] keeps(1) by (simp add: extends_def)
  have "staged_short (r_staging r1)"
    using maybeBumpSOA_cases [OF b1] ok(2) by (auto simp: soa_key_coord [symmetric] intro!: staged_short_update)
  then have "\<forall>k \<in> set (sortedKeys (r_staging r1)). sk_rrtype k \<noteq> [] \<and> length (sk_rrtype k) \<le> 255 \<and>
      (\<forall>l \<in> set (splitFQDN (sk_fqdn k)). l \<noteq> [] \<and> length l \<le> 255)"
    using keeps(2) [OF ok(1)] by (auto simp: staging_ok_def name_ok_def staged_short_def)
  from apply_staged_total [OF root1 _ this, of "r_staging r1"] hl2 app obtain tree where q: "q = Inr tree" by auto
  obtain s3 p where w: "write_commit S sha s2 rnow z b parent (?c tree) ''commit'' = (s3, p)" by (metis surj_pair)
  have "r_storage r' = s3" using tail q w by (cases p) auto
  then have "(commit_hash sha (?c tree), commit_object (?c tree)) \<in> hist (r_storage r')" using write_commit_spec(1) [OF w] by simp
  then have nz: "commit_hash sha (?c tree) \<noteq> ZeroHash" using hl by (auto simp: healthy_def)
  have "ref s2 = ref (r_storage r)" using g2 keeps(1) by (simp add: extends_def)
  then have "cas_guard (ref s2 (BranchRef z b)) parent"
    using ReadHEAD_branch [OF head canon] by (auto simp: cas_guard_def split: option.splits)
  from write_commit_spec(4) [OF w nz this] tail q w show ?thesis by auto
qed

end

section \<open>A sample repository\<close>

text \<open>
  One zone \<open>a.\<close> with one commit, whose tree holds a SOA with serial 5; an A record of the
  apex is then staged and committed, which bumps the serial to 6.  The hashes are those
  of the sample hash function.
\<close>

definition sample_now :: Time where "sample_now = \<lparr>t_Unix = 9, t_Nsec = 0, t_Offset = 0\<rparr>"

definition sample_a_rr :: "bytes RR" where
  "sample_a_rr = \<lparr>rr_Name = ''A'', rr_Rrtype = 1, rr_Class = 1, rr_Ttl = 7, rr_Data = [9]\<rparr>"

definition sample_soa_rr :: "byte \<Rightarrow> bytes RR" where
  "sample_soa_rr n = \<lparr>rr_Name = ''a.'', rr_Rrtype = 6, rr_Class = 1, rr_Ttl = 7, rr_Data = [0, 0, 0, n]\<rparr>"

definition sample_a_blob :: bytes where
  "sample_a_blob = [1, 2, 97, 46, 0, 1, 0, 1, 0, 0, 0, 7, 0, 1, 0, 1, 9]"

definition sample_soa_blob :: "byte \<Rightarrow> bytes" where
  "sample_soa_blob n = [1, 2, 97, 46, 0, 1, 0, 6, 0, 0, 0, 7, 0, 1, 0, 4, 0, 0, 0, n]"

definition sample_t0 :: Tree where
  "sample_t0 = \<lparr>Entries = [\<lparr>te_Kind = EntryLeaf, te_Name = ''SOA'', te_Hash = 257265\<rparr>]\<rparr>"

definition sample_t :: "Hash \<Rightarrow> Tree" where
  "sample_t soa = \<lparr>Entries = [\<lparr>te_Kind = EntryLeaf, te_Name = ''A'', te_Hash = 210845\<rparr>, \<lparr>te_Kind = EntryLeaf, te_Name = ''SOA'', te_Hash = soa\<rparr>]\<rparr>"

definition sample_rc1 :: Commit where
  "sample_rc1 = new_commit 182924 [] sample_id sample_now ''one''"

definition sample_rc2 :: Commit where
  "sample_rc2 = new_commit 949071 [791820] sample_id sample_now ''two''"

abbreviation tree_object :: "Tree \<Rightarrow> Object" where
  "tree_object t \<equiv> \<lparr>obj_Kind = KindTree, obj_Payload = tree_payload t\<rparr>"

definition sample_objects :: "(Hash \<times> Object) list" where
  "sample_objects = [(67250, commit_object sample_rc2), (949071, tree_object (sample_t 257266)), (949070, tree_object (sample_t 257265)),
     (257266, blob_object (sample_soa_blob 6)), (210845, blob_object sample_a_blob),
     (791820, commit_object sample_rc1), (182924, tree_object sample_t0), (257265, blob_object (sample_soa_blob 5)),
     (942893, \<lparr>obj_Kind = KindSymref, obj_Payload = bytes_of ''refs/heads/a./main''\<rparr>)]"

text \<open>The store after the last \<open>n\<close> of these objects have been written.\<close>

definition sample_store :: "nat \<Rightarrow> MemStore" where
  "sample_store n = \<lparr>ms_objects = drop (9 - n) sample_objects,
     ms_refs = [(''refs/heads/a./main'', 791820), (''HEAD'', 942893)], ms_reflog = (\<lambda>_. [])\<rparr>"

definition sample_repo :: "MemStore Repo" where
  "sample_repo = \<lparr>r_storage = sample_store 4, r_staging = [], r_activeZone = ''a.''\<rparr>"

definition sample_staged :: "MemStore Repo" where
  "sample_staged = \<lparr>r_storage = sample_store 5,
     r_staging = [(\<lparr>sk_fqdn = [], sk_rrtype = ''A''\<rparr>, \<lparr>sv_tombstone = False, sv_blob = 210845\<rparr>)], r_activeZone = ''a.''\<rparr>"

definition sample_bumped :: "MemStore Repo" where
  "sample_bumped = sample_staged\<lparr>r_storage := sample_store 6,
     r_staging := r_staging sample_staged @ [(soa_key, \<lparr>sv_tombstone = False, sv_blob = 257266\<rparr>)]\<rparr>"

definition sample_committed :: "MemStore Repo" where
  "sample_committed = sample_bumped\<lparr>r_storage := fst (advance_branch memstore (sample_store 9) 9 ''a.'' ''main'' 791820 67250 sample_id ''commit'' ''two''),
     r_staging := []\<rparr>"

lemma sample_hashes:
  "blob_hash sample_sha sample_a_blob = 210845 \<and> blob_hash sample_sha (sample_soa_blob 6) = 257266 \<and>
   HashOf sample_sha KindTree (tree_payload sample_t0) = 182924 \<and>
   HashOf sample_sha KindTree (tree_payload (sample_t 257265)) = 949070 \<and>
   HashOf sample_sha KindTree (tree_payload (sample_t 257266)) = 949071 \<and>
   commit_hash sample_sha sample_rc1 = 791820 \<and> commit_hash sample_sha sample_rc2 = 67250 \<and>
   list_all (\<lambda>(h, obj). int (length (obj_Payload obj)) < 1000) sample_objects"
  by code_simp

lemma sample_rrsets:
  "EncodeRRset sample_dns [sample_a_rr] = Inr sample_a_blob \<and> EncodeRRset sample_dns [sample_soa_rr 6] = Inr (sample_soa_blob 6) \<and>
   DecodeRRset sample_dns (sample_soa_blob 5) = Inr \<lparr>rs_Key = \<lparr>k_Name = ''a.'', k_Class = 1, k_Type = 6\<rparr>, rs_TTL = 7, rs_RRs = [sample_soa_rr 5]\<rparr> \<and>
   canonicalName ''A'' = ''a.'' \<and> canonicalName ''a.'' = ''a.'' \<and> identity_ok sample_id \<and> time_ok sample_now \<and> CanonZone ''a.'' = ''a.'' \<and>
   be32 6 = [0, 0, 0, 6] \<and> ToUpper ''A'' = ''A''"
  by code_simp


lemma healthy_list:
  "distinct (map fst xs) \<Longrightarrow> ZeroHash \<notin> fst ` set xs \<Longrightarrow> \<forall>(h, obj) \<in> set xs. length (obj_Payload obj) < 2 ^ 47 \<Longrightarrow> healthy (set xs)"
  unfolding healthy_def single_valued_def by (auto simp: Domain_fst dest: eq_key_imp_eq_value)

lemma sample_healthy: "healthy (mem_hist (sample_store n))"
proof -
  have "\<forall>(h, obj) \<in> set sample_objects. length (obj_Payload obj) < 2 ^ 47"
    using sample_hashes unfolding list_all_iff by fastforce
  then have "healthy (set sample_objects)" by (rule healthy_list [rotated 2]) (simp_all add: sample_objects_def)
  then show ?thesis by (rule healthy_subset) (auto simp: mem_hist_def sample_store_def dest: in_set_dropD)
qed

lemma sample_puts:
  "PutObject memstore (sample_store 4) 210845 (blob_object sample_a_blob) = (sample_store 5, Inr ())"
  "PutObject memstore (sample_store 5) 257266 (blob_object (sample_soa_blob 6)) = (sample_store 6, Inr ())"
  "PutObject memstore (sample_store 6) 949070 (tree_object (sample_t 257265)) = (sample_store 7, Inr ())"
  "PutObject memstore (sample_store 7) 949071 (tree_object (sample_t 257266)) = (sample_store 8, Inr ())"
  "PutObject memstore (sample_store 8) 67250 (commit_object sample_rc2) = (sample_store 9, Inr ())"
  by (simp_all add: memstore_defs sample_store_def sample_objects_def)

lemma sample_gets:
  "GetObject memstore (sample_store 5) 791820 = Inr (commit_object sample_rc1)"
  "GetObject memstore (sample_store 5) 257265 = Inr (blob_object (sample_soa_blob 5))"
  by (simp_all add: memstore_defs sample_store_def sample_objects_def)

lemma PutTree_eval:
  assumes "\<forall>e \<in> set (Entries t). storable e \<and> te_Name e \<noteq> []" and "HashOf sha KindTree (tree_payload t) = h"
    and "PutObject S s h (tree_object t) = (s', Inr ())"
  shows "PutTree S sha s t = (s', Inr h)"
proof -
  have "validate_entries (Entries t) = Inr ()" using assms(1) by (simp add: validate_entries_iff)
  with assms(2,3) show ?thesis by (simp add: PutTree_def Tree_Encode_def Encode_def)
qed

context storage
begin

lemma LoadTree_eval:
  assumes "\<forall>e \<in> set (Entries t). storable e \<and> te_Name e \<noteq> []" and "HashOf sha KindTree (tree_payload t) = h"
    and "(h, tree_object t) \<in> hist s" and "healthy (hist s)" and "canonical t"
  shows "LoadTree S sha s h = Inr t"
proof -
  obtain s1 where s1: "PutObject S s h (tree_object t) = (s1, Inr ())" "hist s1 = insert (h, tree_object t) (hist s)"
    using PutObject_done by blast
  then have "hist s1 \<subseteq> hist s" using assms(3) by auto
  from LoadTree_PutTree(1) [OF PutTree_eval [OF assms(1,2) s1(1)] assms(5) this assms(4)] show ?thesis .
qed

end

lemma UpdateTree_root:
  "LoadTree S sha s root = Inr t \<Longrightarrow> root \<noteq> ZeroHash \<Longrightarrow> UpdateTree S sha s root [] rt h = PutTree S sha s (setLeaf t rt h)"
  by (simp add: UpdateTree_def)

lemma sample_trees:
  "canonical sample_t0" "canonical (sample_t h)"
  "\<forall>e \<in> set (Entries sample_t0). storable e \<and> te_Name e \<noteq> []" "\<forall>e \<in> set (Entries (sample_t h)). storable e \<and> te_Name e \<noteq> []"
  "setLeaf sample_t0 ''A'' 210845 = sample_t 257265" "setLeaf (sample_t 257265) ''SOA'' 257266 = sample_t 257266"
  by code_simp+

lemma sample_tree_put:
  "PutTree memstore sample_sha (sample_store 6) (sample_t 257265) = (sample_store 7, Inr 949070)"
  "PutTree memstore sample_sha (sample_store 7) (sample_t 257266) = (sample_store 8, Inr 949071)"
  using sample_hashes sample_puts(3,4) sample_trees(4) by (auto intro!: PutTree_eval)

lemma sample_tree_load:
  "LoadTree memstore sample_sha (sample_store 5) 182924 = Inr sample_t0"
  "LoadTree memstore sample_sha (sample_store 6) 182924 = Inr sample_t0"
  "LoadTree memstore sample_sha (sample_store 7) 949070 = Inr (sample_t 257265)"
proof -
  have mem: "(182924, tree_object sample_t0) \<in> mem_hist (sample_store 5)" "(182924, tree_object sample_t0) \<in> mem_hist (sample_store 6)"
    "(949070, tree_object (sample_t 257265)) \<in> mem_hist (sample_store 7)"
    by (simp_all add: mem_hist_def sample_store_def sample_objects_def)
  have h: "HashOf sample_sha KindTree (tree_payload sample_t0) = 182924"
    "HashOf sample_sha KindTree (tree_payload (sample_t 257265)) = 949070" using sample_hashes by auto
  show "LoadTree memstore sample_sha (sample_store 5) 182924 = Inr sample_t0"
    by (rule mem.LoadTree_eval [OF sample_trees(3) h(1) mem(1) sample_healthy sample_trees(1)])
  show "LoadTree memstore sample_sha (sample_store 6) 182924 = Inr sample_t0"
    by (rule mem.LoadTree_eval [OF sample_trees(3) h(1) mem(2) sample_healthy sample_trees(1)])
  show "LoadTree memstore sample_sha (sample_store 7) 949070 = Inr (sample_t 257265)"
    by (rule mem.LoadTree_eval [OF sample_trees(4) h(2) mem(3) sample_healthy sample_trees(2)])
qed

lemma sample_applied:
  "apply_staged memstore sample_sha (r_staging sample_bumped) (sortedKeys (r_staging sample_bumped)) (r_storage sample_bumped) 182924
    = (sample_store 8, Inr 949071)"
proof -
  let ?a = "\<lparr>sk_fqdn = [], sk_rrtype = ''A''\<rparr>"
  let ?m = "[(?a, \<lparr>sv_tombstone = False, sv_blob = 210845\<rparr>), (soa_key, \<lparr>sv_tombstone = False, sv_blob = 257266\<rparr>)]"
  have m: "r_staging sample_bumped = ?m" by (simp add: sample_bumped_def sample_staged_def)
  have "sortedKeys ?m = [?a, soa_key] \<and> staged_leaf ?m ?a = 210845 \<and> staged_leaf ?m soa_key = 257266" by code_simp
  then have keys: "sortedKeys (r_staging sample_bumped) = [?a, soa_key]"
    and "staged_leaf (r_staging sample_bumped) ?a = 210845" "staged_leaf (r_staging sample_bumped) soa_key = 257266" unfolding m by blast+
  moreover have "r_storage sample_bumped = sample_store 6" by (simp add: sample_bumped_def)
  ultimately show ?thesis
    unfolding keys using sample_tree_load sample_tree_put sample_trees(5,6)
    by (simp add: UpdateTree_root soa_key_coord [symmetric])
qed


lemma sample_set: "Repo_Set memstore sample_sha sample_dns sample_repo [sample_a_rr] = (sample_staged, Inr ())"
proof -
  have owner: "(if \<not> HasSuffix (ToLower ''A'') ''.'' then ToLower ''A'' @ ''.'' else ToLower ''A'') = ''a.''"
    using sample_rrsets by (simp add: canonicalName_def Let_def)
  have "stripZoneSuffix ''a.'' ''a.'' = []" by simp
  moreover have "TypeToString sample_dns 1 = ''A''" by (simp add: sample_dns_def)
  moreover have "blob_hash sample_sha sample_a_blob = 210845" "EncodeRRset sample_dns [sample_a_rr] = Inr sample_a_blob"
    using sample_hashes sample_rrsets by blast+
  ultimately show ?thesis
    using sample_puts(1) owner
    by (simp add: Repo_Set_def Blob_Encode_parts sample_repo_def sample_staged_def sample_a_rr_def Let_def)
qed

lemma sample_read_head: "ReadHEAD memstore (r_storage sample_staged) = Inr (''a.'', ''main'', 791820)"
proof -
  have "BranchRef ''a.'' ''main'' = ''refs/heads/a./main''" using sample_rrsets by (simp add: BranchRef_def)
  moreover have "parseBranchTarget (BranchRef ''a.'' ''main'') = Some (CanonZone ''a.'', ''main'')"
    by (rule parseBranchTarget_BranchRef) simp_all
  ultimately have "parseBranchTarget ''refs/heads/a./main'' = Some (''a.'', ''main'')" using sample_rrsets by simp
  moreover have "mem_ref (sample_store 5) HeadRef = Some 942893" "mem_ref (sample_store 5) ''refs/heads/a./main'' = Some 791820"
    by (simp_all add: mem_ref_def sample_store_def)
  moreover have "(942893, \<lparr>obj_Kind = KindSymref, obj_Payload = bytes_of ''refs/heads/a./main''\<rparr>) \<in> mem_hist (sample_store 5)"
    by (simp add: mem_hist_def sample_store_def sample_objects_def)
  moreover have "single_valued (mem_hist (sample_store 5))" using sample_healthy by (simp add: healthy_def)
  ultimately show ?thesis
    using mem.ReadHEAD_symref [of "sample_store 5" 942893 "''refs/heads/a./main''"] by (simp add: sample_staged_def)
qed

lemma sample_rc1_decode: "DecodeCommit (obj_Payload (commit_object sample_rc1)) = Inr (norm_commit sample_rc1)"
proof -
  have "commit_ok sample_rc1" using sample_rrsets by (simp add: sample_rc1_def commit_ok_def new_commit_def)
  then show ?thesis using DecodeCommit_commit_text by (simp add: commit_object_def)
qed

lemma sample_parent: "parent_tree memstore (r_storage sample_staged) 791820 = Inr 182924"
  "TreeOf memstore (r_storage sample_staged) 791820 = 182924"
proof -
  note sample_rc1_decode
  then show p: "parent_tree memstore (r_storage sample_staged) 791820 = Inr 182924"
    using sample_gets(1) by (simp add: parent_tree_def sample_staged_def norm_commit_def sample_rc1_def new_commit_def)
  show "TreeOf memstore (r_storage sample_staged) 791820 = 182924" by (rule mem.parent_tree_TreeOf [OF p])
qed

lemma sample_conditions:
  "staging_ok (r_staging sample_staged)" "staged_short (r_staging sample_staged)"
  "staged_stored (r_staging sample_staged) (mem_hist (r_storage sample_staged))"
  "root_ok memstore sample_sha (r_storage sample_staged) 1 182924"
  "identity_ok sample_id" "time_ok sample_now" "soa_key \<notin> fst ` set (r_staging sample_staged)" "r_staging sample_staged \<noteq> []"
proof -
  have "name_ok []" by (simp add: name_ok_def)
  then show "staging_ok (r_staging sample_staged)" "staged_short (r_staging sample_staged)"
    by (simp_all add: sample_staged_def staging_ok_def staged_short_def)
  show "staged_stored (r_staging sample_staged) (mem_hist (r_storage sample_staged))"
    by (simp add: sample_staged_def staged_stored_def mem_hist_def sample_store_def sample_objects_def Domain_fst)
  show "root_ok memstore sample_sha (r_storage sample_staged) 1 182924"
    using sample_tree_load(1) by (simp add: sample_staged_def root_ok_def tree_ok.simps) (simp add: sample_t0_def)
  show "soa_key \<notin> fst ` set (r_staging sample_staged)" "r_staging sample_staged \<noteq> []"
    by (simp_all add: sample_staged_def soa_key_def)
qed (use sample_rrsets in blast)+

lemma sample_soa_walk: "WalkTree memstore sample_sha (sample_store 5) 182924 [] ''SOA'' = Inr 257265"
proof -
  have "Get sample_t0 EntryLeaf ''SOA'' = Some \<lparr>te_Kind = EntryLeaf, te_Name = ''SOA'', te_Hash = 257265\<rparr>"
    unfolding Get_canonical [OF sample_trees(1)] by (simp add: sample_t0_def te_key_def)
  then show ?thesis using sample_tree_load(1) by (simp add: WalkTree_node)
qed

lemma sample_bump: "maybeBumpSOA memstore sample_sha sample_dns sample_staged 182924 = (sample_bumped, Inr ())"
proof -
  note sample_soa_walk
  moreover have "BumpSOASerial sample_dns \<lparr>rs_Key = \<lparr>k_Name = ''a.'', k_Class = 1, k_Type = 6\<rparr>, rs_TTL = 7, rs_RRs = [sample_soa_rr 5]\<rparr>
      = Inr \<lparr>rs_Key = \<lparr>k_Name = ''a.'', k_Class = 1, k_Type = 6\<rparr>, rs_TTL = 7, rs_RRs = [sample_soa_rr 6]\<rparr>"
    using sample_rrsets by (simp add: BumpSOASerial_def sample_dns_def sample_soa_rr_def Uint32_def be_val_def)
  moreover have "blob_hash sample_sha (sample_soa_blob 6) = 257266" "EncodeRRset sample_dns [sample_soa_rr 6] = Inr (sample_soa_blob 6)"
    "DecodeRRset sample_dns (sample_soa_blob 5) = Inr \<lparr>rs_Key = \<lparr>k_Name = ''a.'', k_Class = 1, k_Type = 6\<rparr>, rs_TTL = 7, rs_RRs = [sample_soa_rr 5]\<rparr>"
    using sample_hashes sample_rrsets by blast+
  ultimately show ?thesis
    using sample_puts(2) sample_gets(2) sample_conditions(7,8)
    by (simp add: maybeBumpSOA_def Blob_Encode_parts blob_object_def sample_bumped_def) (simp add: sample_staged_def blob_object_def Blob_Encode_parts)
qed


lemma sample_commit_run:
  "Repo_Commit memstore sample_sha sample_dns sample_now 9 sample_staged sample_id ''two'' = (sample_committed, Inr 67250)"
proof -
  have n: "HashOf sample_sha KindCommit (bytes_of (commit_text sample_rc2)) = 67250" using sample_hashes by (simp add: commit_hash_def)
  have rc2: "new_commit 949071 [791820] sample_id sample_now ''two'' = sample_rc2" by (simp add: sample_rc2_def)
  let ?adv = "advance_branch memstore (sample_store 9) 9 ''a.'' ''main'' 791820 67250 sample_id ''commit'' ''two''"
  have guard: "cas_guard (mem_ref (sample_store 9) (BranchRef ''a.'' ''main'')) 791820"
    using sample_rrsets by (simp add: cas_guard_def mem_ref_def sample_store_def BranchRef_def)
  obtain s' res where adv: "?adv = (s', res)" by (metis surj_pair)
  have "res = Inr ()" using mem.advance_branch_spec(4) [OF adv] guard by simp
  with adv have adv: "?adv = (s', Inr ())" by simp
  have ch: "commit_hash sample_sha sample_rc2 = 67250" using sample_hashes by simp
  have w: "write_commit memstore sample_sha (sample_store 8) 9 ''a.'' ''main'' 791820 sample_rc2 ''commit'' = (s', Inr 67250)"
    unfolding write_commit_def Commit_Encode_parts ch prod.case sample_puts(5) sum.case
    using adv by (simp add: sample_rc2_def new_commit_def)
  have g: "(r_staging sample_staged = []) = False" "IsZero (791820 :: Hash) = False" using sample_conditions(8) by simp_all
  show ?thesis
    unfolding Repo_Commit_def g if_False sample_read_head sample_parent(1) sum.case prod.case sample_bump sample_applied rc2 w
      sample_committed_def adv fst_conv ..
qed

lemma sample_committed: "healthy (mem_hist (r_storage sample_committed))"
  using sample_healthy [of 9] mem.advance_branch_spec(1) [of "sample_store 9" 9 "''a.''" "''main''" 791820 67250 sample_id "''commit''" "''two''"]
  by (simp add: sample_committed_def prod_eq_iff)

lemma sample_lookup_soa: "Repo_Lookup memstore sample_sha sample_dns sample_staged 791820 [] ''SOA'' = DecodeRRset sample_dns (sample_soa_blob 5)"
  using sample_gets sample_rc1_decode sample_soa_walk
  by (simp add: Repo_Lookup_def sample_staged_def) (simp add: norm_commit_def sample_rc1_def new_commit_def blob_object_def)

section \<open>Properties\<close>

text \<open>
  C1: a successful commit makes the contents of the branch those of its parent with every
  staged edit applied (and the SOA that \<open>maybeBumpSOA\<close> stages), records the parent, moves
  this branch and no other ref, and empties the staging area.
\<close>

theorem commit_applies_staged:
  assumes "Repo_Commit memstore sha D now rnow r author msg = (r', Inr h)" and "healthy (mem_hist (r_storage r'))"
    and "ReadHEAD memstore (r_storage r) = Inr (z, b, parent)"
    and "staging_ok (r_staging r)" and "staged_stored (r_staging r) (mem_hist (r_storage r))"
    and "root_ok memstore sha (r_storage r) n (TreeOf memstore (r_storage r) parent)"
    and "identity_ok author" and "time_ok now"
  shows "zone_of memstore sha (r_storage r') (TreeOf memstore (r_storage r') h) =
      overlay (r_staging (fst (maybeBumpSOA memstore sha D r (TreeOf memstore (r_storage r) parent))))
        (zone_of memstore sha (r_storage r) (TreeOf memstore (r_storage r) parent)) \<and>
    (\<exists>c. loadCommit memstore (r_storage r') h = Inr c \<and> c_Parents c = (if parent = ZeroHash then [] else [parent])) \<and>
    mem_ref (r_storage r') = (mem_ref (r_storage r))(BranchRef z b \<mapsto> h) \<and> r_staging r' = []"
proof -
  note spec = mem.Commit_spec [OF assms]
  from spec(1) obtain c where c: "zone_of memstore sha (r_storage r') (c_Tree c) =
      overlay (r_staging (fst (maybeBumpSOA memstore sha D r (TreeOf memstore (r_storage r) parent))))
        (zone_of memstore sha (r_storage r) (TreeOf memstore (r_storage r) parent))"
    "c = new_commit (c_Tree c) (if parent = ZeroHash then [] else [parent]) author now msg"
    "h = commit_hash sha c" "(h, commit_object c) \<in> mem_hist (r_storage r')" "commit_ok c" by blast
  note com = mem.TreeOf_commit [OF c(4) [unfolded c(3)] assms(2) c(5), folded c(3)]
  have "c_Parents (norm_commit c) = (if parent = ZeroHash then [] else [parent])"
    by (subst c(2)) (simp add: norm_commit_def new_commit_def)
  with c(1) com spec(2,6) show ?thesis by (auto simp: loadCommit_def)
qed

theorem commit_applies_staged_witness:
  "mem_ref (r_storage sample_committed) = (mem_ref (r_storage sample_staged))(BranchRef ''a.'' ''main'' \<mapsto> 67250) \<and>
   zone_of memstore sample_sha (r_storage sample_committed) (TreeOf memstore (r_storage sample_committed) 67250) =
     overlay (r_staging sample_bumped) (zone_of memstore sample_sha (r_storage sample_staged) 182924)"
  using commit_applies_staged [OF sample_commit_run sample_committed sample_read_head sample_conditions(1,3), unfolded sample_parent,
      OF sample_conditions(4-6)]
  by (simp add: sample_bump)



text \<open>
  C24: a commit that fails moves no ref and writes no reflog entry; every object stays, the
  active zone stays, and every staged edit stays staged.  At most the SOA edit that
  \<open>maybeBumpSOA\<close> staged is added, and it stays for the next attempt.
\<close>

theorem commit_failure_frame:
  assumes "Repo_Commit memstore sha D now rnow r author msg = (r', Inl e)"
  shows "mem_ref (r_storage r') = mem_ref (r_storage r) \<and> ms_reflog (r_storage r') = ms_reflog (r_storage r) \<and>
    mem_hist (r_storage r) \<subseteq> mem_hist (r_storage r') \<and> r_activeZone r' = r_activeZone r \<and>
    (\<forall>k. k = soa_key \<and> k \<notin> fst ` set (r_staging r) \<or> map_of (r_staging r') k = map_of (r_staging r) k)"
proof -
  note fail = mem.Commit_fail [OF assms]
  have "k = soa_key \<and> k \<notin> fst ` set (r_staging r) \<or> map_of (r_staging r') k = map_of (r_staging r) k" for k
  proof (cases "k \<in> fst ` set (r_staging r)")
    case False
    then have "map_of (r_staging r) k = None" by (simp add: map_of_eq_None_iff)
    with False fail show ?thesis by (metis insertE)
  qed (use fail in blast)
  with fail show ?thesis by (simp add: extends_def)
qed

text \<open>An edit of a name with an empty label is refused when it is committed; HEAD here names a branch without commits.\<close>

definition sample_bad :: "MemStore Repo" where
  "sample_bad = \<lparr>r_storage = fst RefsDB.sample_head, r_staging = [(\<lparr>sk_fqdn = ''x..y'', sk_rrtype = ''A''\<rparr>, \<lparr>sv_tombstone = False, sv_blob = 5\<rparr>)],
     r_activeZone = ''foo.com.''\<rparr>"

lemma sample_bad_facts:
  "ReadHEAD memstore (r_storage sample_bad) = Inr (''foo.com.'', ''main'', ZeroHash) \<and>
   snd (apply_staged memstore sample_sha (r_staging sample_bad) (sortedKeys (r_staging sample_bad)) (r_storage sample_bad) ZeroHash)
     = Inl ErrInvalidObject"
  by code_simp

theorem commit_failure_frame_witness:
  "mem_ref (r_storage (fst (Repo_Commit memstore sample_sha sample_dns sample_now 9 sample_bad sample_id ''x''))) = mem_ref (r_storage sample_bad)"
proof -
  have 1: "ReadHEAD memstore (r_storage sample_bad) = Inr (''foo.com.'', ''main'', ZeroHash)"
    "parent_tree memstore (r_storage sample_bad) ZeroHash = Inr ZeroHash" "(r_staging sample_bad = []) = False"
    "maybeBumpSOA memstore sample_sha sample_dns sample_bad ZeroHash = (sample_bad, Inr ())"
    using sample_bad_facts by (simp_all add: parent_tree_def maybeBumpSOA_def) (simp add: sample_bad_def)
  obtain s2 where 2: "apply_staged memstore sample_sha (r_staging sample_bad) (sortedKeys (r_staging sample_bad)) (r_storage sample_bad) ZeroHash
      = (s2, Inl ErrInvalidObject)" using sample_bad_facts by (metis prod.collapse)
  have run: "Repo_Commit memstore sample_sha sample_dns sample_now 9 sample_bad sample_id ''x''
      = (sample_bad\<lparr>r_storage := s2\<rparr>, Inl ErrInvalidObject)"
    unfolding Repo_Commit_def 1 if_False sum.case prod.case 2 ..
  from commit_failure_frame [OF run] show ?thesis by (simp add: run)
qed

text \<open>
  C22: staging an RRset, committing and looking it up again gives back the owner, class, type
  and TTL and exactly the records that were staged.
\<close>

theorem set_commit_lookup:
  assumes "Repo_Set memstore sha D r rrs = (r1, Inr ())"
    and "Repo_Commit memstore sha D now rnow r1 author msg = (r2, Inr h)" and "healthy (mem_hist (r_storage r2))"
    and "ReadHEAD memstore (r_storage r1) = Inr (z, b, parent)"
    and "staging_ok (r_staging r)" and "staged_stored (r_staging r) (mem_hist (r_storage r))"
    and "root_ok memstore sha (r_storage r1) n (TreeOf memstore (r_storage r1) parent)"
    and "identity_ok author" and "time_ok now"
    and "canonicalName (rr_Name (hd rrs)) = (if fqdn = [] then r_activeZone r else fqdn @ ''.'' @ r_activeZone r)"
    and "name_ok fqdn" and "TypeToString D (rr_Rrtype (hd rrs)) = ty" and "ty \<noteq> []" and "ToUpper ty = ty"
    and "name_packs D (canonicalName (rr_Name (hd rrs))) w"
    and "\<forall>rr \<in> set rrs. rr_packs D (canonicalName (rr_Name (hd rrs))) w rr"
  shows "\<exists>rs. Repo_Lookup memstore sha D r2 h fqdn ty =
      Inr \<lparr>rs_Key = rr_key (hd rrs), rs_TTL = rr_Ttl (hd rrs), rs_RRs = rs\<rparr> \<and>
    mset rs = mset (map (\<lambda>rr. rr\<lparr>rr_Name := canonicalName (rr_Name (hd rrs))\<rparr>) rrs)"
  using mem.set_commit_lookup_lemma [OF assms(1-14)] DecodeRRset_EncodeRRset [OF _ assms(15,16)] by metis

theorem set_commit_lookup_witness:
  "\<exists>rs. Repo_Lookup memstore sample_sha sample_dns sample_committed 67250 [] ''A'' =
     Inr \<lparr>rs_Key = rr_key sample_a_rr, rs_TTL = 7, rs_RRs = rs\<rparr>"
proof -
  have nm: "canonicalName (rr_Name (hd [sample_a_rr])) = ''a.''" using sample_rrsets by (simp add: sample_a_rr_def)
  have c: "staging_ok (r_staging sample_repo)" "staged_stored (r_staging sample_repo) (mem_hist (r_storage sample_repo))"
    "canonicalName (rr_Name (hd [sample_a_rr])) = (if ([] :: string) = [] then r_activeZone sample_repo else [] @ ''.'' @ r_activeZone sample_repo)"
    "name_ok []" "TypeToString sample_dns (rr_Rrtype (hd [sample_a_rr])) = ''A''" "''A'' \<noteq> []" "ToUpper ''A'' = ''A''"
    using nm sample_rrsets by (simp_all add: sample_repo_def staged_stored_def name_ok_def sample_dns_def sample_a_rr_def)
  let ?w = "of_nat (length ''a.'') # bytes_of ''a.''"
  have w: "name_packs sample_dns (canonicalName (rr_Name (hd [sample_a_rr]))) ?w" unfolding nm by (rule sample_name_packs) simp
  have "rr_packs sample_dns ''a.'' ?w sample_a_rr" by (rule sample_rr_packs) (simp_all add: sample_a_rr_def)
  then have w2: "\<forall>rr \<in> set [sample_a_rr]. rr_packs sample_dns (canonicalName (rr_Name (hd [sample_a_rr]))) ?w rr"
    unfolding nm by simp
  from set_commit_lookup [OF sample_set sample_commit_run sample_committed sample_read_head c(1,2), unfolded sample_parent,
      OF sample_conditions(4-6) c(3-7) w w2]
  show ?thesis by (auto simp: sample_a_rr_def)
qed

text \<open>
  C25: a commit that does not touch the SOA advances its serial by one: when the parent has
  a SOA at the apex, the SOA of the new commit is the same with the next serial.
\<close>

theorem commit_bumps_soa:
  assumes "Repo_Commit memstore sha D now rnow r author msg = (r', Inr h)" and "healthy (mem_hist (r_storage r'))"
    and "ReadHEAD memstore (r_storage r) = Inr (z, b, parent)"
    and "staging_ok (r_staging r)" and "staged_stored (r_staging r) (mem_hist (r_storage r))"
    and "root_ok memstore sha (r_storage r) n (TreeOf memstore (r_storage r) parent)"
    and "identity_ok author" and "time_ok now" and "soa_key \<notin> fst ` set (r_staging r)"
    and "Repo_Lookup memstore sha D r parent [] ''SOA'' = Inr soa" and "parent \<noteq> ZeroHash"
    and "rs_RRs soa = [rr]" and "AsSOA D (rr_Data rr) = Some serial" and "soa_laws D (rr_Data rr)"
    and "name_packs D (canonicalName (rr_Name rr)) w"
    and "rr_packs D (canonicalName (rr_Name rr)) w (rr\<lparr>rr_Data := WithSerial D (rr_Data rr) (serial + 1)\<rparr>)"
  shows "\<exists>rr'. Repo_Lookup memstore sha D r' h [] ''SOA'' = Inr \<lparr>rs_Key = rr_key rr, rs_TTL = rr_Ttl rr, rs_RRs = [rr']\<rparr> \<and>
    AsSOA D (rr_Data rr') = Some (serial + 1) \<and> rr' = rr\<lparr>rr_Name := canonicalName (rr_Name rr), rr_Data := rr_Data rr'\<rparr>"
proof -
  let ?rr = "rr\<lparr>rr_Data := WithSerial D (rr_Data rr) (serial + 1)\<rparr>"
  have b: "BumpSOASerial D soa = Inr (soa\<lparr>rs_RRs := [?rr]\<rparr>)" using assms(12,13) by (simp add: BumpSOASerial_def)
  obtain payload where p: "EncodeRRset D [?rr] = Inr payload" "Repo_Lookup memstore sha D r' h [] ''SOA'' = DecodeRRset D payload"
    using mem.commit_bumps_soa_lemma [OF assms(1-10) b assms(11)] by auto
  from DecodeRRset_EncodeRRset [OF p(1), of w] assms(15,16) obtain rs where
    rs: "DecodeRRset D payload = Inr \<lparr>rs_Key = rr_key ?rr, rs_TTL = rr_Ttl ?rr, rs_RRs = rs\<rparr>"
    "mset rs = {# ?rr\<lparr>rr_Name := canonicalName (rr_Name rr)\<rparr> #}" by auto
  then have "rs = [?rr\<lparr>rr_Name := canonicalName (rr_Name rr)\<rparr>]" by simp
  with rs(1) p(2) assms(14) show ?thesis by (auto simp: soa_laws_def rr_key_def)
qed

theorem commit_bumps_soa_witness:
  "\<exists>rr'. Repo_Lookup memstore sample_sha sample_dns sample_committed 67250 [] ''SOA''
      = Inr \<lparr>rs_Key = rr_key (sample_soa_rr 5), rs_TTL = 7, rs_RRs = [rr']\<rparr> \<and> AsSOA sample_dns (rr_Data rr') = Some 6"
proof -
  let ?soa = "\<lparr>rs_Key = \<lparr>k_Name = ''a.'', k_Class = 1, k_Type = 6\<rparr>, rs_TTL = 7, rs_RRs = [sample_soa_rr 5]\<rparr>"
  have nm: "canonicalName (rr_Name (sample_soa_rr 5)) = ''a.''" using sample_rrsets by (simp add: sample_soa_rr_def)
  have ser: "AsSOA sample_dns (rr_Data (sample_soa_rr 5)) = Some 5" by (simp add: sample_dns_def sample_soa_rr_def Uint32_def be_val_def)
  have look: "Repo_Lookup memstore sample_sha sample_dns sample_staged 791820 [] ''SOA'' = Inr ?soa"
    using sample_lookup_soa sample_rrsets by simp
  have laws: "soa_laws sample_dns (rr_Data (sample_soa_rr 5))" by (simp add: soa_laws_def sample_dns_def sample_soa_rr_def)
  let ?w = "of_nat (length ''a.'') # bytes_of ''a.''"
  have w: "name_packs sample_dns (canonicalName (rr_Name (sample_soa_rr 5))) ?w" unfolding nm by (rule sample_name_packs) simp
  have w2: "rr_packs sample_dns (canonicalName (rr_Name (sample_soa_rr 5))) ?w
      ((sample_soa_rr 5)\<lparr>rr_Data := WithSerial sample_dns (rr_Data (sample_soa_rr 5)) (5 + 1)\<rparr>)"
    unfolding nm by (rule sample_rr_packs) (simp_all add: sample_soa_rr_def)
  have z: "(791820 :: Hash) \<noteq> 0" and one: "rs_RRs ?soa = [sample_soa_rr 5]" by simp_all
  from commit_bumps_soa [OF sample_commit_run sample_committed sample_read_head sample_conditions(1,3), unfolded sample_parent,
      OF sample_conditions(4-7) look z one ser laws w w2]
  show ?thesis by (auto simp: sample_soa_rr_def)
qed

text \<open>
  The suffix test of \<open>stripZoneSuffix\<close> has no label boundary: an owner that merely ends in
  the zone's name, such as \<open>evilfoo.com.\<close> for the zone \<open>foo.com.\<close>, is staged under the very
  key of the owner \<open>evil.foo.com.\<close> inside the zone.
\<close>

theorem set_foreign_owner:
  assumes "canonicalName (rr_Name hdr) = label @ zone" and "canonicalName (rr_Name hdr') = label @ ''.'' @ zone"
    and "label \<noteq> []" and "last label \<noteq> CHR ''.''" and "rr_Rrtype hdr' = rr_Rrtype hdr"
  shows "set_key D zone hdr = set_key D zone hdr' \<and> sk_fqdn (set_key D zone hdr) = label"
proof -
  have "\<not> suffix (''.'' @ zone) (label @ zone)"
  proof
    assume "suffix (''.'' @ zone) (label @ zone)"
    then obtain ys where "label = ys @ ''.''" by (auto simp: suffix_def)
    with assms(4) show False by simp
  qed
  then have "stripZoneSuffix (label @ zone) zone = label"
    using assms(3) by (simp add: stripZoneSuffix_def HasSuffix_def TrimSuffix_def suffix_def)
  with stripZoneSuffix_sub [OF assms(3), of zone] assms show ?thesis by (simp add: set_key_def)
qed

theorem set_foreign_owner_witness:
  "sk_fqdn (set_key sample_dns ''foo.com.'' \<lparr>rr_Name = ''evilfoo.com'', rr_Rrtype = 1, rr_Class = 1, rr_Ttl = 7, rr_Data = [9]\<rparr>) = ''evil''"
proof -
  let ?rr = "\<lambda>n. \<lparr>rr_Name = n, rr_Rrtype = 1, rr_Class = 1, rr_Ttl = 7, rr_Data = [9]\<rparr> :: bytes RR"
  have "canonicalName ''evilfoo.com'' = ''evil'' @ ''foo.com.''" "canonicalName ''evil.foo.com.'' = ''evil'' @ ''.'' @ ''foo.com.''"
    by code_simp+
  then have "set_key sample_dns ''foo.com.'' (?rr ''evilfoo.com'') = set_key sample_dns ''foo.com.'' (?rr ''evil.foo.com.'') \<and>
      sk_fqdn (set_key sample_dns ''foo.com.'' (?rr ''evilfoo.com'')) = ''evil''"
    by (intro set_foreign_owner) simp_all
  then show ?thesis by (rule conjunct2)
qed

end
