(* ===== verification/RepoMerge.thy ===== *)
theory RepoMerge
  imports RepoCommit
begin

text \<open>
  pkg/repo, merge.go: the search for common ancestors, the merge of a branch into the
  current one, the inverse of a commit, and the reset of a branch.

  The searches walk the graph of commits breadth-first with a queue and a set of the
  hashes seen, here a list.  They end because there are only finitely many hashes: every
  turn either takes a hash off the queue or adds one that was not seen.
\<close>

section \<open>Ancestors\<close>

text \<open>The inner loop: a parent that was not seen before is marked and queued.\<close>

fun enqueue :: "Hash list \<Rightarrow> Hash list \<Rightarrow> Hash list \<Rightarrow> Hash list \<times> Hash list" where
  "enqueue [] queue seen = (queue, seen)"
| "enqueue (p # ps) queue seen =
     (if p \<notin> set seen then enqueue ps (queue @ [p]) (p # seen) else enqueue ps queue seen)"

lemma enqueue_spec:
  "enqueue ps queue seen = (q', seen') \<Longrightarrow>
    \<exists>new. q' = queue @ new \<and> set new = set ps - set seen \<and> set seen' = set seen \<union> set ps \<and> distinct new"
proof (induction ps arbitrary: queue seen)
  case (Cons p ps)
  show ?case
  proof (cases "p \<in> set seen")
    case True
    with Cons.IH [of queue seen] Cons.prems show ?thesis by auto
  next
    case False
    with Cons.prems have "enqueue ps (queue @ [p]) (p # seen) = (q', seen')" by simp
    from Cons.IH [OF this] obtain new where "q' = (queue @ [p]) @ new" "set new = set ps - set (p # seen)"
      "set seen' = set (p # seen) \<union> set ps" "distinct new" by blast
    with False show ?thesis by (intro exI [of _ "p # new"]) auto
  qed
qed auto

lemma enqueue_measure:
  assumes "enqueue ps queue seen = (q', seen')"
  shows "((card (- set seen'), length q'), (card (- set seen), Suc (length queue))) \<in> less_than <*lex*> less_than"
proof -
  obtain new where new: "q' = queue @ new" "set new = set ps - set seen" "set seen' = set seen \<union> set ps"
    using enqueue_spec [OF assms] by blast
  show ?thesis
  proof (cases "set ps \<subseteq> set seen")
    case True
    then have "set new = {}" "set seen' = set seen" using new by auto
    with new(1) show ?thesis by simp
  next
    case False
    then have "- set seen' \<subset> - set seen" using new(3) by auto
    then have "card (- set seen') < card (- set seen)" by (simp add: psubset_card_mono)
    then show ?thesis by simp
  qed
qed

function (sequential) ancestor_loop :: "'s Storage \<Rightarrow> 's \<Rightarrow> Hash \<Rightarrow> Hash list \<Rightarrow> Hash list \<Rightarrow> error + bool" where
  "ancestor_loop S s anc [] seen = Inr False"
| "ancestor_loop S s anc (h # queue) seen =
     (if h = anc then Inr True
      else case loadCommit S s h of
        Inl e \<Rightarrow> Inl e
      | Inr c \<Rightarrow> (case enqueue (c_Parents c) queue seen of (queue', seen') \<Rightarrow> ancestor_loop S s anc queue' seen'))"
  by pat_completeness auto
termination
proof (relation "inv_image (less_than <*lex*> less_than) (\<lambda>(S, s, anc, queue, seen). (card (- set seen), length queue))")
qed (auto simp del: in_lex_prod split: prod.split intro: enqueue_measure)

definition isAncestor :: "'s Storage \<Rightarrow> 's \<Rightarrow> Hash \<Rightarrow> Hash \<Rightarrow> error + bool" where
  "isAncestor S s anc desc =
     (if IsZero anc \<or> anc = desc then Inr True
      else if IsZero desc then Inr False
      else ancestor_loop S s anc [desc] [desc])"

text \<open>
  The set of all ancestors.  Here a hash may be queued more than once; it is marked when
  it is taken off the queue.
\<close>

function (sequential) ancestor_set_loop :: "'s Storage \<Rightarrow> 's \<Rightarrow> Hash list \<Rightarrow> Hash list \<Rightarrow> error + Hash list" where
  "ancestor_set_loop S s [] out = Inr out"
| "ancestor_set_loop S s (h # queue) out =
     (if h \<in> set out then ancestor_set_loop S s queue out
      else case loadCommit S s h of
        Inl e \<Rightarrow> Inl e
      | Inr c \<Rightarrow> ancestor_set_loop S s (queue @ filter (\<lambda>p. p \<notin> set (h # out)) (c_Parents c)) (h # out))"
  by pat_completeness auto
termination
proof (relation "inv_image (less_than <*lex*> less_than) (\<lambda>(S, s, queue, out). (card (- set out), length queue))")
  fix S :: "'s Storage" and s c and h :: Hash and queue out
  assume "h \<notin> set out"
  then have "card (- set (h # out)) < card (- set out)" by (intro psubset_card_mono) auto
  then show "((S, s, queue @ filter (\<lambda>p. p \<notin> set (h # out)) (c_Parents c), h # out), S, s, h # queue, out)
      \<in> inv_image (less_than <*lex*> less_than) (\<lambda>(S, s, queue, out). (card (- set out), length queue))" by simp
qed auto

definition ancestorSet :: "'s Storage \<Rightarrow> 's \<Rightarrow> Hash \<Rightarrow> error + Hash list" where
  "ancestorSet S s root = ancestor_set_loop S s [root] []"

function (sequential) merge_base_loop :: "'s Storage \<Rightarrow> 's \<Rightarrow> Hash list \<Rightarrow> Hash list \<Rightarrow> Hash list \<Rightarrow> error + Hash" where
  "merge_base_loop S s aAnc [] visited = Inr ZeroHash"
| "merge_base_loop S s aAnc (h # queue) visited =
     (if h \<in> set aAnc then Inr h
      else case loadCommit S s h of
        Inl e \<Rightarrow> Inl e
      | Inr c \<Rightarrow> (case enqueue (c_Parents c) queue visited of (queue', visited') \<Rightarrow> merge_base_loop S s aAnc queue' visited'))"
  by pat_completeness auto
termination
proof (relation "inv_image (less_than <*lex*> less_than) (\<lambda>(S, s, aAnc, queue, seen). (card (- set seen), length queue))")
qed (auto simp del: in_lex_prod split: prod.split intro: enqueue_measure)

definition MergeBase :: "'s Storage \<Rightarrow> 's \<Rightarrow> Hash \<Rightarrow> Hash \<Rightarrow> error + Hash" where
  "MergeBase S s a b =
     (if IsZero a \<or> IsZero b then Inr ZeroHash
      else if a = b then Inr a
      else case ancestorSet S s a of
        Inl e \<Rightarrow> Inl e
      | Inr aAnc \<Rightarrow> merge_base_loop S s aAnc [b] [b])"

section \<open>Merge\<close>

record MergeResult =
  mr_FastForward :: bool
  mr_AlreadyUpToDate :: bool
  mr_Commit :: Hash
  mr_Conflicts :: "Conflict list"

definition merge_result :: MergeResult where
  "merge_result = \<lparr>mr_FastForward = False, mr_AlreadyUpToDate = False, mr_Commit = ZeroHash, mr_Conflicts = []\<rparr>"

text \<open>The fast-forward of the branch from \<open>ours\<close>, which may be zero, to \<open>theirs\<close>.\<close>

definition fast_forward :: "'s Storage \<Rightarrow> int \<Rightarrow> 's Repo \<Rightarrow> string \<Rightarrow> string \<Rightarrow> Hash \<Rightarrow> Hash \<Rightarrow> Identity \<Rightarrow> string \<Rightarrow>
    's Repo \<times> (error + MergeResult) option" where
  "fast_forward S rnow r zoneName branchName ours theirs author theirsName =
     (case advance_branch S (r_storage r) rnow zoneName branchName ours theirs author ''merge'' (''fast-forward '' @ theirsName) of
        (s1, Inl e) \<Rightarrow> (r\<lparr>r_storage := s1\<rparr>, Some (Inl e))
      | (s1, Inr _) \<Rightarrow> (r\<lparr>r_storage := s1\<rparr>, Some (Inr (merge_result\<lparr>mr_FastForward := True, mr_Commit := theirs\<rparr>))))"

text \<open>The three-way merge, once neither side is an ancestor of the other.\<close>

definition three_way :: "'s Storage \<Rightarrow> (bytes \<Rightarrow> Hash) \<Rightarrow> nat \<Rightarrow> Time \<Rightarrow> int \<Rightarrow> 's Repo \<Rightarrow> string \<Rightarrow> string \<Rightarrow> Hash \<Rightarrow> Hash \<Rightarrow>
    Identity \<Rightarrow> string \<Rightarrow> string \<Rightarrow> 's Repo \<times> (error + MergeResult) option" where
  "three_way S sha fuel now rnow r zoneName branchName ours theirs author msg theirsName =
     (let s = r_storage r in
      case MergeBase S s ours theirs of
        Inl e \<Rightarrow> (r, Some (Inl e))
      | Inr base \<Rightarrow>
          (case MergeTrees S sha fuel s (TreeOf S s base) (TreeOf S s ours) (TreeOf S s theirs) of
             (s1, None) \<Rightarrow> (r\<lparr>r_storage := s1\<rparr>, None)
           | (s1, Some (Inl e)) \<Rightarrow> (r\<lparr>r_storage := s1\<rparr>, Some (Inl e))
           | (s1, Some (Inr (mergedTree, cfs))) \<Rightarrow>
               if cfs \<noteq> [] then (r\<lparr>r_storage := s1\<rparr>, Some (Inr (merge_result\<lparr>mr_Conflicts := cfs\<rparr>)))
               else
                 let msg = (if msg = [] then ''Merge branch '' @ [CHR 0x27] @ theirsName @ [CHR 0x27] @ '' into '' @ branchName else msg) in
                 (case write_commit S sha s1 rnow zoneName branchName ours
                         (new_commit mergedTree [ours, theirs] author now msg) ''merge'' of
                    (s2, Inl e) \<Rightarrow> (r\<lparr>r_storage := s2\<rparr>, Some (Inl e))
                  | (s2, Inr commitHash) \<Rightarrow>
                      (r\<lparr>r_storage := s2\<rparr>, Some (Inr (merge_result\<lparr>mr_Commit := commitHash\<rparr>))))))"

definition Repo_Merge :: "'s Storage \<Rightarrow> (bytes \<Rightarrow> Hash) \<Rightarrow> nat \<Rightarrow> Time \<Rightarrow> int \<Rightarrow> 's Repo \<Rightarrow> string \<Rightarrow> Identity \<Rightarrow> string \<Rightarrow>
    's Repo \<times> (error + MergeResult) option" where
  "Repo_Merge S sha fuel now rnow r theirsBranch author msg =
     (let s = r_storage r in
      if r_staging r \<noteq> [] then (r, Some (Inl (ErrOther ''merge: refusing to merge with staged changes'')))
      else case ReadHEAD S s of
        Inl e \<Rightarrow> (r, Some (Inl e))
      | Inr (zoneName, branchName, ours) \<Rightarrow>
          let theirsName = TrimPrefix theirsBranch BranchPrefix in
          if theirsName = branchName then (r, Some (Inl (ErrOther ''merge: cannot merge a branch into itself'')))
          else case GetBranch S s zoneName theirsName of
            Inl e \<Rightarrow> (r, Some (Inl e))
          | Inr theirs \<Rightarrow>
              (case (if \<not> IsZero ours then isAncestor S s theirs ours else Inr False) of
                 Inl e \<Rightarrow> (r, Some (Inl e))
               | Inr True \<Rightarrow> (r, Some (Inr (merge_result\<lparr>mr_AlreadyUpToDate := True\<rparr>)))
               | Inr False \<Rightarrow>
                   if IsZero ours then fast_forward S rnow r zoneName branchName ours theirs author theirsName
                   else case isAncestor S s ours theirs of
                     Inl e \<Rightarrow> (r, Some (Inl e))
                   | Inr True \<Rightarrow> fast_forward S rnow r zoneName branchName ours theirs author theirsName
                   | Inr False \<Rightarrow> three_way S sha fuel now rnow r zoneName branchName ours theirs author msg theirsName))"

section \<open>Revert\<close>

definition inverse_leaf :: "Change \<Rightarrow> Hash" where
  "inverse_leaf ch =
     (case ch_Op ch of
        OpAdded \<Rightarrow> ZeroHash
      | OpRemoved \<Rightarrow> ch_OldBlob ch
      | OpModified \<Rightarrow> ch_OldBlob ch)"

fun apply_inverse :: "'s Storage \<Rightarrow> (bytes \<Rightarrow> Hash) \<Rightarrow> Change list \<Rightarrow> 's \<Rightarrow> Hash \<Rightarrow> 's \<times> (error + Hash)" where
  "apply_inverse S sha [] s tree = (s, Inr tree)"
| "apply_inverse S sha (ch # chs) s tree =
     (case UpdateTree S sha s tree (ch_Path ch) (ch_RRType ch) (inverse_leaf ch) of
        (s1, Inl e) \<Rightarrow> (s1, Inl e)
      | (s1, Inr t1) \<Rightarrow> apply_inverse S sha chs s1 t1)"

definition revert_message :: "Commit \<Rightarrow> Hash \<Rightarrow> string" where
  "revert_message tc target =
     (let first = hd (Split (c_Message tc) NL) in
      ''Revert '' @ [CHR 0x22] @ first @ [CHR 0x22] @ [NL, NL] @ ''This reverts commit '' @ hash_String target @ ''.'')"

text \<open>The tree of the first parent of a commit; the zero hash for a root commit.\<close>

definition first_parent_tree :: "'s Storage \<Rightarrow> 's \<Rightarrow> Commit \<Rightarrow> error + Hash" where
  "first_parent_tree S s tc =
     (case c_Parents tc of
        [] \<Rightarrow> Inr ZeroHash
      | p # _ \<Rightarrow> (case loadCommit S s p of Inl e \<Rightarrow> Inl e | Inr pc \<Rightarrow> Inr (c_Tree pc)))"

definition Repo_Revert :: "'s Storage \<Rightarrow> (bytes \<Rightarrow> Hash) \<Rightarrow> nat \<Rightarrow> Time \<Rightarrow> int \<Rightarrow> 's Repo \<Rightarrow> string \<Rightarrow> Identity \<Rightarrow> string \<Rightarrow>
    's Repo \<times> (error + Hash) option" where
  "Repo_Revert S sha fuel now rnow r refish author msg =
     (let s = r_storage r in
      if r_staging r \<noteq> [] then (r, Some (Inl (ErrOther ''revert: refusing to revert with staged changes'')))
      else case Resolve S s refish of
        Inl e \<Rightarrow> (r, Some (Inl e))
      | Inr target \<Rightarrow>
          (case loadCommit S s target of
             Inl e \<Rightarrow> (r, Some (Inl e))
           | Inr tc \<Rightarrow>
               (case first_parent_tree S s tc of
                  Inl e \<Rightarrow> (r, Some (Inl e))
                | Inr parentTree \<Rightarrow>
                    (case ReadHEAD S s of
                       Inl e \<Rightarrow> (r, Some (Inl e))
                     | Inr (zoneName, branchName, head) \<Rightarrow>
                         if IsZero head then (r, Some (Inl (ErrOther ''revert: HEAD is empty'')))
                         else case loadCommit S s head of
                           Inl e \<Rightarrow> (r, Some (Inl e))
                         | Inr headCommit \<Rightarrow>
                             (case Diff S sha s fuel parentTree (c_Tree tc) of
                                None \<Rightarrow> (r, None)
                              | Some (Inl e) \<Rightarrow> (r, Some (Inl e))
                              | Some (Inr chs) \<Rightarrow>
                                  if chs = [] then (r, Some (Inl (ErrOther ''revert: introduced no changes'')))
                                  else case apply_inverse S sha chs s (c_Tree headCommit) of
                                    (s1, Inl e) \<Rightarrow> (r\<lparr>r_storage := s1\<rparr>, Some (Inl e))
                                  | (s1, Inr curTree) \<Rightarrow>
                                      if curTree = c_Tree headCommit
                                      then (r\<lparr>r_storage := s1\<rparr>, Some (Inl (ErrOther ''revert: nothing to do'')))
                                      else case write_commit S sha s1 rnow zoneName branchName head
                                             (new_commit curTree [head] author now
                                               (if msg = [] then revert_message tc target else msg)) ''revert'' of
                                        (s2, Inl e) \<Rightarrow> (r\<lparr>r_storage := s2\<rparr>, Some (Inl e))
                                      | (s2, Inr commitHash) \<Rightarrow> (r\<lparr>r_storage := s2\<rparr>, Some (Inr commitHash)))))))"

section \<open>Reset\<close>

definition Repo_ResetHard :: "'s Storage \<Rightarrow> int \<Rightarrow> 's Repo \<Rightarrow> string \<Rightarrow> Identity \<Rightarrow> 's Repo \<times> (error + Hash)" where
  "Repo_ResetHard S rnow r refish author =
     (let s = r_storage r in
      case Resolve S s refish of
        Inl e \<Rightarrow> (r, Inl e)
      | Inr target \<Rightarrow>
          (case ReadHEAD S s of
             Inl e \<Rightarrow> (r, Inl e)
           | Inr (zoneName, branchName, head) \<Rightarrow>
               if head = target then (r\<lparr>r_staging := []\<rparr>, Inr target)
               else case advance_branch S s rnow zoneName branchName head target author ''reset'' (''reset --hard '' @ refish) of
                 (s1, Inl e) \<Rightarrow> (r\<lparr>r_storage := s1\<rparr>, Inl e)
               | (s1, Inr _) \<Rightarrow> (r\<lparr>r_storage := s1, r_staging := []\<rparr>, Inr target)))"

end
