(* ===== verification/SampleTable.thy ===== *)
theory SampleTable
  imports RepoMerge
begin

text \<open>
  Concrete repositories for examples.  A table lists objects with the hashes they are to
  have; the hash function of the table looks them up.  Stores that hold objects of the
  table can then be read by the laws of the codecs.
\<close>

section \<open>Tables of objects\<close>

datatype sobj = SBlob bytes | STree Tree | SCommit Commit | SSymref string

fun sobject :: "sobj \<Rightarrow> Object" where
  "sobject (SBlob p) = blob_object p"
| "sobject (STree t) = tree_object t"
| "sobject (SCommit c) = commit_object c"
| "sobject (SSymref t) = \<lparr>obj_Kind = KindSymref, obj_Payload = bytes_of t\<rparr>"

definition tree_small :: "Tree \<Rightarrow> bool" where
  "tree_small t \<longleftrightarrow> canonical t \<and> (\<forall>e \<in> set (Entries t). storable e \<and> te_Name e \<noteq> [])"

fun sobj_ok :: "sobj \<Rightarrow> bool" where
  "sobj_ok (SBlob p) \<longleftrightarrow> length p < 2 ^ 47"
| "sobj_ok (STree t) \<longleftrightarrow> tree_small t \<and> length (tree_payload t) < 2 ^ 47"
| "sobj_ok (SCommit c) \<longleftrightarrow> commit_ok c \<and> norm_commit c = c \<and> length (commit_text c) < 2 ^ 47"
| "sobj_ok (SSymref t) \<longleftrightarrow> length t < 2 ^ 47"

definition table_ok :: "(Hash \<times> sobj) list \<Rightarrow> bool" where
  "table_ok tab \<longleftrightarrow> distinct (map fst tab) \<and> distinct (map snd tab) \<and> ZeroHash \<notin> fst ` set tab \<and> (\<forall>x \<in> snd ` set tab. sobj_ok x)"

definition table_sha :: "(Hash \<times> sobj) list \<Rightarrow> bytes \<Rightarrow> Hash" where
  "table_sha tab bs = (case map_of (map (\<lambda>(h, x). (hash_input (obj_Kind (sobject x)) (obj_Payload (sobject x)), h)) tab) bs of
     None \<Rightarrow> ZeroHash | Some h \<Rightarrow> h)"

lemma tree_payload_small_inject:
  assumes "tree_small t" "tree_small t'" "length (tree_payload t) < 2 ^ 47" "tree_payload t = tree_payload t'"
  shows "t = t'"
proof -
  have "DecodeTree (tree_payload u) = Inr u" if "tree_small u" "length (tree_payload u) < 2 ^ 47" for u
  proof -
    have "distinct (keys u)" "sortEntries (Entries u) = Entries u"
      using that(1) sortEntries_id by (auto simp: tree_small_def canonical_def strict_sorted_iff)
    with that show ?thesis using DecodeTree_tree_payload [of u] payload_no_panic [of u] by (simp add: tree_small_def)
  qed
  with assms show ?thesis by (metis Inr_inject)
qed

lemma commit_text_inject:
  assumes "commit_ok c" "norm_commit c = c" "commit_ok c'" "norm_commit c' = c'" "commit_text c = commit_text c'"
  shows "c = c'"
proof -
  have "(Inr (norm_commit c) :: error + Commit) = Inr (norm_commit c')"
    unfolding DecodeCommit_commit_text [OF assms(1), symmetric] DecodeCommit_commit_text [OF assms(3), symmetric] assms(5) ..
  then show ?thesis using assms(2,4) by simp
qed

lemma sobject_inject:
  "sobj_ok x \<Longrightarrow> sobj_ok y \<Longrightarrow> sobject x = sobject y \<Longrightarrow> x = y"
  by (cases x; cases y)
    (auto simp: blob_object_def commit_object_def kind_defs dest: tree_payload_small_inject commit_text_inject)

lemma sobject_kind: "CHR '' '' \<notin> set (obj_Kind (sobject x))"
  by (cases x) (auto simp: blob_object_def commit_object_def kind_defs)

lemma table_hash:
  assumes "table_ok tab" and "(h, x) \<in> set tab"
  shows "HashOf (table_sha tab) (obj_Kind (sobject x)) (obj_Payload (sobject x)) = h"
proof -
  let ?f = "\<lambda>x. hash_input (obj_Kind (sobject x)) (obj_Payload (sobject x))"
  have "inj_on ?f (snd ` set tab)"
  proof (rule inj_onI)
    fix a b assume "a \<in> snd ` set tab" "b \<in> snd ` set tab" and eq: "?f a = ?f b"
    then have "sobj_ok a" "sobj_ok b" using assms(1) by (auto simp: table_ok_def)
    moreover have "sobject a = sobject b" using hash_input_inject [OF eq sobject_kind sobject_kind] by (cases "sobject a"; cases "sobject b") simp
    ultimately show "a = b" by (rule sobject_inject)
  qed
  then have "distinct (map ?f (map snd tab))" using assms(1) by (simp only: distinct_map table_ok_def list.set_map)
  moreover have "map ?f (map snd tab) = map fst (map (\<lambda>(h, x). (?f x, h)) tab)" by (simp add: case_prod_beta)
  ultimately have "distinct (map fst (map (\<lambda>(h, x). (?f x, h)) tab))" by (simp only:)
  moreover have "(?f x, h) \<in> set (map (\<lambda>(h, x). (?f x, h)) tab)" using assms(2) by force
  ultimately show ?thesis by (simp add: HashOf_def table_sha_def)
qed

section \<open>Stores of a table\<close>

definition table_store :: "(Hash \<times> sobj) list \<Rightarrow> (string \<times> Hash) list \<Rightarrow> MemStore" where
  "table_store objs refs = \<lparr>ms_objects = map (apsnd sobject) objs, ms_refs = refs, ms_reflog = (\<lambda>_. [])\<rparr>"

lemma table_store_hist: "mem_hist (table_store objs refs) = apsnd sobject ` set objs"
  by (simp add: mem_hist_def table_store_def)

lemma table_store_ref [simp]: "mem_ref (table_store objs refs) = map_of refs"
  by (simp add: mem_ref_def table_store_def)

lemma table_store_healthy:
  assumes "table_ok tab" and "set objs \<subseteq> set tab"
  shows "healthy (mem_hist (table_store objs refs))"
proof -
  have "length (obj_Payload (sobject x)) < 2 ^ 47" if "sobj_ok x" for x
    using that by (cases x) (auto simp: blob_object_def commit_object_def)
  then have "healthy (set (map (apsnd sobject) tab))"
    using assms(1) by (intro healthy_list) (auto simp: table_ok_def image_image)
  then show ?thesis by (rule healthy_subset) (use assms(2) in \<open>auto simp: table_store_hist\<close>)
qed

lemma table_store_Get:
  assumes "table_ok tab" and "set objs \<subseteq> set tab" and "(h, x) \<in> set objs"
  shows "GetObject memstore (table_store objs refs) h = Inr (sobject x)"
proof (rule mem.get_present)
  show "(h, sobject x) \<in> mem_hist (table_store objs refs)" using assms(3) by (force simp: table_store_hist)
  show "single_valued (mem_hist (table_store objs refs))" using table_store_healthy [OF assms(1,2)] by (simp add: healthy_def)
qed

lemma table_store_commit:
  assumes "table_ok tab" and "set objs \<subseteq> set tab" and "(h, SCommit c) \<in> set objs"
  shows "loadCommit memstore (table_store objs refs) h = Inr c" and "TreeOf memstore (table_store objs refs) h = c_Tree c"
    and "commit_hash (table_sha tab) c = h"
proof -
  have mem: "(h, SCommit c) \<in> set tab" using assms(2,3) by blast
  then have ok: "commit_ok c" "norm_commit c = c" "h \<noteq> ZeroHash" using assms(1) by (force simp: table_ok_def)+
  show "commit_hash (table_sha tab) c = h" using table_hash [OF assms(1) mem] by (simp add: commit_hash_def commit_object_def)
  show load: "loadCommit memstore (table_store objs refs) h = Inr c"
    using table_store_Get [OF assms] DecodeCommit_commit_text [OF ok(1)] ok(2) by (simp add: loadCommit_def commit_object_def)
  then show "TreeOf memstore (table_store objs refs) h = c_Tree c"
    using ok(3) by (auto simp: TreeOf_def loadCommit_def split: sum.splits)
qed

lemma table_store_tree:
  assumes "table_ok tab" and "set objs \<subseteq> set tab" and "(h, STree t) \<in> set objs"
  shows "LoadTree memstore (table_sha tab) (table_store objs refs) h = Inr t"
proof (rule mem.LoadTree_eval)
  have mem: "(h, STree t) \<in> set tab" using assms(2,3) by blast
  then show "\<forall>e \<in> set (Entries t). storable e \<and> te_Name e \<noteq> []" "canonical t"
    using assms(1) by (force simp: table_ok_def tree_small_def)+
  show "HashOf (table_sha tab) KindTree (tree_payload t) = h" using table_hash [OF assms(1) mem] by simp
  show "(h, tree_object t) \<in> mem_hist (table_store objs refs)" using assms(3) by (force simp: table_store_hist)
qed (rule table_store_healthy [OF assms(1,2)])

lemma table_store_put:
  "PutObject memstore (table_store objs refs) h (sobject x) = (table_store ((h, x) # objs) refs, Inr ())"
  by (simp add: memstore_defs table_store_def)

lemma table_store_PutTree:
  assumes "table_ok tab" and "(h, STree t) \<in> set tab"
  shows "PutTree memstore (table_sha tab) (table_store objs refs) t = (table_store ((h, STree t) # objs) refs, Inr h)"
proof (rule PutTree_eval)
  show "\<forall>e \<in> set (Entries t). storable e \<and> te_Name e \<noteq> []"
    using assms(1,2) by (force simp: table_ok_def tree_small_def)
  show "HashOf (table_sha tab) KindTree (tree_payload t) = h" using table_hash [OF assms(1,2)] by simp
  show "PutObject memstore (table_store objs refs) h (tree_object t) = (table_store ((h, STree t) # objs) refs, Inr ())"
    using table_store_put [of objs refs h "STree t"] by simp
qed

section \<open>A zone with two branches\<close>

text \<open>
  The zone \<open>a.\<close>: a first commit 31 with a SOA of serial 5, a second commit 32 on \<open>main\<close> that
  adds an A record and bumps the serial, a commit 33 on \<open>dev\<close> that adds a TXT record to the
  first one, the merge 34 of the two, and a commit 35 that reverts 32.
\<close>

definition sample_leaf :: "string \<Rightarrow> Hash \<Rightarrow> TreeEntry" where
  "sample_leaf n h = \<lparr>te_Kind = EntryLeaf, te_Name = n, te_Hash = h\<rparr>"

definition sample_ci :: "Hash \<Rightarrow> Hash list \<Rightarrow> Commit" where
  "sample_ci t ps = new_commit t ps sample_id sample_now ''m''"

definition sample_txt_blob :: bytes where
  "sample_txt_blob = [1, 2, 97, 46, 0, 1, 0, 16, 0, 0, 0, 7, 0, 1, 0, 1, 8]"

abbreviation "sample_t21 \<equiv> \<lparr>Entries = [sample_leaf ''SOA'' 11]\<rparr>"
abbreviation "sample_t22 \<equiv> \<lparr>Entries = [sample_leaf ''A'' 13, sample_leaf ''SOA'' 12]\<rparr>"
abbreviation "sample_t23 \<equiv> \<lparr>Entries = [sample_leaf ''SOA'' 11, sample_leaf ''TXT'' 14]\<rparr>"
abbreviation "sample_t24 \<equiv> \<lparr>Entries = [sample_leaf ''A'' 13, sample_leaf ''SOA'' 12, sample_leaf ''TXT'' 14]\<rparr>"
abbreviation "sample_t25 \<equiv> \<lparr>Entries = [sample_leaf ''SOA'' 12]\<rparr>"

definition sample_base_objs :: "(Hash \<times> sobj) list" where
  "sample_base_objs = [(1, SSymref ''refs/heads/a./main''),
     (11, SBlob (sample_soa_blob 5)), (12, SBlob (sample_soa_blob 6)), (13, SBlob sample_a_blob), (14, SBlob sample_txt_blob),
     (21, STree sample_t21), (22, STree sample_t22), (23, STree sample_t23),
     (31, SCommit (sample_ci 21 [])), (32, SCommit (sample_ci 22 [31])), (33, SCommit (sample_ci 23 [31]))]"

definition sample_new_objs :: "(Hash \<times> sobj) list" where
  "sample_new_objs = [(24, STree sample_t24), (25, STree sample_t25), (34, SCommit (sample_ci 24 [32, 33])), (35, SCommit (sample_ci 21 [32]))]"

definition sample_table :: "(Hash \<times> sobj) list" where
  "sample_table = sample_new_objs @ sample_base_objs"

definition tab_sha :: "bytes \<Rightarrow> Hash" where
  "tab_sha = table_sha sample_table"

definition sample_refs :: "(string \<times> Hash) list" where
  "sample_refs = [(''refs/heads/a./main'', 32), (''refs/heads/a./dev'', 33), (''refs/heads/a./old'', 31), (''HEAD'', 1)]"

definition sample_st :: "(Hash \<times> sobj) list \<Rightarrow> MemStore" where
  "sample_st new = table_store (new @ sample_base_objs) sample_refs"

lemma length_hash_String [simp]: "length (hash_String h) = 64"
  by (simp add: hash_String_def)

lemma sample_ci_fields [simp]: "c_Tree (sample_ci t ps) = t" "c_Parents (sample_ci t ps) = ps" "c_Author (sample_ci t ps) = sample_id"
  by (simp_all add: sample_ci_def new_commit_def)

lemma sample_ci_inject [simp]: "sample_ci t ps = sample_ci t' ps' \<longleftrightarrow> t = t' \<and> ps = ps'"
  by (auto simp: sample_ci_def new_commit_def)

lemma sample_ci_ok: "length ps \<le> 2 \<Longrightarrow> sobj_ok (SCommit (sample_ci t ps))"
proof -
  assume ps: "length ps \<le> 2"
  have "length (formatTime sample_now) < 100 \<and> length (Identity_String sample_id) < 100 \<and> length (dec_int commitVersion) < 100 \<and>
    norm_time sample_now = sample_now \<and> TrimRight ''m'' NL = ''m''" by code_simp
  then have t: "length (formatTime sample_now) < 100" "length (Identity_String sample_id) < 100" "length (dec_int commitVersion) < 100"
    "norm_time sample_now = sample_now" "TrimRight ''m'' NL = ''m''" by blast+
  have "length (concat (map (\<lambda>p. ''parent '' @ hash_String p @ [NL]) ps)) = 72 * length ps" by (induction ps) simp_all
  with ps t(1-3) have "length (commit_text (sample_ci t ps)) < 2 ^ 47"
    by (simp add: commit_text_def sample_ci_def new_commit_def)
  moreover have "norm_commit (sample_ci t ps) = sample_ci t ps" using t(4,5) by (simp add: norm_commit_def sample_ci_def new_commit_def)
  moreover have "commit_ok (sample_ci t ps)" using sample_rrsets by (simp add: commit_ok_def sample_ci_def new_commit_def)
  ultimately show ?thesis by simp
qed

lemma sample_leaf_storable: "length n \<le> 255 \<Longrightarrow> storable (sample_leaf n h)"
  by (simp add: storable_def sample_leaf_def EntryKind_IsValid_def)

lemma sample_leaf_sel [simp]: "te_Kind (sample_leaf n h) = EntryLeaf" "te_Name (sample_leaf n h) = n" "te_Hash (sample_leaf n h) = h"
  "te_key (sample_leaf n h) = (EntryLeaf, n)"
  by (simp_all add: sample_leaf_def te_key_def)

lemma sample_leaf_inject [simp]: "sample_leaf n h = sample_leaf n' h' \<longleftrightarrow> n = n' \<and> h = h'"
  by (auto simp: sample_leaf_def)

lemma sample_tree_small:
  "tree_small sample_t21" "tree_small sample_t22" "tree_small sample_t23" "tree_small sample_t24" "tree_small sample_t25"
  by (simp_all add: tree_small_def canonical_def sample_leaf_storable)

lemma sample_tree_length: "tree_small \<lparr>Entries = es\<rparr> \<Longrightarrow> length es < 128 \<Longrightarrow> length (tree_payload \<lparr>Entries = es\<rparr>) < 2 ^ 47"
proof -
  assume small: "tree_small \<lparr>Entries = es\<rparr>" and n: "length es < 128"
  have "length (entry_bytes e) \<le> 289" if "storable e" for e using that by (simp add: entry_bytes_def storable_def)
  then have "length (concat (map entry_bytes es)) \<le> 289 * length es" if "\<forall>e \<in> set es. storable e" for es
    using that by (induction es) fastforce+
  then have "length (concat (map entry_bytes es)) \<le> 289 * length es" using small by (simp add: tree_small_def)
  moreover have "sortEntries es = es" using small by (intro sortEntries_id) (simp add: tree_small_def canonical_def strict_sorted_iff)
  moreover have "length (PutUvarint (length es)) = 1" using n by (simp add: PutUvarint.simps)
  ultimately show ?thesis using n by (simp add: tree_payload_def)
qed

lemma sample_table_ok: "table_ok sample_table"
proof -
  have "\<forall>x \<in> snd ` set sample_table. sobj_ok x"
    using sample_ci_ok sample_tree_length sample_tree_small
    by (simp add: sample_table_def sample_new_objs_def sample_base_objs_def sample_soa_blob_def sample_a_blob_def sample_txt_blob_def
        del: sobj_ok.simps(3) add: sobj_ok.simps(1))
  then show ?thesis
    unfolding table_ok_def by (simp add: sample_table_def sample_new_objs_def sample_base_objs_def sample_soa_blob_def sample_a_blob_def sample_txt_blob_def)
qed

lemma sample_sub: "set new \<subseteq> set sample_table \<Longrightarrow> set (new @ sample_base_objs) \<subseteq> set sample_table"
  by (auto simp: sample_table_def)

lemma sample_st_healthy: "set new \<subseteq> set sample_table \<Longrightarrow> healthy (mem_hist (sample_st new))"
  unfolding sample_st_def by (rule table_store_healthy [OF sample_table_ok sample_sub])

lemma sample_mem:
  "(31, SCommit (sample_ci 21 [])) \<in> set sample_base_objs" "(32, SCommit (sample_ci 22 [31])) \<in> set sample_base_objs"
  "(33, SCommit (sample_ci 23 [31])) \<in> set sample_base_objs" "(21, STree sample_t21) \<in> set sample_base_objs"
  "(22, STree sample_t22) \<in> set sample_base_objs" "(23, STree sample_t23) \<in> set sample_base_objs"
  "(11, SBlob (sample_soa_blob 5)) \<in> set sample_base_objs" "(12, SBlob (sample_soa_blob 6)) \<in> set sample_base_objs"
  "(13, SBlob sample_a_blob) \<in> set sample_base_objs" "(14, SBlob sample_txt_blob) \<in> set sample_base_objs"
  by (simp_all add: sample_base_objs_def)

lemma sample_st_commits:
  assumes "set new \<subseteq> set sample_table"
  shows "loadCommit memstore (sample_st new) 31 = Inr (sample_ci 21 [])" "loadCommit memstore (sample_st new) 32 = Inr (sample_ci 22 [31])"
    "loadCommit memstore (sample_st new) 33 = Inr (sample_ci 23 [31])"
    "TreeOf memstore (sample_st new) 31 = 21" "TreeOf memstore (sample_st new) 32 = 22" "TreeOf memstore (sample_st new) 33 = 23"
  using table_store_commit(1,2) [OF sample_table_ok sample_sub [OF assms], unfolded set_append, OF UnI2, of _ _ sample_refs, folded sample_st_def] sample_mem
  by simp_all

lemma sample_st_trees:
  assumes "set new \<subseteq> set sample_table"
  shows "LoadTree memstore tab_sha (sample_st new) 21 = Inr sample_t21" "LoadTree memstore tab_sha (sample_st new) 22 = Inr sample_t22"
    "LoadTree memstore tab_sha (sample_st new) 23 = Inr sample_t23"
  using table_store_tree [OF sample_table_ok sample_sub [OF assms], unfolded set_append, OF UnI2, of _ _ sample_refs, folded sample_st_def tab_sha_def] sample_mem
  by simp_all

lemma sample_st_blobs:
  assumes "set new \<subseteq> set sample_table"
  shows "GetObject memstore (sample_st new) 11 = Inr (blob_object (sample_soa_blob 5))"
    "GetObject memstore (sample_st new) 12 = Inr (blob_object (sample_soa_blob 6))"
    "GetObject memstore (sample_st new) 13 = Inr (blob_object sample_a_blob)" "GetObject memstore (sample_st new) 14 = Inr (blob_object sample_txt_blob)"
  using table_store_Get [OF sample_table_ok sample_sub [OF assms], unfolded set_append, OF UnI2, of _ _ sample_refs, folded sample_st_def] sample_mem
  by fastforce+

lemma sample_st_roots:
  assumes "set new \<subseteq> set sample_table"
  shows "root_ok memstore tab_sha (sample_st new) 1 21" "root_ok memstore tab_sha (sample_st new) 1 22" "root_ok memstore tab_sha (sample_st new) 1 23"
  using sample_st_trees [OF assms] by (simp_all add: root_ok_def tree_ok.simps)

lemma sample_st_put:
  assumes "(h, x) \<in> set sample_table"
  shows "PutObject memstore (sample_st new) h (sobject x) = (sample_st ((h, x) # new), Inr ())"
  unfolding sample_st_def using table_store_put [of "new @ sample_base_objs" sample_refs h x] by simp

lemma sample_st_PutTree:
  assumes "(h, STree t) \<in> set sample_table"
  shows "PutTree memstore tab_sha (sample_st new) t = (sample_st ((h, STree t) # new), Inr h)"
  unfolding sample_st_def tab_sha_def using table_store_PutTree [OF sample_table_ok assms, of "new @ sample_base_objs" sample_refs] by simp

lemma sample_st_heads:
  assumes "set new \<subseteq> set sample_table"
  shows "ReadHEAD memstore (sample_st new) = Inr (''a.'', ''main'', 32)" "GetBranch memstore (sample_st new) ''a.'' ''dev'' = Inr 33"
    "GetBranch memstore (sample_st new) ''a.'' ''main'' = Inr 32" "GetBranch memstore (sample_st new) ''a.'' ''old'' = Inr 31" "mem_ref (sample_st new) (BranchRef ''a.'' ''main'') = Some 32"
proof -
  have ref: "mem_ref (sample_st new) HeadRef = Some 1" "mem_ref (sample_st new) ''refs/heads/a./main'' = Some 32" "mem_ref (sample_st new) ''refs/heads/a./dev'' = Some 33"
    "mem_ref (sample_st new) ''refs/heads/a./old'' = Some 31"
    by (simp_all add: sample_st_def sample_refs_def)
  have names: "BranchRef ''a.'' ''main'' = ''refs/heads/a./main''" "BranchRef ''a.'' ''dev'' = ''refs/heads/a./dev''"
    "BranchRef ''a.'' ''old'' = ''refs/heads/a./old''"
    using sample_rrsets by (simp_all add: BranchRef_def)
  have "parseBranchTarget (BranchRef ''a.'' ''main'') = Some (CanonZone ''a.'', ''main'')"
    by (rule parseBranchTarget_BranchRef) simp_all
  then have parse: "parseBranchTarget ''refs/heads/a./main'' = Some (''a.'', ''main'')" using sample_rrsets names by simp
  have "(1, sobject (SSymref ''refs/heads/a./main'')) \<in> mem_hist (sample_st new)"
    by (simp add: sample_st_def table_store_hist sample_base_objs_def)
  moreover have "single_valued (mem_hist (sample_st new))" using sample_st_healthy [OF assms] by (simp add: healthy_def)
  ultimately show "ReadHEAD memstore (sample_st new) = Inr (''a.'', ''main'', 32)"
    using mem.ReadHEAD_symref [of "sample_st new" 1 "''refs/heads/a./main''"] ref parse by simp
  show "GetBranch memstore (sample_st new) ''a.'' ''dev'' = Inr 33" "GetBranch memstore (sample_st new) ''a.'' ''main'' = Inr 32"
    "GetBranch memstore (sample_st new) ''a.'' ''old'' = Inr 31"
    using mem.get_ref [of "sample_st new"] ref names by (simp_all add: GetBranch_def get_ref_or_absent_def)
  show "mem_ref (sample_st new) (BranchRef ''a.'' ''main'') = Some 32" using ref names by simp
qed

lemma sample_st_write_commit:
  assumes "(h, SCommit (sample_ci t ps)) \<in> set sample_new_objs" and "set new \<subseteq> set sample_table"
  obtains s' where "write_commit memstore tab_sha (sample_st new) 9 ''a.'' ''main'' 32 (new_commit t ps sample_id sample_now ''m'') op = (s', Inr h)"
    "healthy (mem_hist s')"
proof -
  have mem: "(h, SCommit (sample_ci t ps)) \<in> set sample_table" using assms(1) by (simp add: sample_table_def)
  have hash: "commit_hash tab_sha (sample_ci t ps) = h" "h \<noteq> 0"
    using table_store_commit(3) [OF sample_table_ok subset_refl mem] sample_table_ok mem by (force simp: tab_sha_def table_ok_def)+
  obtain s' res where w: "write_commit memstore tab_sha (sample_st new) 9 ''a.'' ''main'' 32 (new_commit t ps sample_id sample_now ''m'') op = (s', res)"
    by (metis surj_pair)
  note spec = mem.write_commit_spec [OF w, folded sample_ci_def]
  have "res = Inr h" using spec(4) hash sample_st_heads(5) [OF assms(2)] by (simp add: cas_guard_def)
  moreover have "mem_hist s' = mem_hist (sample_st ((h, SCommit (sample_ci t ps)) # new))"
    unfolding spec(1) hash by (simp add: sample_st_def table_store_hist)
  then have "healthy (mem_hist s')" using sample_st_healthy [of "(h, SCommit (sample_ci t ps)) # new"] assms(2) mem by simp
  ultimately show thesis using w that by blast
qed

end
