(* ===== verification/RepoMergeCorrect.thy ===== *)
theory RepoMergeCorrect
  imports SampleTable
begin

text \<open>
  The graph of commits and what \<open>isAncestor\<close>, \<open>MergeBase\<close>, \<open>Merge\<close>, \<open>Revert\<close> and \<open>ResetHard\<close> of
  \<open>pkg/repo/merge.go\<close> compute on it.
\<close>

section \<open>The graph of commits\<close>

definition parents :: "'s Storage \<Rightarrow> 's \<Rightarrow> (Hash \<times> Hash) set" where
  "parents S s = {(h, p). \<exists>c. loadCommit S s h = Inr c \<and> p \<in> set (c_Parents c)}"

text \<open>All commits that can be reached from \<open>h\<close> can be read.\<close>

definition complete :: "'s Storage \<Rightarrow> 's \<Rightarrow> Hash \<Rightarrow> bool" where
  "complete S s h \<longleftrightarrow> (\<forall>x. (h, x) \<in> (parents S s)\<^sup>* \<longrightarrow> (\<exists>c. loadCommit S s x = Inr c))"

lemma complete_load: "complete S s h \<Longrightarrow> \<exists>c. loadCommit S s h = Inr c"
  by (auto simp: complete_def)

lemma complete_reach: "complete S s h \<Longrightarrow> (h, x) \<in> (parents S s)\<^sup>* \<Longrightarrow> complete S s x"
  unfolding complete_def by (meson rtrancl_trans)

lemma parents_Image: "loadCommit S s h = Inr c \<Longrightarrow> parents S s `` {h} = set (c_Parents c)"
  by (auto simp: parents_def)

lemma closed_rtrancl: "\<forall>x \<in> A. R `` {x} \<subseteq> A \<Longrightarrow> R\<^sup>* `` A = A"
  by (rule Image_closed_trancl) auto

lemma rtrancl_Image_absorb:
  assumes "h \<in> A" shows "R\<^sup>* `` (A \<union> R `` {h}) = R\<^sup>* `` A"
  using assms by (auto intro: converse_rtrancl_into_rtrancl)

lemma ancestor_loop_correct:
  assumes "set queue \<subseteq> set seen" and "\<forall>x \<in> set seen - set queue. x \<noteq> anc \<and> parents S s `` {x} \<subseteq> set seen"
    and "\<forall>x \<in> set seen. complete S s x"
  shows "ancestor_loop S s anc queue seen = Inr (anc \<in> (parents S s)\<^sup>* `` set seen)"
  using assms
proof (induction S s anc queue seen rule: ancestor_loop.induct)
  case (1 S s anc seen)
  have "(parents S s)\<^sup>* `` set seen = set seen" using 1 by (intro closed_rtrancl) auto
  with 1 show ?case by auto
next
  case (2 S s anc h queue seen)
  show ?case
  proof (cases "h = anc")
    case True
    then show ?thesis using 2(2) by auto
  next
    case False
    obtain c where c: "loadCommit S s h = Inr c" using complete_load 2(2,4) by (metis list.set_intros(1) subsetD)
    obtain q' seen' where e: "enqueue (c_Parents c) queue seen = (q', seen')" by (metis surj_pair)
    obtain new where new: "q' = queue @ new" "set new = set (c_Parents c) - set seen" "set seen' = set seen \<union> set (c_Parents c)"
      using enqueue_spec [OF e] by blast
    have seen': "set seen' = set seen \<union> parents S s `` {h}" using new(3) parents_Image [OF c] by simp
    have h: "h \<in> set seen" using 2(2) by simp
    have "ancestor_loop S s anc q' seen' = Inr (anc \<in> (parents S s)\<^sup>* `` set seen')"
    proof (rule "2.IH" [OF False c e [symmetric]])
      show "set q' \<subseteq> set seen'" using 2(2) new by auto
      show "\<forall>x \<in> set seen' - set q'. x \<noteq> anc \<and> parents S s `` {x} \<subseteq> set seen'"
      proof
        fix x assume x: "x \<in> set seen' - set q'"
        then have "x \<in> set seen" "x \<notin> set queue" using new by auto
        then show "x \<noteq> anc \<and> parents S s `` {x} \<subseteq> set seen'"
          using 2(3) False seen' by (cases "x = h") auto
      qed
      show "\<forall>x \<in> set seen'. complete S s x"
        using 2(4) h complete_reach [of S s h] unfolding seen' by blast
    qed
    moreover have "(parents S s)\<^sup>* `` set seen' = (parents S s)\<^sup>* `` set seen"
      unfolding seen' by (rule rtrancl_Image_absorb [OF h])
    ultimately show ?thesis using False c e by simp
  qed
qed

lemma isAncestor_iff:
  assumes "complete S s desc" and "anc \<noteq> ZeroHash" and "desc \<noteq> ZeroHash"
  shows "isAncestor S s anc desc = Inr ((desc, anc) \<in> (parents S s)\<^sup>*)"
  using ancestor_loop_correct [of "[desc]" "[desc]" anc S s] assms by (auto simp: isAncestor_def)

lemma ancestor_set_loop_correct:
  assumes "\<forall>x \<in> set out. parents S s `` {x} \<subseteq> set out \<union> set queue" and "\<forall>x \<in> set out \<union> set queue. complete S s x"
  shows "\<exists>res. ancestor_set_loop S s queue out = Inr res \<and> set res = (parents S s)\<^sup>* `` (set out \<union> set queue)"
  using assms
proof (induction S s queue out rule: ancestor_set_loop.induct)
  case (1 S s out)
  then show ?case using closed_rtrancl [of "set out" "parents S s"] by auto
next
  case (2 S s h queue out)
  show ?case
  proof (cases "h \<in> set out")
    case True
    then have "set out \<union> set (h # queue) = set out \<union> set queue" by auto
    with "2.IH"(1) [OF True] 2(3,4) True show ?thesis by simp
  next
    case False
    obtain c where c: "loadCommit S s h = Inr c" using complete_load 2(4) by (metis UnI2 list.set_intros(1))
    let ?q = "queue @ filter (\<lambda>p. p \<notin> set (h # out)) (c_Parents c)"
    have eq: "set (h # out) \<union> set ?q = (set out \<union> set (h # queue)) \<union> parents S s `` {h}"
      using parents_Image [OF c] by auto
    have "\<exists>res. ancestor_set_loop S s ?q (h # out) = Inr res \<and> set res = (parents S s)\<^sup>* `` (set (h # out) \<union> set ?q)"
    proof (rule "2.IH"(2) [OF False c])
      show "\<forall>x \<in> set (h # out). parents S s `` {x} \<subseteq> set (h # out) \<union> set ?q"
        using 2(3) unfolding eq by auto
      show "\<forall>x \<in> set (h # out) \<union> set ?q. complete S s x"
        using 2(4) complete_reach [of S s h] unfolding eq by auto
    qed
    moreover have "(parents S s)\<^sup>* `` (set (h # out) \<union> set ?q) = (parents S s)\<^sup>* `` (set out \<union> set (h # queue))"
      unfolding eq by (rule rtrancl_Image_absorb) simp
    ultimately show ?thesis using False c by simp
  qed
qed

lemma ancestorSet_correct:
  "complete S s root \<Longrightarrow> \<exists>res. ancestorSet S s root = Inr res \<and> set res = (parents S s)\<^sup>* `` {root}"
  using ancestor_set_loop_correct [of "[]" S s "[root]"] by (simp add: ancestorSet_def)

lemma merge_base_loop_correct:
  assumes "set queue \<subseteq> set seen" and "\<forall>x \<in> set seen - set queue. x \<notin> set anc \<and> parents S s `` {x} \<subseteq> set seen"
    and "\<forall>x \<in> set seen. complete S s x"
  shows "\<exists>m. merge_base_loop S s anc queue seen = Inr m \<and>
    (if (parents S s)\<^sup>* `` set seen \<inter> set anc = {} then m = ZeroHash else m \<in> (parents S s)\<^sup>* `` set seen \<inter> set anc)"
  using assms
proof (induction S s anc queue seen rule: merge_base_loop.induct)
  case (1 S s anc seen)
  have "(parents S s)\<^sup>* `` set seen = set seen" using 1 by (intro closed_rtrancl) auto
  with 1 show ?case by auto
next
  case (2 S s anc h queue seen)
  show ?case
  proof (cases "h \<in> set anc")
    case True
    then show ?thesis using 2(2) by auto
  next
    case False
    obtain c where c: "loadCommit S s h = Inr c" using complete_load 2(2,4) by (metis list.set_intros(1) subsetD)
    obtain q' seen' where e: "enqueue (c_Parents c) queue seen = (q', seen')" by (metis surj_pair)
    obtain new where new: "q' = queue @ new" "set new = set (c_Parents c) - set seen" "set seen' = set seen \<union> set (c_Parents c)"
      using enqueue_spec [OF e] by blast
    have seen': "set seen' = set seen \<union> parents S s `` {h}" using new(3) parents_Image [OF c] by simp
    have h: "h \<in> set seen" using 2(2) by simp
    have eq: "(parents S s)\<^sup>* `` set seen' = (parents S s)\<^sup>* `` set seen"
      unfolding seen' by (rule rtrancl_Image_absorb [OF h])
    have "\<exists>m. merge_base_loop S s anc q' seen' = Inr m \<and>
      (if (parents S s)\<^sup>* `` set seen' \<inter> set anc = {} then m = ZeroHash else m \<in> (parents S s)\<^sup>* `` set seen' \<inter> set anc)"
    proof (rule "2.IH" [OF False c e [symmetric]])
      show "set q' \<subseteq> set seen'" using 2(2) new by auto
      show "\<forall>x \<in> set seen' - set q'. x \<notin> set anc \<and> parents S s `` {x} \<subseteq> set seen'"
      proof
        fix x assume x: "x \<in> set seen' - set q'"
        then have "x \<in> set seen" "x \<notin> set queue" using new by auto
        then show "x \<notin> set anc \<and> parents S s `` {x} \<subseteq> set seen'"
          using 2(3) False seen' by (cases "x = h") auto
      qed
      show "\<forall>x \<in> set seen'. complete S s x"
        using 2(4) h complete_reach [of S s h] unfolding seen' by blast
    qed
    then show ?thesis unfolding eq using False c e by simp
  qed
qed

lemma MergeBase_correct:
  assumes "complete S s a" and "complete S s b" and "a \<noteq> ZeroHash" and "b \<noteq> ZeroHash"
  shows "\<exists>m. MergeBase S s a b = Inr m \<and>
    (if (parents S s)\<^sup>* `` {a} \<inter> (parents S s)\<^sup>* `` {b} = {} then m = ZeroHash
     else (a, m) \<in> (parents S s)\<^sup>* \<and> (b, m) \<in> (parents S s)\<^sup>*)"
proof (cases "a = b")
  case True
  then show ?thesis using assms(3) by (auto simp: MergeBase_def)
next
  case False
  obtain res where res: "ancestorSet S s a = Inr res" "set res = (parents S s)\<^sup>* `` {a}"
    using ancestorSet_correct [OF assms(1)] by blast
  from merge_base_loop_correct [of "[b]" "[b]" res S s, unfolded list.set] assms(2) obtain m where
    m: "merge_base_loop S s res [b] [b] = Inr m"
    "if (parents S s)\<^sup>* `` {b} \<inter> set res = {} then m = ZeroHash else m \<in> (parents S s)\<^sup>* `` {b} \<inter> set res"
    by (metis Diff_cancel empty_iff singletonD subset_refl)
  have "MergeBase S s a b = Inr m" using assms(3,4) False res(1) m(1) by (simp add: MergeBase_def)
  with m(2) res(2) show ?thesis by (auto split: if_splits simp: Int_commute)
qed

section \<open>Merge\<close>

text \<open>A history that is complete in the store, with all its trees.\<close>

definition history_ok :: "'s Storage \<Rightarrow> (bytes \<Rightarrow> Hash) \<Rightarrow> 's \<Rightarrow> nat \<Rightarrow> Hash \<Rightarrow> bool" where
  "history_ok S sha s n h \<longleftrightarrow> complete S s h \<and>
     (\<forall>x. (h, x) \<in> (parents S s)\<^sup>* \<longrightarrow> x \<noteq> ZeroHash \<and> root_ok S sha s n (TreeOf S s x))"

lemma history_okD:
  assumes "history_ok S sha s n h"
  shows "complete S s h" and "h \<noteq> ZeroHash" and "root_ok S sha s n (TreeOf S s h)"
    and "(h, x) \<in> (parents S s)\<^sup>* \<Longrightarrow> root_ok S sha s n (TreeOf S s x)"
  using assms by (auto simp: history_ok_def)

lemma TreeOf_zero [simp]: "TreeOf S s ZeroHash = ZeroHash"
  by (simp add: TreeOf_def)

lemma root_ok_zero [simp]: "root_ok S sha s n ZeroHash"
  by (simp add: root_ok_def)

lemma MergeBase_root:
  assumes "history_ok S sha s n a" and "history_ok S sha s n b"
  obtains m where "MergeBase S s a b = Inr m" "root_ok S sha s n (TreeOf S s m)"
    "if (parents S s)\<^sup>* `` {a} \<inter> (parents S s)\<^sup>* `` {b} = {} then m = ZeroHash
     else (a, m) \<in> (parents S s)\<^sup>* \<and> (b, m) \<in> (parents S s)\<^sup>*"
proof -
  obtain m where m: "MergeBase S s a b = Inr m"
    "if (parents S s)\<^sup>* `` {a} \<inter> (parents S s)\<^sup>* `` {b} = {} then m = ZeroHash
     else (a, m) \<in> (parents S s)\<^sup>* \<and> (b, m) \<in> (parents S s)\<^sup>*"
    using MergeBase_correct [OF history_okD(1) [OF assms(1)] history_okD(1) [OF assms(2)]
      history_okD(2) [OF assms(1)] history_okD(2) [OF assms(2)]] by blast
  moreover have "root_ok S sha s n (TreeOf S s m)"
    using m(2) history_okD(4) [OF assms(1), of m] by (auto split: if_splits)
  ultimately show thesis using that by blast
qed

lemma TreeOf_loadCommit: "loadCommit S s h = Inr c \<Longrightarrow> h \<noteq> ZeroHash \<Longrightarrow> TreeOf S s h = c_Tree c"
  by (auto simp: loadCommit_def TreeOf_def split: sum.splits)

definition merge_message :: "string \<Rightarrow> string \<Rightarrow> string \<Rightarrow> string" where
  "merge_message msg theirsName branchName =
     (if msg = [] then ''Merge branch '' @ [CHR 0x27] @ theirsName @ [CHR 0x27] @ '' into '' @ branchName else msg)"

context storage
begin

lemma MergeTrees_grows: "grows s (fst (MergeTrees S sha n s b o3 t))"
proof -
  obtain s1 out r where at: "mergeTreesAt S sha n s [] b o3 t [] = (s1, out, r)" by (metis surj_pair)
  have "fst (MergeTrees S sha n s b o3 t) = s1" unfolding MergeTrees_def at by (auto split: option.splits sum.splits)
  moreover have "grows s s1" using mergeTreesAt_grows [of s sha n "[]" b o3 t "[]"] unfolding at by simp
  ultimately show ?thesis by simp
qed

lemma loadCommit_stable:
  "loadCommit S s h = Inr c \<Longrightarrow> hist s \<subseteq> hist s' \<Longrightarrow> single_valued (hist s') \<Longrightarrow> loadCommit S s' h = Inr c"
  unfolding loadCommit_def by (cases "GetObject S s h") (auto dest: get_stable)

lemma loadCommit_commit:
  assumes "(commit_hash sha c, commit_object c) \<in> hist s" and "healthy (hist s)" and "commit_ok c"
  shows "loadCommit S s (commit_hash sha c) = Inr (norm_commit c)"
  using TreeOf_commit [OF assms] by (simp add: loadCommit_def)

lemma fast_forward_spec:
  assumes "fast_forward S rnow r z b ours theirs author name = (r', res)" and "theirs \<noteq> ZeroHash"
    and "cas_guard (ref (r_storage r) (BranchRef z b)) ours"
  shows "res = Some (Inr (merge_result\<lparr>mr_FastForward := True, mr_Commit := theirs\<rparr>)) \<and>
    ref (r_storage r') = (ref (r_storage r))(BranchRef z b \<mapsto> theirs) \<and> hist (r_storage r') = hist (r_storage r)"
proof -
  obtain s1 q where adv: "advance_branch S (r_storage r) rnow z b ours theirs author ''merge'' (''fast-forward '' @ name) = (s1, q)"
    by (metis surj_pair)
  note spec = advance_branch_spec [OF adv]
  have q: "q = Inr ()" by (rule spec(4) [OF assms(2,3)])
  have "r' = r\<lparr>r_storage := s1\<rparr>" "res = Some (Inr (merge_result\<lparr>mr_FastForward := True, mr_Commit := theirs\<rparr>))"
    using assms(1) unfolding fast_forward_def adv q prod.case sum.case by auto
  with spec(1) spec(2) [OF q] show ?thesis by simp
qed

lemma write_commit_done:
  assumes w: "write_commit S sha s rnow z b p (new_commit t ps author now m) op = (s', Inr h)" and hl: "healthy (hist s')"
    and id: "identity_ok author" "time_ok now" and root: "root_ok S sha s n t"
  shows "zone_of S sha s' (TreeOf S s' h) = zone_of S sha s t" and "\<exists>c. loadCommit S s' h = Inr c \<and> c_Parents c = ps"
    and "ref s' = (ref s)(BranchRef z b \<mapsto> h)"
proof -
  let ?c = "new_commit t ps author now m"
  note spec = write_commit_spec [OF w]
  have h: "h = commit_hash sha ?c" and "ref s' = (ref s)(BranchRef z b \<mapsto> h)" using spec(2) by auto
  then show "ref s' = (ref s)(BranchRef z b \<mapsto> h)" by simp
  have mem: "(commit_hash sha ?c, commit_object ?c) \<in> hist s'" and sub: "hist s \<subseteq> hist s'" using spec(1) by auto
  have ok: "commit_ok ?c" using id by (simp add: new_commit_def commit_ok_def)
  have "TreeOf S s' h = t" unfolding h using TreeOf_commit(1) [OF mem hl ok] by (simp add: new_commit_def)
  then show "zone_of S sha s' (TreeOf S s' h) = zone_of S sha s t"
    using zone_of_stable [OF root sub] hl by (simp add: healthy_def)
  show "\<exists>c. loadCommit S s' h = Inr c \<and> c_Parents c = ps"
    unfolding h loadCommit_commit [OF mem hl ok] by (simp add: norm_commit_def new_commit_def)
qed

lemma three_way_spec:
  fixes r r' :: "'s Repo"
  defines "s \<equiv> r_storage r" and "s' \<equiv> r_storage r'"
  assumes run: "three_way S sha n now rnow r z b ours theirs author msg name = (r', res)" and hl: "healthy (hist s')"
    and hist: "history_ok S sha s n ours" "history_ok S sha s n theirs" and id: "identity_ok author" "time_ok now"
    and guard: "cas_guard (ref s (BranchRef z b)) ours" and base: "MergeBase S s ours theirs = Inr base"
  shows "if conflicts [] (zone_of S sha s (TreeOf S s base)) (zone_of S sha s (TreeOf S s ours)) (zone_of S sha s (TreeOf S s theirs)) = {}
    then \<exists>h c. res = Some (Inr (merge_result\<lparr>mr_Commit := h\<rparr>)) \<and>
      zone_of S sha s' (TreeOf S s' h) =
        merged_map (zone_of S sha s (TreeOf S s base)) (zone_of S sha s (TreeOf S s ours)) (zone_of S sha s (TreeOf S s theirs)) \<and>
      loadCommit S s' h = Inr c \<and> c_Parents c = [ours, theirs] \<and> ref s' = (ref s)(BranchRef z b \<mapsto> h)
    else \<exists>cs. res = Some (Inr (merge_result\<lparr>mr_Conflicts := cs\<rparr>)) \<and> distinct cs \<and>
      set cs = conflicts [] (zone_of S sha s (TreeOf S s base)) (zone_of S sha s (TreeOf S s ours)) (zone_of S sha s (TreeOf S s theirs)) \<and>
      ref s' = ref s \<and> log s' = log s"
proof -
  let ?z = "\<lambda>h. zone_of S sha s (TreeOf S s h)"
  let ?c = "\<lambda>t. new_commit t [ours, theirs] author now (merge_message msg name b)"
  have rb: "root_ok S sha s n (TreeOf S s base)" using MergeBase_root [OF hist] base by (metis Inr_inject)
  note roots = rb history_okD(3) [OF hist(1)] history_okD(3) [OF hist(2)]
  obtain s1 mres where mt: "MergeTrees S sha n s (TreeOf S s base) (TreeOf S s ours) (TreeOf S s theirs) = (s1, mres)" by (metis surj_pair)
  then have g1: "grows s s1" using MergeTrees_grows [of s sha n "TreeOf S s base" "TreeOf S s ours" "TreeOf S s theirs"] by simp
  have tail: "(r', res) = (case mres of None \<Rightarrow> (r\<lparr>r_storage := s1\<rparr>, None)
     | Some (Inl e) \<Rightarrow> (r\<lparr>r_storage := s1\<rparr>, Some (Inl e))
     | Some (Inr (t, cfs)) \<Rightarrow>
         if cfs \<noteq> [] then (r\<lparr>r_storage := s1\<rparr>, Some (Inr (merge_result\<lparr>mr_Conflicts := cfs\<rparr>)))
         else (case write_commit S sha s1 rnow z b ours (?c t) ''merge'' of
            (s2, Inl e) \<Rightarrow> (r\<lparr>r_storage := s2\<rparr>, Some (Inl e))
          | (s2, Inr h) \<Rightarrow> (r\<lparr>r_storage := s2\<rparr>, Some (Inr (merge_result\<lparr>mr_Commit := h\<rparr>)))))"
    unfolding run [symmetric] three_way_def Let_def s_def [symmetric] base sum.case mt prod.case merge_message_def ..
  have "hist s1 \<subseteq> hist s'"
  proof (cases "\<exists>t. mres = Some (Inr (t, []))")
    case True
    then obtain t where t: "mres = Some (Inr (t, []))" by blast
    obtain s2 q where w: "write_commit S sha s1 rnow z b ours (?c t) ''merge'' = (s2, q)" by (metis surj_pair)
    then have "s' = s2" using tail t by (cases q) (simp_all add: s'_def)
    with write_commit_spec(1) [OF w] show ?thesis by auto
  next
    case False
    then have "s' = s1" using tail by (auto simp: s'_def split: option.splits sum.splits if_splits)
    then show ?thesis by simp
  qed
  then have hl1: "healthy (hist s1)" using hl healthy_subset by blast
  from MergeTrees_spec [OF mt hl1 roots] obtain t cs where mres: "mres = Some (Inr (t, cs))" "root_ok S sha s1 n t"
    "zone_of S sha s1 t = merged_map (?z base) (?z ours) (?z theirs)" "distinct cs" "set cs = conflicts [] (?z base) (?z ours) (?z theirs)"
    by blast
  show ?thesis
  proof (cases "cs = []")
    case False
    then have "conflicts [] (?z base) (?z ours) (?z theirs) \<noteq> {}" using mres(5) by (metis set_empty)
    moreover have "s' = s1" "res = Some (Inr (merge_result\<lparr>mr_Conflicts := cs\<rparr>))" using tail mres(1) False by (simp_all add: s'_def)
    ultimately show ?thesis using mres(4,5) g1 by (auto simp: extends_def)
  next
    case True
    then have none: "conflicts [] (?z base) (?z ours) (?z theirs) = {}" using mres(5) by simp
    obtain s2 q where w: "write_commit S sha s1 rnow z b ours (?c t) ''merge'' = (s2, q)" by (metis surj_pair)
    have s2: "s' = s2" using tail mres(1) True w by (cases q) (simp_all add: s'_def)
    note spec = write_commit_spec [OF w]
    have ref1: "ref s1 = ref s" using g1 by (simp add: extends_def)
    have mem: "(commit_hash sha (?c t), commit_object (?c t)) \<in> hist s'" using spec(1) by (simp add: s2)
    then have "commit_hash sha (?c t) \<noteq> ZeroHash" using hl by (auto simp: healthy_def)
    then have q: "q = Inr (commit_hash sha (?c t))" using spec(4) guard by (simp add: ref1)
    then have res: "res = Some (Inr (merge_result\<lparr>mr_Commit := commit_hash sha (?c t)\<rparr>))" using tail mres(1) True w by simp
    note fin = write_commit_done [OF w [unfolded q] hl [unfolded s2] id mres(2)]
    have "ref s' = (ref s)(BranchRef z b \<mapsto> commit_hash sha (?c t))" using fin(3) ref1 by (simp add: s2)
    moreover obtain c where "loadCommit S s' (commit_hash sha (?c t)) = Inr c" "c_Parents c = [ours, theirs]"
      using fin(2) s2 by blast
    moreover have "zone_of S sha s' (TreeOf S s' (commit_hash sha (?c t))) = merged_map (?z base) (?z ours) (?z theirs)"
      using fin(1) mres(3) s2 by simp
    ultimately have "\<exists>h c. res = Some (Inr (merge_result\<lparr>mr_Commit := h\<rparr>)) \<and>
      zone_of S sha s' (TreeOf S s' h) = merged_map (?z base) (?z ours) (?z theirs) \<and>
      loadCommit S s' h = Inr c \<and> c_Parents c = [ours, theirs] \<and> ref s' = (ref s)(BranchRef z b \<mapsto> h)"
      using res by (intro exI [of _ "commit_hash sha (?c t)"] exI [of _ c]) (intro conjI)
    then show ?thesis unfolding if_P [OF none] .
  qed
qed

end

context storage
begin

lemma head_guard:
  "ReadHEAD S s = Inr (z, b, c) \<Longrightarrow> CanonZone z = z \<Longrightarrow> cas_guard (ref s (BranchRef z b)) c"
  by (frule (1) ReadHEAD_branch) (auto simp: cas_guard_def split: option.splits)

lemma Merge_runs:
  fixes r :: "'s Repo"
  defines "s \<equiv> r_storage r"
  assumes "Repo_Merge S sha n now rnow r branch author msg = (r', res)" and "r_staging r = []"
    and "ReadHEAD S s = Inr (z, b, ours)" and "TrimPrefix branch BranchPrefix = name" and "name \<noteq> b" and "GetBranch S s z name = Inr theirs"
    and "history_ok S sha s n ours" and "history_ok S sha s n theirs"
  shows "(r', res) =
    (if (ours, theirs) \<in> (parents S s)\<^sup>* then (r, Some (Inr (merge_result\<lparr>mr_AlreadyUpToDate := True\<rparr>)))
     else if (theirs, ours) \<in> (parents S s)\<^sup>* then fast_forward S rnow r z b ours theirs author name
     else three_way S sha n now rnow r z b ours theirs author msg name)"
proof -
  have nz: "ours \<noteq> ZeroHash" "theirs \<noteq> ZeroHash" and c: "complete S s ours" "complete S s theirs"
    by (rule history_okD(2) [OF assms(8)] history_okD(2) [OF assms(9)] history_okD(1) [OF assms(8)] history_okD(1) [OF assms(9)])+
  have anc: "isAncestor S s theirs ours = Inr ((ours, theirs) \<in> (parents S s)\<^sup>*)" "isAncestor S s ours theirs = Inr ((theirs, ours) \<in> (parents S s)\<^sup>*)"
    by (rule isAncestor_iff [OF c(1) nz(2,1)], rule isAncestor_iff [OF c(2) nz])
  have z: "IsZero ours = False" using nz by simp
  have st: "(r_staging r \<noteq> []) = False" and nm: "(name = b) = False" using assms(3,6) by simp_all
  show ?thesis
    unfolding assms(2) [symmetric] Repo_Merge_def Let_def s_def [symmetric] st assms(4,5,7) sum.case prod.case z nm if_False not_False_eq_True if_True anc
    by (cases "(ours, theirs) \<in> (parents S s)\<^sup>*"; cases "(theirs, ours) \<in> (parents S s)\<^sup>*") (simp_all only: bool.case if_True if_False)
qed

lemma Merge_fast_forward:
  fixes r :: "'s Repo"
  defines "s \<equiv> r_storage r"
  assumes "Repo_Merge S sha n now rnow r branch author msg = (r', res)" and "r_staging r = []"
    and head: "ReadHEAD S s = Inr (z, b, ours)" and "TrimPrefix branch BranchPrefix = name" and "name \<noteq> b" and "GetBranch S s z name = Inr theirs"
    and hist: "history_ok S sha s n ours" "history_ok S sha s n theirs" and canon: "CanonZone z = z"
    and rel: "(ours, theirs) \<in> (parents S s)\<^sup>* \<or> (theirs, ours) \<in> (parents S s)\<^sup>*"
  shows "if (ours, theirs) \<in> (parents S s)\<^sup>* then r' = r \<and> res = Some (Inr (merge_result\<lparr>mr_AlreadyUpToDate := True\<rparr>))
    else res = Some (Inr (merge_result\<lparr>mr_FastForward := True, mr_Commit := theirs\<rparr>)) \<and>
      ref (r_storage r') = (ref s)(BranchRef z b \<mapsto> theirs) \<and> hist (r_storage r') = hist s"
proof -
  note run = Merge_runs [OF assms(2,3) head [unfolded s_def] assms(5,6) assms(7) [unfolded s_def] hist [unfolded s_def], folded s_def]
  show ?thesis
  proof (cases "(ours, theirs) \<in> (parents S s)\<^sup>*")
    case False
    then have "fast_forward S rnow r z b ours theirs author name = (r', res)" using run rel by simp
    from fast_forward_spec [OF this history_okD(2) [OF hist(2)] head_guard [OF head [unfolded s_def] canon]] False show ?thesis
      by (simp add: s_def)
  qed (use run in simp)
qed

lemma Merge_three_way:
  fixes r r' :: "'s Repo"
  defines "s \<equiv> r_storage r" and "s' \<equiv> r_storage r'"
  assumes "Repo_Merge S sha n now rnow r branch author msg = (r', res)" and "r_staging r = []"
    and head: "ReadHEAD S s = Inr (z, b, ours)" and "TrimPrefix branch BranchPrefix = name" and "name \<noteq> b" and "GetBranch S s z name = Inr theirs"
    and hist: "history_ok S sha s n ours" "history_ok S sha s n theirs" and canon: "CanonZone z = z"
    and rel: "(ours, theirs) \<notin> (parents S s)\<^sup>*" "(theirs, ours) \<notin> (parents S s)\<^sup>*" and hl: "healthy (hist s')"
    and id: "identity_ok author" "time_ok now" and base: "MergeBase S s ours theirs = Inr base"
  shows "if conflicts [] (zone_of S sha s (TreeOf S s base)) (zone_of S sha s (TreeOf S s ours)) (zone_of S sha s (TreeOf S s theirs)) = {}
    then \<exists>h c. res = Some (Inr (merge_result\<lparr>mr_Commit := h\<rparr>)) \<and>
      zone_of S sha s' (TreeOf S s' h) =
        merged_map (zone_of S sha s (TreeOf S s base)) (zone_of S sha s (TreeOf S s ours)) (zone_of S sha s (TreeOf S s theirs)) \<and>
      loadCommit S s' h = Inr c \<and> c_Parents c = [ours, theirs] \<and> ref s' = (ref s)(BranchRef z b \<mapsto> h)
    else \<exists>cs. res = Some (Inr (merge_result\<lparr>mr_Conflicts := cs\<rparr>)) \<and> distinct cs \<and>
      set cs = conflicts [] (zone_of S sha s (TreeOf S s base)) (zone_of S sha s (TreeOf S s ours)) (zone_of S sha s (TreeOf S s theirs)) \<and>
      ref s' = ref s \<and> log s' = log s"
proof -
  note run = Merge_runs [OF assms(3,4) head [unfolded s_def] assms(6,7) assms(8) [unfolded s_def] hist [unfolded s_def], folded s_def]
  have "three_way S sha n now rnow r z b ours theirs author msg name = (r', res)" using run rel by simp
  from three_way_spec [OF this hl [unfolded s'_def] hist [unfolded s_def] id head_guard [OF head [unfolded s_def] canon] base [unfolded s_def]]
  show ?thesis unfolding s_def s'_def .
qed

end

section \<open>Revert\<close>

lemma fold_updates_at:
  assumes "\<And>x. x \<in> set xs \<Longrightarrow> path x = p \<Longrightarrow> rt x = t \<Longrightarrow> leaf x = v"
  shows "foldl (\<lambda>z x. zone_update z (path x) (rt x) (leaf x)) z xs p t =
    (if \<exists>x \<in> set xs. path x = p \<and> rt x = t then (if v = ZeroHash then None else Some v) else z p t)"
  using assms by (induction xs rule: rev_induct) (auto simp: zone_update_def)

definition reverted :: "zone_map \<Rightarrow> zone_map \<Rightarrow> zone_map \<Rightarrow> zone_map" where
  "reverted before after cur = (\<lambda>p t. if before p t \<noteq> after p t then before p t else cur p t)"

lemma lookup_names:
  "tree_ok S sha s n h \<Longrightarrow> lookup S sha s h p rt = Some x \<Longrightarrow> x \<noteq> ZeroHash \<and> rt \<noteq> [] \<and> [] \<notin> set p"
proof (induction n arbitrary: h p)
  case (Suc n)
  then obtain t where t: "LoadTree S sha s h = Inr t" "node_ok S sha s n t" by (auto simp: tree_ok_Suc)
  have ent: "te_Name e = nm \<and> te_Name e \<noteq> [] \<and> te_Hash e \<noteq> ZeroHash" if "Get t k nm = Some e" for k nm e
    using that t(2) unfolding Get_canonical [OF node_ok_canonical [OF t(2)]] by (auto simp: node_ok_def te_key_def)
  show ?case
  proof (cases p)
    case Nil
    with Suc.prems(2) show ?thesis unfolding lookup_node [OF t(1)] using ent by (fastforce simp: node_lookup_def split: option.splits)
  next
    case (Cons l q)
    then obtain e where e: "Get t EntrySubtree l = Some e" "lookup S sha s (te_Hash e) q rt = Some x"
      using Suc.prems(2) unfolding lookup_node [OF t(1)] by (auto simp: node_lookup_def split: option.splits)
    have "tree_ok S sha s n (te_Hash e)" using node_ok_Get [OF t(2)] e(1) by simp
    from Suc.IH [OF this e(2)] ent [OF e(1)] Cons show ?thesis by auto
  qed
qed simp

lemma zone_of_names:
  "root_ok S sha s n h \<Longrightarrow> zone_of S sha s h p rt = Some x \<Longrightarrow> x \<noteq> ZeroHash \<and> rt \<noteq> [] \<and> [] \<notin> set p"
  by (auto simp: root_ok_def zone_of_def dest: lookup_names split: if_splits)

context storage
begin

lemma apply_inverse_grows: "grows s (fst (apply_inverse S sha chs s tree))"
proof (induction chs arbitrary: s tree)
  case (Cons ch chs)
  have "grows s (fst (UpdateTree S sha s tree (ch_Path ch) (ch_RRType ch) (inverse_leaf ch)))" by (rule UpdateTree_grows)
  with Cons show ?case by (auto split: prod.splits sum.splits intro: extends_trans)
qed simp

lemma apply_inverse_zone:
  assumes "apply_inverse S sha chs s tree = (s', Inr tree')" and "root_ok S sha s n tree"
    and "\<forall>ch \<in> set chs. ch_RRType ch \<noteq> [] \<and> [] \<notin> set (ch_Path ch)" and "healthy (hist s')"
  shows "\<exists>n'. root_ok S sha s' n' tree' \<and> zone_of S sha s' tree' =
    foldl (\<lambda>z ch. zone_update z (ch_Path ch) (ch_RRType ch) (inverse_leaf ch)) (zone_of S sha s tree) chs"
  using assms
proof (induction chs arbitrary: s tree n)
  case (Cons ch chs)
  obtain s1 t1 where u: "UpdateTree S sha s tree (ch_Path ch) (ch_RRType ch) (inverse_leaf ch) = (s1, Inr t1)"
    and rest: "apply_inverse S sha chs s1 t1 = (s', Inr tree')"
    using Cons.prems(1) by (auto split: prod.splits sum.splits)
  have "hist s1 \<subseteq> hist s'" using apply_inverse_grows [of s1 sha chs t1] rest by (simp add: extends_def)
  then have "healthy (hist s1)" using Cons.prems(4) healthy_subset by blast
  then have u1: "root_ok S sha s1 (Suc (n + length (ch_Path ch))) t1"
    "zone_of S sha s1 t1 = zone_update (zone_of S sha s tree) (ch_Path ch) (ch_RRType ch) (inverse_leaf ch)"
    using UpdateTree_zone [OF u Cons.prems(2)] Cons.prems(3) by auto
  from Cons.IH [OF rest u1(1)] Cons.prems(3,4) show ?case by (auto simp: u1(2))
qed auto

lemma inverse_changes:
  assumes "root_ok S sha s n a" and "root_ok S sha s n b"
    and "set chs = changes [] (zone_of S sha s a) (zone_of S sha s b)"
  shows "foldl (\<lambda>z ch. zone_update z (ch_Path ch) (ch_RRType ch) (inverse_leaf ch)) cur chs
      = reverted (zone_of S sha s a) (zone_of S sha s b) cur"
    and "\<forall>ch \<in> set chs. ch_RRType ch \<noteq> [] \<and> [] \<notin> set (ch_Path ch)"
proof -
  let ?a = "zone_of S sha s a" and ?b = "zone_of S sha s b"
  have mem: "ch \<in> set chs \<longleftrightarrow> (\<exists>p t. ch = change_of p t (?a p t) (?b p t) \<and> ?a p t \<noteq> ?b p t)" for ch
    unfolding assms(3) changes_def by auto
  have leaf: "inverse_leaf (change_of p t x y) = (case x of None \<Rightarrow> ZeroHash | Some h \<Rightarrow> h)" if "x \<noteq> y" for p t x y
    using that by (auto simp: inverse_leaf_def change_of_def split: option.splits)
  show "\<forall>ch \<in> set chs. ch_RRType ch \<noteq> [] \<and> [] \<notin> set (ch_Path ch)"
  proof
    fix ch assume "ch \<in> set chs"
    then obtain p t where ch: "ch = change_of p t (?a p t) (?b p t)" "?a p t \<noteq> ?b p t" using mem by blast
    then consider x where "?a p t = Some x" | x where "?b p t = Some x" by (cases "?a p t"; cases "?b p t") auto
    then show "ch_RRType ch \<noteq> [] \<and> [] \<notin> set (ch_Path ch)"
      using zone_of_names [OF assms(1), of p t] zone_of_names [OF assms(2), of p t] by cases (auto simp: ch(1))
  qed
  show "foldl (\<lambda>z ch. zone_update z (ch_Path ch) (ch_RRType ch) (inverse_leaf ch)) cur chs = reverted ?a ?b cur"
  proof (intro ext)
    fix p t
    let ?v = "case ?a p t of None \<Rightarrow> ZeroHash | Some h \<Rightarrow> h"
    have "foldl (\<lambda>z ch. zone_update z (ch_Path ch) (ch_RRType ch) (inverse_leaf ch)) cur chs p t =
      (if \<exists>ch \<in> set chs. ch_Path ch = p \<and> ch_RRType ch = t then (if ?v = ZeroHash then None else Some ?v) else cur p t)"
      by (rule fold_updates_at) (auto simp: mem leaf)
    moreover have "(\<exists>ch \<in> set chs. ch_Path ch = p \<and> ch_RRType ch = t) \<longleftrightarrow> ?a p t \<noteq> ?b p t"
      using mem by (metis change_of_sel)
    moreover have "(if ?v = ZeroHash then None else Some ?v) = ?a p t"
      using zone_of_names [OF assms(1), of p t] by (auto split: option.splits)
    ultimately show "foldl (\<lambda>z ch. zone_update z (ch_Path ch) (ch_RRType ch) (inverse_leaf ch)) cur chs p t = reverted ?a ?b cur p t"
      by (simp add: reverted_def)
  qed
qed

end

context storage
begin

lemma Revert_spec:
  fixes r r' :: "'s Repo"
  defines "s \<equiv> r_storage r" and "s' \<equiv> r_storage r'"
  assumes run: "Repo_Revert S sha n now rnow r refish author msg = (r', Some (Inr h))" and hl: "healthy (hist s')"
    and tgt: "Resolve S s refish = Inr target" "loadCommit S s target = Inr tc" "first_parent_tree S s tc = Inr pt"
    and head: "ReadHEAD S s = Inr (z, b, head)"
    and roots: "root_ok S sha s n pt" "root_ok S sha s n (c_Tree tc)" "root_ok S sha s n (TreeOf S s head)"
    and id: "identity_ok author" "time_ok now"
  shows "zone_of S sha s' (TreeOf S s' h) = reverted (zone_of S sha s pt) (zone_of S sha s (c_Tree tc)) (zone_of S sha s (TreeOf S s head))"
    and "\<exists>c. loadCommit S s' h = Inr c \<and> c_Parents c = [head]" and "ref s' = (ref s)(BranchRef z b \<mapsto> h)"
proof -
  obtain chs where chs: "Diff S sha s n pt (c_Tree tc) = Some (Inr chs)"
    "set chs = changes [] (zone_of S sha s pt) (zone_of S sha s (c_Tree tc))"
    using Diff_spec [OF roots(1,2)] by blast
  have nz: "head \<noteq> ZeroHash" and st: "(r_staging r \<noteq> []) = False" using run tgt head unfolding Repo_Revert_def Let_def s_def [symmetric] by (auto split: if_splits)
  obtain hc where hc: "loadCommit S s head = Inr hc"
    using run tgt head nz st unfolding Repo_Revert_def Let_def s_def [symmetric] by (auto split: if_splits sum.splits)
  have tree: "TreeOf S s head = c_Tree hc" by (rule TreeOf_loadCommit [OF hc nz])
  obtain s1 t where app: "apply_inverse S sha chs s (c_Tree hc) = (s1, Inr t)" and "chs \<noteq> []" "t \<noteq> c_Tree hc"
    and w: "write_commit S sha s1 rnow z b head (new_commit t [head] author now (if msg = [] then revert_message tc target else msg)) ''revert'' = (s', Inr h)"
    using run tgt head nz st hc chs(1) unfolding Repo_Revert_def Let_def s_def [symmetric] s'_def
    by (auto split: if_splits sum.splits prod.splits)
  have "hist s1 \<subseteq> hist s'" using write_commit_spec(1) [OF w] by auto
  then have hl1: "healthy (hist s1)" using hl healthy_subset by blast
  note inv = inverse_changes [OF roots(1,2) chs(2)]
  from apply_inverse_zone [OF app roots(3) [unfolded tree] inv(2) hl1] obtain n' where
    t: "root_ok S sha s1 n' t" "zone_of S sha s1 t = reverted (zone_of S sha s pt) (zone_of S sha s (c_Tree tc)) (zone_of S sha s (c_Tree hc))"
    unfolding inv(1) by blast
  have ref1: "ref s1 = ref s" using apply_inverse_grows [of s sha chs "c_Tree hc"] app by (simp add: extends_def)
  note fin = write_commit_done [OF w hl id t(1)]
  show "zone_of S sha s' (TreeOf S s' h) = reverted (zone_of S sha s pt) (zone_of S sha s (c_Tree tc)) (zone_of S sha s (TreeOf S s head))"
    using fin(1) t(2) tree by simp
  show "\<exists>c. loadCommit S s' h = Inr c \<and> c_Parents c = [head]" by (rule fin(2))
  show "ref s' = (ref s)(BranchRef z b \<mapsto> h)" using fin(3) ref1 by simp
qed

lemma ResetHard_spec:
  assumes "Repo_ResetHard S rnow r refish author = (r', res)" and "Resolve S (r_storage r) refish = Inr target" and "target \<noteq> ZeroHash"
    and "ReadHEAD S (r_storage r) = Inr (z, b, head)" and "CanonZone z = z"
  shows "res = Inr target \<and> r_staging r' = [] \<and> r_activeZone r' = r_activeZone r \<and> hist (r_storage r') = hist (r_storage r) \<and>
    ref (r_storage r') = (ref (r_storage r))(BranchRef z b \<mapsto> target)"
proof -
  have guard: "cas_guard (ref (r_storage r) (BranchRef z b)) head" by (rule head_guard [OF assms(4,5)])
  show ?thesis
  proof (cases "head = target")
    case True
    then have "ref (r_storage r) (BranchRef z b) = Some target"
      using guard assms(3) by (auto simp: cas_guard_def split: option.splits)
    then have "(ref (r_storage r))(BranchRef z b \<mapsto> target) = ref (r_storage r)" by auto
    moreover have "r' = r\<lparr>r_staging := []\<rparr>" "res = Inr target" using assms(1,2,4) True by (auto simp: Repo_ResetHard_def)
    ultimately show ?thesis by simp
  next
    case False
    obtain s1 q where adv: "advance_branch S (r_storage r) rnow z b head target author ''reset'' (''reset --hard '' @ refish) = (s1, q)"
      by (metis surj_pair)
    note spec = advance_branch_spec [OF adv]
    have q: "q = Inr ()" by (rule spec(4) [OF assms(3) guard])
    have "r' = r\<lparr>r_storage := s1, r_staging := []\<rparr>" "res = Inr target"
      using assms(1,2,4) False adv q by (auto simp: Repo_ResetHard_def)
    with spec(1) spec(2) [OF q] show ?thesis by simp
  qed
qed

end

section \<open>Examples\<close>

lemma history_okI:
  assumes "h \<in> A" and "\<forall>x \<in> A. x \<noteq> ZeroHash \<and> (\<exists>c. loadCommit S s x = Inr c \<and> set (c_Parents c) \<subseteq> A \<and> root_ok S sha s n (c_Tree c))"
  shows "history_ok S sha s n h" and "(h, x) \<in> (parents S s)\<^sup>* \<Longrightarrow> x \<in> A"
proof -
  have "parents S s `` {x} \<subseteq> A" if "x \<in> A" for x using assms(2) that by (fastforce simp: parents_def)
  then have closed: "(parents S s)\<^sup>* `` A = A" by (intro closed_rtrancl) blast
  then show r: "x \<in> A" if "(h, x) \<in> (parents S s)\<^sup>*" for x using assms(1) that by blast
  have "\<exists>c. loadCommit S s x = Inr c" "x \<noteq> ZeroHash" "root_ok S sha s n (TreeOf S s x)" if "(h, x) \<in> (parents S s)\<^sup>*" for x
    using assms(2) r [OF that] TreeOf_loadCommit [of S s x] by force+
  then show "history_ok S sha s n h" by (auto simp: history_ok_def complete_def)
qed

lemma sample_histories:
  "history_ok memstore tab_sha (sample_st []) 1 32" "history_ok memstore tab_sha (sample_st []) 1 33"
  "(32, 33) \<notin> (parents memstore (sample_st []))\<^sup>*" "(33, 32) \<notin> (parents memstore (sample_st []))\<^sup>*"
  "history_ok memstore tab_sha (sample_st []) 1 31"
proof -
  have ok: "\<forall>x \<in> {32, 31}. x \<noteq> ZeroHash \<and> (\<exists>c. loadCommit memstore (sample_st []) x = Inr c \<and>
      set (c_Parents c) \<subseteq> {32, 31} \<and> root_ok memstore tab_sha (sample_st []) 1 (c_Tree c))"
    "\<forall>x \<in> {33, 31}. x \<noteq> ZeroHash \<and> (\<exists>c. loadCommit memstore (sample_st []) x = Inr c \<and>
      set (c_Parents c) \<subseteq> {33, 31} \<and> root_ok memstore tab_sha (sample_st []) 1 (c_Tree c))"
    using sample_st_commits [of "[]"] sample_st_roots [of "[]"] by simp_all
  note 1 = history_okI [OF _ ok(1), of 32] and 2 = history_okI [OF _ ok(2), of 33]
  show "history_ok memstore tab_sha (sample_st []) 1 32" "history_ok memstore tab_sha (sample_st []) 1 33"
    "history_ok memstore tab_sha (sample_st []) 1 31"
    by (rule 1(1) 2(1) history_okI(1) [OF _ ok(1), of 31], simp)+
  show "(32, 33) \<notin> (parents memstore (sample_st []))\<^sup>*" "(33, 32) \<notin> (parents memstore (sample_st []))\<^sup>*"
    using 1(2) [of 33] 2(2) [of 32] by auto
qed

lemma sample_base: "MergeBase memstore (sample_st []) 32 33 = Inr 31"
  using sample_st_commits [of "[]"] by (simp add: MergeBase_def ancestorSet_def)

definition sample_two :: "MemStore Repo" where
  "sample_two = \<lparr>r_storage = sample_st [], r_staging = [], r_activeZone = ''a.''\<rparr>"

lemma sample_merge_trees:
  "MergeTrees memstore tab_sha 1 (sample_st []) 21 22 23 = (sample_st [(24, STree sample_t24)], Some (Inr (24, [])))"
proof -
  have load: "load_or_empty memstore tab_sha (sample_st []) h = LoadTree memstore tab_sha (sample_st []) h" if "h \<noteq> ZeroHash" for h
    using that by (simp add: load_or_empty_def)
  have loop: "merge_loop memstore tab_sha 0 s [] (Entries sample_t21) (Entries sample_t22) (Entries sample_t23) [] []
      = (s, [], Some (Inr (Entries sample_t24)))" for s
    by (simp add: merge_loop.simps minKey_def minKey_step_def lessKN_def advance_def resolveLeaf_def add_entry_def)
  have put: "PutTree memstore tab_sha (sample_st []) sample_t24 = (sample_st [(24, STree sample_t24)], Inr 24)"
    by (rule sample_st_PutTree) (simp add: sample_table_def sample_new_objs_def)
  have "mergeTreesAt memstore tab_sha 1 (sample_st []) [] 21 22 23 [] = (sample_st [(24, STree sample_t24)], [], Some (Inr 24))"
    using sample_st_trees [of "[]"] loop put by (subst mergeTreesAt.simps) (simp add: load)
  then show ?thesis by (simp add: MergeTrees_def sortConflicts_def)
qed

lemma sample_merge_run:
  obtains r' where "Repo_Merge memstore tab_sha 1 sample_now 9 sample_two ''dev'' sample_id ''m'' = (r', Some (Inr (merge_result\<lparr>mr_Commit := 34\<rparr>)))"
    "healthy (mem_hist (r_storage r'))"
proof -
  have new: "set [(24, STree sample_t24)] \<subseteq> set sample_table" "(34, SCommit (sample_ci 24 [32, 33])) \<in> set sample_new_objs"
    by (simp_all add: sample_table_def sample_new_objs_def)
  obtain s' where w: "write_commit memstore tab_sha (sample_st [(24, STree sample_t24)]) 9 ''a.'' ''main'' 32
      (new_commit 24 [32, 33] sample_id sample_now ''m'') ''merge'' = (s', Inr 34)" "healthy (mem_hist s')"
    by (rule sample_st_write_commit [OF new(2,1)])
  have head: "ReadHEAD memstore (r_storage sample_two) = Inr (''a.'', ''main'', 32)" "GetBranch memstore (r_storage sample_two) ''a.'' ''dev'' = Inr 33"
    using sample_st_heads [of "[]"] by (simp_all add: sample_two_def)
  have "three_way memstore tab_sha 1 sample_now 9 sample_two ''a.'' ''main'' 32 33 sample_id ''m'' ''dev''
      = (sample_two\<lparr>r_storage := s'\<rparr>, Some (Inr (merge_result\<lparr>mr_Commit := 34\<rparr>)))"
    using sample_base sample_merge_trees sample_st_commits [of "[]"] w(1) by (simp add: three_way_def sample_two_def Let_def)
  moreover obtain r' res where run: "Repo_Merge memstore tab_sha 1 sample_now 9 sample_two ''dev'' sample_id ''m'' = (r', res)"
    by (metis surj_pair)
  have "TrimPrefix ''dev'' BranchPrefix = ''dev''" by code_simp
  from mem.Merge_runs [OF run _ head(1) this _ head(2)] sample_histories
  have "(r', res) = three_way memstore tab_sha 1 sample_now 9 sample_two ''a.'' ''main'' 32 33 sample_id ''m'' ''dev''"
    by (simp add: sample_two_def)
  ultimately show thesis using that [of "sample_two\<lparr>r_storage := s'\<rparr>"] run w(2) by simp
qed

lemma sample_inverse:
  "apply_inverse memstore tab_sha [change_of [] ''A'' None (Some 13), change_of [] ''SOA'' (Some 11) (Some 12)] (sample_st []) 22
    = (sample_st [(21, STree sample_t21), (25, STree sample_t25)], Inr 21)"
proof -
  have leaf: "setLeaf sample_t22 ''A'' 0 = sample_t25" "setLeaf sample_t25 ''SOA'' 11 = sample_t21"
    unfolding sample_leaf_def by code_simp+
  have put: "PutTree memstore tab_sha (sample_st []) sample_t25 = (sample_st [(25, STree sample_t25)], Inr 25)"
    "PutTree memstore tab_sha (sample_st [(25, STree sample_t25)]) sample_t21 = (sample_st [(21, STree sample_t21), (25, STree sample_t25)], Inr 21)"
    by (rule sample_st_PutTree, simp add: sample_table_def sample_new_objs_def sample_base_objs_def)+
  have "LoadTree memstore tab_sha (sample_st [(25, STree sample_t25)]) 25 = Inr sample_t25"
    unfolding sample_st_def tab_sha_def
    by (rule table_store_tree [OF sample_table_ok sample_sub]) (simp_all add: sample_table_def sample_new_objs_def)
  with put leaf show ?thesis
    using sample_st_trees(2) [of "[]"] by (simp add: UpdateTree_root inverse_leaf_def change_of_def)
qed

lemma sample_diff: "Diff memstore tab_sha (sample_st []) 1 21 22 = Some (Inr [change_of [] ''A'' None (Some 13), change_of [] ''SOA'' (Some 11) (Some 12)])"
proof -
  have e: "Entries sample_t21 = [sample_leaf ''SOA'' 11]" "Entries sample_t22 = [sample_leaf ''A'' 13, sample_leaf ''SOA'' 12]" by simp_all
  have c: "hist_cmpEntry (sample_leaf ''SOA'' 11) (sample_leaf ''A'' 13) = 1" "hist_cmpEntry (sample_leaf ''SOA'' 11) (sample_leaf ''SOA'' 12) = 0"
    unfolding sample_leaf_def by code_simp+
  have s: "sort_key (\<lambda>c. (Change_FQDN c, ch_RRType c)) [change_of [] ''A'' None (Some 13), change_of [] ''SOA'' (Some 11) (Some 12)]
      = [change_of [] ''A'' None (Some 13), change_of [] ''SOA'' (Some 11) (Some 12)]" by code_simp
  have "diff_entries memstore tab_sha (sample_st []) 0 [] [sample_leaf ''SOA'' 11] [sample_leaf ''A'' 13, sample_leaf ''SOA'' 12] []
      = Some (Inr [change_of [] ''A'' None (Some 13), change_of [] ''SOA'' (Some 11) (Some 12)])"
    by (simp add: c diff_entries.simps emitOnlySide.simps only_side_change_def change_of_def)
  then have "diffWalk memstore tab_sha (sample_st []) 1 [] 21 22 []
      = Some (Inr [change_of [] ''A'' None (Some 13), change_of [] ''SOA'' (Some 11) (Some 12)])"
    using sample_st_trees(1,2) [of "[]"] by (subst diffWalk.simps) (simp add: load_or_empty_def)
  with s show ?thesis by (simp add: Diff_def)
qed

lemma sample_first_parent: "first_parent_tree memstore (sample_st []) (sample_ci 22 [31]) = Inr 21"
  using sample_st_commits [of "[]"] by (simp add: first_parent_tree_def)

lemma sample_resolve_head: "Resolve memstore (sample_st []) ''HEAD'' = Inr 32"
proof -
  have "splitAncestor ''HEAD'' = (''HEAD'', 0)" by (rule splitAncestor_plain) simp
  moreover have "length ''HEAD'' \<noteq> 2 * HashSize" by simp
  ultimately show ?thesis using sample_st_heads(1) [of "[]"] by (simp add: Resolve_def resolveBase_def)
qed

lemma sample_revert_run:
  obtains r' where "Repo_Revert memstore tab_sha 1 sample_now 9 sample_two ''HEAD'' sample_id ''m'' = (r', Some (Inr 35))"
    "healthy (mem_hist (r_storage r'))"
proof -
  let ?new = "[(21, STree sample_t21), (25, STree sample_t25)]"
  have new: "set ?new \<subseteq> set sample_table" "(35, SCommit (sample_ci 21 [32])) \<in> set sample_new_objs"
    by (simp_all add: sample_table_def sample_new_objs_def sample_base_objs_def)
  obtain s' where w: "write_commit memstore tab_sha (sample_st ?new) 9 ''a.'' ''main'' 32
      (new_commit 21 [32] sample_id sample_now ''m'') ''revert'' = (s', Inr 35)" "healthy (mem_hist s')"
    by (rule sample_st_write_commit [OF new(2,1)])
  have "Repo_Revert memstore tab_sha 1 sample_now 9 sample_two ''HEAD'' sample_id ''m'' = (sample_two\<lparr>r_storage := s'\<rparr>, Some (Inr 35))"
    using sample_resolve_head sample_st_commits [of "[]"] sample_first_parent sample_st_heads(1) [of "[]"] sample_diff sample_inverse w(1)
    by (simp add: Repo_Revert_def sample_two_def)
  with w(2) show thesis by (intro that [of "sample_two\<lparr>r_storage := s'\<rparr>"]) simp_all
qed

section \<open>Properties\<close>

text \<open>
  C36: \<open>isAncestor\<close> decides reachability in the graph of commits: on a complete history it
  answers without an error, and with true exactly when there is a path of parent links,
  through merge commits too, from the descendant to the ancestor.
\<close>

theorem is_ancestor_correct:
  assumes "complete S s desc" and "anc \<noteq> ZeroHash" and "desc \<noteq> ZeroHash"
  shows "isAncestor S s anc desc = Inr ((desc, anc) \<in> (parents S s)\<^sup>*)"
  using assms by (rule isAncestor_iff)

theorem is_ancestor_correct_witness:
  "isAncestor memstore (sample_st []) 31 32 = Inr True \<and> isAncestor memstore (sample_st []) 33 32 = Inr False"
proof -
  have c: "complete memstore (sample_st []) 32" by (rule history_okD(1) [OF sample_histories(1)])
  have "(32, 31) \<in> parents memstore (sample_st [])" using sample_st_commits(2) [of "[]"] by (simp add: parents_def)
  then show ?thesis
    using is_ancestor_correct [OF c, of 31] is_ancestor_correct [OF c, of 33] sample_histories(3) by auto
qed

text \<open>
  C35: \<open>MergeBase\<close> of two complete histories ends without an error and gives a common
  ancestor of the two commits, or the zero hash exactly when they have none.
\<close>

theorem merge_base_common:
  assumes "complete S s a" and "complete S s b" and "a \<noteq> ZeroHash" and "b \<noteq> ZeroHash" and "\<not> complete S s ZeroHash"
  shows "\<exists>m. MergeBase S s a b = Inr m \<and>
    (m = ZeroHash \<longleftrightarrow> \<not> (\<exists>x. (a, x) \<in> (parents S s)\<^sup>* \<and> (b, x) \<in> (parents S s)\<^sup>*)) \<and>
    (m \<noteq> ZeroHash \<longrightarrow> (a, m) \<in> (parents S s)\<^sup>* \<and> (b, m) \<in> (parents S s)\<^sup>*)"
proof -
  obtain m where m: "MergeBase S s a b = Inr m" "if (parents S s)\<^sup>* `` {a} \<inter> (parents S s)\<^sup>* `` {b} = {} then m = ZeroHash
     else (a, m) \<in> (parents S s)\<^sup>* \<and> (b, m) \<in> (parents S s)\<^sup>*"
    using MergeBase_correct [OF assms(1-4)] by blast
  moreover have "(a, ZeroHash) \<notin> (parents S s)\<^sup>*" using complete_reach [OF assms(1)] assms(5) by blast
  ultimately show ?thesis by (cases "(parents S s)\<^sup>* `` {a} \<inter> (parents S s)\<^sup>* `` {b} = {}") auto
qed

theorem merge_base_common_witness:
  "(32, 31) \<in> (parents memstore (sample_st []))\<^sup>* \<and> (33, 31) \<in> (parents memstore (sample_st []))\<^sup>*"
proof -
  have "(0, sobject x) \<notin> mem_hist (sample_st [])" for x using sample_st_healthy [of "[]"] by (auto simp: healthy_def)
  then have "0 \<notin> Domain (mem_hist (sample_st []))" using sample_st_healthy [of "[]"] by (simp add: healthy_def)
  then have "GetObject memstore (sample_st []) 0 = Inl ErrNotFound" by (rule mem.get_absent)
  then have z: "\<not> complete memstore (sample_st []) 0" by (auto simp: complete_def loadCommit_def)
  from merge_base_common [OF history_okD(1) [OF sample_histories(1)] history_okD(1) [OF sample_histories(2)] _ _ z] sample_base
  show ?thesis by auto
qed

text \<open>
  \<open>Merge\<close> when one side contains the other: it does nothing and says so when the other
  branch is already contained, and otherwise moves the branch forward to the other tip
  and nothing else.
\<close>

theorem merge_fast_forwards:
  assumes "Repo_Merge memstore sha n now rnow r branch author msg = (r', res)" and "r_staging r = []"
    and "ReadHEAD memstore (r_storage r) = Inr (z, b, ours)" and "TrimPrefix branch BranchPrefix = name" and "name \<noteq> b"
    and "GetBranch memstore (r_storage r) z name = Inr theirs"
    and "history_ok memstore sha (r_storage r) n ours" and "history_ok memstore sha (r_storage r) n theirs" and "CanonZone z = z"
    and "(ours, theirs) \<in> (parents memstore (r_storage r))\<^sup>* \<or> (theirs, ours) \<in> (parents memstore (r_storage r))\<^sup>*"
  shows "if (ours, theirs) \<in> (parents memstore (r_storage r))\<^sup>*
    then r' = r \<and> res = Some (Inr (merge_result\<lparr>mr_AlreadyUpToDate := True\<rparr>))
    else res = Some (Inr (merge_result\<lparr>mr_FastForward := True, mr_Commit := theirs\<rparr>)) \<and>
      mem_ref (r_storage r') = (mem_ref (r_storage r))(BranchRef z b \<mapsto> theirs) \<and> mem_hist (r_storage r') = mem_hist (r_storage r)"
  using assms by (rule mem.Merge_fast_forward)

theorem merge_fast_forwards_witness:
  "Repo_Merge memstore tab_sha 1 sample_now 9 sample_two ''old'' sample_id ''m''
    = (sample_two, Some (Inr (merge_result\<lparr>mr_AlreadyUpToDate := True\<rparr>)))"
proof -
  obtain r' res where run: "Repo_Merge memstore tab_sha 1 sample_now 9 sample_two ''old'' sample_id ''m'' = (r', res)" by (metis surj_pair)
  have s: "r_storage sample_two = sample_st []" "r_staging sample_two = []" by (simp_all add: sample_two_def)
  have head: "ReadHEAD memstore (r_storage sample_two) = Inr (''a.'', ''main'', 32)" "GetBranch memstore (r_storage sample_two) ''a.'' ''old'' = Inr 31"
    "CanonZone ''a.'' = ''a.''"
    using sample_st_heads [of "[]"] sample_rrsets by (simp_all add: s)
  have name: "TrimPrefix ''old'' BranchPrefix = ''old''" "''old'' \<noteq> ''main''" by code_simp+
  have rel: "(32, 31) \<in> (parents memstore (sample_st []))\<^sup>*"
    using sample_st_commits(2) [of "[]"] by (intro r_into_rtrancl) (simp add: parents_def)
  from merge_fast_forwards [OF run s(2) head(1) name head(2) sample_histories(1,5) [folded s(1)] head(3) disjI1 [OF rel [folded s(1)]]] rel
  show ?thesis unfolding run by (simp add: s(1))
qed

text \<open>
  C2: \<open>Merge\<close> of two histories that have diverged.  Without conflicts it writes a commit with
  both tips as parents whose contents are the three-way merge of the contents of the two
  tips over their merge base, and moves this branch to it; with conflicts it lists
  exactly the conflicting records and moves nothing.
\<close>

theorem merge_three_way:
  assumes "Repo_Merge memstore sha n now rnow r branch author msg = (r', res)" and "r_staging r = []"
    and "ReadHEAD memstore (r_storage r) = Inr (z, b, ours)" and "TrimPrefix branch BranchPrefix = name" and "name \<noteq> b"
    and "GetBranch memstore (r_storage r) z name = Inr theirs"
    and "history_ok memstore sha (r_storage r) n ours" and "history_ok memstore sha (r_storage r) n theirs" and "CanonZone z = z"
    and "(ours, theirs) \<notin> (parents memstore (r_storage r))\<^sup>*" and "(theirs, ours) \<notin> (parents memstore (r_storage r))\<^sup>*"
    and "healthy (mem_hist (r_storage r'))" and "identity_ok author" and "time_ok now"
    and "MergeBase memstore (r_storage r) ours theirs = Inr base"
  shows "let tree = TreeOf memstore (r_storage r); Z = zone_of memstore sha (r_storage r) in
    if conflicts [] (Z (tree base)) (Z (tree ours)) (Z (tree theirs)) = {}
    then \<exists>h c. res = Some (Inr (merge_result\<lparr>mr_Commit := h\<rparr>)) \<and>
      zone_of memstore sha (r_storage r') (TreeOf memstore (r_storage r') h) = merged_map (Z (tree base)) (Z (tree ours)) (Z (tree theirs)) \<and>
      loadCommit memstore (r_storage r') h = Inr c \<and> c_Parents c = [ours, theirs] \<and>
      mem_ref (r_storage r') = (mem_ref (r_storage r))(BranchRef z b \<mapsto> h)
    else \<exists>cs. res = Some (Inr (merge_result\<lparr>mr_Conflicts := cs\<rparr>)) \<and> distinct cs \<and>
      set cs = conflicts [] (Z (tree base)) (Z (tree ours)) (Z (tree theirs)) \<and>
      mem_ref (r_storage r') = mem_ref (r_storage r) \<and> ms_reflog (r_storage r') = ms_reflog (r_storage r)"
  using mem.Merge_three_way [OF assms] by (simp only: Let_def)

theorem merge_three_way_witness:
  "\<exists>r'. Repo_Merge memstore tab_sha 1 sample_now 9 sample_two ''dev'' sample_id ''m'' = (r', Some (Inr (merge_result\<lparr>mr_Commit := 34\<rparr>))) \<and>
    zone_of memstore tab_sha (r_storage r') (TreeOf memstore (r_storage r') 34) =
      merged_map (zone_of memstore tab_sha (sample_st []) 21) (zone_of memstore tab_sha (sample_st []) 22) (zone_of memstore tab_sha (sample_st []) 23)"
proof -
  obtain r' where r': "Repo_Merge memstore tab_sha 1 sample_now 9 sample_two ''dev'' sample_id ''m'' = (r', Some (Inr (merge_result\<lparr>mr_Commit := 34\<rparr>)))"
    "healthy (mem_hist (r_storage r'))" by (rule sample_merge_run)
  have s: "r_storage sample_two = sample_st []" "r_staging sample_two = []" by (simp_all add: sample_two_def)
  have head: "ReadHEAD memstore (r_storage sample_two) = Inr (''a.'', ''main'', 32)" "GetBranch memstore (r_storage sample_two) ''a.'' ''dev'' = Inr 33"
    "CanonZone ''a.'' = ''a.''" "identity_ok sample_id" "time_ok sample_now"
    using sample_st_heads [of "[]"] sample_rrsets by (simp_all add: s)
  have name: "TrimPrefix ''dev'' BranchPrefix = ''dev''" "''dev'' \<noteq> ''main''" by code_simp+
  note trees = sample_st_commits(4-6) [of "[]", simplified]
  have "merge_result\<lparr>mr_Commit := 34\<rparr> \<noteq> merge_result\<lparr>mr_Conflicts := cs\<rparr>" for cs by (simp add: merge_result_def)
  moreover have "merge_result\<lparr>mr_Commit := 34\<rparr> = merge_result\<lparr>mr_Commit := h\<rparr> \<longleftrightarrow> h = 34" for h by (auto simp: merge_result_def)
  ultimately show ?thesis
    using merge_three_way [OF r'(1) s(2) head(1) name head(2) sample_histories(1,2) [folded s(1)] head(3) sample_histories(3,4) [folded s(1)]
      r'(2) head(4,5) sample_base [folded s(1)]] r'(1)
    unfolding Let_def s(1) trees by (auto split: if_splits)
qed



end
