(* ===== verification/Pruned.thy ===== *)
theory Pruned
  imports RepoMergeCorrect
begin

text \<open>
  No empty nodes.  \<open>UpdateTree\<close> drops a node that has become empty from its parent, so that a
  name has a node exactly when there is a record at or below it; \<open>NodeExists\<close>, which
  separates a name without the wanted type from a name that does not exist, relies on
  this.  The root itself may be empty.
\<close>

section \<open>Trees without empty nodes\<close>

fun pruned :: "'s Storage \<Rightarrow> (bytes \<Rightarrow> Hash) \<Rightarrow> 's \<Rightarrow> nat \<Rightarrow> Hash \<Rightarrow> bool" where
  "pruned S sha s 0 h = False"
| "pruned S sha s (Suc n) h =
     (case LoadTree S sha s h of
        Inl _ \<Rightarrow> False
      | Inr t \<Rightarrow> Entries t \<noteq> [] \<and> list_all (\<lambda>e. te_Kind e = EntrySubtree \<longrightarrow> pruned S sha s n (te_Hash e)) (Entries t))"

definition node_pruned :: "'s Storage \<Rightarrow> (bytes \<Rightarrow> Hash) \<Rightarrow> 's \<Rightarrow> nat \<Rightarrow> Tree \<Rightarrow> bool" where
  "node_pruned S sha s n t \<longleftrightarrow> list_all (\<lambda>e. te_Kind e = EntrySubtree \<longrightarrow> pruned S sha s n (te_Hash e)) (Entries t)"

definition root_pruned :: "'s Storage \<Rightarrow> (bytes \<Rightarrow> Hash) \<Rightarrow> 's \<Rightarrow> nat \<Rightarrow> Hash \<Rightarrow> bool" where
  "root_pruned S sha s n h \<longleftrightarrow> h = ZeroHash \<or> (case LoadTree S sha s h of Inl _ \<Rightarrow> False | Inr t \<Rightarrow> node_pruned S sha s n t)"

lemma pruned_Suc: "pruned S sha s (Suc n) h \<longleftrightarrow> (\<exists>t. LoadTree S sha s h = Inr t \<and> Entries t \<noteq> [] \<and> node_pruned S sha s n t)"
  by (auto simp: node_pruned_def split: sum.splits)

declare pruned.simps(2) [simp del]

lemma pruned_mono: "pruned S sha s n h \<Longrightarrow> n \<le> m \<Longrightarrow> pruned S sha s m h"
proof (induction n arbitrary: m h)
  case (Suc n)
  then obtain m' where "m = Suc m'" "n \<le> m'" by (cases m) auto
  with Suc show ?case by (auto simp: pruned_Suc node_pruned_def list_all_iff)
qed simp

lemma node_pruned_mono: "node_pruned S sha s n t \<Longrightarrow> n \<le> m \<Longrightarrow> node_pruned S sha s m t"
  by (auto simp: node_pruned_def list_all_iff intro: pruned_mono)

lemma node_pruned_empty [simp]: "node_pruned S sha s n empty_tree"
  by (simp add: node_pruned_def)

lemma node_pruned_setEntry:
  "node_pruned S sha s n t \<Longrightarrow> (k = EntrySubtree \<Longrightarrow> h \<noteq> ZeroHash \<Longrightarrow> pruned S sha s n h) \<Longrightarrow> node_pruned S sha s n (setEntry t k name h)"
  by (auto simp: node_pruned_def list_all_iff Entries_setEntry split: if_splits)

lemma node_pruned_Get:
  assumes "node_pruned S sha s n t" and "canonical t" and "Get t EntrySubtree l = Some e"
  shows "pruned S sha s n (te_Hash e)"
  using assms by (auto simp: node_pruned_def list_all_iff Get_canonical [OF assms(2)] te_key_def)

lemma pruned_node_pruned: "pruned S sha s n h \<Longrightarrow> LoadTree S sha s h = Inr t \<Longrightarrow> node_pruned S sha s n t \<and> Entries t \<noteq> []"
  by (cases n) (auto simp: pruned_Suc intro: node_pruned_mono)

lemma load_chain_pruned:
  "load_chain S sha s t path = Inr ch \<Longrightarrow> node_ok S sha s m t \<Longrightarrow> node_pruned S sha s n t \<Longrightarrow> \<forall>p \<in> set ch. node_pruned S sha s n p"
proof (induction path arbitrary: t ch)
  case (Cons l path)
  from Cons.prems(1) obtain child ch' where ch: "ch = child # ch'" and rec: "load_chain S sha s child path = Inr ch'"
    and child: "(case Get t EntrySubtree l of Some e \<Rightarrow> LoadTree S sha s (te_Hash e) | None \<Rightarrow> Inr empty_tree) = Inr child"
    by (auto split: sum.splits)
  have "node_ok S sha s m child \<and> node_pruned S sha s n child"
  proof (cases "Get t EntrySubtree l")
    case None
    with child have "child = empty_tree" by simp
    then show ?thesis by simp
  next
    case (Some e)
    then have load: "LoadTree S sha s (te_Hash e) = Inr child" using child by simp
    have "tree_ok S sha s m (te_Hash e)" using node_ok_Get [OF Cons.prems(2) Some] by simp
    then have "node_ok S sha s m child" using load by (cases m) (auto simp: tree_ok_Suc intro: node_ok_mono)
    moreover have "pruned S sha s n (te_Hash e)" by (rule node_pruned_Get [OF Cons.prems(3) node_ok_canonical [OF Cons.prems(2)] Some])
    ultimately show ?thesis using pruned_node_pruned [OF _ load] by simp
  qed
  with Cons.IH [OF rec] show ?case by (simp add: ch)
qed simp

section \<open>Updates keep trees without empty nodes\<close>

context storage
begin

lemma pruned_stable:
  "pruned S sha s n h \<Longrightarrow> hist s \<subseteq> hist s' \<Longrightarrow> single_valued (hist s') \<Longrightarrow> pruned S sha s' n h"
  by (induction n arbitrary: h) (auto simp: pruned_Suc node_pruned_def list_all_iff dest: LoadTree_stable)

lemma node_pruned_stable:
  "node_pruned S sha s n t \<Longrightarrow> hist s \<subseteq> hist s' \<Longrightarrow> single_valued (hist s') \<Longrightarrow> node_pruned S sha s' n t"
  by (auto simp: node_pruned_def list_all_iff intro: pruned_stable)

lemma root_pruned_stable:
  "root_pruned S sha s n h \<Longrightarrow> hist s \<subseteq> hist s' \<Longrightarrow> single_valued (hist s') \<Longrightarrow> root_pruned S sha s' n h"
proof (cases "h = ZeroHash")
  case False
  assume pr: "root_pruned S sha s n h" and sub: "hist s \<subseteq> hist s'" "single_valued (hist s')"
  with False obtain t where t: "LoadTree S sha s h = Inr t" "node_pruned S sha s n t" by (auto simp: root_pruned_def split: sum.splits)
  show ?thesis using LoadTree_stable [OF t(1) sub] node_pruned_stable [OF t(2) sub] by (simp add: root_pruned_def)
qed (simp add: root_pruned_def)

lemma write_back_pruned:
  assumes "write_back S sha s t ps ls = (s', Inr r)" and "canonical t" and "\<forall>p \<in> set ps. canonical p"
    and "node_pruned S sha s n t" and "\<forall>p \<in> set ps. node_pruned S sha s n p" and "healthy (hist s')"
  shows "\<exists>m. root_pruned S sha s' m r"
  using assms
proof (induction ps arbitrary: s t ls n)
  case Nil
  then have put: "PutTree S sha s t = (s', Inr r)" by simp
  have "hist s \<subseteq> hist s'" "single_valued (hist s')" using PutTree_mono [of s sha t] put Nil.prems(6) by (simp_all add: healthy_def)
  with LoadTree_PutTree(1) [OF put Nil.prems(2) subset_refl Nil.prems(6)] Nil.prems(4) show ?case
    by (auto simp: root_pruned_def intro: node_pruned_stable)
next
  case (Cons p ps)
  then obtain l ls' where ls: "ls = l # ls'" by (cases ls) auto
  show ?case
  proof (cases "Entries t = []")
    case True
    then have "write_back S sha s (setSubtree p l 0) ps ls' = (s', Inr r)" using Cons.prems(1) by (simp add: ls)
    moreover have "node_pruned S sha s n (setSubtree p l 0)" "canonical (setSubtree p l 0)"
      using Cons.prems(3,5) by (auto simp: setSubtree_def intro: node_pruned_setEntry canonical_setEntry)
    ultimately show ?thesis using Cons.IH Cons.prems(3,5,6) by fastforce
  next
    case False
    then obtain s1 h where put: "PutTree S sha s t = (s1, Inr h)" and wb: "write_back S sha s1 (setSubtree p l h) ps ls' = (s', Inr r)"
      using Cons.prems(1) by (auto simp: ls split: prod.splits sum.splits)
    have m1: "hist s1 \<subseteq> hist s'" using write_back_mono [of s1 sha "setSubtree p l h" ps ls'] wb by simp
    have m0: "hist s \<subseteq> hist s1" using PutTree_mono [of s sha t] put by simp
    have hl1: "healthy (hist s1)" by (rule healthy_subset [OF Cons.prems(6) m1])
    then have sv1: "single_valued (hist s1)" by (simp add: healthy_def)
    have up: "node_pruned S sha s1 (Suc n) q" if "node_pruned S sha s n q" for q
      using node_pruned_stable [OF that m0 sv1] by (rule node_pruned_mono) simp
    have "pruned S sha s1 (Suc n) h"
      using LoadTree_PutTree(1) [OF put Cons.prems(2) subset_refl hl1] False node_pruned_stable [OF Cons.prems(4) m0 sv1] by (simp add: pruned_Suc)
    then have "node_pruned S sha s1 (Suc n) (setSubtree p l h)" "canonical (setSubtree p l h)"
      using Cons.prems(3,5) up by (auto simp: setSubtree_def intro: node_pruned_setEntry canonical_setEntry)
    moreover have "\<forall>q \<in> set ps. node_pruned S sha s1 (Suc n) q" using Cons.prems(5) up by simp
    ultimately show ?thesis using Cons.IH [OF wb] Cons.prems(3,6) by simp
  qed
qed

lemma UpdateTree_pruned:
  assumes upd: "UpdateTree S sha s root path rt h = (s', Inr root')" and "root_ok S sha s m root" and pr: "root_pruned S sha s n root"
    and "healthy (hist s')"
  shows "\<exists>n'. root_pruned S sha s' n' root'"
proof -
  from upd obtain t ch where t: "(if root = 0 then Inr empty_tree else LoadTree S sha s root) = Inr t"
    and ch: "load_chain S sha s t path = Inr ch"
    and wb: "write_back S sha s (setLeaf (hd (rev (t # ch))) rt h) (tl (rev (t # ch))) (rev path) = (s', Inr root')"
    by (auto simp: UpdateTree_def Let_def split: sum.splits if_splits)
  have ok: "node_ok S sha s m t" "node_pruned S sha s n t"
    using t assms(2) pr by (auto simp: root_ok_def root_pruned_def split: if_splits) (cases m; auto simp: tree_ok_Suc intro: node_ok_mono)
  have all: "\<forall>p \<in> set (t # ch). canonical p \<and> node_pruned S sha s n p"
    using load_chain_plug [OF ch ok(1)] load_chain_pruned [OF ch ok] ok by (auto dest: node_ok_canonical)
  have sub: "set (tl (rev (t # ch))) \<subseteq> set (t # ch)" by (metis list.set_sel(2) set_rev subsetI tl_Nil)
  have "hd (rev (t # ch)) \<in> set (t # ch)" by (metis hd_in_set list.distinct(1) rev_is_Nil_conv set_rev)
  then have "canonical (setLeaf (hd (rev (t # ch))) rt h)" "node_pruned S sha s n (setLeaf (hd (rev (t # ch))) rt h)"
    using all by (auto simp: setLeaf_def intro!: canonical_setEntry node_pruned_setEntry)
  from write_back_pruned [OF wb this(1) _ this(2) _ assms(4)] all sub show ?thesis by (meson subsetD)
qed

lemma apply_staged_pruned:
  assumes "apply_staged S sha m ks s tree = (s', Inr tree')" and "root_ok S sha s k tree" and "root_pruned S sha s n tree"
    and "\<forall>k \<in> set ks. sk_rrtype k \<noteq> [] \<and> [] \<notin> set (splitFQDN (sk_fqdn k))" and "healthy (hist s')"
  shows "\<exists>n'. root_pruned S sha s' n' tree'"
  using assms
proof (induction ks arbitrary: s tree k n)
  case (Cons x ks)
  obtain s1 t1 where u: "UpdateTree S sha s tree (splitFQDN (sk_fqdn x)) (sk_rrtype x) (staged_leaf m x) = (s1, Inr t1)"
    and rest: "apply_staged S sha m ks s1 t1 = (s', Inr tree')"
    using Cons.prems(1) by (auto split: prod.splits sum.splits)
  have "hist s1 \<subseteq> hist s'" using apply_staged_grows [of s1 sha m ks t1] rest by (simp add: extends_def)
  then have hl1: "healthy (hist s1)" using Cons.prems(5) healthy_subset by blast
  have "root_ok S sha s1 (Suc (k + length (splitFQDN (sk_fqdn x)))) t1"
    using UpdateTree_zone [OF u Cons.prems(2)] Cons.prems(4) hl1 by auto
  moreover obtain n' where "root_pruned S sha s1 n' t1" using UpdateTree_pruned [OF u Cons.prems(2,3) hl1] by blast
  ultimately show ?case using Cons.IH [OF rest] Cons.prems(4,5) by simp
qed auto

end

lemma root_pruned_mono: "root_pruned S sha s n h \<Longrightarrow> n \<le> m \<Longrightarrow> root_pruned S sha s m h"
  by (auto simp: root_pruned_def intro: node_pruned_mono split: sum.splits)

lemma root_ok_mono: "root_ok S sha s n h \<Longrightarrow> n \<le> m \<Longrightarrow> root_ok S sha s m h"
  by (auto simp: root_ok_def intro: tree_ok_mono)

context storage
begin

lemma Commit_pruned:
  fixes r r' :: "'s Repo"
  defines "s \<equiv> r_storage r" and "s' \<equiv> r_storage r'"
  assumes run: "Repo_Commit S sha D now rnow r author msg = (r', Inr h)" and hl: "healthy (hist s')"
    and head: "ReadHEAD S s = Inr (z, b, parent)"
    and ok: "staging_ok (r_staging r)" "staged_stored (r_staging r) (hist s)"
    and root: "root_ok S sha s n (TreeOf S s parent)" and id: "identity_ok author" "time_ok now"
    and pr: "root_pruned S sha s n (TreeOf S s parent)"
  shows "\<exists>n'. root_ok S sha s' n' (TreeOf S s' h) \<and> root_pruned S sha s' n' (TreeOf S s' h)"
proof -
  obtain r1 s2 tree where bump: "maybeBumpSOA S sha D r (TreeOf S s parent) = (r1, Inr ())"
    and app: "apply_staged S sha (r_staging r1) (sortedKeys (r_staging r1)) (r_storage r1) (TreeOf S s parent) = (s2, Inr tree)"
    and w: "write_commit S sha s2 rnow z b parent (new_commit tree (if IsZero parent then [] else [parent]) author now msg) ''commit''
      = (s', Inr h)"
    using Commit_runs [OF run head [unfolded s_def]] unfolding s_def s'_def by metis
  note keeps = maybeBumpSOA_keeps [OF bump, folded s_def]
  have g2: "grows (r_storage r1) s2" using apply_staged_grows [of "r_storage r1"] app by (metis fst_conv)
  have sub: "hist s \<subseteq> hist (r_storage r1)" "hist (r_storage r1) \<subseteq> hist s2" "hist s2 \<subseteq> hist s'"
    using g2 write_commit_spec(1) [OF w] keeps(1) by (auto simp: extends_def)
  have hl2: "healthy (hist s2)" and hl1: "healthy (hist (r_storage r1))" using healthy_subset hl sub by blast+
  have sv: "single_valued (hist (r_storage r1))" "single_valued (hist s')" using hl hl1 by (simp_all add: healthy_def)
  have keys: "\<forall>k \<in> set (sortedKeys (r_staging r1)). sk_rrtype k \<noteq> [] \<and> [] \<notin> set (splitFQDN (sk_fqdn k))"
    using keeps(2) [OF ok(1)] by (auto simp: staging_ok_def name_ok_def)
  note root1 = root_ok_stable [OF root sub(1) sv(1)] and pr1 = root_pruned_stable [OF pr sub(1) sv(1)]
  obtain a where a: "root_ok S sha s2 a tree" using apply_staged_zone [OF app root1 keys hl2] by blast
  obtain k where k: "root_pruned S sha s2 k tree" using apply_staged_pruned [OF app root1 pr1 keys hl2] by blast
  have "root_ok S sha s' (max a k) tree" "root_pruned S sha s' (max a k) tree"
    using root_ok_stable [OF a sub(3) sv(2)] root_pruned_stable [OF k sub(3) sv(2)] by (auto intro: root_ok_mono root_pruned_mono)
  moreover let ?c = "new_commit tree (if IsZero parent then [] else [parent]) author now msg"
  have "h = commit_hash sha ?c" "(h, commit_object ?c) \<in> hist s'" using write_commit_spec(1,2) [OF w] by auto
  then have "TreeOf S s' h = tree"
    using TreeOf_commit(1) [of sha ?c s'] hl id by (simp add: commit_ok_def new_commit_def)
  ultimately show ?thesis by auto
qed

end

section \<open>Names and nodes\<close>

lemma pruned_leaf:
  assumes "tree_ok S sha s m h" and "pruned S sha s n h"
  shows "\<exists>q t. lookup S sha s h q t \<noteq> None"
  using assms
proof (induction n arbitrary: m h)
  case (Suc n)
  then obtain t where t: "LoadTree S sha s h = Inr t" "Entries t \<noteq> []" "node_pruned S sha s n t" by (auto simp: pruned_Suc)
  then obtain m' where ok: "m = Suc m'" "node_ok S sha s m' t" using Suc.prems(1) by (cases m) (auto simp: tree_ok_Suc)
  obtain e where e: "e \<in> set (Entries t)" using t(2) by (cases "Entries t") auto
  have get: "Get t (te_Kind e) (te_Name e) = Some e" using e by (simp add: Get_canonical [OF node_ok_canonical [OF ok(2)]] te_key_def)
  have "EntryKind_IsValid (te_Kind e)" using node_storable_load [OF t(1) ok(2)] e by (auto simp: node_storable_def storable_def)
  then consider "te_Kind e = EntryLeaf" | "te_Kind e = EntrySubtree" by (auto simp: EntryKind_IsValid_def)
  then show ?case
  proof cases
    case 1
    then have "lookup S sha s h [] (te_Name e) = Some (te_Hash e)" using get by (simp add: lookup_node [OF t(1)] node_lookup_def)
    then show ?thesis by (metis option.distinct(1))
  next
    case 2
    have "pruned S sha s n (te_Hash e)" using t(3) e 2 by (auto simp: node_pruned_def list_all_iff)
    moreover have "tree_ok S sha s m' (te_Hash e)" using ok(2) e 2 by (auto simp: node_ok_def)
    ultimately obtain q rt where "lookup S sha s (te_Hash e) q rt \<noteq> None" using Suc.IH by blast
    then have "lookup S sha s h (te_Name e # q) rt \<noteq> None" using get 2 by (simp add: lookup_node [OF t(1)] node_lookup_def)
    then show ?thesis by blast
  qed
qed simp

lemma node_exists_at_iff:
  assumes "tree_ok S sha s m h" and "LoadTree S sha s h = Inr t" and "node_pruned S sha s n t"
  shows "node_exists_at S sha s h p = Inr (p = [] \<or> (\<exists>q rt. lookup S sha s h (p @ q) rt \<noteq> None))"
  using assms
proof (induction p arbitrary: m h t)
  case (Cons l p)
  obtain m' where ok: "m = Suc m'" "node_ok S sha s m' t" using Cons.prems(1,2) by (cases m) (auto simp: tree_ok_Suc)
  have look: "lookup S sha s h ((l # p) @ q) rt = (case Get t EntrySubtree l of None \<Rightarrow> None | Some e \<Rightarrow> lookup S sha s (te_Hash e) (p @ q) rt)" for q rt
    by (simp add: lookup_node [OF Cons.prems(2)] node_lookup_def)
  show ?case
  proof (cases "Get t EntrySubtree l")
    case None
    then show ?thesis using Cons.prems(2) look by simp
  next
    case (Some e)
    have sub: "tree_ok S sha s m' (te_Hash e)" "pruned S sha s n (te_Hash e)"
      using node_ok_Get [OF ok(2) Some] node_pruned_Get [OF Cons.prems(3) node_ok_canonical [OF ok(2)] Some] by auto
    obtain t' where t': "LoadTree S sha s (te_Hash e) = Inr t'" using sub(1) by (cases m') (auto simp: tree_ok_Suc)
    have "node_exists_at S sha s (te_Hash e) p = Inr (p = [] \<or> (\<exists>q rt. lookup S sha s (te_Hash e) (p @ q) rt \<noteq> None))"
      by (rule Cons.IH [OF sub(1) t']) (use pruned_node_pruned [OF sub(2) t'] in blast)
    moreover have "\<exists>q rt. lookup S sha s (te_Hash e) q rt \<noteq> None" by (rule pruned_leaf [OF sub])
    ultimately show ?thesis unfolding node_exists_at.simps Cons.prems(2) sum.case look unfolding Some option.case
      by (cases "p = []") (simp_all del: not_None_eq)
  qed
qed simp

lemma NodeExists_iff:
  assumes "root_ok S sha s m h" and "root_pruned S sha s n h" and "h \<noteq> ZeroHash"
  shows "NodeExists S sha s h p = Inr (p = [] \<or> (\<exists>q rt. zone_of S sha s h (p @ q) rt \<noteq> None))"
  using assms node_exists_at_iff [of S sha s m h _ n p]
  by (auto simp: NodeExists_def root_ok_def root_pruned_def zone_of_def split: sum.splits)

section \<open>Properties\<close>

text \<open>
  C8: the invariant of a branch.  When the tip of the branch has a complete tree without
  empty nodes, so has the commit made from it, and in such a tree \<open>NodeExists\<close> finds a
  node exactly for the apex and the names with a record at or below them.
\<close>

theorem commit_keeps_invariant:
  assumes "Repo_Commit memstore sha D now rnow r author msg = (r', Inr h)" and "healthy (mem_hist (r_storage r'))"
    and "ReadHEAD memstore (r_storage r) = Inr (z, b, parent)"
    and "staging_ok (r_staging r)" and "staged_stored (r_staging r) (mem_hist (r_storage r))"
    and "root_ok memstore sha (r_storage r) n (TreeOf memstore (r_storage r) parent)"
    and "identity_ok author" and "time_ok now"
    and "root_pruned memstore sha (r_storage r) n (TreeOf memstore (r_storage r) parent)"
  shows "\<exists>n'. root_ok memstore sha (r_storage r') n' (TreeOf memstore (r_storage r') h) \<and>
    root_pruned memstore sha (r_storage r') n' (TreeOf memstore (r_storage r') h) \<and>
    (TreeOf memstore (r_storage r') h \<noteq> ZeroHash \<longrightarrow> (\<forall>p. NodeExists memstore sha (r_storage r') (TreeOf memstore (r_storage r') h) p =
      Inr (p = [] \<or> (\<exists>q rt. zone_of memstore sha (r_storage r') (TreeOf memstore (r_storage r') h) (p @ q) rt \<noteq> None))))"
proof -
  obtain n' where n': "root_ok memstore sha (r_storage r') n' (TreeOf memstore (r_storage r') h)"
    "root_pruned memstore sha (r_storage r') n' (TreeOf memstore (r_storage r') h)"
    using mem.Commit_pruned [OF assms] by blast
  show ?thesis by (intro exI [of _ n'] conjI impI allI n' NodeExists_iff [OF n'])
qed

theorem commit_keeps_invariant_witness:
  "\<exists>n'. root_ok memstore sample_sha (r_storage sample_committed) n' (TreeOf memstore (r_storage sample_committed) 67250) \<and>
    root_pruned memstore sample_sha (r_storage sample_committed) n' (TreeOf memstore (r_storage sample_committed) 67250)"
proof -
  have "root_pruned memstore sample_sha (r_storage sample_staged) 1 182924"
    using sample_tree_load(1) by (simp add: root_pruned_def sample_staged_def node_pruned_def) (simp add: sample_t0_def)
  from commit_keeps_invariant [OF sample_commit_run sample_committed sample_read_head sample_conditions(1,3), unfolded sample_parent,
      OF sample_conditions(4-6) this]
  show ?thesis by blast
qed

end
