(* ===== verification/Route.thy ===== *)
theory Route
  imports RepoMergeCorrect
begin

text \<open>
  pkg/route: the choice of a branch per query.  A client's subnet and a salt are hashed
  into one of 100 buckets; the buckets below the percentage go to the canary branch.
  The parts of the standard library that the package uses (\<open>net.ParseIP\<close>, \<open>hash/fnv\<close>, the
  verb \<open>%d\<close> of \<open>fmt.Sscanf\<close>) come first.
\<close>

section \<open>Package net\<close>

text \<open>An address is its 16-byte form; an IPv4 address has the prefix \<open>::ffff:\<close>.\<close>

definition octet_ok :: "string \<Rightarrow> bool" where
  "octet_ok f \<longleftrightarrow> f \<noteq> [] \<and> list_all is_digit f \<and> (length f > 1 \<longrightarrow> hd f \<noteq> CHR ''0'') \<and> digits_val f \<le> 255"

definition parseIPv4Fields :: "string \<Rightarrow> bytes option" where
  "parseIPv4Fields s =
     (let fs = Split s (CHR ''.'') in
      if length fs = 4 \<and> list_all octet_ok fs then Some (map (\<lambda>f. of_nat (digits_val f)) fs) else None)"

definition is_hex :: "char \<Rightarrow> bool" where
  "is_hex c \<longleftrightarrow> hex_value c \<noteq> None"

definition hex_val :: "string \<Rightarrow> nat" where
  "hex_val s = foldl (\<lambda>a c. a * 16 + the (hex_value c)) 0 s"

text \<open>The loop over the colon-separated groups: the bytes so far, where the \<open>::\<close> was, the rest of the text.\<close>

function (sequential) ipv6_loop :: "string \<Rightarrow> bytes \<Rightarrow> nat option \<Rightarrow> (bytes \<times> nat option \<times> string) option" where
  "ipv6_loop s ip ellipsis =
     (if length ip \<ge> 16 then Some (ip, ellipsis, s)
      else
        let digs = takeWhile is_hex s;
            rest = dropWhile is_hex s;
            ip' = ip @ [of_nat (hex_val digs div 256), of_nat (hex_val digs mod 256)]
        in if digs = [] \<or> length digs > 4 then None
           else case rest of
             [] \<Rightarrow> Some (ip', ellipsis, [])
           | c # s' \<Rightarrow>
               if c = CHR ''.'' then
                 (if (ellipsis = None \<and> length ip \<noteq> 12) \<or> length ip + 4 > 16 then None
                  else case parseIPv4Fields s of
                    None \<Rightarrow> None
                  | Some f \<Rightarrow> Some (ip @ f, ellipsis, []))
               else if c \<noteq> CHR '':'' \<or> s' = [] then None
               else if hd s' = CHR '':'' then
                 (if ellipsis \<noteq> None then None
                  else if tl s' = [] then Some (ip', Some (length ip'), [])
                  else ipv6_loop (tl s') ip' (Some (length ip')))
               else ipv6_loop s' ip' ellipsis)"
  by pat_completeness auto
termination by (relation "measure (\<lambda>(s, ip, e). 16 - length ip)") auto

declare ipv6_loop.simps [simp del]

definition parseIPv6 :: "string \<Rightarrow> bytes option" where
  "parseIPv6 s =
     (if CHR ''%'' \<in> set s then None
      else if s = ''::'' then Some (replicate 16 0)
      else case (if HasPrefix s ''::'' then ipv6_loop (drop 2 s) [] (Some 0) else ipv6_loop s [] None) of
        None \<Rightarrow> None
      | Some (ip, ellipsis, rest) \<Rightarrow>
          if rest \<noteq> [] then None
          else if length ip < 16 then
            (case ellipsis of
               None \<Rightarrow> None
             | Some e \<Rightarrow> Some (take e ip @ replicate (16 - length ip) 0 @ drop e ip))
          else if ellipsis \<noteq> None then None
          else Some ip)"

definition ParseIP :: "string \<Rightarrow> bytes option" where
  "ParseIP s =
     (case find (\<lambda>c. c = CHR ''.'' \<or> c = CHR '':'' \<or> c = CHR ''%'') s of
        None \<Rightarrow> None
      | Some c \<Rightarrow>
          if c = CHR ''.'' then map_option (\<lambda>f. replicate 10 0 @ [255, 255] @ f) (parseIPv4Fields s)
          else if c = CHR '':'' then parseIPv6 s
          else None)"

definition To4 :: "bytes \<Rightarrow> bytes option" where
  "To4 ip = (if take 12 ip = replicate 10 0 @ [255, 255] then Some (drop 12 ip) else None)"

section \<open>Package hash/fnv and fmt\<close>

definition fnv64a :: "bytes \<Rightarrow> 64 word" where
  "fnv64a bs = foldl (\<lambda>h b. xor h (ucast b) * 1099511628211) 14695981039346656037 bs"

text \<open>
  \<open>Sscanf(s, "%d", &n)\<close>: blanks are skipped, then an optional sign and digits are read; what
  follows them is not looked at.
\<close>

definition Sscanf_d :: "string \<Rightarrow> int option" where
  "Sscanf_d s =
     (let s = dropWhile (\<lambda>c. is_space c \<and> c \<noteq> NL) s;
          sign = (case s of c # _ \<Rightarrow> if c = CHR ''+'' \<or> c = CHR ''-'' then [c] else [] | [] \<Rightarrow> []);
          digs = takeWhile is_digit (drop (length sign) s)
      in if digs = [] then None else ParseInt (sign @ digs))"

section \<open>The router (route.go)\<close>

record QueryContext =
  qc_ClientIP :: string
  qc_QName :: string
  qc_QType :: string
  qc_Now :: Time

record BucketRouter =
  br_DefaultBranch :: string
  br_CanaryBranch :: string
  br_Pct :: int
  br_Salt :: string

definition NewBucketRouter :: "string \<Rightarrow> string \<Rightarrow> string \<Rightarrow> error + BucketRouter" where
  "NewBucketRouter defaultBranch canarySpec salt =
     (case LastIndexByte canarySpec (CHR '':'') of
        None \<Rightarrow> Inl (ErrOther ''route: canary spec'')
      | Some colon \<Rightarrow>
          if colon < 1 \<or> colon = length canarySpec - 1 then Inl (ErrOther ''route: canary spec'')
          else case Sscanf_d (drop (colon + 1) canarySpec) of
            None \<Rightarrow> Inl (ErrOther ''route: canary pct'')
          | Some pct \<Rightarrow>
              if pct < 0 \<or> pct > 100 then Inl (ErrOther ''route: canary pct out of range'')
              else Inr \<lparr>br_DefaultBranch = defaultBranch, br_CanaryBranch = take colon canarySpec, br_Pct = pct,
                br_Salt = (if salt = [] then ''zonegit-default'' else salt)\<rparr>)"

definition subnetBytes :: "string \<Rightarrow> bytes" where
  "subnetBytes clientIP =
     (if clientIP = [] then []
      else case ParseIP clientIP of
        None \<Rightarrow> []
      | Some ip \<Rightarrow> (case To4 ip of Some v4 \<Rightarrow> take 3 v4 | None \<Rightarrow> take 6 ip))"

definition bucket :: "BucketRouter \<Rightarrow> string \<Rightarrow> int" where
  "bucket b clientIP = uint (fnv64a (subnetBytes clientIP @ [0] @ bytes_of (br_Salt b)) mod 100)"

definition Route :: "BucketRouter \<Rightarrow> QueryContext \<Rightarrow> string" where
  "Route b q =
     (if br_Pct b \<le> 0 then br_DefaultBranch b
      else if br_Pct b \<ge> 100 then br_CanaryBranch b
      else if bucket b (qc_ClientIP q) < br_Pct b then br_CanaryBranch b
      else br_DefaultBranch b)"

text \<open>The summary for the metrics; \<open>quote\<close> is the verb \<open>%q\<close>.\<close>

definition BucketRouter_String :: "(string \<Rightarrow> string) \<Rightarrow> BucketRouter \<Rightarrow> string" where
  "BucketRouter_String quote b =
     br_CanaryBranch b @ '':'' @ dec_int (br_Pct b) @ '' -> '' @ br_CanaryBranch b @
     '' (default '' @ br_DefaultBranch b @ '', salt='' @ quote (br_Salt b) @ '')''"

section \<open>Lemmas\<close>

lemma bucket_range: "0 \<le> bucket b ip \<and> bucket b ip < 100"
proof -
  have "uint (x mod 100 :: 64 word) < 100" for x by (simp add: uint_mod)
  then show ?thesis by (simp add: bucket_def)
qed

lemma Route_iff: "Route b q = (if br_Pct b \<ge> 100 \<or> bucket b (qc_ClientIP q) < br_Pct b then br_CanaryBranch b else br_DefaultBranch b)"
  using bucket_range [of b "qc_ClientIP q"] by (auto simp: Route_def)

definition dotted :: "nat list \<Rightarrow> string" where
  "dotted os = Join (map dec_nat os) ''.''"

lemma dec_nat_octet: "n < 256 \<Longrightarrow> octet_ok (dec_nat n)"
proof -
  assume n: "n < 256"
  have hd: "length (dec_nat n) > 1 \<longrightarrow> hd (dec_nat n) \<noteq> CHR ''0''"
  proof (induction n rule: dec_nat.induct)
    case (1 n)
    show ?case
    proof (cases "n < 10")
      case False
      have "hd (dec_nat (n div 10)) \<noteq> CHR ''0''"
      proof (cases "n div 10 < 10")
        case True
        then have "dec_nat (n div 10) = [digit_char (n div 10)]" by (subst dec_nat.simps) simp
        moreover have "of_char (digit_char (n div 10)) = n div 10 + 48" using digit_char_props [OF True] by simp
        moreover have "of_char (CHR ''0'') = (48 :: nat)" by simp
        ultimately show ?thesis using False by (metis add_cancel_left_left div_eq_0_iff list.sel(1) zero_neq_numeral)
      next
        case False': False
        then have "length (dec_nat (n div 10)) > 1" by (subst dec_nat.simps) simp
        with 1 False show ?thesis by simp
      qed
      with False show ?thesis by (subst dec_nat.simps) simp
    qed (subst dec_nat.simps, simp)
  qed
  with n show ?thesis using dec_nat_digits [of n] by (simp add: octet_ok_def digits_val_dec_nat)
qed

lemma Join_dots:
  assumes "\<forall>x \<in> set xs. CHR ''.'' \<notin> set x" and "xs \<noteq> []"
  shows "Split (Join xs ''.'') (CHR ''.'') = xs"
  using assms
proof (induction xs rule: induct_list012)
  case (2 x)
  then have "split_by (\<lambda>c. c = CHR ''.'') x = [x]" by (intro split_by_none) auto
  then show ?case by (simp add: Split_def)
next
  case (3 x y zs)
  then have "Split (Join (y # zs) ''.'') (CHR ''.'') = y # zs" by simp
  moreover have "split_by (\<lambda>c. c = CHR ''.'') (x @ CHR ''.'' # s) = x # split_by (\<lambda>c. c = CHR ''.'') s" for s
    using 3 by (intro split_by_append) auto
  ultimately show ?case by (simp add: Split_def)
qed simp

lemma dec_nat_no_dot: "CHR ''.'' \<notin> set (dec_nat n)"
  using dec_nat_digits [of n] by (auto simp: list_all_iff is_digit_def)

lemma ParseIP_dotted:
  assumes "length os = 4" and "\<forall>x \<in> set os. x < 256"
  shows "ParseIP (dotted os) = Some (replicate 10 0 @ [255, 255] @ map of_nat os)"
proof -
  have nodot: "\<forall>x \<in> set (map dec_nat os). CHR ''.'' \<notin> set x"
    by (auto simp: dec_nat_no_dot)
  have split: "Split (dotted os) (CHR ''.'') = map dec_nat os"
    unfolding dotted_def by (rule Join_dots [OF nodot]) (use assms(1) in auto)
  have "list_all octet_ok (map dec_nat os)" using assms(2) dec_nat_octet by (auto simp: list_all_iff)
  then have fields: "parseIPv4Fields (dotted os) = Some (map of_nat os)"
    using assms(1) by (simp add: parseIPv4Fields_def split digits_val_dec_nat comp_def)
  obtain a os' where os: "os = a # os'" "os' \<noteq> []" using assms(1) by (cases os; cases "tl os") auto
  then have "dotted os = dec_nat a @ CHR ''.'' # Join (map dec_nat os') ''.''" by (cases os') (simp_all add: dotted_def)
  moreover have "find (\<lambda>c. c = CHR ''.'' \<or> c = CHR '':'' \<or> c = CHR ''%'') (ds @ CHR ''.'' # s) = Some (CHR ''.'')"
    if "list_all is_digit ds" for ds s using that by (induction ds) (auto simp: is_digit_def)
  ultimately show ?thesis using fields dec_nat_digits by (simp add: ParseIP_def)
qed

lemma subnet_dotted:
  "length os = 4 \<Longrightarrow> \<forall>x \<in> set os. x < 256 \<Longrightarrow> subnetBytes (dotted os) = map of_nat (take 3 os)"
proof -
  assume os: "length os = 4" "\<forall>x \<in> set os. x < 256"
  then have "dotted os \<noteq> []" using ParseIP_dotted [OF os] by (auto simp: ParseIP_def)
  then show ?thesis using ParseIP_dotted [OF os] os(1) by (simp add: subnetBytes_def To4_def take_map)
qed

lemma NewBucketRouter_ok:
  "NewBucketRouter d spec salt = Inr b \<Longrightarrow>
    br_DefaultBranch b = d \<and> br_CanaryBranch b \<noteq> [] \<and> 0 \<le> br_Pct b \<and> br_Pct b \<le> 100 \<and> br_Salt b \<noteq> [] \<and>
    (\<exists>rest. spec = br_CanaryBranch b @ '':'' @ rest \<and> rest \<noteq> [])"
proof -
  assume new: "NewBucketRouter d spec salt = Inr b"
  then obtain i where i: "LastIndexByte spec (CHR '':'') = Some i" by (auto simp: NewBucketRouter_def split: option.splits)
  have spec: "spec = take i spec @ CHR '':'' # drop (Suc i) spec" by (rule LastIndexByte_SomeD [OF i])
  have "i \<ge> 1" "i \<noteq> length spec - 1" "br_CanaryBranch b = take i spec" "br_DefaultBranch b = d" "0 \<le> br_Pct b" "br_Pct b \<le> 100" "br_Salt b \<noteq> []"
    using new i by (auto simp: NewBucketRouter_def split: option.splits if_splits)
  moreover have "i < length spec" using spec by (metis append_eq_conv_conj length_append list.distinct(1) min.absorb2 not_le take_all append_self_conv)
  ultimately show ?thesis using spec by (intro conjI exI [of _ "drop (Suc i) spec"]) (auto simp: take_eq_Nil)
qed

text \<open>An address in brackets, the way Go prints the IPv6 address of a socket, is not parsed.\<close>

lemma ParseIP_bracket: "ParseIP (CHR ''['' # s) = None"
proof -
  have "\<not> is_hex (CHR ''['')" "\<not> octet_ok (CHR ''['' # f)" for f by (simp_all add: is_hex_def hex_value_def octet_ok_def is_digit_def)
  moreover have "hd (Split (CHR ''['' # s) (CHR ''.'')) = CHR ''['' # f" if "f = hd (Split s (CHR ''.''))" for f
    using that split_by_nonempty [of "\<lambda>c. c = CHR ''.''" s] by (auto simp: Split_def split: list.split)
  ultimately have "parseIPv4Fields (CHR ''['' # s) = None"
    by (cases "Split (CHR ''['' # s) (CHR ''.'')") (auto simp: parseIPv4Fields_def)
  moreover have "parseIPv6 (CHR ''['' # s) = None"
    using \<open>\<not> is_hex (CHR ''['')\<close> by (simp add: parseIPv6_def HasPrefix_def ipv6_loop.simps)
  ultimately show ?thesis by (auto simp: ParseIP_def split: option.splits)
qed

section \<open>Properties\<close>

text \<open>
  C37: a canary rollout is stable and grows: when a client is sent to the canary branch, every
  client of the same IPv4 /24 is, for every query, and stays there when the percentage
  is raised; at 0 nobody and at 100 everybody is sent there.
\<close>

theorem canary_rollout:
  assumes "length net = 3" and "\<forall>x \<in> set (h # h' # net). x < 256" and "p \<le> p'"
  shows "(Route (r\<lparr>br_Pct := p\<rparr>) (q\<lparr>qc_ClientIP := dotted (net @ [h])\<rparr>) = br_CanaryBranch r \<longrightarrow>
      br_CanaryBranch r \<noteq> br_DefaultBranch r \<longrightarrow>
      Route (r\<lparr>br_Pct := p'\<rparr>) (q'\<lparr>qc_ClientIP := dotted (net @ [h'])\<rparr>) = br_CanaryBranch r) \<and>
    Route (r\<lparr>br_Pct := 0\<rparr>) q = br_DefaultBranch r \<and> Route (r\<lparr>br_Pct := 100\<rparr>) q = br_CanaryBranch r"
proof -
  have "subnetBytes (dotted (net @ [h])) = subnetBytes (dotted (net @ [h']))" using assms(1,2) by (simp add: subnet_dotted)
  then have "bucket (r\<lparr>br_Pct := p\<rparr>) (dotted (net @ [h])) = bucket (r\<lparr>br_Pct := p'\<rparr>) (dotted (net @ [h']))" by (simp add: bucket_def)
  moreover have "\<not> bucket b ip < 0" for b ip using bucket_range [of b ip] by simp
  ultimately show ?thesis using assms(3) by (auto simp: Route_iff)
qed

definition sample_router :: BucketRouter where
  "sample_router = \<lparr>br_DefaultBranch = ''main'', br_CanaryBranch = ''canary'', br_Pct = 20, br_Salt = ''s''\<rparr>"

definition sample_query :: QueryContext where
  "sample_query = \<lparr>qc_ClientIP = [], qc_QName = ''a.'', qc_QType = ''A'', qc_Now = sample_now\<rparr>"

theorem canary_rollout_witness:
  "Route (sample_router\<lparr>br_Pct := 95\<rparr>) (sample_query\<lparr>qc_ClientIP := dotted ([10, 0, 0] @ [7])\<rparr>) = ''canary''"
proof -
  have "Route (sample_router\<lparr>br_Pct := 61\<rparr>) (sample_query\<lparr>qc_ClientIP := dotted ([10, 0, 0] @ [1])\<rparr>) = ''canary''" by code_simp
  then show ?thesis
    using canary_rollout [of "[10, 0, 0]" 1 7 61 95 sample_router sample_query sample_query] by (simp add: sample_router_def)
qed

end
