(* ===== verification/Resolver.thy ===== *)
theory Resolver
  imports Route
begin

text \<open>
  pkg/resolve: answering DNS queries from a branch (resolve.go), full and incremental zone
  transfers (axfr.go, ixfr.go).

  The message functions of the DNS library are a parameter again: \<open>Q\<close> has \<open>dns.Fqdn\<close> and the
  type assertions to \<open>*dns.CNAME\<close> (its target) and \<open>*dns.RRSIG\<close> (the type it covers).  A
  request is what the handler reads of a \<open>*dns.Msg\<close>; the EDNS part is the DO bit and the
  printed addresses of the client subnet options that have one.  A snapshot, the clock
  and the address of the peer are arguments.  The timeouts of the contexts and the log
  are not modelled.  Where Go panics the deferred write still happens: \<open>Crash\<close> has the message.
\<close>

section \<open>Messages\<close>

record 'd DNSQ =
  Fqdn :: "string \<Rightarrow> string"
  AsCNAME :: "'d \<Rightarrow> string option"
  AsRRSIG :: "'d \<Rightarrow> 16 word option"

record Question =
  q_Name :: string
  q_Qtype :: "16 word"

record Edns =
  ed_Do :: bool
  ed_Subnets :: "string list"

record 'd Msg =
  m_Question :: "Question list"
  m_Ns :: "'d RR list"
  m_Edns :: "Edns option"

record 'd Resp =
  re_Rcode :: nat
  re_Answer :: "'d RR list"
  re_NsRRs :: "'d RR list"
  re_Authoritative :: bool
  re_RecursionAvailable :: bool

abbreviation "RcodeSuccess \<equiv> 0 :: nat"
abbreviation "RcodeFormatError \<equiv> 1 :: nat"
abbreviation "RcodeServerFailure \<equiv> 2 :: nat"
abbreviation "RcodeNameError \<equiv> 3 :: nat"
abbreviation "RcodeRefused \<equiv> 5 :: nat"
abbreviation "TypeCNAME \<equiv> 5 :: 16 word"
abbreviation "TypeIXFR \<equiv> 251 :: 16 word"
abbreviation "TypeAXFR \<equiv> 252 :: 16 word"

text \<open>What is written to the peer: one message, or the records of a transfer.\<close>

datatype 'd Out = Message "'d Resp" | Envelope "'d RR list" | Crash "'d Resp"

section \<open>Configuration (resolve.go)\<close>

record Config =
  cf_Zone :: string
  cf_DefaultBranch :: string
  cf_PinnedAt :: Hash
  cf_Router :: "(QueryContext \<Rightarrow> string) option"
  cf_MetricsHook :: bool

definition New_Resolver :: "'d DNSQ \<Rightarrow> Config \<Rightarrow> Config" where
  "New_Resolver Q cfg =
     cfg\<lparr>cf_DefaultBranch := (if cf_DefaultBranch cfg = [] then ''main'' else cf_DefaultBranch cfg),
         cf_Zone := ToLower (Fqdn Q (cf_Zone cfg))\<rparr>"

definition observe :: "'d DNS \<Rightarrow> Config \<Rightarrow> 'd Msg \<Rightarrow> nat \<Rightarrow> (string \<times> nat) option" where
  "observe D cfg req rcode =
     (if cf_MetricsHook cfg \<and> m_Question req \<noteq> [] then Some (TypeToString D (q_Qtype (hd (m_Question req))), rcode) else None)"

definition dnssecOK :: "'d Msg \<Rightarrow> bool" where
  "dnssecOK req = (case m_Edns req of None \<Rightarrow> False | Some opt \<Rightarrow> ed_Do opt)"

text \<open>The address an unwrapped router sees is empty.\<close>

definition extractClientIP :: "string \<Rightarrow> string" where
  "extractClientIP qname = []"

definition resolveHead :: "'s Storage \<Rightarrow> 'd DNS \<Rightarrow> Time \<Rightarrow> Config \<Rightarrow> 's Repo \<Rightarrow> Question \<Rightarrow> string \<Rightarrow> error + Hash" where
  "resolveHead S D now cfg rp q qname =
     (if \<not> IsZero (cf_PinnedAt cfg) then Inr (cf_PinnedAt cfg)
      else
        let branch = (case cf_Router cfg of
              None \<Rightarrow> cf_DefaultBranch cfg
            | Some route \<Rightarrow>
                let b = route \<lparr>qc_ClientIP = extractClientIP qname, qc_QName = qname,
                               qc_QType = TypeToString D (q_Qtype q), qc_Now = now\<rparr>
                in if b \<noteq> [] then b else cf_DefaultBranch cfg)
        in GetBranch S (r_storage rp) (cf_Zone cfg) branch)"

definition nameExists :: "'s Storage \<Rightarrow> (bytes \<Rightarrow> Hash) \<Rightarrow> 's Repo \<Rightarrow> Hash \<Rightarrow> string \<Rightarrow> bool" where
  "nameExists S sha rp head rel = (case Repo_NameExists S sha rp head rel of Inl e \<Rightarrow> False | Inr b \<Rightarrow> b)"

definition attachSOA :: "'s Storage \<Rightarrow> (bytes \<Rightarrow> Hash) \<Rightarrow> 'd DNS \<Rightarrow> 's Repo \<Rightarrow> Hash \<Rightarrow> 'd Resp \<Rightarrow> 'd Resp" where
  "attachSOA S sha D rp head resp =
     (if re_Answer resp \<noteq> [] then resp
      else case Repo_Lookup S sha D rp head ''@'' ''SOA'' of
        Inl e \<Rightarrow> resp
      | Inr soa \<Rightarrow> resp\<lparr>re_NsRRs := re_NsRRs resp @ rs_RRs soa\<rparr>)"

definition attachRRSIG :: "'s Storage \<Rightarrow> (bytes \<Rightarrow> Hash) \<Rightarrow> 'd DNS \<Rightarrow> 'd DNSQ \<Rightarrow> 's Repo \<Rightarrow> Hash \<Rightarrow> string \<Rightarrow> 16 word \<Rightarrow> 'd Resp \<Rightarrow> 'd Resp" where
  "attachRRSIG S sha D Q rp head rel qtype resp =
     (case Repo_Lookup S sha D rp head rel ''RRSIG'' of
        Inl e \<Rightarrow> resp
      | Inr sigSet \<Rightarrow> resp\<lparr>re_Answer := re_Answer resp @ filter (\<lambda>rr. AsRRSIG Q (rr_Data rr) = Some qtype) (rs_RRs sigSet)\<rparr>)"

text \<open>The name relative to the zone, \<open>@\<close> for the apex.\<close>

definition relative :: "Config \<Rightarrow> string \<Rightarrow> string" where
  "relative cfg qname = (if qname = cf_Zone cfg then ''@'' else TrimSuffix qname (''.'' @ cf_Zone cfg))"

section \<open>Transfers (axfr.go, ixfr.go)\<close>

text \<open>The reply to a transfer that cannot be served; \<open>SetReply\<close> leaves both flags off.\<close>

definition sendAXFRError :: "'d Out" where
  "sendAXFRError = Message \<lparr>re_Rcode = RcodeServerFailure, re_Answer = [], re_NsRRs = [], re_Authoritative = False, re_RecursionAvailable = False\<rparr>"

definition loadRRs :: "'s Storage \<Rightarrow> 'd DNS \<Rightarrow> 's \<Rightarrow> Hash \<Rightarrow> error + 'd RR list" where
  "loadRRs S D s blobHash =
     (case GetObject S s blobHash of
        Inl e \<Rightarrow> Inl e
      | Inr obj \<Rightarrow> (case DecodeRRset D (obj_Payload obj) of Inl e \<Rightarrow> Inl e | Inr rs \<Rightarrow> Inr (rs_RRs rs)))"

text \<open>The callback of the walk: everything but the apex SOA is appended.\<close>

definition axfr_leaf :: "'s Storage \<Rightarrow> 'd DNS \<Rightarrow> 's \<Rightarrow> string list \<Rightarrow> string \<Rightarrow> Hash \<Rightarrow> 'd RR list \<Rightarrow> 'd RR list \<times> (error + unit)" where
  "axfr_leaf S D s path rrtype blobHash all =
     (if path = [] \<and> rrtype = ''SOA'' then (all, Inr ())
      else case loadRRs S D s blobHash of
        Inl e \<Rightarrow> (all, Inl e)
      | Inr rrs \<Rightarrow> (all @ rrs, Inr ()))"

definition serveAXFR :: "'s Storage \<Rightarrow> (bytes \<Rightarrow> Hash) \<Rightarrow> 'd DNS \<Rightarrow> nat \<Rightarrow> Time \<Rightarrow> Config \<Rightarrow> 's Repo \<Rightarrow> 'd Msg \<Rightarrow> ('d Out \<times> nat) option" where
  "serveAXFR S sha D fuel now cfg rp req =
     (let s = r_storage rp; failed = Some (sendAXFRError, RcodeServerFailure) in
      case resolveHead S D now cfg rp (hd (m_Question req)) (cf_Zone cfg) of
        Inl e \<Rightarrow> failed
      | Inr head \<Rightarrow>
          (case Repo_Lookup S sha D rp head ''@'' ''SOA'' of
             Inl e \<Rightarrow> failed
           | Inr soa \<Rightarrow>
               (case loadCommit S s head of
                  Inl e \<Rightarrow> failed
                | Inr commit \<Rightarrow>
                    (case WalkAllLeaves S sha s fuel (c_Tree commit) (axfr_leaf S D s) (rs_RRs soa) of
                       None \<Rightarrow> None
                     | Some (all, Inl e) \<Rightarrow> failed
                     | Some (all, Inr _) \<Rightarrow> Some (Envelope (all @ rs_RRs soa), RcodeSuccess)))))"

text \<open>
  The search for the commit with a serial.  \<open>visited\<close> holds the hashes ever queued; the
  search ends when it has \<open>maxCommits\<close> of them.
\<close>

definition maxCommits :: nat where
  "maxCommits = 10000"

lemma queue_measure: "((n, k), (n, Suc k)) \<in> less_than <*lex*> less_than"
  by simp

function (sequential) find_serial_loop :: "'s Storage \<Rightarrow> (bytes \<Rightarrow> Hash) \<Rightarrow> 'd DNS \<Rightarrow> 's Repo \<Rightarrow> 32 word \<Rightarrow> Hash list \<Rightarrow> Hash list \<Rightarrow>
    error + Hash \<times> 'd RRset" where
  "find_serial_loop S sha D rp serial [] visited = Inl (ErrOther ''serial not in reachable history'')"
| "find_serial_loop S sha D rp serial (cur # queue) visited =
     (if card (set visited) \<ge> maxCommits then Inl (ErrOther ''serial not in reachable history'')
      else if IsZero cur then find_serial_loop S sha D rp serial queue visited
      else
        let walk = (case loadCommit S (r_storage rp) cur of
              Inl e \<Rightarrow> Inl e
            | Inr c \<Rightarrow>
                (case enqueue (c_Parents c) queue visited of (queue', visited') \<Rightarrow>
                   find_serial_loop S sha D rp serial queue' visited'))
        in case Repo_Lookup S sha D rp cur ''@'' ''SOA'' of
             Inl e \<Rightarrow> walk
           | Inr soaSet \<Rightarrow>
               (case rs_RRs soaSet of
                  [rr] \<Rightarrow> if AsSOA D (rr_Data rr) = Some serial then Inr (cur, soaSet) else walk
                | _ \<Rightarrow> walk))"
  by pat_completeness auto
termination
proof (relation "inv_image (less_than <*lex*> less_than) (\<lambda>(S, sha, D, rp, serial, queue, seen). (card (- set seen), length queue))")
qed (auto simp del: in_lex_prod split: prod.split intro: enqueue_measure queue_measure)

definition findCommitBySOASerial :: "'s Storage \<Rightarrow> (bytes \<Rightarrow> Hash) \<Rightarrow> 'd DNS \<Rightarrow> 's Repo \<Rightarrow> Hash \<Rightarrow> 32 word \<Rightarrow> error + Hash \<times> 'd RRset" where
  "findCommitBySOASerial S sha D rp head serial =
     (if IsZero head then Inl (ErrOther ''head is zero'')
      else find_serial_loop S sha D rp serial [head] [head])"

fun clientIXFRSerial :: "'d DNS \<Rightarrow> 'd RR list \<Rightarrow> 32 word option" where
  "clientIXFRSerial D [] = None"
| "clientIXFRSerial D (rr # rrs) = (case AsSOA D (rr_Data rr) of Some serial \<Rightarrow> Some serial | None \<Rightarrow> clientIXFRSerial D rrs)"

text \<open>
  The records of the changes: what is removed and what is added.  A blob that cannot be
  loaded ends the treatment of its change; the apex SOA is left out.
\<close>

fun ixfr_changes :: "'s Storage \<Rightarrow> 'd DNS \<Rightarrow> 's \<Rightarrow> Change list \<Rightarrow> 'd RR list \<Rightarrow> 'd RR list \<Rightarrow> 'd RR list \<times> 'd RR list" where
  "ixfr_changes S D s [] removed added = (removed, added)"
| "ixfr_changes S D s (ch # chs) removed added =
     (if ch_Path ch = [] \<and> ch_RRType ch = ''SOA'' then ixfr_changes S D s chs removed added
      else
        let old = (if IsZero (ch_OldBlob ch) then Inr [] else loadRRs S D s (ch_OldBlob ch)) in
        case old of
          Inl e \<Rightarrow> ixfr_changes S D s chs removed added
        | Inr rs \<Rightarrow>
            let new = (if IsZero (ch_NewBlob ch) then Inr [] else loadRRs S D s (ch_NewBlob ch)) in
            case new of
              Inl e \<Rightarrow> ixfr_changes S D s chs (removed @ rs) added
            | Inr as \<Rightarrow> ixfr_changes S D s chs (removed @ rs) (added @ as))"

definition serveIXFR :: "'s Storage \<Rightarrow> (bytes \<Rightarrow> Hash) \<Rightarrow> 'd DNS \<Rightarrow> nat \<Rightarrow> Time \<Rightarrow> Config \<Rightarrow> 's Repo \<Rightarrow> 'd Msg \<Rightarrow> ('d Out \<times> nat) option" where
  "serveIXFR S sha D fuel now cfg rp req =
     (let s = r_storage rp; failed = Some (sendAXFRError, RcodeServerFailure);
          axfr = serveAXFR S sha D fuel now cfg rp req in
      case resolveHead S D now cfg rp (hd (m_Question req)) (cf_Zone cfg) of
        Inl e \<Rightarrow> failed
      | Inr head \<Rightarrow>
          (case Repo_Lookup S sha D rp head ''@'' ''SOA'' of
             Inl e \<Rightarrow> failed
           | Inr latest \<Rightarrow>
               (case rs_RRs latest of
                  [latestSOA] \<Rightarrow>
                    (case AsSOA D (rr_Data latestSOA) of
                       None \<Rightarrow> failed
                     | Some latestSerial \<Rightarrow>
                         (case clientIXFRSerial D (m_Ns req) of
                            None \<Rightarrow> axfr
                          | Some clientSerial \<Rightarrow>
                              if clientSerial = latestSerial then Some (Envelope [latestSOA], RcodeSuccess)
                              else case findCommitBySOASerial S sha D rp head clientSerial of
                                Inl e \<Rightarrow> axfr
                              | Inr (histCommit, histSet) \<Rightarrow>
                                  (case rs_RRs histSet of
                                     [histSOA] \<Rightarrow>
                                       if AsSOA D (rr_Data histSOA) = None then axfr
                                       else
                                         (case Diff S sha s fuel (TreeOf S s histCommit) (TreeOf S s head) of
                                            None \<Rightarrow> None
                                          | Some (Inl e) \<Rightarrow> axfr
                                          | Some (Inr chs) \<Rightarrow>
                                              (case ixfr_changes S D s chs [] [] of (removed, added) \<Rightarrow>
                                                 Some (Envelope ([latestSOA, histSOA] @ removed @ [latestSOA] @ added @ [latestSOA]), RcodeSuccess)))
                                   | _ \<Rightarrow> axfr)))
                | _ \<Rightarrow> failed)))"

section \<open>Queries (resolve.go)\<close>

definition blank_resp :: "'d Resp" where
  "blank_resp = \<lparr>re_Rcode = RcodeSuccess, re_Answer = [], re_NsRRs = [], re_Authoritative = True, re_RecursionAvailable = False\<rparr>"

text \<open>The part of \<open>Handle\<close> for a name that has a CNAME; \<open>None\<close> where the list of records is empty and Go panics.\<close>

definition cname_answer :: "'s Storage \<Rightarrow> (bytes \<Rightarrow> Hash) \<Rightarrow> 'd DNS \<Rightarrow> 'd DNSQ \<Rightarrow> Config \<Rightarrow> 's Repo \<Rightarrow> Hash \<Rightarrow> string \<Rightarrow> 'd RRset \<Rightarrow> 'd Resp option" where
  "cname_answer S sha D Q cfg rp head qtype cname =
     (case rs_RRs cname of
        [] \<Rightarrow> None
      | first # _ \<Rightarrow>
          let chased = (case AsCNAME Q (rr_Data first) of
                None \<Rightarrow> []
              | Some t \<Rightarrow>
                  let target = ToLower (Fqdn Q t) in
                  if \<not> HasSuffix target (cf_Zone cfg) then []
                  else case Repo_Lookup S sha D rp head (relative cfg target) qtype of
                    Inl e \<Rightarrow> []
                  | Inr rs \<Rightarrow> rs_RRs rs)
          in Some (attachSOA S sha D rp head (blank_resp\<lparr>re_Answer := rs_RRs cname @ chased\<rparr>)))"

definition answer :: "'s Storage \<Rightarrow> (bytes \<Rightarrow> Hash) \<Rightarrow> 'd DNS \<Rightarrow> 'd DNSQ \<Rightarrow> Config \<Rightarrow> 's Repo \<Rightarrow> Hash \<Rightarrow> 'd Msg \<Rightarrow> Question \<Rightarrow> string \<Rightarrow> 'd Resp" where
  "answer S sha D Q cfg rp head req q rel =
     (case Repo_Lookup S sha D rp head rel (TypeToString D (q_Qtype q)) of
        Inr rs \<Rightarrow>
          let resp = blank_resp\<lparr>re_Answer := rs_RRs rs\<rparr>;
              resp = (if dnssecOK req then attachRRSIG S sha D Q rp head rel (q_Qtype q) resp else resp)
          in attachSOA S sha D rp head resp
      | Inl e \<Rightarrow>
          if e = ErrNotFound then
            attachSOA S sha D rp head
              (blank_resp\<lparr>re_Rcode := (if nameExists S sha rp head rel then RcodeSuccess else RcodeNameError)\<rparr>)
          else blank_resp\<lparr>re_Rcode := RcodeServerFailure\<rparr>)"

definition Handle :: "'s Storage \<Rightarrow> (bytes \<Rightarrow> Hash) \<Rightarrow> 'd DNS \<Rightarrow> 'd DNSQ \<Rightarrow> nat \<Rightarrow> Time \<Rightarrow> Config \<Rightarrow> error + 's Repo \<Rightarrow> 'd Msg \<Rightarrow>
    ('d Out \<times> (string \<times> nat) option) option" where
  "Handle S sha D Q fuel now cfg snap req =
     (let reply = (\<lambda>resp. Some (Message resp, observe D cfg req (re_Rcode resp)));
          code = (\<lambda>rc. reply (blank_resp\<lparr>re_Rcode := rc\<rparr>));
          transfer = map_option (\<lambda>(out, rcode). (out, observe D cfg req rcode)) in
      case m_Question req of
        [] \<Rightarrow> code RcodeFormatError
      | q # _ \<Rightarrow>
          let qname = ToLower (Fqdn Q (q_Name q)) in
          if \<not> HasSuffix qname (cf_Zone cfg) then code RcodeRefused
          else case snap of
            Inl e \<Rightarrow> code RcodeServerFailure
          | Inr rp \<Rightarrow>
              if q_Qtype q = TypeAXFR then transfer (serveAXFR S sha D fuel now cfg rp req)
              else if q_Qtype q = TypeIXFR then transfer (serveIXFR S sha D fuel now cfg rp req)
              else case resolveHead S D now cfg rp q qname of
                Inl e \<Rightarrow> code RcodeServerFailure
              | Inr head \<Rightarrow>
                  let rel = relative cfg qname in
                  (case (if q_Qtype q = TypeCNAME then Inl ErrNotFound else Repo_Lookup S sha D rp head rel ''CNAME'') of
                     Inr cname \<Rightarrow>
                       (case cname_answer S sha D Q cfg rp head (TypeToString D (q_Qtype q)) cname of
                          None \<Rightarrow> Some (Crash blank_resp, observe D cfg req RcodeSuccess)
                        | Some resp \<Rightarrow> reply resp)
                   | Inl e \<Rightarrow> reply (answer S sha D Q cfg rp head req q rel)))"

text \<open>\<open>remoteIP\<close>: the client subnet option first, then the peer's address without the port.\<close>

definition remoteIP :: "string option \<Rightarrow> 'd Msg \<Rightarrow> string" where
  "remoteIP peer req =
     (case (case m_Edns req of None \<Rightarrow> [] | Some opt \<Rightarrow> ed_Subnets opt) of
        a # _ \<Rightarrow> a
      | [] \<Rightarrow>
          (case peer of
             None \<Rightarrow> []
           | Some addr \<Rightarrow>
               (case LastIndexByte addr (CHR '':'') of
                  Some i \<Rightarrow> if i > 0 then take i addr else addr
                | None \<Rightarrow> addr)))"

definition wrappedRouter :: "(QueryContext \<Rightarrow> string) \<Rightarrow> string \<Rightarrow> QueryContext \<Rightarrow> string" where
  "wrappedRouter base ip q = base (q\<lparr>qc_ClientIP := ip\<rparr>)"

definition HandleWithRemote :: "'s Storage \<Rightarrow> (bytes \<Rightarrow> Hash) \<Rightarrow> 'd DNS \<Rightarrow> 'd DNSQ \<Rightarrow> nat \<Rightarrow> Time \<Rightarrow> Config \<Rightarrow> error + 's Repo \<Rightarrow> string option \<Rightarrow> 'd Msg \<Rightarrow>
    ('d Out \<times> (string \<times> nat) option) option" where
  "HandleWithRemote S sha D Q fuel now cfg snap peer req =
     (case cf_Router cfg of
        Some route \<Rightarrow>
          let ip = remoteIP peer req in
          if ip \<noteq> [] then Handle S sha D Q fuel now (cfg\<lparr>cf_Router := Some (wrappedRouter route ip)\<rparr>) snap req
          else Handle S sha D Q fuel now cfg snap req
      | None \<Rightarrow> Handle S sha D Q fuel now cfg snap req)"

end
