(* ===== verification/ResolverCorrect.thy ===== *)
theory ResolverCorrect
  imports Pruned Resolver
begin

text \<open>
  What a resolver answers, in terms of the contents of the branch it serves: the answer to
  a query, the records of a full transfer, and the difference that an incremental
  transfer describes.
\<close>

section \<open>Lookups and blobs\<close>

definition rrset_at :: "'s Storage \<Rightarrow> 'd DNS \<Rightarrow> 's \<Rightarrow> Hash \<Rightarrow> error + 'd RRset" where
  "rrset_at S D s b = (case GetObject S s b of Inl e \<Rightarrow> Inl e | Inr obj \<Rightarrow> DecodeRRset D (obj_Payload obj))"

text \<open>All blobs of a zone can be read, and none is an empty RRset.\<close>

definition readable :: "'s Storage \<Rightarrow> 'd DNS \<Rightarrow> 's \<Rightarrow> zone_map \<Rightarrow> bool" where
  "readable S D s Z \<longleftrightarrow> (\<forall>p t b. Z p t = Some b \<longrightarrow> (\<exists>rs. rrset_at S D s b = Inr rs \<and> rs_RRs rs \<noteq> []))"

definition cell_rrs :: "'s Storage \<Rightarrow> 'd DNS \<Rightarrow> 's \<Rightarrow> Hash option \<Rightarrow> 'd RR list" where
  "cell_rrs S D s v = (case v of None \<Rightarrow> [] | Some b \<Rightarrow> (case rrset_at S D s b of Inl e \<Rightarrow> [] | Inr rs \<Rightarrow> rs_RRs rs))"

lemma loadRRs_rrset_at: "loadRRs S D s b = (case rrset_at S D s b of Inl e \<Rightarrow> Inl e | Inr rs \<Rightarrow> Inr (rs_RRs rs))"
  by (simp add: loadRRs_def rrset_at_def split: sum.splits)

lemma readableD: "readable S D s Z \<Longrightarrow> Z p t = Some b \<Longrightarrow> loadRRs S D s b = Inr (cell_rrs S D s (Z p t))"
  by (fastforce simp: readable_def loadRRs_rrset_at cell_rrs_def)

context storage
begin

lemma Lookup_zone:
  assumes "loadCommit S (r_storage r) h = Inr c" and "h \<noteq> ZeroHash" and "root_ok S sha (r_storage r) n (c_Tree c)"
    and "ZeroHash \<notin> Domain (hist (r_storage r))"
  shows "Repo_Lookup S sha D r h fqdn rrtype =
    (case zone_of S sha (r_storage r) (c_Tree c) (splitFQDN (normFQDN fqdn)) (ToUpper rrtype) of
       None \<Rightarrow> Inl ErrNotFound | Some b \<Rightarrow> rrset_at S D (r_storage r) b)"
proof -
  obtain obj where obj: "GetObject S (r_storage r) h = Inr obj" "DecodeCommit (obj_Payload obj) = Inr c"
    using assms(1) by (auto simp: loadCommit_def split: sum.splits)
  show ?thesis unfolding Lookup_spec [OF assms(2) obj assms(3,4)] rrset_at_def ..
qed

lemma apex_path [simp]: "splitFQDN (normFQDN ''@'') = []"
  by code_simp

end

section \<open>Queries\<close>

text \<open>The records of a name and type in the answer, with the signatures that cover the type when they were asked for.\<close>

definition expected_answer :: "'s Storage \<Rightarrow> 'd DNS \<Rightarrow> 'd DNSQ \<Rightarrow> 's \<Rightarrow> zone_map \<Rightarrow> bool \<Rightarrow> string list \<Rightarrow> 16 word \<Rightarrow> 'd RR list" where
  "expected_answer S D Q s Z do p qtype =
     (case Z p (ToUpper (TypeToString D qtype)) of
        None \<Rightarrow> []
      | Some b \<Rightarrow> cell_rrs S D s (Some b) @
          (if do then filter (\<lambda>rr. AsRRSIG Q (rr_Data rr) = Some qtype) (cell_rrs S D s (Z p ''RRSIG'')) else []))"

definition expected_rcode :: "'d DNS \<Rightarrow> zone_map \<Rightarrow> string list \<Rightarrow> 16 word \<Rightarrow> nat" where
  "expected_rcode D Z p qtype =
     (if Z p (ToUpper (TypeToString D qtype)) \<noteq> None \<or> p = [] \<or> (\<exists>q t. Z (p @ q) t \<noteq> None) then RcodeSuccess else RcodeNameError)"

context storage
begin

lemma answer_spec:
  fixes rel :: string
  assumes c: "loadCommit S (r_storage rp) head = Inr c" and nz: "head \<noteq> ZeroHash" and root: "root_ok S sha (r_storage rp) n (c_Tree c)"
    and pr: "root_pruned S sha (r_storage rp) m (c_Tree c)" and tz: "c_Tree c \<noteq> ZeroHash" and zero: "ZeroHash \<notin> Domain (hist (r_storage rp))"
    and rd: "readable S D (r_storage rp) (zone_of S sha (r_storage rp) (c_Tree c))"
  defines "Z \<equiv> zone_of S sha (r_storage rp) (c_Tree c)" and "p \<equiv> splitFQDN (normFQDN rel)"
  shows "answer S sha D Q cfg rp head req q rel =
    blank_resp\<lparr>re_Rcode := expected_rcode D Z p (q_Qtype q), re_Answer := expected_answer S D Q (r_storage rp) Z (dnssecOK req) p (q_Qtype q),
      re_NsRRs := (if expected_answer S D Q (r_storage rp) Z (dnssecOK req) p (q_Qtype q) = [] then cell_rrs S D (r_storage rp) (Z [] ''SOA'') else [])\<rparr>"
proof -
  let ?s = "r_storage rp" and ?ty = "ToUpper (TypeToString D (q_Qtype q))"
  note look = Lookup_zone [OF c nz root zero, folded Z_def]
  have up: "ToUpper ''RRSIG'' = ''RRSIG''" "ToUpper ''SOA'' = ''SOA''" by code_simp+
  have cell: "\<exists>rs. rrset_at S D ?s b = Inr rs \<and> rs_RRs rs \<noteq> [] \<and> cell_rrs S D ?s (Some b) = rs_RRs rs" if "Z a t = Some b" for a t b
    using rd that unfolding readable_def Z_def by (fastforce simp: cell_rrs_def)
  have soa: "attachSOA S sha D rp head resp = (if re_Answer resp \<noteq> [] then resp else resp\<lparr>re_NsRRs := re_NsRRs resp @ cell_rrs S D ?s (Z [] ''SOA'')\<rparr>)" for resp
    using cell [of "[]" "''SOA''"] by (cases "Z [] ''SOA''") (auto simp: attachSOA_def look up cell_rrs_def)
  have sig: "attachRRSIG S sha D Q rp head rel qt resp = resp\<lparr>re_Answer := re_Answer resp @ filter (\<lambda>rr. AsRRSIG Q (rr_Data rr) = Some qt) (cell_rrs S D ?s (Z p ''RRSIG''))\<rparr>" for qt resp
    using cell [of p "''RRSIG''"] by (cases "Z p ''RRSIG''") (auto simp: attachRRSIG_def look up cell_rrs_def p_def [symmetric])
  show ?thesis
  proof (cases "Z p ?ty")
    case None
    have "TreeOf S ?s head = c_Tree c" by (rule TreeOf_loadCommit [OF c nz])
    then have "nameExists S sha rp head rel \<longleftrightarrow> p = [] \<or> (\<exists>q t. Z (p @ q) t \<noteq> None)"
      using NodeExists_iff [OF root pr tz, folded Z_def] nz by (simp add: nameExists_def Repo_NameExists_def p_def)
    with None show ?thesis
      unfolding answer_def look p_def [symmetric] by (simp add: soa expected_answer_def expected_rcode_def blank_resp_def)
  next
    case (Some b)
    from cell [OF Some] obtain rs where rs: "rrset_at S D ?s b = Inr rs" "rs_RRs rs \<noteq> []" "cell_rrs S D ?s (Some b) = rs_RRs rs" by blast
    with Some show ?thesis
      unfolding answer_def look p_def [symmetric] by (simp add: soa sig expected_answer_def expected_rcode_def blank_resp_def)
  qed
qed

lemma Handle_answer:
  assumes q: "m_Question req = q # qs" and suf: "HasSuffix (ToLower (Fqdn Q (q_Name q))) (cf_Zone cfg)"
    and ty: "q_Qtype q \<noteq> TypeAXFR" "q_Qtype q \<noteq> TypeIXFR"
    and hd: "resolveHead S D now cfg rp q (ToLower (Fqdn Q (q_Name q))) = Inr head"
    and c: "loadCommit S (r_storage rp) head = Inr c" and nz: "head \<noteq> ZeroHash" and root: "root_ok S sha (r_storage rp) n (c_Tree c)"
    and zero: "ZeroHash \<notin> Domain (hist (r_storage rp))"
    and cn: "q_Qtype q = TypeCNAME \<or> zone_of S sha (r_storage rp) (c_Tree c) (splitFQDN (normFQDN (relative cfg (ToLower (Fqdn Q (q_Name q)))))) ''CNAME'' = None"
  shows "Handle S sha D Q fuel now cfg (Inr rp) req =
    (let resp = answer S sha D Q cfg rp head req q (relative cfg (ToLower (Fqdn Q (q_Name q)))) in
     Some (Message resp, observe D cfg req (re_Rcode resp)))"
proof -
  have "ToUpper ''CNAME'' = ''CNAME''" by code_simp
  then have "(if q_Qtype q = TypeCNAME then Inl ErrNotFound
      else Repo_Lookup S sha D rp head (relative cfg (ToLower (Fqdn Q (q_Name q)))) ''CNAME'') = Inl ErrNotFound"
    using cn by (auto simp: Lookup_zone [OF c nz root zero])
  then show ?thesis using q suf ty hd by (simp add: Handle_def Let_def)
qed

end

section \<open>Full transfers\<close>

definition is_apex_soa :: "string list \<Rightarrow> string \<Rightarrow> bool" where
  "is_apex_soa p t \<longleftrightarrow> p = [] \<and> t = ''SOA''"

text \<open>All records of a zone but the apex SOA.\<close>

definition records :: "'s Storage \<Rightarrow> 'd DNS \<Rightarrow> 's \<Rightarrow> zone_map \<Rightarrow> 'd RR multiset" where
  "records S D s Z = (\<Sum>(p, t) \<in> {(p, t). Z p t \<noteq> None \<and> \<not> is_apex_soa p t}. mset (cell_rrs S D s (Z p t)))"

definition leaf_rrs :: "'s Storage \<Rightarrow> 'd DNS \<Rightarrow> 's \<Rightarrow> string list \<times> string \<times> Hash \<Rightarrow> 'd RR list" where
  "leaf_rrs S D s l = (case l of (p, t, b) \<Rightarrow> if is_apex_soa p t then [] else cell_rrs S D s (Some b))"

lemma mset_concat_map: "mset (concat (map f xs)) = (\<Sum>x\<leftarrow>xs. mset (f x))"
  by (induction xs) auto

lemma mset_concat_distinct: "distinct xs \<Longrightarrow> mset (concat (map f xs)) = (\<Sum>x \<in> set xs. mset (f x))"
  by (simp add: mset_concat_map sum_list_distinct_conv_sum_set)

lemma records_leaves:
  assumes "distinct ls" and "set ls = {(p, t, b). Z p t = Some b}"
  shows "records S D s Z = mset (concat (map (leaf_rrs S D s) ls))" and "finite {(p, t). Z p t \<noteq> None}"
proof -
  let ?key = "\<lambda>(p, t, b). (p :: string list, t :: string)"
  have keys: "{(p, t). Z p t \<noteq> None} = ?key ` set ls" unfolding assms(2) by (auto simp: image_iff)
  then show fin: "finite {(p, t). Z p t \<noteq> None}" by simp
  have inj: "inj_on ?key (set ls)" unfolding assms(2) by (auto simp: inj_on_def)
  have "mset (concat (map (leaf_rrs S D s) ls)) = (\<Sum>l \<in> set ls. mset (leaf_rrs S D s l))" by (rule mset_concat_distinct [OF assms(1)])
  also have "\<dots> = (\<Sum>(p, t) \<in> {(p, t). Z p t \<noteq> None}. if is_apex_soa p t then {#} else mset (cell_rrs S D s (Z p t)))"
    unfolding keys sum.reindex [OF inj] by (rule sum.cong) (auto simp: assms(2) leaf_rrs_def)
  also have "\<dots> = records S D s Z"
    unfolding records_def by (rule sum.mono_neutral_cong_right) (use fin in auto)
  finally show "records S D s Z = mset (concat (map (leaf_rrs S D s) ls))" ..
qed

lemma visit_axfr:
  assumes "\<forall>(p, t, b) \<in> set ls. Z p t = Some b" and "readable S D s Z"
  shows "visit (axfr_leaf S D s) ls acc = (acc @ concat (map (leaf_rrs S D s) ls), Inr ())"
  using assms(1)
proof (induction ls arbitrary: acc)
  case (Cons l ls)
  obtain p t b where l: "l = (p, t, b)" by (cases l)
  have "loadRRs S D s b = Inr (cell_rrs S D s (Some b))" using readableD [OF assms(2), of p t b] Cons.prems by (simp add: l)
  with Cons show ?case by (simp add: l axfr_leaf_def leaf_rrs_def is_apex_soa_def)
qed simp

lemma zone_leaves:
  assumes "root_ok S sha s n h"
  obtains ls where "distinct ls" "set ls = {(p, t, b). zone_of S sha s h p t = Some b}"
    "\<And>fn acc. WalkAllLeaves S sha s n h fn acc = Some (visit fn ls acc)"
proof (cases "h = ZeroHash")
  case True
  then show thesis using that [of "[]"] by (simp add: zone_of_def WalkAllLeaves_def)
next
  case False
  then have ok: "tree_ok S sha s n h" using assms by (simp add: root_ok_def)
  show thesis
    using that [of "leaf_list S sha s n [] h"] leaf_list_distinct [OF ok, of "[]"] leaf_list_set [OF ok, of "[]"] walkLeavesAt_visit [OF ok, of "[]"] False
    by (auto simp: zone_of_def WalkAllLeaves_def)
qed

context storage
begin

lemma AXFR_spec:
  fixes D :: "'d DNS"
  assumes hd: "resolveHead S D now cfg rp (hd (m_Question req)) (cf_Zone cfg) = Inr head" and nz: "head \<noteq> ZeroHash"
    and c: "loadCommit S (r_storage rp) head = Inr c" and root: "root_ok S sha (r_storage rp) n (c_Tree c)"
    and zero: "ZeroHash \<notin> Domain (hist (r_storage rp))"
    and rd: "readable S D (r_storage rp) (zone_of S sha (r_storage rp) (c_Tree c))"
    and soa: "zone_of S sha (r_storage rp) (c_Tree c) [] ''SOA'' \<noteq> None"
  shows "\<exists>body. serveAXFR S sha D n now cfg rp req =
      Some (Envelope (cell_rrs S D (r_storage rp) (zone_of S sha (r_storage rp) (c_Tree c) [] ''SOA'') @ body @
        cell_rrs S D (r_storage rp) (zone_of S sha (r_storage rp) (c_Tree c) [] ''SOA'')), RcodeSuccess) \<and>
    mset body = records S D (r_storage rp) (zone_of S sha (r_storage rp) (c_Tree c))"
proof -
  let ?s = "r_storage rp" and ?Z = "zone_of S sha (r_storage rp) (c_Tree c)"
  obtain ls where ls: "distinct ls" "set ls = {(p, t, b). ?Z p t = Some b}"
    "\<And>fn (acc :: 'd RR list). WalkAllLeaves S sha ?s n (c_Tree c) fn acc = Some (visit fn ls acc)"
    using zone_leaves [OF root] by metis
  obtain b rs where b: "?Z [] ''SOA'' = Some b" "rrset_at S D ?s b = Inr rs"
    using soa rd unfolding readable_def by (meson not_None_eq)
  have "Repo_Lookup S sha D rp head ''@'' ''SOA'' = Inr rs" using b by (simp add: Lookup_zone [OF c nz root zero])
  moreover have "cell_rrs S D ?s (?Z [] ''SOA'') = rs_RRs rs" using b by (simp add: cell_rrs_def)
  moreover have "visit (axfr_leaf S D ?s) ls acc = (acc @ concat (map (leaf_rrs S D ?s) ls), Inr ())" for acc
    by (rule visit_axfr [OF _ rd]) (auto simp: ls(2))
  ultimately show ?thesis
    using hd c ls(3) records_leaves(1) [OF ls(1,2), of S D ?s]
    by (intro exI [of _ "concat (map (leaf_rrs S D ?s) ls)"]) (simp add: serveAXFR_def Let_def)
qed

end

end
