(* ===== verification/IncrementalTransfer.thy ===== *)
theory IncrementalTransfer
  imports ResolverCorrect
begin

text \<open>
  Incremental transfers (ixfr.go): the records of a list of changes as the difference of two
  zones, the search for the commit that a client has, and what is sent.
\<close>

section \<open>The difference of two zones\<close>

definition change_rrs :: "'s Storage \<Rightarrow> 'd DNS \<Rightarrow> 's \<Rightarrow> string list \<Rightarrow> string \<Rightarrow> Hash \<Rightarrow> 'd RR list" where
  "change_rrs S D s p t b = (if is_apex_soa p t \<or> b = ZeroHash then [] else cell_rrs S D s (Some b))"

lemma ixfr_changes_concat:
  assumes "\<forall>ch \<in> set chs. (ch_OldBlob ch \<noteq> ZeroHash \<longrightarrow> loadRRs S D s (ch_OldBlob ch) = Inr (cell_rrs S D s (Some (ch_OldBlob ch)))) \<and>
      (ch_NewBlob ch \<noteq> ZeroHash \<longrightarrow> loadRRs S D s (ch_NewBlob ch) = Inr (cell_rrs S D s (Some (ch_NewBlob ch))))"
  shows "ixfr_changes S D s chs removed added =
    (removed @ concat (map (\<lambda>ch. change_rrs S D s (ch_Path ch) (ch_RRType ch) (ch_OldBlob ch)) chs),
     added @ concat (map (\<lambda>ch. change_rrs S D s (ch_Path ch) (ch_RRType ch) (ch_NewBlob ch)) chs))"
  using assms by (induction chs arbitrary: removed added) (auto simp: change_rrs_def is_apex_soa_def Let_def)

lemma change_of_blobs:
  "ch_OldBlob (change_of p t x y) = (case x of None \<Rightarrow> ZeroHash | Some h \<Rightarrow> h)"
  "ch_NewBlob (change_of p t x y) = (case y of None \<Rightarrow> ZeroHash | Some h \<Rightarrow> h)"
  by (auto simp: change_of_def split: option.splits)

text \<open>The sum of the records over any finite set of names and types that has all of the zone's.\<close>

definition cell :: "'s Storage \<Rightarrow> 'd DNS \<Rightarrow> 's \<Rightarrow> zone_map \<Rightarrow> string list \<times> string \<Rightarrow> 'd RR multiset" where
  "cell S D s Z k = (if is_apex_soa (fst k) (snd k) then {#} else mset (cell_rrs S D s (Z (fst k) (snd k))))"

lemma records_sum:
  assumes "finite K" and "{(p, t). Z p t \<noteq> None} \<subseteq> K"
  shows "records S D s Z = sum (cell S D s Z) K"
  unfolding records_def
proof (rule sum.mono_neutral_cong_left)
  show "\<forall>i \<in> K - {(p, t). Z p t \<noteq> None \<and> \<not> is_apex_soa p t}. cell S D s Z i = {#}"
    by (auto simp: cell_def cell_rrs_def split: option.splits)
qed (use assms in \<open>auto simp: cell_def\<close>)

lemma delta_records:
  fixes S :: "'s Storage" and D :: "'d DNS" and s :: 's
  assumes fin: "finite {(p, t). Zo p t \<noteq> None}" "finite {(p, t). Zn p t \<noteq> None}"
    and nz: "\<And>p t. Zo p t \<noteq> Some ZeroHash" "\<And>p t. Zn p t \<noteq> Some ZeroHash"
    and chs: "distinct chs" "set chs = changes [] Zo Zn"
  defines "removed \<equiv> concat (map (\<lambda>ch. change_rrs S D s (ch_Path ch) (ch_RRType ch) (ch_OldBlob ch)) chs)"
    and "added \<equiv> concat (map (\<lambda>ch. change_rrs S D s (ch_Path ch) (ch_RRType ch) (ch_NewBlob ch)) chs)"
  shows "mset removed \<subseteq># records S D s Zo" and "records S D s Zo - mset removed + mset added = records S D s Zn"
proof -
  define K where "K = {(p, t). Zo p t \<noteq> None} \<union> {(p, t). Zn p t \<noteq> None}"
  define C where "C = {(p, t). Zo p t \<noteq> Zn p t}"
  let ?ch = "\<lambda>(p, t). change_of p t (Zo p t) (Zn p t)"
  have K: "finite K" "{(p, t). Zo p t \<noteq> None} \<subseteq> K" "{(p, t). Zn p t \<noteq> None} \<subseteq> K" "C \<subseteq> K"
    using fin by (auto simp: K_def C_def)
  have set: "set chs = ?ch ` C" unfolding chs(2) changes_def C_def by auto
  have inj: "inj_on ?ch C" by (rule inj_onI) (metis (no_types, lifting) case_prod_conv change_of_sel(1,2) surj_pair)
  have sum: "mset (concat (map (\<lambda>ch. change_rrs S D s (ch_Path ch) (ch_RRType ch) (blob ch)) chs)) = sum (cell S D s Z) C"
    if "\<And>p t. Z p t \<noteq> Some ZeroHash" "\<And>p t. blob (change_of p t (Zo p t) (Zn p t)) = (case Z p t of None \<Rightarrow> ZeroHash | Some h \<Rightarrow> h)" for blob Z
  proof -
    have "mset (change_rrs S D s (ch_Path (?ch k)) (ch_RRType (?ch k)) (blob (?ch k))) = cell S D s Z k" for k
      using that [of "fst k" "snd k"] by (cases k) (auto simp: change_rrs_def cell_def cell_rrs_def split: option.splits)
    then show ?thesis unfolding mset_concat_distinct [OF chs(1)] set sum.reindex [OF inj] by (simp add: comp_def)
  qed
  have removed: "mset removed = sum (cell S D s Zo) C" unfolding removed_def by (rule sum [OF nz(1)]) (simp add: change_of_blobs)
  have added: "mset added = sum (cell S D s Zn) C" unfolding added_def by (rule sum [OF nz(2)]) (simp add: change_of_blobs)
  have split: "records S D s Z = sum (cell S D s Z) (K - C) + sum (cell S D s Z) C" if "{(p, t). Z p t \<noteq> None} \<subseteq> K" for Z
    unfolding records_sum [OF K(1) that] by (rule sum.subset_diff [OF K(4,1)])
  have "sum (cell S D s Zo) (K - C) = sum (cell S D s Zn) (K - C)"
    by (rule sum.cong) (auto simp: C_def cell_def)
  with removed added split [OF K(2)] split [OF K(3)]
  show "mset removed \<subseteq># records S D s Zo" "records S D s Zo - mset removed + mset added = records S D s Zn" by simp_all
qed

section \<open>Incremental transfers\<close>

text \<open>A commit whose apex has one SOA record, with the given serial.\<close>

definition has_serial :: "'s Storage \<Rightarrow> (bytes \<Rightarrow> Hash) \<Rightarrow> 'd DNS \<Rightarrow> 's Repo \<Rightarrow> 32 word \<Rightarrow> Hash \<Rightarrow> bool" where
  "has_serial S sha D rp serial x \<longleftrightarrow>
     (\<exists>rs rr. Repo_Lookup S sha D rp x ''@'' ''SOA'' = Inr rs \<and> rs_RRs rs = [rr] \<and> AsSOA D (rr_Data rr) = Some serial)"

lemma find_serial_step:
  assumes "cur \<noteq> ZeroHash" and "card (set visited) < maxCommits" and "\<not> has_serial S sha D rp serial cur"
    and "loadCommit S (r_storage rp) cur = Inr c" and "enqueue (c_Parents c) queue visited = (q', v')"
  shows "find_serial_loop S sha D rp serial (cur # queue) visited = find_serial_loop S sha D rp serial q' v'"
  using assms by (auto simp: has_serial_def Let_def split: sum.splits list.splits)

lemma find_serial_hit:
  assumes "cur \<noteq> ZeroHash" and "card (set visited) < maxCommits" and "has_serial S sha D rp serial cur"
  shows "\<exists>rs. find_serial_loop S sha D rp serial (cur # queue) visited = Inr (cur, rs) \<and> Repo_Lookup S sha D rp cur ''@'' ''SOA'' = Inr rs"
  using assms by (auto simp: has_serial_def)

lemma find_serial_loop_correct:
  fixes D :: "'d DNS"
  assumes "set queue \<subseteq> set seen" and "\<forall>x \<in> set seen - set queue. \<not> has_serial S sha D rp serial x \<and> parents S (r_storage rp) `` {x} \<subseteq> set seen"
    and "\<forall>x \<in> set seen. complete S (r_storage rp) x"
    and "\<forall>x \<in> (parents S (r_storage rp))\<^sup>* `` set seen. x \<noteq> ZeroHash"
  shows "case find_serial_loop S sha D rp serial queue seen of
      Inr (x, rs) \<Rightarrow> x \<in> (parents S (r_storage rp))\<^sup>* `` set seen \<and> has_serial S sha D rp serial x \<and> Repo_Lookup S sha D rp x ''@'' ''SOA'' = Inr rs
    | Inl _ \<Rightarrow> (\<forall>x \<in> (parents S (r_storage rp))\<^sup>* `` set seen. \<not> has_serial S sha D rp serial x) \<or>
        maxCommits \<le> card ((parents S (r_storage rp))\<^sup>* `` set seen)"
  using assms(1-3,4)
proof (induction "(card (- set seen), length queue)" arbitrary: queue seen rule: wf_induct_rule [OF wf_lex_prod [OF wf_less_than wf_less_than]])
  case 1
  note inv = "1.prems"
  let ?R = "parents S (r_storage rp)"
  show ?case
  proof (cases queue)
    case Nil
    then have "?R\<^sup>* `` set seen = set seen" using inv by (intro closed_rtrancl) auto
    with inv Nil show ?thesis by auto
  next
    case (Cons h rest)
    have h: "h \<in> set seen" using inv(1) Cons by simp
    then have hr: "h \<in> ?R\<^sup>* `` set seen" by blast
    then have nz: "h \<noteq> ZeroHash" using inv(4) by blast
    consider (full) "maxCommits \<le> card (set seen)" | (hit) "card (set seen) < maxCommits" "has_serial S sha D rp serial h"
      | (step) "card (set seen) < maxCommits" "\<not> has_serial S sha D rp serial h" by linarith
    then show ?thesis
    proof cases
      case full
      have "card (set seen) \<le> card (?R\<^sup>* `` set seen)" by (rule card_mono) auto
      with full show ?thesis by (simp add: Cons)
    next
      case hit
      obtain rs where "find_serial_loop S sha D rp serial (h # rest) seen = Inr (h, rs)" "Repo_Lookup S sha D rp h ''@'' ''SOA'' = Inr rs"
        using find_serial_hit [OF nz hit, of rest] by blast
      with hit(2) hr show ?thesis unfolding Cons by (simp del: find_serial_loop.simps)
    next
      case step
      obtain c where c: "loadCommit S (r_storage rp) h = Inr c" using complete_load [OF bspec [OF inv(3) h]] by (elim exE)
      obtain q' seen' where e: "enqueue (c_Parents c) rest seen = (q', seen')" by (metis surj_pair)
      obtain new where new: "q' = rest @ new" "set new = set (c_Parents c) - set seen" "set seen' = set seen \<union> set (c_Parents c)"
        using enqueue_spec [OF e] by blast
      have seen': "set seen' = set seen \<union> ?R `` {h}" using new(3) parents_Image [OF c] by simp
      have eq: "?R\<^sup>* `` set seen' = ?R\<^sup>* `` set seen"
        unfolding seen' by (rule rtrancl_Image_absorb [OF h])
      have less: "((card (- set seen'), length q'), card (- set seen), length queue) \<in> less_than <*lex*> less_than"
        using enqueue_measure [OF e] by (simp add: Cons)
      have "set q' \<subseteq> set seen'" using inv(1) new Cons by auto
      moreover have "\<forall>x \<in> set seen' - set q'. \<not> has_serial S sha D rp serial x \<and> ?R `` {x} \<subseteq> set seen'"
      proof
        fix x assume x: "x \<in> set seen' - set q'"
        then have "x \<in> set seen" "x \<notin> set rest" using new by auto
        then show "\<not> has_serial S sha D rp serial x \<and> ?R `` {x} \<subseteq> set seen'"
          using inv(2) step(2) seen' Cons by (cases "x = h") auto
      qed
      moreover have "\<forall>x \<in> set seen'. complete S (r_storage rp) x"
        using inv(3) h complete_reach [of S "r_storage rp" h] unfolding seen' by blast
      ultimately show ?thesis
        using "1.hyps" [OF less] inv(4) unfolding eq Cons find_serial_step [OF nz step c e] by blast
    qed
  qed
qed

text \<open>A zone with one SOA record at its apex, and its serial.\<close>

definition apex_serial :: "'s Storage \<Rightarrow> 'd DNS \<Rightarrow> 's \<Rightarrow> zone_map \<Rightarrow> 32 word option" where
  "apex_serial S D s Z = (case cell_rrs S D s (Z [] ''SOA'') of [rr] \<Rightarrow> AsSOA D (rr_Data rr) | _ \<Rightarrow> None)"

lemma apex_serial_SomeD:
  assumes "apex_serial S D s Z = Some n"
  obtains b rs rr where "Z [] ''SOA'' = Some b" "rrset_at S D s b = Inr rs" "rs_RRs rs = [rr]" "AsSOA D (rr_Data rr) = Some n"
    "cell_rrs S D s (Z [] ''SOA'') = [rr]"
  using assms by (auto simp: apex_serial_def cell_rrs_def split: option.splits sum.splits list.splits)

context storage
begin

lemma has_serial_iff:
  assumes c: "loadCommit S (r_storage rp) h = Inr c" and nz: "h \<noteq> ZeroHash" and root: "root_ok S sha (r_storage rp) n (c_Tree c)"
    and zero: "ZeroHash \<notin> Domain (hist (r_storage rp))"
  shows "has_serial S sha D rp serial h \<longleftrightarrow> apex_serial S D (r_storage rp) (zone_of S sha (r_storage rp) (c_Tree c)) = Some serial"
  unfolding has_serial_def Lookup_zone [OF c nz root zero]
  by (auto simp: apex_serial_def cell_rrs_def split: option.splits sum.splits list.splits)

lemma findCommit_correct:
  assumes hist: "history_ok S sha (r_storage rp) n head" and zero: "ZeroHash \<notin> Domain (hist (r_storage rp))"
  shows "case findCommitBySOASerial S sha D rp head serial of
      Inr (x, rs) \<Rightarrow> (head, x) \<in> (parents S (r_storage rp))\<^sup>* \<and> Repo_Lookup S sha D rp x ''@'' ''SOA'' = Inr rs \<and>
        apex_serial S D (r_storage rp) (zone_of S sha (r_storage rp) (TreeOf S (r_storage rp) x)) = Some serial
    | Inl _ \<Rightarrow> maxCommits \<le> card ((parents S (r_storage rp))\<^sup>* `` {head}) \<or>
        (\<forall>x. (head, x) \<in> (parents S (r_storage rp))\<^sup>* \<longrightarrow> apex_serial S D (r_storage rp) (zone_of S sha (r_storage rp) (TreeOf S (r_storage rp) x)) \<noteq> Some serial)"
proof -
  let ?R = "parents S (r_storage rp)"
  note loop = find_serial_loop_correct [of "[head]" "[head]" S sha D rp serial]
  have serial: "has_serial S sha D rp serial x \<longleftrightarrow> apex_serial S D (r_storage rp) (zone_of S sha (r_storage rp) (TreeOf S (r_storage rp) x)) = Some serial"
    if reach: "(head, x) \<in> ?R\<^sup>*" for x
  proof -
    have x: "x \<noteq> ZeroHash" "root_ok S sha (r_storage rp) n (TreeOf S (r_storage rp) x)"
      using hist reach by (auto simp: history_ok_def)
    obtain c where c: "loadCommit S (r_storage rp) x = Inr c"
      using complete_load [OF complete_reach [OF history_okD(1) [OF hist] reach]] by (elim exE)
    show ?thesis using has_serial_iff [OF c] TreeOf_loadCommit [OF c] zero x by simp
  qed
  have "findCommitBySOASerial S sha D rp head serial = find_serial_loop S sha D rp serial [head] [head]"
    using history_okD(2) [OF hist] by (simp add: findCommitBySOASerial_def)
  then show ?thesis
    using loop hist serial unfolding history_ok_def by (auto simp del: find_serial_loop.simps split: sum.splits)
qed

lemma readable_nonzero:
  assumes "readable S D s Z" and "ZeroHash \<notin> Domain (hist s)"
  shows "Z p t \<noteq> Some ZeroHash"
  using assms get_absent [OF assms(2)] by (fastforce simp: readable_def rrset_at_def)

text \<open>The difference that an incremental transfer sends between two readable zones.\<close>

lemma ixfr_changes_spec:
  fixes s :: 's and D :: "'d DNS"
  assumes root: "root_ok S sha s n a" "root_ok S sha s n b" and zero: "ZeroHash \<notin> Domain (hist s)"
    and rd: "readable S D s (zone_of S sha s a)" "readable S D s (zone_of S sha s b)"
  obtains chs removed added where "Diff S sha s n a b = Some (Inr chs)" "ixfr_changes S D s chs [] [] = (removed, added)"
    "mset removed \<subseteq># records S D s (zone_of S sha s a)"
    "records S D s (zone_of S sha s a) - mset removed + mset added = records S D s (zone_of S sha s b)"
proof -
  let ?Za = "zone_of S sha s a" and ?Zb = "zone_of S sha s b"
  obtain chs where chs: "Diff S sha s n a b = Some (Inr chs)" "distinct chs" "set chs = changes [] ?Za ?Zb"
    using Diff_spec [OF root] by blast
  have fin: "finite {(p, t). zone_of S sha s h p t \<noteq> None}" if h: "root_ok S sha s n h" for h
  proof -
    obtain ls where "distinct ls" "set ls = {(p, t, x). zone_of S sha s h p t = Some x}"
      by (rule zone_leaves [OF h])
    then show ?thesis by (rule records_leaves(2))
  qed
  have load: "x = ZeroHash \<or> loadRRs S D s x = Inr (cell_rrs S D s (Some x))"
    if "readable S D s Z" "x = (case Z p t of None \<Rightarrow> ZeroHash | Some h \<Rightarrow> h)" for Z p t x
    using that readableD [OF that(1), of p t] by (cases "Z p t") auto
  have "ixfr_changes S D s chs [] [] =
    ([] @ concat (map (\<lambda>ch. change_rrs S D s (ch_Path ch) (ch_RRType ch) (ch_OldBlob ch)) chs),
     [] @ concat (map (\<lambda>ch. change_rrs S D s (ch_Path ch) (ch_RRType ch) (ch_NewBlob ch)) chs))"
  proof (rule ixfr_changes_concat, rule ballI)
    fix ch assume "ch \<in> set chs"
    then obtain p t where "ch = change_of p t (?Za p t) (?Zb p t)" unfolding chs(3) changes_def by auto
    then have blobs: "ch_OldBlob ch = (case ?Za p t of None \<Rightarrow> ZeroHash | Some h \<Rightarrow> h)" "ch_NewBlob ch = (case ?Zb p t of None \<Rightarrow> ZeroHash | Some h \<Rightarrow> h)"
      by (simp_all add: change_of_blobs)
    show "(ch_OldBlob ch \<noteq> ZeroHash \<longrightarrow> loadRRs S D s (ch_OldBlob ch) = Inr (cell_rrs S D s (Some (ch_OldBlob ch)))) \<and>
      (ch_NewBlob ch \<noteq> ZeroHash \<longrightarrow> loadRRs S D s (ch_NewBlob ch) = Inr (cell_rrs S D s (Some (ch_NewBlob ch))))"
      using load [OF rd(1) blobs(1)] load [OF rd(2) blobs(2)] by blast
  qed
  with that [OF chs(1)] delta_records [OF fin [OF root(1)] fin [OF root(2)] readable_nonzero [OF rd(1) zero] readable_nonzero [OF rd(2) zero] chs(2,3), of S D s]
  show thesis by simp
qed

lemma IXFR_spec:
  fixes rp :: "'s Repo" and D :: "'d DNS"
  assumes hd: "resolveHead S D now cfg rp (hd (m_Question req)) (cf_Zone cfg) = Inr head"
    and hist: "history_ok S sha (r_storage rp) n head" and zero: "ZeroHash \<notin> Domain (hist (r_storage rp))"
    and rd: "\<And>x. (head, x) \<in> (parents S (r_storage rp))\<^sup>* \<Longrightarrow> readable S D (r_storage rp) (zone_of S sha (r_storage rp) (TreeOf S (r_storage rp) x))"
    and latest: "cell_rrs S D (r_storage rp) (zone_of S sha (r_storage rp) (TreeOf S (r_storage rp) head) [] ''SOA'') = [new]"
      "AsSOA D (rr_Data new) = Some latest"
    and client: "clientIXFRSerial D (m_Ns req) = Some serial"
  shows "if serial = latest then serveIXFR S sha D n now cfg rp req = Some (Envelope [new], RcodeSuccess)
    else (\<exists>x old removed added. (head, x) \<in> (parents S (r_storage rp))\<^sup>* \<and>
        cell_rrs S D (r_storage rp) (zone_of S sha (r_storage rp) (TreeOf S (r_storage rp) x) [] ''SOA'') = [old] \<and>
        AsSOA D (rr_Data old) = Some serial \<and>
        serveIXFR S sha D n now cfg rp req = Some (Envelope ([new, old] @ removed @ [new] @ added @ [new]), RcodeSuccess) \<and>
        mset removed \<subseteq># records S D (r_storage rp) (zone_of S sha (r_storage rp) (TreeOf S (r_storage rp) x)) \<and>
        records S D (r_storage rp) (zone_of S sha (r_storage rp) (TreeOf S (r_storage rp) x)) - mset removed + mset added =
          records S D (r_storage rp) (zone_of S sha (r_storage rp) (TreeOf S (r_storage rp) head))) \<or>
      serveIXFR S sha D n now cfg rp req = serveAXFR S sha D n now cfg rp req \<and>
      (maxCommits \<le> card ((parents S (r_storage rp))\<^sup>* `` {head}) \<or>
        (\<forall>x. (head, x) \<in> (parents S (r_storage rp))\<^sup>* \<longrightarrow> apex_serial S D (r_storage rp) (zone_of S sha (r_storage rp) (TreeOf S (r_storage rp) x)) \<noteq> Some serial))"
proof -
  let ?s = "r_storage rp"
  let ?Z = "\<lambda>x. zone_of S sha ?s (TreeOf S ?s x)"
  obtain c where c: "loadCommit S ?s head = Inr c" "head \<noteq> ZeroHash" "TreeOf S ?s head = c_Tree c"
    using complete_load [OF history_okD(1) [OF hist]] history_okD(2) [OF hist] TreeOf_loadCommit by metis
  have "apex_serial S D ?s (?Z head) = Some latest" using latest by (simp add: apex_serial_def)
  then obtain rs where look: "Repo_Lookup S sha D rp head ''@'' ''SOA'' = Inr rs" "rs_RRs rs = [new]"
    using latest(1) by (elim apex_serial_SomeD) (use Lookup_zone [OF c(1,2) history_okD(3) [OF hist, unfolded c(3)] zero, of D "''@''" "''SOA''"] c(3) in auto)
  have run: "serveIXFR S sha D n now cfg rp req = (if serial = latest then Some (Envelope [new], RcodeSuccess)
      else case findCommitBySOASerial S sha D rp head serial of
        Inl e \<Rightarrow> serveAXFR S sha D n now cfg rp req
      | Inr (x, hs) \<Rightarrow> (case rs_RRs hs of
           [old] \<Rightarrow> if AsSOA D (rr_Data old) = None then serveAXFR S sha D n now cfg rp req
             else (case Diff S sha ?s n (TreeOf S ?s x) (TreeOf S ?s head) of
               None \<Rightarrow> None | Some (Inl e) \<Rightarrow> serveAXFR S sha D n now cfg rp req
             | Some (Inr chs) \<Rightarrow> (case ixfr_changes S D ?s chs [] [] of (removed, added) \<Rightarrow>
                 Some (Envelope ([new, old] @ removed @ [new] @ added @ [new]), RcodeSuccess)))
         | _ \<Rightarrow> serveAXFR S sha D n now cfg rp req))"
    using hd look latest(2) client by (simp add: serveIXFR_def Let_def)
  show ?thesis
  proof (cases "findCommitBySOASerial S sha D rp head serial")
    case (Inl e)
    with findCommit_correct [OF hist zero, of D serial] run show ?thesis by simp
  next
    case (Inr xh)
    obtain x hs where xh: "xh = (x, hs)" by (cases xh)
    have x: "(head, x) \<in> (parents S ?s)\<^sup>*" "Repo_Lookup S sha D rp x ''@'' ''SOA'' = Inr hs" "apex_serial S D ?s (?Z x) = Some serial"
      using findCommit_correct [OF hist zero, of D serial] by (simp_all add: Inr xh)
    have rx: "root_ok S sha ?s n (TreeOf S ?s x)" "x \<noteq> ZeroHash" using hist x(1) by (auto simp: history_ok_def)
    obtain cx where cx: "loadCommit S ?s x = Inr cx" "TreeOf S ?s x = c_Tree cx"
      using complete_load [OF complete_reach [OF history_okD(1) [OF hist] x(1)]] rx(2) TreeOf_loadCommit by metis
    obtain old where old: "rs_RRs hs = [old]" "AsSOA D (rr_Data old) = Some serial" "cell_rrs S D ?s (?Z x [] ''SOA'') = [old]"
      using x(3) by (elim apex_serial_SomeD) (use Lookup_zone [OF cx(1) rx(2) rx(1) [unfolded cx(2)] zero, of D "''@''" "''SOA''"] x(2) cx(2) in auto)
    obtain chs removed added where ch: "Diff S sha ?s n (TreeOf S ?s x) (TreeOf S ?s head) = Some (Inr chs)"
      "ixfr_changes S D ?s chs [] [] = (removed, added)" "mset removed \<subseteq># records S D ?s (?Z x)"
      "records S D ?s (?Z x) - mset removed + mset added = records S D ?s (?Z head)"
      by (rule ixfr_changes_spec [OF rx(1) history_okD(3) [OF hist] zero rd [OF x(1)] rd [OF rtrancl_refl]])
    show ?thesis
    proof (cases "serial = latest")
      case True
      then show ?thesis by (simp add: run)
    next
      case False
      then have "serveIXFR S sha D n now cfg rp req = Some (Envelope ([new, old] @ removed @ [new] @ added @ [new]), RcodeSuccess)"
        unfolding run Inr xh by (simp add: old(1,2) ch(1,2))
      with False x(1) old(2,3) ch(3,4) show ?thesis unfolding if_not_P [OF False] by blast
    qed
  qed
qed

end

end
