(* ===== verification/ServedZone.thy ===== *)
theory ServedZone
  imports IncrementalTransfer
begin

text \<open>
  The properties of the resolver, on the in-memory store, with the sample zone as the
  concrete instance.
\<close>

section \<open>The zone with two branches, served\<close>

definition sample_dnsq :: "bytes DNSQ" where
  "sample_dnsq = \<lparr>Fqdn = id, AsCNAME = (\<lambda>_. None), AsRRSIG = (\<lambda>_. None)\<rparr>"

definition sample_config :: Config where
  "sample_config = \<lparr>cf_Zone = ''a.'', cf_DefaultBranch = ''main'', cf_PinnedAt = ZeroHash, cf_Router = None, cf_MetricsHook = True\<rparr>"

definition sample_msg :: "string \<Rightarrow> 16 word \<Rightarrow> bytes RR list \<Rightarrow> bytes Msg" where
  "sample_msg n t ns = \<lparr>m_Question = [\<lparr>q_Name = n, q_Qtype = t\<rparr>], m_Ns = ns, m_Edns = None\<rparr>"

lemma sample_msg_sel [simp]:
  "m_Question (sample_msg n t ns) = [\<lparr>q_Name = n, q_Qtype = t\<rparr>]" "m_Ns (sample_msg n t ns) = ns" "dnssecOK (sample_msg n t ns) = False"
  "cf_Zone sample_config = ''a.''" "Fqdn sample_dnsq n = n"
  by (simp_all add: sample_msg_def dnssecOK_def sample_config_def sample_dnsq_def)

lemma flat_lookup:
  assumes "LoadTree S sha s h = Inr \<lparr>Entries = map (\<lambda>(n, b). sample_leaf n b) xs\<rparr>" and "canonical \<lparr>Entries = map (\<lambda>(n, b). sample_leaf n b) xs\<rparr>"
    and "distinct (map fst xs)"
  shows "lookup S sha s h p t = (if p = [] then map_of xs t else None)"
proof -
  let ?t = "\<lparr>Entries = map (\<lambda>(n, b). sample_leaf n b) xs\<rparr>"
  have "Get ?t EntrySubtree l = None" for l
    using Get_canonical [OF assms(2), THEN iffD1, of EntrySubtree l] by (cases "Get ?t EntrySubtree l") fastforce+
  moreover have "(case Get ?t EntryLeaf t of None \<Rightarrow> None | Some e \<Rightarrow> Some (te_Hash e)) = map_of xs t"
  proof (cases "map_of xs t")
    case None
    then have "Get ?t EntryLeaf t = None"
      using Get_canonical [OF assms(2), THEN iffD1, of EntryLeaf t] by (cases "Get ?t EntryLeaf t") (fastforce simp: map_of_eq_None_iff image_iff)+
    then show ?thesis by (simp add: None)
  next
    case (Some b)
    then have "Get ?t EntryLeaf t = Some (sample_leaf t b)"
      unfolding Get_canonical [OF assms(2)] using map_of_SomeD [OF Some] by force
    then show ?thesis by (simp add: Some)
  qed
  ultimately show ?thesis
    using assms(1) by (cases p) (auto simp: lookup_def WalkTree_node split: option.splits)
qed

lemma sample_lookups:
  "zone_of memstore tab_sha (sample_st []) 21 p t = (if p = [] then map_of [(''SOA'', 11)] t else None)"
  "zone_of memstore tab_sha (sample_st []) 22 p t = (if p = [] then map_of [(''A'', 13), (''SOA'', 12)] t else None)"
  using flat_lookup [of memstore tab_sha "sample_st []" 21 "[(''SOA'', 11)]"] flat_lookup [of memstore tab_sha "sample_st []" 22 "[(''A'', 13), (''SOA'', 12)]"]
    sample_st_trees(1,2) [of "[]"] sample_tree_small(1,2) by (simp_all add: zone_of_def tree_small_def)

lemma sample_decodes:
  "map_sum id rs_RRs (DecodeRRset sample_dns (sample_soa_blob 5)) = Inr [sample_soa_rr 5] \<and>
   map_sum id rs_RRs (DecodeRRset sample_dns (sample_soa_blob 6)) = Inr [sample_soa_rr 6] \<and>
   map_sum id rs_RRs (DecodeRRset sample_dns sample_a_blob) = Inr [sample_a_rr\<lparr>rr_Name := ''a.''\<rparr>]"
  by code_simp

lemma map_sum_InrD: "map_sum id f x = Inr y \<Longrightarrow> \<exists>z. x = Inr z \<and> f z = y"
  by (cases x) auto

lemma sample_rrset_at:
  "\<exists>rs. rrset_at memstore sample_dns (sample_st []) 11 = Inr rs \<and> rs_RRs rs = [sample_soa_rr 5]"
  "\<exists>rs. rrset_at memstore sample_dns (sample_st []) 12 = Inr rs \<and> rs_RRs rs = [sample_soa_rr 6]"
  "\<exists>rs. rrset_at memstore sample_dns (sample_st []) 13 = Inr rs \<and> rs_RRs rs = [sample_a_rr\<lparr>rr_Name := ''a.''\<rparr>]"
  using sample_st_blobs [of "[]"] sample_decodes [THEN conjunct1, THEN map_sum_InrD]
    sample_decodes [THEN conjunct2, THEN conjunct1, THEN map_sum_InrD] sample_decodes [THEN conjunct2, THEN conjunct2, THEN map_sum_InrD]
  by (simp_all add: rrset_at_def blob_object_def)

lemma sample_cells:
  "cell_rrs memstore sample_dns (sample_st []) (Some 11) = [sample_soa_rr 5]"
  "cell_rrs memstore sample_dns (sample_st []) (Some 12) = [sample_soa_rr 6]"
  "cell_rrs memstore sample_dns (sample_st []) (Some 13) = [sample_a_rr\<lparr>rr_Name := ''a.''\<rparr>]"
  using sample_rrset_at by (auto simp: cell_rrs_def)

lemma sample_readable:
  "readable memstore sample_dns (sample_st []) (zone_of memstore tab_sha (sample_st []) 21)"
  "readable memstore sample_dns (sample_st []) (zone_of memstore tab_sha (sample_st []) 22)"
  using sample_rrset_at by (auto simp: readable_def sample_lookups split: if_splits)

lemma sample_served:
  "resolveHead memstore sample_dns now sample_config sample_two q nm = Inr 32"
  "r_storage sample_two = sample_st []" "ZeroHash \<notin> Domain (mem_hist (sample_st []))"
  "root_pruned memstore tab_sha (sample_st []) 1 22"
  using sample_st_heads(3) [of "[]"] sample_st_healthy [of "[]"] sample_st_trees(2) [of "[]"]
  by (simp_all add: resolveHead_def sample_config_def sample_two_def healthy_def root_pruned_def node_pruned_def)

lemma sample_reach: "(32, x) \<in> (parents memstore (sample_st []))\<^sup>* \<Longrightarrow> x = 32 \<or> x = 31"
proof (induction rule: rtrancl_induct)
  case (step y z)
  then show ?case using sample_st_commits(1,2) [of "[]"] by (auto simp: parents_def)
qed simp

section \<open>Properties\<close>

text \<open>
  C3: What \<open>Handle\<close> answers to an ordinary query for a name of the zone without a CNAME: the
  records of that name and type in the commit that is served, with the signatures that
  cover the type when the client asked for them.  Without such records the answer is empty
  with the SOA as authority, and the code is NXDOMAIN exactly when there are no records at the
  name, nor below it.
\<close>

theorem handle_answers:
  assumes "m_Question req = q # qs" and "ToLower (Fqdn Q (q_Name q)) = qname" and "HasSuffix qname (cf_Zone cfg)"
    and "q_Qtype q \<noteq> TypeAXFR" and "q_Qtype q \<noteq> TypeIXFR"
    and "resolveHead memstore D now cfg rp q qname = Inr head"
    and "loadCommit memstore (r_storage rp) head = Inr c" and "head \<noteq> ZeroHash" and "c_Tree c \<noteq> ZeroHash"
    and "root_ok memstore sha (r_storage rp) n (c_Tree c)" and "root_pruned memstore sha (r_storage rp) m (c_Tree c)"
    and "ZeroHash \<notin> Domain (mem_hist (r_storage rp))"
    and "readable memstore D (r_storage rp) (zone_of memstore sha (r_storage rp) (c_Tree c))"
    and "splitFQDN (normFQDN (relative cfg qname)) = p"
    and "q_Qtype q = TypeCNAME \<or> zone_of memstore sha (r_storage rp) (c_Tree c) p ''CNAME'' = None"
  shows "\<exists>resp. Handle memstore sha D Q fuel now cfg (Inr rp) req = Some (Message resp, observe D cfg req (re_Rcode resp)) \<and>
    re_Authoritative resp \<and> \<not> re_RecursionAvailable resp \<and>
    re_Answer resp = expected_answer memstore D Q (r_storage rp) (zone_of memstore sha (r_storage rp) (c_Tree c)) (dnssecOK req) p (q_Qtype q) \<and>
    re_Rcode resp = expected_rcode D (zone_of memstore sha (r_storage rp) (c_Tree c)) p (q_Qtype q) \<and>
    (re_Answer resp = [] \<longrightarrow> re_NsRRs resp = cell_rrs memstore D (r_storage rp) (zone_of memstore sha (r_storage rp) (c_Tree c) [] ''SOA'')) \<and>
    (re_Answer resp \<noteq> [] \<longrightarrow> re_NsRRs resp = [])"
  using mem.Handle_answer [of req q qs Q cfg D now rp head c sha n fuel]
    mem.answer_spec [OF assms(7,8,10,11,9,12,13), of Q cfg req q "relative cfg qname"] assms
  by (simp add: Let_def blank_resp_def)

theorem handle_answers_witness:
  "(\<exists>resp obs. Handle memstore tab_sha sample_dns sample_dnsq 0 sample_now sample_config (Inr sample_two) (sample_msg ''a.'' 1 []) = Some (Message resp, obs) \<and>
     re_Rcode resp = RcodeSuccess \<and> re_Answer resp = [sample_a_rr\<lparr>rr_Name := ''a.''\<rparr>]) \<and>
   (\<exists>resp obs. Handle memstore tab_sha sample_dns sample_dnsq 0 sample_now sample_config (Inr sample_two) (sample_msg ''b.a.'' 1 []) = Some (Message resp, obs) \<and>
     re_Rcode resp = RcodeNameError \<and> re_NsRRs resp = [sample_soa_rr 6])"
proof -
  have name: "ToLower ''a.'' = ''a.''" "ToLower ''b.a.'' = ''b.a.''" "HasSuffix ''a.'' ''a.''" "HasSuffix ''b.a.'' ''a.''" "ToUpper ''A'' = ''A''"
    "splitFQDN (normFQDN (relative sample_config ''a.'')) = []" "splitFQDN (normFQDN (relative sample_config ''b.a.'')) = [''b'']"
    unfolding relative_def sample_config_def by code_simp+
  note c = sample_st_commits(2) [of "[]"] sample_st_roots(2) [of "[]"]
  have h: "\<exists>resp. Handle memstore tab_sha sample_dns sample_dnsq 0 sample_now sample_config (Inr sample_two) (sample_msg nm 1 []) = Some (Message resp, observe sample_dns sample_config (sample_msg nm 1 []) (re_Rcode resp)) \<and>
    re_Authoritative resp \<and> \<not> re_RecursionAvailable resp \<and>
    re_Answer resp = expected_answer memstore sample_dns sample_dnsq (sample_st []) (zone_of memstore tab_sha (sample_st []) 22) False p 1 \<and>
    re_Rcode resp = expected_rcode sample_dns (zone_of memstore tab_sha (sample_st []) 22) p 1 \<and>
    (re_Answer resp = [] \<longrightarrow> re_NsRRs resp = cell_rrs memstore sample_dns (sample_st []) (zone_of memstore tab_sha (sample_st []) 22 [] ''SOA'')) \<and>
    (re_Answer resp \<noteq> [] \<longrightarrow> re_NsRRs resp = [])"
    if "ToLower nm = nm" "HasSuffix nm ''a.''" "splitFQDN (normFQDN (relative sample_config nm)) = p" for nm p
    using handle_answers [of "sample_msg nm 1 []" "\<lparr>q_Name = nm, q_Qtype = 1\<rparr>" "[]" sample_dnsq nm sample_config sample_dns sample_now sample_two 32
        "sample_ci 22 [31]" tab_sha 1 1 p 0] that c sample_served sample_readable(2)
    by (simp add: sample_lookups(2) [of p "''CNAME''"])
  have "TypeToString sample_dns 1 = ''A''" by (simp add: sample_dns_def)
  then show ?thesis
    using h [OF name(1,3,6)] h [OF name(2,4,7)] name(5)
    by (fastforce simp: expected_answer_def expected_rcode_def sample_lookups sample_cells)
qed

text \<open>
  C10: A full transfer sends the zone of the commit that is served: the SOA, then every other
  record of the zone exactly as often as it occurs, then the SOA again.
\<close>

theorem axfr_complete:
  assumes "resolveHead memstore D now cfg rp (hd (m_Question req)) (cf_Zone cfg) = Inr head" and "head \<noteq> ZeroHash"
    and "loadCommit memstore (r_storage rp) head = Inr c" and "root_ok memstore sha (r_storage rp) n (c_Tree c)"
    and "ZeroHash \<notin> Domain (mem_hist (r_storage rp))"
    and "readable memstore D (r_storage rp) (zone_of memstore sha (r_storage rp) (c_Tree c))"
    and "zone_of memstore sha (r_storage rp) (c_Tree c) [] ''SOA'' \<noteq> None"
  shows "\<exists>body. serveAXFR memstore sha D n now cfg rp req =
      Some (Envelope (cell_rrs memstore D (r_storage rp) (zone_of memstore sha (r_storage rp) (c_Tree c) [] ''SOA'') @ body @
        cell_rrs memstore D (r_storage rp) (zone_of memstore sha (r_storage rp) (c_Tree c) [] ''SOA'')), RcodeSuccess) \<and>
    mset body = records memstore D (r_storage rp) (zone_of memstore sha (r_storage rp) (c_Tree c))"
  using assms by (rule mem.AXFR_spec)

theorem axfr_complete_witness:
  "\<exists>body. serveAXFR memstore tab_sha sample_dns 1 sample_now sample_config sample_two (sample_msg ''a.'' 252 []) =
    Some (Envelope ([sample_soa_rr 6] @ body @ [sample_soa_rr 6]), RcodeSuccess)"
  using axfr_complete [OF sample_served(1), of "sample_ci 22 [31]" tab_sha 1 sample_now "sample_msg ''a.'' 252 []"]
    sample_st_commits(2) [of "[]"] sample_st_roots(2) [of "[]"] sample_served sample_readable(2)
  by (simp add: sample_lookups sample_cells) blast

text \<open>
  C4: An incremental transfer.  A client with the serial of the commit that is served gets one
  SOA.  A client with the serial of an earlier commit gets a difference that turns the
  records of that commit into the records of the served one: all removed records are
  records of the old zone, and the old records without the removed ones and with the added
  ones are the new records.  The full transfer is sent instead only when no commit of the
  history has the serial, or when the history has at least \<open>maxCommits\<close> commits.
\<close>

theorem ixfr_delta:
  assumes "resolveHead memstore D now cfg rp (hd (m_Question req)) (cf_Zone cfg) = Inr head"
    and "history_ok memstore sha (r_storage rp) n head" and "ZeroHash \<notin> Domain (mem_hist (r_storage rp))"
    and "\<And>x. (head, x) \<in> (parents memstore (r_storage rp))\<^sup>* \<Longrightarrow> readable memstore D (r_storage rp) (zone_of memstore sha (r_storage rp) (TreeOf memstore (r_storage rp) x))"
    and "cell_rrs memstore D (r_storage rp) (zone_of memstore sha (r_storage rp) (TreeOf memstore (r_storage rp) head) [] ''SOA'') = [new]"
    and "AsSOA D (rr_Data new) = Some latest" and "clientIXFRSerial D (m_Ns req) = Some serial"
  shows "if serial = latest then serveIXFR memstore sha D n now cfg rp req = Some (Envelope [new], RcodeSuccess)
    else (\<exists>x old removed added. (head, x) \<in> (parents memstore (r_storage rp))\<^sup>* \<and>
        cell_rrs memstore D (r_storage rp) (zone_of memstore sha (r_storage rp) (TreeOf memstore (r_storage rp) x) [] ''SOA'') = [old] \<and>
        AsSOA D (rr_Data old) = Some serial \<and>
        serveIXFR memstore sha D n now cfg rp req = Some (Envelope ([new, old] @ removed @ [new] @ added @ [new]), RcodeSuccess) \<and>
        mset removed \<subseteq># records memstore D (r_storage rp) (zone_of memstore sha (r_storage rp) (TreeOf memstore (r_storage rp) x)) \<and>
        records memstore D (r_storage rp) (zone_of memstore sha (r_storage rp) (TreeOf memstore (r_storage rp) x)) - mset removed + mset added =
          records memstore D (r_storage rp) (zone_of memstore sha (r_storage rp) (TreeOf memstore (r_storage rp) head))) \<or>
      serveIXFR memstore sha D n now cfg rp req = serveAXFR memstore sha D n now cfg rp req \<and>
      (maxCommits \<le> card ((parents memstore (r_storage rp))\<^sup>* `` {head}) \<or>
        (\<forall>x. (head, x) \<in> (parents memstore (r_storage rp))\<^sup>* \<longrightarrow>
          apex_serial memstore D (r_storage rp) (zone_of memstore sha (r_storage rp) (TreeOf memstore (r_storage rp) x)) \<noteq> Some serial))"
  using assms by (rule mem.IXFR_spec)

theorem ixfr_delta_witness:
  "\<exists>removed added. serveIXFR memstore tab_sha sample_dns 1 sample_now sample_config sample_two (sample_msg ''a.'' 251 [sample_soa_rr 5]) =
    Some (Envelope ([sample_soa_rr 6, sample_soa_rr 5] @ removed @ [sample_soa_rr 6] @ added @ [sample_soa_rr 6]), RcodeSuccess)"
proof -
  let ?s = "sample_st []"
  have soa: "AsSOA sample_dns (rr_Data (sample_soa_rr 5)) = Some 5" "AsSOA sample_dns (rr_Data (sample_soa_rr 6)) = Some 6" by code_simp+
  have tree: "TreeOf memstore ?s 31 = 21" "TreeOf memstore ?s 32 = 22" using sample_st_commits [of "[]"] by simp_all
  have read: "readable memstore sample_dns (r_storage sample_two) (zone_of memstore tab_sha (r_storage sample_two) (TreeOf memstore (r_storage sample_two) x))"
    if "(32, x) \<in> (parents memstore (r_storage sample_two))\<^sup>*" for x
    using sample_reach [of x] that tree sample_readable by (auto simp: sample_served(2))
  have "(32, 31) \<in> (parents memstore ?s)\<^sup>*" using sample_st_commits(2) [of "[]"] by (intro r_into_rtrancl) (simp add: parents_def)
  moreover have "apex_serial memstore sample_dns ?s (zone_of memstore tab_sha ?s (TreeOf memstore ?s 31)) = Some 5"
    using soa by (simp add: apex_serial_def sample_lookups sample_cells tree)
  moreover have "card ((parents memstore ?s)\<^sup>* `` {32}) < maxCommits"
  proof -
    have "(parents memstore ?s)\<^sup>* `` {32} \<subseteq> {32, 31}" using sample_reach by auto
    then have "card ((parents memstore ?s)\<^sup>* `` {32}) \<le> card {32 :: Hash, 31}" by (intro card_mono) auto
    then show ?thesis by (simp add: maxCommits_def)
  qed
  moreover have "new = sample_soa_rr 5" if "(32, x) \<in> (parents memstore ?s)\<^sup>*"
    "cell_rrs memstore sample_dns ?s (zone_of memstore tab_sha ?s (TreeOf memstore ?s x) [] ''SOA'') = [new]" "AsSOA sample_dns (rr_Data new) = Some 5" for x new
    using sample_reach [OF that(1)] that(2,3) soa by (auto simp: sample_lookups sample_cells tree)
  moreover have client: "clientIXFRSerial sample_dns (m_Ns (sample_msg ''a.'' 251 [sample_soa_rr 5])) = Some 5" using soa by simp
  moreover have latest: "cell_rrs memstore sample_dns ?s (zone_of memstore tab_sha ?s (TreeOf memstore ?s 32) [] ''SOA'') = [sample_soa_rr 6]"
    by (simp add: sample_lookups sample_cells tree)
  note ixfr_delta [OF sample_served(1) sample_histories(1) [folded sample_served(2)] sample_served(3) [folded sample_served(2)] read
      latest [folded sample_served(2)] soa(2) client, of sample_now, simplified sample_served(2)]
  ultimately show ?thesis by fastforce
qed

end
