(* ===== verification/Snapshots.thy ===== *)
theory Snapshots
  imports Resolver
begin

text \<open>
  pkg/resolve/snapshot.go and metrics.go: the repository handle that queries are answered
  from, and the counters of answered queries.

  A handle is a number; \<open>ps_handles\<close> lists the repositories that were opened, handle \<open>n\<close> being the
  \<open>n\<close>-th, and \<open>ps_closed\<close> the handles that were closed.  A read-only handle of the backend is
  frozen when it is opened: its state is what \<open>repo.Open\<close> found.  Times are in nanoseconds.
  One call of \<open>tick\<close> is three atomic steps, because queries run beside it: the swap of the current
  handle, the entry of the old one into the list of retired handles, and the sweep.
\<close>

section \<open>Snapshotters (snapshot.go)\<close>

definition StaticSnapshotter_Snapshot :: "'s Repo option \<Rightarrow> error + 's Repo" where
  "StaticSnapshotter_Snapshot R = (case R of None \<Rightarrow> Inl (ErrOther ''StaticSnapshotter: nil repo'') | Some r \<Rightarrow> Inr r)"

record pendingClose =
  pc_r :: nat
  pc_at :: int

record 's PollingSnapshotter =
  ps_cur :: "nat option"
  ps_refs :: "string list"
  ps_lastHashes :: "string \<rightharpoonup> Hash"
  ps_graceClose :: int
  ps_pending :: "pendingClose list"
  ps_handles :: "'s Repo list"
  ps_closed :: "nat list"

definition defaultCloseGrace :: int where
  "defaultCloseGrace = 45000000000"

definition SetWatchedRefs :: "string list \<Rightarrow> 's PollingSnapshotter \<Rightarrow> 's PollingSnapshotter" where
  "SetWatchedRefs refsToWatch p = p\<lparr>ps_refs := refsToWatch\<rparr>"

definition watchedRefs :: "'s PollingSnapshotter \<Rightarrow> string list" where
  "watchedRefs p = ps_refs p"

text \<open>The hash of a ref, zero where it is absent or cannot be read.\<close>

definition ref_hash :: "'s Storage \<Rightarrow> 's Repo \<Rightarrow> string \<Rightarrow> Hash" where
  "ref_hash S r n = (case GetRef S (r_storage r) n of Inr (Some h) \<Rightarrow> h | _ \<Rightarrow> ZeroHash)"

definition captureHashes :: "'s Storage \<Rightarrow> 's Repo \<Rightarrow> 's PollingSnapshotter \<Rightarrow> 's PollingSnapshotter" where
  "captureHashes S r p = p\<lparr>ps_lastHashes := ps_lastHashes p ++ map_of (map (\<lambda>n. (n, ref_hash S r n)) (watchedRefs p))\<rparr>"

definition NewPollingSnapshotter :: "'s Storage \<Rightarrow> (error + 's Repo) \<Rightarrow> string list \<Rightarrow> error + 's PollingSnapshotter" where
  "NewPollingSnapshotter S opened refsToWatch =
     (case opened of
        Inl e \<Rightarrow> Inl e
      | Inr r \<Rightarrow> Inr (captureHashes S r
          \<lparr>ps_cur = Some 0, ps_refs = refsToWatch, ps_lastHashes = Map.empty, ps_graceClose = defaultCloseGrace,
           ps_pending = [], ps_handles = [r], ps_closed = []\<rparr>))"

definition Snapshot :: "'s PollingSnapshotter \<Rightarrow> error + nat" where
  "Snapshot p = (case ps_cur p of Some h \<Rightarrow> Inr h | None \<Rightarrow> Inl (ErrOther ''snapshot: no current repo''))"

definition close_handle :: "nat \<Rightarrow> 's PollingSnapshotter \<Rightarrow> 's PollingSnapshotter" where
  "close_handle h p = p\<lparr>ps_closed := h # ps_closed p\<rparr>"

definition sweepPending :: "int \<Rightarrow> 's PollingSnapshotter \<Rightarrow> 's PollingSnapshotter" where
  "sweepPending now p =
     (let due = (\<lambda>pc. now - pc_at pc \<ge> ps_graceClose p) in
      p\<lparr>ps_closed := rev (map pc_r (filter due (ps_pending p))) @ ps_closed p,
        ps_pending := filter (\<lambda>pc. \<not> due pc) (ps_pending p)\<rparr>)"

text \<open>The first step of \<open>tick\<close>: open, compare, and swap or discard.  The old handle is to be retired.\<close>

definition tick_swap :: "'s Storage \<Rightarrow> (error + 's Repo) \<Rightarrow> 's PollingSnapshotter \<Rightarrow> 's PollingSnapshotter \<times> nat option" where
  "tick_swap S opened p =
     (case opened of
        Inl e \<Rightarrow> (p, None)
      | Inr fresh \<Rightarrow>
          let watched = watchedRefs p;
              n = length (ps_handles p);
              p = p\<lparr>ps_handles := ps_handles p @ [fresh]\<rparr>;
              freshHashes = map_of (map (\<lambda>r. (r, ref_hash S fresh r)) watched);
              changed = list_ex (\<lambda>r. (case ps_lastHashes p r of None \<Rightarrow> ZeroHash | Some h \<Rightarrow> h) \<noteq> ref_hash S fresh r) watched
          in if \<not> changed then (close_handle n p, None)
             else (p\<lparr>ps_lastHashes := freshHashes, ps_cur := Some n\<rparr>, ps_cur p))"

definition tick_retire :: "int \<Rightarrow> nat option \<Rightarrow> 's PollingSnapshotter \<Rightarrow> 's PollingSnapshotter" where
  "tick_retire now old p =
     (case old of None \<Rightarrow> p | Some h \<Rightarrow> p\<lparr>ps_pending := ps_pending p @ [\<lparr>pc_r = h, pc_at = now\<rparr>]\<rparr>)"

definition tick :: "'s Storage \<Rightarrow> (error + 's Repo) \<Rightarrow> int \<Rightarrow> int \<Rightarrow> 's PollingSnapshotter \<Rightarrow> 's PollingSnapshotter" where
  "tick S opened t1 t2 p = (case tick_swap S opened p of (p', old) \<Rightarrow> sweepPending t2 (tick_retire t1 old p'))"

definition PollingSnapshotter_Close :: "'s PollingSnapshotter \<Rightarrow> 's PollingSnapshotter" where
  "PollingSnapshotter_Close p =
     (let p = p\<lparr>ps_closed := rev (map pc_r (ps_pending p)) @ ps_closed p, ps_pending := []\<rparr> in
      case ps_cur p of None \<Rightarrow> p | Some h \<Rightarrow> close_handle h (p\<lparr>ps_cur := None\<rparr>))"

section \<open>Queries beside the watcher\<close>

text \<open>
  The watcher is idle, has an old handle to retire, or is about to sweep.  \<open>sy_taken\<close> records
  every handle that \<open>Snapshot\<close> returned and when.
\<close>

datatype watcher = Idle | Retire "nat option" | Sweep

record 's System =
  sy_poller :: "'s PollingSnapshotter"
  sy_watcher :: watcher
  sy_now :: int
  sy_taken :: "(nat \<times> int) list"

inductive poll_step :: "'s Storage \<Rightarrow> 's System \<Rightarrow> 's System \<Rightarrow> bool" for S :: "'s Storage" where
  time: "sy_now y \<le> t \<Longrightarrow> poll_step S y (y\<lparr>sy_now := t\<rparr>)"
| query: "Snapshot (sy_poller y) = Inr h \<Longrightarrow> poll_step S y (y\<lparr>sy_taken := (h, sy_now y) # sy_taken y\<rparr>)"
| watch: "poll_step S y (y\<lparr>sy_poller := SetWatchedRefs rs (sy_poller y)\<rparr>)"
| swap: "sy_watcher y = Idle \<Longrightarrow> tick_swap S opened (sy_poller y) = (p, old) \<Longrightarrow>
    poll_step S y (y\<lparr>sy_poller := p, sy_watcher := Retire old\<rparr>)"
| retire: "sy_watcher y = Retire old \<Longrightarrow> poll_step S y (y\<lparr>sy_poller := tick_retire (sy_now y) old (sy_poller y), sy_watcher := Sweep\<rparr>)"
| sweep: "sy_watcher y = Sweep \<Longrightarrow> poll_step S y (y\<lparr>sy_poller := sweepPending (sy_now y) (sy_poller y), sy_watcher := Idle\<rparr>)"

inductive_cases poll_stepE: "poll_step S y y'"

text \<open>A run: the initial state is a new snapshotter at some time.\<close>

inductive reachable :: "'s Storage \<Rightarrow> 's System \<Rightarrow> bool" for S :: "'s Storage" where
  start: "NewPollingSnapshotter S (Inr r) refs = Inr p \<Longrightarrow> reachable S \<lparr>sy_poller = p, sy_watcher = Idle, sy_now = t, sy_taken = []\<rparr>"
| step: "reachable S y \<Longrightarrow> poll_step S y y' \<Longrightarrow> reachable S y'"

text \<open>
  The invariant.  Every handle that was opened is in one place exactly: it is the current one, is
  waiting to be retired, is pending, or was closed, once.  A handle that was handed out at some
  time was retired no earlier and, when it is closed, a grace period has passed since.
\<close>

definition waiting :: "watcher \<Rightarrow> nat list" where
  "waiting w = (case w of Retire (Some h) \<Rightarrow> [h] | _ \<Rightarrow> [])"

definition all_handles :: "'s System \<Rightarrow> nat list" where
  "all_handles y = (case ps_cur (sy_poller y) of None \<Rightarrow> [] | Some h \<Rightarrow> [h]) @ waiting (sy_watcher y) @
     map pc_r (ps_pending (sy_poller y)) @ ps_closed (sy_poller y)"

definition taken_ok :: "'s PollingSnapshotter \<Rightarrow> int \<Rightarrow> nat \<times> int \<Rightarrow> bool" where
  "taken_ok p now ht \<longleftrightarrow> snd ht \<le> now \<and> (\<forall>pc \<in> set (ps_pending p). pc_r pc = fst ht \<longrightarrow> snd ht \<le> pc_at pc) \<and>
     (fst ht \<in> set (ps_closed p) \<longrightarrow> snd ht + ps_graceClose p \<le> now) \<and> fst ht < length (ps_handles p)"

definition poll_inv :: "'s System \<Rightarrow> bool" where
  "poll_inv y \<longleftrightarrow> ps_graceClose (sy_poller y) = defaultCloseGrace \<and> ps_cur (sy_poller y) \<noteq> None \<and>
     mset (all_handles y) = mset [0..<length (ps_handles (sy_poller y))] \<and>
     (\<forall>ht \<in> set (sy_taken y). taken_ok (sy_poller y) (sy_now y) ht)"

lemma poll_inv_distinct:
  assumes "poll_inv y"
  shows "distinct (all_handles y)" and "set (all_handles y) = {..<length (ps_handles (sy_poller y))}"
proof -
  have m: "mset (all_handles y) = mset [0..<length (ps_handles (sy_poller y))]" using assms by (simp add: poll_inv_def)
  show "distinct (all_handles y)" using mset_eq_imp_distinct_iff [OF m] by simp
  show "set (all_handles y) = {..<length (ps_handles (sy_poller y))}" using mset_eq_setD [OF m] by (simp add: atLeast0LessThan del: mset_upt)
qed

lemma poll_inv_start:
  assumes "NewPollingSnapshotter S (Inr r) refs = Inr p"
  shows "poll_inv \<lparr>sy_poller = p, sy_watcher = Idle, sy_now = t, sy_taken = []\<rparr>"
  using assms by (auto simp: NewPollingSnapshotter_def captureHashes_def poll_inv_def all_handles_def waiting_def)

lemma poll_inv_swap:
  assumes "poll_inv y" and "sy_watcher y = Idle" and "tick_swap S opened (sy_poller y) = (p, old)"
  shows "poll_inv (y\<lparr>sy_poller := p, sy_watcher := Retire old\<rparr>)"
proof (cases opened)
  case (Inl e)
  with assms show ?thesis by (auto simp: tick_swap_def poll_inv_def all_handles_def waiting_def)
next
  case (Inr fresh)
  let ?p = "sy_poller y" and ?n = "length (ps_handles (sy_poller y))"
  let ?p1 = "?p\<lparr>ps_handles := ps_handles ?p @ [fresh]\<rparr>"
  have taken: "taken_ok ?p1 (sy_now y) ht" "fst ht < ?n" if "ht \<in> set (sy_taken y)" for ht
    using assms(1) that by (auto simp: poll_inv_def taken_ok_def)
  from assms(3) consider "p = close_handle ?n ?p1" "old = None"
    | m where "p = ?p1\<lparr>ps_lastHashes := m, ps_cur := Some ?n\<rparr>" "old = ps_cur ?p"
    by (auto simp: tick_swap_def Inr Let_def split: if_splits)
  then show ?thesis
  proof cases
    case 1
    moreover have "taken_ok p (sy_now y) ht" if "ht \<in> set (sy_taken y)" for ht
      using taken [OF that] by (auto simp: 1 taken_ok_def close_handle_def)
    ultimately show ?thesis
      using assms(1,2) by (auto simp: poll_inv_def all_handles_def waiting_def close_handle_def)
  next
    case 2
    moreover have "taken_ok p (sy_now y) ht" if "ht \<in> set (sy_taken y)" for ht
      using taken [OF that] by (auto simp: 2 taken_ok_def)
    ultimately show ?thesis
      using assms(1,2) by (auto simp: poll_inv_def all_handles_def waiting_def)
  qed
qed

lemma mset_filter_split: "mset (map f (filter P xs)) + mset (map f (filter (\<lambda>x. \<not> P x) xs)) = mset (map f xs)"
  by (induction xs) auto

lemma poll_inv_sweep:
  assumes "poll_inv y" and "sy_watcher y = Sweep"
  shows "poll_inv (y\<lparr>sy_poller := sweepPending (sy_now y) (sy_poller y), sy_watcher := Idle\<rparr>)"
proof -
  let ?p = "sy_poller y" and ?due = "\<lambda>pc. sy_now y - pc_at pc \<ge> ps_graceClose (sy_poller y)"
  have "taken_ok (sweepPending (sy_now y) ?p) (sy_now y) ht" if "ht \<in> set (sy_taken y)" for ht
    using assms(1) that by (fastforce simp: poll_inv_def taken_ok_def sweepPending_def Let_def)
  moreover have "mset (all_handles (y\<lparr>sy_poller := sweepPending (sy_now y) ?p, sy_watcher := Idle\<rparr>)) = mset (all_handles y)"
    using mset_filter_split [of pc_r ?due "ps_pending ?p"] assms(2)
    by (simp add: all_handles_def waiting_def sweepPending_def Let_def ac_simps split: option.split)
  ultimately show ?thesis using assms(1) by (simp add: poll_inv_def sweepPending_def Let_def)
qed

lemma poll_inv_step: "poll_step S y y' \<Longrightarrow> poll_inv y \<Longrightarrow> poll_inv y'"
proof (induction rule: poll_step.induct)
  case (time y t)
  then show ?case by (fastforce simp: poll_inv_def all_handles_def taken_ok_def)
next
  case (query y h)
  then have h: "ps_cur (sy_poller y) = Some h" by (simp add: Snapshot_def split: option.splits)
  then have "taken_ok (sy_poller y) (sy_now y) (h, sy_now y)"
    using poll_inv_distinct [OF query(2)] by (fastforce simp: taken_ok_def all_handles_def)
  with query(2) show ?case by (simp add: poll_inv_def all_handles_def)
next
  case (watch y rs)
  then show ?case by (auto simp: poll_inv_def all_handles_def taken_ok_def SetWatchedRefs_def)
next
  case (swap y opened p old)
  then show ?case by (intro poll_inv_swap)
next
  case (retire y old)
  then show ?case by (cases old) (auto simp: poll_inv_def all_handles_def waiting_def taken_ok_def tick_retire_def)
next
  case (sweep y)
  then show ?case by (intro poll_inv_sweep)
qed

lemma reachable_inv: "reachable S y \<Longrightarrow> poll_inv y"
  by (induction rule: reachable.induct) (auto intro: poll_inv_start poll_inv_step)

text \<open>One call of \<open>tick\<close> is a run of three steps and the time that passes.\<close>

lemma tick_run:
  assumes "sy_watcher y = Idle" and "sy_now y \<le> t1" and "t1 \<le> t2"
  shows "(poll_step S)\<^sup>*\<^sup>* y (y\<lparr>sy_poller := tick S opened t1 t2 (sy_poller y), sy_now := t2\<rparr>)"
proof -
  obtain p old where sw: "tick_swap S opened (sy_poller y) = (p, old)" by (metis surj_pair)
  let ?y1 = "y\<lparr>sy_poller := p, sy_watcher := Retire old\<rparr>"
  let ?y2 = "y\<lparr>sy_poller := p, sy_watcher := Retire old, sy_now := t1\<rparr>"
  let ?y3 = "y\<lparr>sy_poller := tick_retire t1 old p, sy_watcher := Sweep, sy_now := t1\<rparr>"
  let ?y4 = "y\<lparr>sy_poller := tick_retire t1 old p, sy_watcher := Sweep, sy_now := t2\<rparr>"
  have "poll_step S y ?y1" by (rule poll_step.swap [OF assms(1) sw])
  moreover have "poll_step S ?y1 ?y2" using poll_step.time [of ?y1 t1 S] assms(2) by (cases y) simp
  moreover have "poll_step S ?y2 ?y3" using poll_step.retire [of ?y2 old S] by (cases y) simp
  moreover have "poll_step S ?y3 ?y4" using poll_step.time [of ?y3 t2 S] assms(3) by (cases y) simp
  moreover have "poll_step S ?y4 (y\<lparr>sy_poller := tick S opened t1 t2 (sy_poller y), sy_now := t2\<rparr>)"
    using poll_step.sweep [of ?y4 S] assms(1) sw by (cases y) (simp add: tick_def)
  ultimately show ?thesis by (meson converse_rtranclp_into_rtranclp r_into_rtranclp)
qed

text \<open>The hashes the watcher remembers are those of the current handle.\<close>

definition hashes_ok :: "'s Storage \<Rightarrow> 's PollingSnapshotter \<Rightarrow> bool" where
  "hashes_ok S p \<longleftrightarrow> (\<forall>h. ps_cur p = Some h \<longrightarrow> h < length (ps_handles p) \<and>
     (\<forall>r x. ps_lastHashes p r = Some x \<longrightarrow> x = ref_hash S (ps_handles p ! h) r))"

lemma hashes_ok_swap:
  assumes "hashes_ok S p" and "tick_swap S opened p = (p', old)"
  shows "hashes_ok S p'"
proof (cases opened)
  case (Inl e)
  with assms show ?thesis by (simp add: tick_swap_def)
next
  case (Inr fresh)
  with assms show ?thesis
    by (auto simp: tick_swap_def hashes_ok_def close_handle_def nth_append Let_def map_of_map_restrict restrict_map_def split: if_splits)
qed

lemma hashes_ok_tick: "hashes_ok S p \<Longrightarrow> hashes_ok S (tick_retire t old p)" "hashes_ok S p \<Longrightarrow> hashes_ok S (sweepPending t p)"
  by (auto simp: hashes_ok_def tick_retire_def sweepPending_def Let_def split: option.splits)

lemma reachable_hashes_ok: "reachable S y \<Longrightarrow> hashes_ok S (sy_poller y)"
proof (induction rule: reachable.induct)
  case (start r refs p t)
  then show ?case by (auto simp: NewPollingSnapshotter_def captureHashes_def hashes_ok_def map_of_map_restrict restrict_map_def split: if_splits)
next
  case (step y y')
  from step(2,3) show ?case
    by (cases rule: poll_step.cases) (auto simp: SetWatchedRefs_def hashes_ok_def [of _ "ps_refs_update _ _"] intro: hashes_ok_swap hashes_ok_tick, auto simp: hashes_ok_def)
qed

section \<open>Metrics (metrics.go)\<close>

text \<open>
  The counters by query type and response code.  \<open>R\<close> is the table \<open>dns.RcodeToString\<close> and \<open>quote\<close> the
  quoting of \<open>%q\<close>.  The locks make an observation one step.
\<close>

type_synonym queryKey = "string \<times> string"

record Metrics =
  me_queries :: "(queryKey \<times> 64 word) list"
  me_branchLabel :: string

definition NewMetrics :: Metrics where
  "NewMetrics = \<lparr>me_queries = [], me_branchLabel = []\<rparr>"

definition query_key :: "(nat \<Rightarrow> string option) \<Rightarrow> string \<Rightarrow> nat \<Rightarrow> queryKey" where
  "query_key R qtype rcode =
     (if qtype = [] then ''UNKNOWN'' else qtype, case R rcode of Some s \<Rightarrow> s | None \<Rightarrow> ''RCODE'' @ dec_nat rcode)"

definition Observe :: "(nat \<Rightarrow> string option) \<Rightarrow> string \<Rightarrow> nat \<Rightarrow> Metrics \<Rightarrow> Metrics" where
  "Observe R qtype rcode m =
     (let k = query_key R qtype rcode;
          c = (case map_of (me_queries m) k of Some c \<Rightarrow> c | None \<Rightarrow> 0)
      in m\<lparr>me_queries := AList.update k (c + 1) (me_queries m)\<rparr>)"

definition SetActiveBranch :: "string \<Rightarrow> Metrics \<Rightarrow> Metrics" where
  "SetActiveBranch label m = m\<lparr>me_branchLabel := label\<rparr>"

definition Metrics_ServeHTTP :: "(string \<Rightarrow> string) \<Rightarrow> Metrics \<Rightarrow> string" where
  "Metrics_ServeHTTP quote m =
     ''# HELP zonegit_dns_queries_total DNS queries answered, partitioned by query type and response code.'' @ [NL] @
     ''# TYPE zonegit_dns_queries_total counter'' @ [NL] @
     concat (map (\<lambda>k. ''zonegit_dns_queries_total{qtype='' @ quote (fst k) @ '',rcode='' @ quote (snd k) @ ''} '' @
       dec_nat (unat (the (map_of (me_queries m) k))) @ [NL]) (sort_key id (map fst (me_queries m)))) @
     ''# HELP zonegit_repo_active_branch Branch the daemon is currently serving (info gauge '' @ string_of [226, 128, 148] @
     '' value is always 1).'' @ [NL] @
     ''# TYPE zonegit_repo_active_branch gauge'' @ [NL] @
     (if me_branchLabel m \<noteq> [] then ''zonegit_repo_active_branch{branch='' @ quote (me_branchLabel m) @ ''} 1'' @ [NL] else [])"

text \<open>A counter is the number of the observations with its key, modulo \<open>2 ^ 64\<close>.\<close>

lemma observe_counts:
  "(case map_of (me_queries (fold (\<lambda>(qtype, rcode). Observe R qtype rcode) obs m)) k of None \<Rightarrow> 0 | Some c \<Rightarrow> c) =
    (case map_of (me_queries m) k of None \<Rightarrow> 0 | Some c \<Rightarrow> c) + of_nat (length (filter (\<lambda>(qtype, rcode). query_key R qtype rcode = k) obs))"
proof (induction obs arbitrary: m)
  case (Cons ob obs)
  obtain qtype rcode where "ob = (qtype, rcode)" by (cases ob)
  with Cons [of "Observe R qtype rcode m"] show ?case
    by (auto simp: Observe_def Let_def update_conv' split: option.split)
qed simp

section \<open>A run\<close>

lemma reachable_run: "(poll_step S)\<^sup>*\<^sup>* y y' \<Longrightarrow> reachable S y \<Longrightarrow> reachable S y'"
  by (induction rule: rtranclp_induct) (auto intro: reachable.step)

text \<open>A query takes the first handle, then the ref \<open>x\<close> has moved and a tick swaps in the second one.\<close>

definition sample_disk :: "Hash \<Rightarrow> MemStore Repo" where
  "sample_disk h = \<lparr>r_storage = \<lparr>ms_objects = [], ms_refs = [(''x'', h)], ms_reflog = (\<lambda>_. [])\<rparr>, r_staging = [], r_activeZone = []\<rparr>"

definition sample_poller :: "MemStore PollingSnapshotter" where
  "sample_poller = captureHashes memstore (sample_disk 1)
     \<lparr>ps_cur = Some 0, ps_refs = [''x''], ps_lastHashes = Map.empty, ps_graceClose = defaultCloseGrace,
      ps_pending = [], ps_handles = [sample_disk 1], ps_closed = []\<rparr>"

definition sample_served_at :: "int \<Rightarrow> MemStore System" where
  "sample_served_at t = \<lparr>sy_poller = tick memstore (Inr (sample_disk 2)) 5 t sample_poller, sy_watcher = Idle, sy_now = t, sy_taken = [(0, 3)]\<rparr>"

lemma sample_start: "reachable memstore \<lparr>sy_poller = sample_poller, sy_watcher = Idle, sy_now = 3, sy_taken = []\<rparr>"
  by (rule reachable.start [of memstore "sample_disk 1" "[''x'']"]) (simp add: NewPollingSnapshotter_def sample_poller_def)

lemma sample_poller_sel:
  "ps_cur sample_poller = Some 0" "ps_refs sample_poller = [''x'']" "ps_graceClose sample_poller = defaultCloseGrace" "ps_handles sample_poller = [sample_disk 1]"
  "ps_pending sample_poller = []" "ps_closed sample_poller = []" "ref_hash memstore (sample_disk h) ''x'' = h" "ps_lastHashes sample_poller ''x'' = Some 1"
  by (simp_all add: sample_poller_def captureHashes_def watchedRefs_def ref_hash_def sample_disk_def mem.get_ref mem_ref_def)

lemma sample_run: "5 \<le> t \<Longrightarrow> reachable memstore (sample_served_at t)"
proof -
  assume t: "5 \<le> t"
  let ?y = "\<lparr>sy_poller = sample_poller, sy_watcher = Idle, sy_now = 3, sy_taken = [(0, 3)]\<rparr> :: MemStore System"
  have "reachable memstore ?y"
    using reachable.step [OF sample_start poll_step.query] by (simp add: Snapshot_def sample_poller_sel)
  from reachable_run [OF tick_run [of ?y 5 t memstore "Inr (sample_disk 2)"] this] t
  show ?thesis by (simp add: sample_served_at_def)
qed

section \<open>Properties\<close>

text \<open>
  C7: A handle that a query was given is not closed while the query may use it: in every
  interleaving of queries with the watcher, a handle that \<open>Snapshot\<close> returned is open until the
  grace period after that has passed, which is longer than the 30 seconds a transfer may take.
\<close>

theorem snapshot_stays_open:
  assumes "reachable S y" and "(h, t) \<in> set (sy_taken y)" and "sy_now y \<le> t + 30000000000"
  shows "h < length (ps_handles (sy_poller y)) \<and> h \<notin> set (ps_closed (sy_poller y))"
  using reachable_inv [OF assms(1)] assms(2,3) by (force simp: poll_inv_def taken_ok_def defaultCloseGrace_def)

theorem snapshot_stays_open_witness:
  "reachable memstore (sample_served_at 30000000003) \<and> 0 \<notin> set (ps_closed (sy_poller (sample_served_at 30000000003)))"
  using sample_run [of 30000000003] snapshot_stays_open [of memstore "sample_served_at 30000000003" 0 3] by (simp add: sample_served_at_def)

text \<open>
  C38: Nothing leaks: in every reachable state each handle that was ever opened is in exactly one
  place. It is the current one, is being retired, waits for its grace period, or was closed exactly once.
\<close>

theorem handles_accounted:
  assumes "reachable S y"
  shows "distinct (all_handles y) \<and> set (all_handles y) = {..<length (ps_handles (sy_poller y))} \<and> ps_cur (sy_poller y) \<noteq> None"
  using poll_inv_distinct [OF reachable_inv [OF assms]] reachable_inv [OF assms] by (simp add: poll_inv_def)

theorem handles_accounted_witness:
  "distinct (all_handles (sample_served_at 7)) \<and> set (all_handles (sample_served_at 7)) = {..<2}"
proof -
  have "length (ps_handles (sy_poller (sample_served_at 7))) = 2"
    by (simp add: sample_served_at_def tick_def tick_swap_def sample_poller_sel watchedRefs_def Let_def tick_retire_def sweepPending_def)
  with handles_accounted [OF sample_run [of 7]] show ?thesis by simp
qed

text \<open>
  C39: A tick that can open the repository brings the served handle up to date: for every watched
  ref that exists on disk, or whose hash was remembered, the current handle has the hash that
  is on disk.
\<close>

theorem tick_serves_latest:
  assumes "reachable S y" and "r \<in> set (ps_refs (sy_poller y))"
    and "ps_lastHashes (sy_poller y) r \<noteq> None \<or> ref_hash S fresh r \<noteq> ZeroHash"
  shows "\<exists>h. ps_cur (tick S (Inr fresh) t1 t2 (sy_poller y)) = Some h \<and>
    ref_hash S (ps_handles (tick S (Inr fresh) t1 t2 (sy_poller y)) ! h) r = ref_hash S fresh r"
proof -
  let ?p = "sy_poller y"
  obtain h where h: "ps_cur ?p = Some h" "h < length (ps_handles ?p)" "\<And>x. ps_lastHashes ?p r = Some x \<Longrightarrow> x = ref_hash S (ps_handles ?p ! h) r"
    using reachable_inv [OF assms(1)] reachable_hashes_ok [OF assms(1)] by (auto simp: poll_inv_def hashes_ok_def)
  show ?thesis
  proof (cases "list_ex (\<lambda>r. (case ps_lastHashes ?p r of None \<Rightarrow> ZeroHash | Some h \<Rightarrow> h) \<noteq> ref_hash S fresh r) (ps_refs ?p)")
    case True
    then show ?thesis using h(1) by (simp add: tick_def tick_swap_def watchedRefs_def Let_def tick_retire_def sweepPending_def)
  next
    case False
    then have "(case ps_lastHashes ?p r of None \<Rightarrow> ZeroHash | Some h \<Rightarrow> h) = ref_hash S fresh r" using assms(2) by (auto simp: list_ex_iff)
    then have "ref_hash S (ps_handles ?p ! h) r = ref_hash S fresh r" using assms(3) h(3) by (auto split: option.splits)
    with False h(1,2) show ?thesis
      by (simp add: tick_def tick_swap_def watchedRefs_def Let_def tick_retire_def sweepPending_def close_handle_def nth_append)
  qed
qed

theorem tick_serves_latest_witness:
  "\<exists>h. ps_cur (tick memstore (Inr (sample_disk 2)) 5 7 sample_poller) = Some h \<and>
    ref_hash memstore (ps_handles (tick memstore (Inr (sample_disk 2)) 5 7 sample_poller) ! h) ''x'' = 2"
  using tick_serves_latest [OF sample_start, of "''x''" "sample_disk 2" 5 7] by (simp add: sample_poller_sel)

end
