(* ===== verification/Replicate.thy ===== *)
theory Replicate
  imports RepoMergeCorrect
begin

text \<open>
  pkg/replicate: pull replication.  A primary serves its refs, the set of objects that a
  secondary lacks, and single objects (server.go); a secondary asks for them, stores the
  objects and moves its branches (client.go).

  The HTTP client and the JSON coding of the standard library are the record \<open>Transport\<close>: what
  comes back from an endpoint, as a status with the decoded body, or an error.  \<open>RegisterHandlers\<close>
  is the transport of a server that is reached without a failure.  A handler that panics
  closes the connection; it is a reply with another status than 200 here.  The order in
  which Go iterates over a map is the argument \<open>order\<close>.  The polling loop (\<open>Run\<close>, \<open>Stop\<close>) calls
  \<open>Pull\<close> and is not modelled.
\<close>

section \<open>Messages (protocol.go)\<close>

abbreviation BasePath :: string where "BasePath \<equiv> ''/v0''"

record Branch =
  b_Zone :: string
  b_Name :: string
  b_Hash :: string

record RefsResponse =
  rr_Zones :: "string list"
  rr_Branches :: "Branch list"

record WalkRequest =
  wr_Roots :: "string list"
  wr_Known :: "string list"

record WalkResponse =
  wr_Missing :: "string list"

fun hexesToHashes :: "string list \<Rightarrow> error + Hash list" where
  "hexesToHashes [] = Inr []"
| "hexesToHashes (s # ss) =
     (case ParseHash s of
        Inl e \<Rightarrow> Inl e
      | Inr h \<Rightarrow> (case hexesToHashes ss of Inl e \<Rightarrow> Inl e | Inr hs \<Rightarrow> Inr (h # hs)))"

section \<open>The walk over objects (server.go)\<close>

text \<open>The children that \<open>walkChildren\<close> calls its callback for, in order.\<close>

definition walkChildren :: "Object \<Rightarrow> error + Hash list" where
  "walkChildren obj =
     (if obj_Kind obj = ''commit'' then
        (case DecodeCommit (obj_Payload obj) of Inl e \<Rightarrow> Inl e | Inr c \<Rightarrow> Inr (c_Tree c # c_Parents c))
      else if obj_Kind obj = ''tree'' then
        (case DecodeTree (obj_Payload obj) of Inl e \<Rightarrow> Inl e | Inr t \<Rightarrow> Inr (map te_Hash (Entries t)))
      else Inr [])"

text \<open>
  The recursion that \<open>walkReachable\<close> and \<open>walkMissing\<close> share, over the hashes that are still to
  be visited at one level: a hash that is zero, known or visited is skipped; otherwise it is
  marked, loaded, and its children come first.
\<close>

function walk_objects :: "'s Storage \<Rightarrow> 's \<Rightarrow> Hash set \<Rightarrow> Hash list \<Rightarrow> Hash set \<Rightarrow> Hash set \<times> (error + unit)" where
  "walk_objects S s known [] visited = (visited, Inr ())"
| "walk_objects S s known (h # hs) visited =
     (if IsZero h \<or> h \<in> known \<or> h \<in> visited then walk_objects S s known hs visited
      else case GetObject S s h of
        Inl e \<Rightarrow> (insert h visited, Inl e)
      | Inr obj \<Rightarrow>
          (case walkChildren obj of
             Inl e \<Rightarrow> (insert h visited, Inl e)
           | Inr children \<Rightarrow>
               (case walk_objects S s known children (insert h visited) of
                  (visited', Inl e) \<Rightarrow> (visited', Inl e)
                | (visited', Inr _) \<Rightarrow> walk_objects S s known hs visited')))"
  by pat_completeness auto

lemma walk_objects_grows:
  "walk_objects_dom (S, s, known, hs, visited) \<Longrightarrow> visited \<subseteq> fst (walk_objects S s known hs visited)"
proof (induction S s known hs visited rule: walk_objects.pinduct)
  case (2 S s known h hs visited)
  show ?case
  proof (cases "IsZero h \<or> h \<in> known \<or> h \<in> visited")
    case True
    with 2 show ?thesis by (simp add: walk_objects.psimps)
  next
    case False
    show ?thesis
    proof (cases "\<exists>obj cs. GetObject S s h = Inr obj \<and> walkChildren obj = Inr cs")
      case True
      then obtain obj cs v r where step: "GetObject S s h = Inr obj" "walkChildren obj = Inr cs" "walk_objects S s known cs (insert h visited) = (v, r)"
        by (metis surj_pair)
      then have v: "insert h visited \<subseteq> v" "r = Inr u \<Longrightarrow> v \<subseteq> fst (walk_objects S s known hs v)" for u
        using 2(3) [OF False step(1,2)] 2(4) [OF False step(1,2) step(3) [symmetric]] by simp_all
      with 2(1) False step show ?thesis by (cases r) (auto simp: walk_objects.psimps)
    next
      case no: False
      with 2(1) False show ?thesis by (auto simp: walk_objects.psimps split: sum.split)
    qed
  qed
qed (simp add: walk_objects.psimps)

termination walk_objects
proof (relation "inv_image (less_than <*lex*> less_than) (\<lambda>(S, s, known, hs, visited). (card (- visited), length hs))")
  fix S :: "'s Storage" and s :: 's and known :: "Hash set" and h :: Hash and hs :: "Hash list" and visited :: "Hash set" and obj :: Object and children :: "Hash list"
  assume new: "\<not> (IsZero h \<or> h \<in> known \<or> h \<in> visited)"
  then have less: "card (- (insert h visited)) < card (- visited)" by (intro psubset_card_mono) auto
  then show "((S, s, known, children, insert h visited), S, s, known, h # hs, visited)
      \<in> inv_image (less_than <*lex*> less_than) (\<lambda>(S, s, known, hs, visited). (card (- visited), length hs))" by simp
  fix visited' :: "Hash set" and r :: "error + unit" and u :: unit
  assume "(visited', r) = walk_objects S s known children (insert h visited)" and "walk_objects_dom (S, s, known, children, insert h visited)"
  with walk_objects_grows have "insert h visited \<subseteq> visited'" by (metis fst_conv)
  then have "card (- visited') \<le> card (- (insert h visited))" by (intro card_mono) auto
  with less show "((S, s, known, hs, visited'), S, s, known, h # hs, visited)
      \<in> inv_image (less_than <*lex*> less_than) (\<lambda>(S, s, known, hs, visited). (card (- visited), length hs))" by simp
qed (simp_all add: wf_lex_prod wf_inv_image)

definition walkReachable :: "'s Storage \<Rightarrow> 's \<Rightarrow> Hash \<Rightarrow> Hash set \<Rightarrow> Hash set \<times> (error + unit)" where
  "walkReachable S s h visited = walk_objects S s {} [h] visited"

definition walkMissing :: "'s Storage \<Rightarrow> 's \<Rightarrow> Hash \<Rightarrow> Hash set \<Rightarrow> Hash set \<Rightarrow> Hash set \<times> (error + unit)" where
  "walkMissing S s h known missing = walk_objects S s known [h] missing"

section \<open>Handlers (server.go)\<close>

text \<open>A reply is a status and, when it is 200, a body.\<close>

datatype 'b Reply = Status nat | OK 'b

fun zone_branches :: "'s Storage \<Rightarrow> 's \<Rightarrow> string \<Rightarrow> string list \<Rightarrow> Branch list" where
  "zone_branches S s z [] = []"
| "zone_branches S s z (n # ns) =
     (case GetBranch S s z n of
        Inl e \<Rightarrow> zone_branches S s z ns
      | Inr h \<Rightarrow> \<lparr>b_Zone = z, b_Name = n, b_Hash = hash_String h\<rparr> # zone_branches S s z ns)"

fun all_branches :: "'s Storage \<Rightarrow> 's \<Rightarrow> string list \<Rightarrow> error + Branch list" where
  "all_branches S s [] = Inr []"
| "all_branches S s (z # zs) =
     (case ListBranches S s z of
        Inl e \<Rightarrow> Inl e
      | Inr names \<Rightarrow> (case all_branches S s zs of Inl e \<Rightarrow> Inl e | Inr bs \<Rightarrow> Inr (zone_branches S s z names @ bs)))"

definition handleRefs :: "'s Storage \<Rightarrow> (error + 's Repo) \<Rightarrow> string \<Rightarrow> RefsResponse Reply" where
  "handleRefs S snap meth =
     (if meth \<noteq> ''GET'' then Status 405
      else case snap of
        Inl e \<Rightarrow> Status 500
      | Inr rp \<Rightarrow>
          (case Repo_Zones S rp of
             Inl e \<Rightarrow> Status 500
           | Inr zones \<Rightarrow>
               (case all_branches S (r_storage rp) zones of
                  Inl e \<Rightarrow> Status 500
                | Inr bs \<Rightarrow> OK \<lparr>rr_Zones = zones, rr_Branches = bs\<rparr>)))"

fun walk_known :: "'s Storage \<Rightarrow> 's \<Rightarrow> Hash list \<Rightarrow> Hash set \<Rightarrow> error + Hash set" where
  "walk_known S s [] known = Inr known"
| "walk_known S s (k # ks) known =
     (case walkReachable S s k known of
        (known', Inl e) \<Rightarrow> if e \<noteq> ErrNotFound then Inl e else walk_known S s ks known'
      | (known', Inr _) \<Rightarrow> walk_known S s ks known')"

fun walk_roots :: "'s Storage \<Rightarrow> 's \<Rightarrow> Hash set \<Rightarrow> Hash list \<Rightarrow> Hash set \<Rightarrow> error + Hash set" where
  "walk_roots S s known [] missing = Inr missing"
| "walk_roots S s known (r # rs) missing =
     (case walkMissing S s r known missing of
        (missing', Inl e) \<Rightarrow> Inl e
      | (missing', Inr _) \<Rightarrow> walk_roots S s known rs missing')"

text \<open>\<open>None\<close> is a body that is not a request.\<close>

definition handleWalk :: "'s Storage \<Rightarrow> (Hash set \<Rightarrow> Hash list) \<Rightarrow> (error + 's Repo) \<Rightarrow> string \<Rightarrow> WalkRequest option \<Rightarrow> WalkResponse Reply" where
  "handleWalk S order snap meth body =
     (if meth \<noteq> ''POST'' then Status 405
      else case body of
        None \<Rightarrow> Status 400
      | Some req \<Rightarrow>
          (case hexesToHashes (wr_Roots req) of
             Inl e \<Rightarrow> Status 400
           | Inr roots \<Rightarrow>
               (case hexesToHashes (wr_Known req) of
                  Inl e \<Rightarrow> Status 400
                | Inr known \<Rightarrow>
                    (case snap of
                       Inl e \<Rightarrow> Status 500
                     | Inr rp \<Rightarrow>
                         (case walk_known S (r_storage rp) known {} of
                            Inl e \<Rightarrow> Status 500
                          | Inr knownSet \<Rightarrow>
                              (case walk_roots S (r_storage rp) knownSet roots {} of
                                 Inl e \<Rightarrow> Status (if e = ErrNotFound then 404 else 500)
                               | Inr missing \<Rightarrow> OK \<lparr>wr_Missing = map hash_String (order missing)\<rparr>))))))"

definition handleObject :: "'s Storage \<Rightarrow> (error + 's Repo) \<Rightarrow> string \<Rightarrow> string \<Rightarrow> Object Reply" where
  "handleObject S snap meth path =
     (if meth \<noteq> ''GET'' then Status 405
      else case ParseHash (TrimPrefix path (BasePath @ ''/objects/'')) of
        Inl e \<Rightarrow> Status 400
      | Inr h \<Rightarrow>
          (case snap of
             Inl e \<Rightarrow> Status 500
           | Inr rp \<Rightarrow>
               (case GetObject S (r_storage rp) h of
                  Inl e \<Rightarrow> Status (if e = ErrNotFound then 404 else 500)
                | Inr obj \<Rightarrow> OK obj)))"

section \<open>The client (client.go)\<close>

record Transport =
  t_refs :: "error + RefsResponse Reply"
  t_walk :: "WalkRequest \<Rightarrow> error + WalkResponse Reply"
  t_object :: "string \<Rightarrow> error + Object Reply"

definition RegisterHandlers :: "'s Storage \<Rightarrow> (Hash set \<Rightarrow> Hash list) \<Rightarrow> (error + 's Repo) \<Rightarrow> Transport" where
  "RegisterHandlers S order snap =
     \<lparr>t_refs = Inr (handleRefs S snap ''GET''),
      t_walk = (\<lambda>req. Inr (handleWalk S order snap ''POST'' (Some req))),
      t_object = (\<lambda>path. Inr (handleObject S snap ''GET'' path))\<rparr>"

fun reply_ok :: "error + 'b Reply \<Rightarrow> error + 'b" where
  "reply_ok (Inl e) = Inl e"
| "reply_ok (Inr (Status n)) = Inl (ErrOther ''status'')"
| "reply_ok (Inr (OK b)) = Inr b"

definition getRefs :: "Transport \<Rightarrow> error + RefsResponse" where
  "getRefs T = reply_ok (t_refs T)"

definition client_walkMissing :: "Transport \<Rightarrow> string list \<Rightarrow> string list \<Rightarrow> error + WalkResponse" where
  "client_walkMissing T roots known = reply_ok (t_walk T \<lparr>wr_Roots = roots, wr_Known = known\<rparr>)"

definition getObject :: "Transport \<Rightarrow> string \<Rightarrow> error + Object" where
  "getObject T hexHash = reply_ok (t_object T (BasePath @ ''/objects/'' @ hexHash))"

fun fetch_missing :: "'l Storage \<Rightarrow> Transport \<Rightarrow> string list \<Rightarrow> 'l \<Rightarrow> 'l \<times> (error + unit)" where
  "fetch_missing L T [] s = (s, Inr ())"
| "fetch_missing L T (hexHash # rest) s =
     (case ParseHash hexHash of
        Inl e \<Rightarrow> (s, Inl e)
      | Inr h \<Rightarrow>
          if HasObject L s h = Inr True then fetch_missing L T rest s
          else case getObject T hexHash of
            Inl e \<Rightarrow> (s, Inl e)
          | Inr obj \<Rightarrow>
              (case PutObject L s h obj of
                 (s1, Inl e) \<Rightarrow> (s1, Inl e)
               | (s1, Inr _) \<Rightarrow> fetch_missing L T rest s1))"

definition pullBranch :: "'l Storage \<Rightarrow> Transport \<Rightarrow> 'l \<Rightarrow> Branch \<Rightarrow> Hash \<Rightarrow> Hash \<Rightarrow> 'l \<times> (error + unit)" where
  "pullBranch L T s b primaryHash localHash =
     (let known = (if \<not> IsZero localHash then [hash_String localHash] else []) in
      case client_walkMissing T [b_Hash b] known of
        Inl e \<Rightarrow> (s, Inl e)
      | Inr walk \<Rightarrow>
          (case fetch_missing L T (wr_Missing walk) s of
             (s1, Inl e) \<Rightarrow> (s1, Inl e)
           | (s1, Inr _) \<Rightarrow>
               if IsZero localHash then CreateBranch L s1 (b_Zone b) (b_Name b) primaryHash
               else UpdateBranch L s1 (b_Zone b) (b_Name b) localHash primaryHash))"

fun pull_zones :: "'l Storage \<Rightarrow> string list \<Rightarrow> 'l Repo \<Rightarrow> 'l Repo \<times> (error + unit)" where
  "pull_zones L [] r = (r, Inr ())"
| "pull_zones L (z # zs) r =
     (case Repo_AddZone L r z of
        (r1, Inl e) \<Rightarrow> (r1, Inl e)
      | (r1, Inr _) \<Rightarrow> pull_zones L zs r1)"

definition pull_one :: "'l Storage \<Rightarrow> Transport \<Rightarrow> Branch \<Rightarrow> 'l \<Rightarrow> 'l" where
  "pull_one L T b s =
     (case ParseHash (b_Hash b) of
        Inl e \<Rightarrow> s
      | Inr primaryHash \<Rightarrow>
          let localHash = (case GetBranch L s (b_Zone b) (b_Name b) of Inl e \<Rightarrow> ZeroHash | Inr h \<Rightarrow> h) in
          if localHash = primaryHash then s
          else fst (pullBranch L T s b primaryHash localHash))"

definition Pull :: "'l Storage \<Rightarrow> Transport \<Rightarrow> 'l Repo \<Rightarrow> 'l Repo \<times> (error + unit)" where
  "Pull L T r =
     (case getRefs T of
        Inl e \<Rightarrow> (r, Inl e)
      | Inr remote \<Rightarrow>
          (case pull_zones L (rr_Zones remote) r of
             (r1, Inl e) \<Rightarrow> (r1, Inl e)
           | (r1, Inr _) \<Rightarrow> (r1\<lparr>r_storage := fold (pull_one L T) (rr_Branches remote) (r_storage r1)\<rparr>, Inr ())))"

end
