(* ===== verification/ReplicateCorrect.thy ===== *)
theory ReplicateCorrect
  imports Replicate
begin

text \<open>
  What a pull achieves: every branch of the primary is at the same commit on the secondary,
  and the secondary holds every object that is reachable from it.
\<close>

section \<open>The graph of objects\<close>

definition refers :: "'p Storage \<Rightarrow> 'p \<Rightarrow> Hash rel" where
  "refers P p = {(x, y). \<exists>obj cs. GetObject P p x = Inr obj \<and> walkChildren obj = Inr cs \<and> y \<in> set cs}"

lemma refersI: "GetObject P p x = Inr obj \<Longrightarrow> walkChildren obj = Inr cs \<Longrightarrow> y \<in> set cs \<Longrightarrow> (x, y) \<in> refers P p"
  by (auto simp: refers_def)

lemma refers_Image: "GetObject P p x = Inr obj \<Longrightarrow> walkChildren obj = Inr cs \<Longrightarrow> refers P p `` {x} = set cs"
  by (auto simp: refers_def)

text \<open>The objects reachable from a list of hashes.\<close>

definition reached :: "'p Storage \<Rightarrow> 'p \<Rightarrow> Hash list \<Rightarrow> Hash set" where
  "reached P p hs = (refers P p)\<^sup>* `` set hs"

lemma reach_children:
  assumes "GetObject P p h = Inr obj" and "walkChildren obj = Inr cs"
  shows "h \<in> reached P p (h # hs)" "reached P p cs \<subseteq> reached P p (h # hs)"
    "reached P p hs \<subseteq> reached P p (h # hs)"
  using refersI [OF assms] by (auto simp: reached_def intro: converse_rtrancl_into_rtrancl)

lemma reach_tail: "reached P p hs \<subseteq> reached P p (h # hs) \<and> h \<in> reached P p (h # hs)"
  by (auto simp: reached_def)

text \<open>Every object that is there can be decoded, and one that is not is reported as such.\<close>

definition decodable :: "'p Storage \<Rightarrow> 'p \<Rightarrow> bool" where
  "decodable P p \<longleftrightarrow> (\<forall>x. GetObject P p x = Inl ErrNotFound \<or> (\<exists>obj cs. GetObject P p x = Inr obj \<and> walkChildren obj = Inr cs))"

definition all_present :: "'p Storage \<Rightarrow> 'p \<Rightarrow> Hash \<Rightarrow> bool" where
  "all_present P p h \<longleftrightarrow> (\<forall>x. (h, x) \<in> (refers P p)\<^sup>* \<longrightarrow> x = ZeroHash \<or> (\<exists>obj. GetObject P p x = Inr obj))"

text \<open>The three ways a step of the walk goes.\<close>

lemma walk_objects_Cons:
  obtains (skip) "h = ZeroHash \<or> h \<in> known \<or> h \<in> v" "walk_objects P p known (h # hs) v = walk_objects P p known hs v"
  | (stop) e where "h \<noteq> ZeroHash" "walk_objects P p known (h # hs) v = (insert h v, Inl e)" "decodable P p \<Longrightarrow> e = ErrNotFound \<and> GetObject P p h = Inl ErrNotFound"
  | (descend) obj cs v1 r1 where "h \<notin> v" "GetObject P p h = Inr obj" "walkChildren obj = Inr cs" "walk_objects P p known cs (insert h v) = (v1, r1)"
      "walk_objects P p known (h # hs) v = (case r1 of Inl e \<Rightarrow> (v1, Inl e) | Inr _ \<Rightarrow> walk_objects P p known hs v1)"
proof (cases "h = ZeroHash \<or> h \<in> known \<or> h \<in> v")
  case True
  then show thesis using skip by simp
next
  case new: False
  show thesis
  proof (cases "GetObject P p h")
    case (Inl e)
    moreover have "decodable P p \<Longrightarrow> e = ErrNotFound" using Inl unfolding decodable_def by (metis Inl_inject Inl_not_Inr)
    ultimately show thesis using stop [of e] new by simp
  next
    case obj: (Inr obj)
    show thesis
    proof (cases "walkChildren obj")
      case (Inl e)
      moreover have "\<not> decodable P p" using Inl obj unfolding decodable_def by (metis Inl_not_Inr Inr_inject)
      ultimately show thesis using stop [of e] new obj by simp
    next
      case (Inr cs)
      obtain v1 r1 where "walk_objects P p known cs (insert h v) = (v1, r1)" by (metis surj_pair)
      then show thesis using descend [OF _ obj Inr] new obj Inr by simp
    qed
  qed
qed

lemma walk_induct [consumes 1, case_names Nil skip stop fails descends]:
  fixes P :: "'p Storage" and Q :: "Hash list \<Rightarrow> Hash set \<Rightarrow> Hash set \<Rightarrow> error + unit \<Rightarrow> bool"
  assumes "walk_objects P p known hs v = (v', res)"
    and "\<And>v. Q [] v v (Inr ())"
    and "\<And>h hs v v' res. h = ZeroHash \<or> h \<in> known \<or> h \<in> v \<Longrightarrow> Q hs v v' res \<Longrightarrow> v \<subseteq> v' \<Longrightarrow> Q (h # hs) v v' res"
    and "\<And>h hs v e. h \<noteq> ZeroHash \<Longrightarrow> (decodable P p \<Longrightarrow> e = ErrNotFound \<and> GetObject P p h = Inl ErrNotFound) \<Longrightarrow> Q (h # hs) v (insert h v) (Inl e)"
    and "\<And>h hs v obj cs v1 e. GetObject P p h = Inr obj \<Longrightarrow> walkChildren obj = Inr cs \<Longrightarrow> Q cs (insert h v) v1 (Inl e) \<Longrightarrow> Q (h # hs) v v1 (Inl e)"
    and "\<And>h hs v obj cs v1 v' res. GetObject P p h = Inr obj \<Longrightarrow> walkChildren obj = Inr cs \<Longrightarrow> Q cs (insert h v) v1 (Inr ()) \<Longrightarrow> insert h v \<subseteq> v1 \<Longrightarrow>
      Q hs v1 v' res \<Longrightarrow> v1 \<subseteq> v' \<Longrightarrow> Q (h # hs) v v' res"
  shows "Q hs v v' res"
proof -
  have "Q hs v v' res \<and> v \<subseteq> v'"
    using assms(1)
  proof (induction "(card (- v), length hs)" arbitrary: hs v v' res rule: wf_induct_rule [OF wf_lex_prod [OF wf_less_than wf_less_than]])
    case 1
    show ?case
    proof (cases hs)
      case Nil
      then show ?thesis using "1.prems" assms(2) by simp
    next
      case (Cons h rest)
      show ?thesis
      proof (rule walk_objects_Cons [of h known v P p rest])
        assume skip: "h = ZeroHash \<or> h \<in> known \<or> h \<in> v" "walk_objects P p known (h # rest) v = walk_objects P p known rest v"
        then have w: "walk_objects P p known rest v = (v', res)" using "1.prems" Cons by simp
        have "Q rest v v' res \<and> v \<subseteq> v'" by (rule "1.hyps" [OF _ w]) (simp add: Cons)
        then show ?thesis using assms(3) [OF skip(1)] Cons by simp
      next
        fix e assume stop: "h \<noteq> ZeroHash" "walk_objects P p known (h # rest) v = (insert h v, Inl e)"
          "decodable P p \<Longrightarrow> e = ErrNotFound \<and> GetObject P p h = Inl ErrNotFound"
        then have "v' = insert h v" "res = Inl e" using "1.prems" Cons by simp_all
        then show ?thesis using assms(4) [OF stop(1,3)] Cons by auto
      next
        fix obj cs v1 r1 assume descend: "h \<notin> v" "GetObject P p h = Inr obj" "walkChildren obj = Inr cs" "walk_objects P p known cs (insert h v) = (v1, r1)"
          "walk_objects P p known (h # rest) v = (case r1 of Inl e \<Rightarrow> (v1, Inl e) | Inr _ \<Rightarrow> walk_objects P p known rest v1)"
        have less: "card (- insert h v) < card (- v)" using descend(1) by (intro psubset_card_mono) auto
        then have q1: "Q cs (insert h v) v1 r1 \<and> insert h v \<subseteq> v1" by (intro "1.hyps" [OF _ descend(4)]) simp
        show ?thesis
        proof (cases r1)
          case (Inl e)
          then show ?thesis using assms(5) [OF descend(2,3)] q1 descend(5) "1.prems" Cons by auto
        next
          case (Inr u)
          then have w: "walk_objects P p known rest v1 = (v', res)" using descend(5) "1.prems" Cons by simp
          have "card (- v1) \<le> card (- insert h v)" using q1 by (intro card_mono) auto
          then have q2: "Q rest v1 v' res \<and> v1 \<subseteq> v'" using less by (intro "1.hyps" [OF _ w]) (simp add: Cons)
          have "Q cs (insert h v) v1 (Inr ())" using q1 Inr by simp
          from assms(6) [OF descend(2,3) this conjunct2 [OF q1] conjunct1 [OF q2] conjunct2 [OF q2]] q1 q2
          show ?thesis unfolding Cons by auto
        qed
      qed
    qed
  qed
  then show ?thesis ..
qed

lemma walk_objects_frame:
  assumes "walk_objects P p known hs v = (v', res)"
  shows "v \<subseteq> v' \<and> v' \<subseteq> v \<union> reached P p hs"
  using assms
proof (induction rule: walk_induct)
  case (skip h hs v v' res)
  with reach_tail [of P p hs h] show ?case by blast
next
  case (stop h hs v e)
  with reach_tail [of P p hs h] show ?case by blast
next
  case (fails h hs v obj cs v1 e)
  with reach_children [OF fails(1,2), of hs] show ?case by blast
next
  case (descends h hs v obj cs v1 v' res)
  with reach_children [OF descends(1,2), of hs] show ?case by blast
qed simp

lemma walk_objects_closed:
  assumes "walk_objects P p known hs v = (v', Inr ())"
  shows "set hs \<subseteq> {ZeroHash} \<union> known \<union> v' \<and> refers P p `` (v' - v) \<subseteq> {ZeroHash} \<union> known \<union> v' \<and>
    (\<forall>x \<in> v' - v. \<exists>obj. GetObject P p x = Inr obj)"
proof -
  have "res = Inr () \<longrightarrow> set hs \<subseteq> {ZeroHash} \<union> known \<union> v' \<and> refers P p `` (v' - v) \<subseteq> {ZeroHash} \<union> known \<union> v' \<and>
      (\<forall>x \<in> v' - v. \<exists>obj. GetObject P p x = Inr obj)" if "walk_objects P p known hs v = (v', res)" for res
    using that
  proof (induction rule: walk_induct)
    case (descends h hs v obj cs v1 v' res)
    show ?case
    proof
      assume ok: "res = Inr ()"
      have "v' - v \<subseteq> {h} \<union> (v1 - insert h v) \<union> (v' - v1)" by auto
      then have "refers P p `` (v' - v) \<subseteq> refers P p `` {h} \<union> refers P p `` (v1 - insert h v) \<union> refers P p `` (v' - v1)" by blast
      also have "\<dots> \<subseteq> {ZeroHash} \<union> known \<union> v'"
      proof -
        have up: "{ZeroHash} \<union> known \<union> v1 \<subseteq> {ZeroHash} \<union> known \<union> v'" using descends.hyps(4) by blast
        have "set cs \<subseteq> {ZeroHash} \<union> known \<union> v1" "refers P p `` (v1 - insert h v) \<subseteq> {ZeroHash} \<union> known \<union> v1"
          "refers P p `` (v' - v1) \<subseteq> {ZeroHash} \<union> known \<union> v'" using descends.IH ok by simp_all
        from Un_least [OF Un_least [OF subset_trans [OF this(1) up] subset_trans [OF this(2) up]] this(3)]
        show ?thesis unfolding refers_Image [OF descends(1,2)] .
      qed
      finally have "refers P p `` (v' - v) \<subseteq> {ZeroHash} \<union> known \<union> v'" .
      moreover have "\<forall>x \<in> v1 - insert h v. \<exists>obj. GetObject P p x = Inr obj" "\<forall>x \<in> v' - v1. \<exists>obj. GetObject P p x = Inr obj"
        "set hs \<subseteq> {ZeroHash} \<union> known \<union> v'" "h \<in> v'" using descends.hyps(3,4) descends.IH ok by auto
      moreover have "\<exists>obj. GetObject P p x = Inr obj" if "x \<in> v' - v" for x
        using calculation(2,3) descends.hyps(1) that by (cases "x = h"; cases "x \<in> v1") auto
      ultimately show "set (h # hs) \<subseteq> {ZeroHash} \<union> known \<union> v' \<and> refers P p `` (v' - v) \<subseteq> {ZeroHash} \<union> known \<union> v' \<and>
          (\<forall>x \<in> v' - v. \<exists>obj. GetObject P p x = Inr obj)"
        by simp
    qed
  qed auto
  with assms show ?thesis by simp
qed

lemma walk_objects_fails:
  assumes "walk_objects P p known hs v = (v', Inl e)" and "decodable P p"
  shows "e = ErrNotFound \<and> (\<exists>x \<in> reached P p hs. x \<noteq> ZeroHash \<and> GetObject P p x = Inl ErrNotFound)"
proof -
  have "\<forall>e. res = Inl e \<longrightarrow> e = ErrNotFound \<and> (\<exists>x \<in> reached P p hs. x \<noteq> ZeroHash \<and> GetObject P p x = Inl ErrNotFound)"
    if "walk_objects P p known hs v = (v', res)" for res
    using that
  proof (induction rule: walk_induct)
    case (stop h hs v e)
    with assms(2) reach_tail [of P p hs h] show ?case by blast
  next
    case (skip h hs v v' res)
    with reach_tail [of P p hs h] show ?case by blast
  next
    case (fails h hs v obj cs v1 e)
    with reach_children [OF fails(1,2), of hs] show ?case by blast
  next
    case (descends h hs v obj cs v1 v' res)
    with reach_children [OF descends(1,2), of hs] show ?case by blast
  qed simp
  with assms(1) show ?thesis by blast
qed

section \<open>The answer to a walk\<close>

lemma walk_known_one:
  assumes "decodable P p"
  obtains known where "walk_known P p [k] {} = Inr known" "known \<subseteq> (refers P p)\<^sup>* `` {k}"
proof -
  obtain known res where w: "walk_objects P p {} [k] {} = (known, res)" by (metis surj_pair)
  have "known \<subseteq> (refers P p)\<^sup>* `` {k}" using walk_objects_frame [OF w] by (simp add: reached_def)
  moreover have "walk_known P p [k] {} = Inr known"
    using w walk_objects_fails [OF _ assms, of "{}" "[k]" "{}" known] by (cases res) (auto simp: walkReachable_def)
  ultimately show thesis by (rule that [rotated])
qed

text \<open>The missing objects are those of the root that the secondary cannot have.\<close>

lemma walk_roots_one:
  assumes "decodable P p" and "all_present P p root"
  obtains missing where "walk_roots P p known [root] {} = Inr missing" "missing \<subseteq> (refers P p)\<^sup>* `` {root}"
    "\<And>x. x \<in> missing \<Longrightarrow> \<exists>obj. GetObject P p x = Inr obj"
    "\<And>x obj. (root, x) \<in> (refers P p)\<^sup>* \<Longrightarrow> GetObject P p x = Inr obj \<Longrightarrow> x \<in> missing \<or> (\<exists>k \<in> known \<union> {ZeroHash}. (k, x) \<in> (refers P p)\<^sup>*)"
proof -
  obtain missing res where w: "walk_objects P p known [root] {} = (missing, res)" by (metis surj_pair)
  have "res = Inr ()"
  proof (cases res)
    case (Inl e)
    with walk_objects_fails [OF _ assms(1), of known "[root]" "{}" missing e] w assms(2) show ?thesis
      unfolding all_present_def reached_def by fastforce
  qed simp
  then have w: "walk_objects P p known [root] {} = (missing, Inr ())" using w by simp
  note closed = walk_objects_closed [OF w]
  have reach: "x \<in> missing \<or> (\<exists>k \<in> known \<union> {ZeroHash}. (k, x) \<in> (refers P p)\<^sup>*)" if "(root, x) \<in> (refers P p)\<^sup>*" for x
    using that
  proof (induction rule: rtrancl_induct)
    case base
    show ?case using closed by auto
  next
    case (step y z)
    then show ?case using closed by (auto intro: rtrancl_into_rtrancl)
  qed
  show thesis
  proof (rule that)
    show "walk_roots P p known [root] {} = Inr missing" using w by (simp add: walkMissing_def)
    show "missing \<subseteq> (refers P p)\<^sup>* `` {root}" using walk_objects_frame [OF w] by (simp add: reached_def)
  qed (use closed reach in auto)
qed

section \<open>What the server answers\<close>

text \<open>The order of a map iteration: every key, in some order.\<close>

definition iterates :: "(Hash set \<Rightarrow> Hash list) \<Rightarrow> bool" where
  "iterates order \<longleftrightarrow> (\<forall>m. set (order m) = m)"

lemma serve_object:
  "getObject (RegisterHandlers P order (Inr rp)) (hash_String h) =
    (case GetObject P (r_storage rp) h of Inl e \<Rightarrow> Inl (ErrOther ''status'') | Inr obj \<Rightarrow> Inr obj)"
proof -
  have "TrimPrefix ((BasePath @ ''/objects/'') @ hash_String h) (BasePath @ ''/objects/'') = hash_String h" by (rule TrimPrefix_append)
  then have "TrimPrefix (BasePath @ ''/objects/'' @ hash_String h) (BasePath @ ''/objects/'') = hash_String h" by (simp only: append_assoc)
  then show ?thesis by (simp add: getObject_def RegisterHandlers_def handleObject_def split: sum.split)
qed

lemma serve_walk:
  assumes "decodable P (r_storage rp)" and "all_present P (r_storage rp) root" and "iterates order"
  obtains missing where "client_walkMissing (RegisterHandlers P order (Inr rp)) [hash_String root] (if k \<noteq> ZeroHash then [hash_String k] else [])
      = Inr \<lparr>wr_Missing = map hash_String missing\<rparr>"
    "\<And>x. x \<in> set missing \<Longrightarrow> \<exists>obj. GetObject P (r_storage rp) x = Inr obj"
    "\<And>x obj. (root, x) \<in> (refers P (r_storage rp))\<^sup>* \<Longrightarrow> GetObject P (r_storage rp) x = Inr obj \<Longrightarrow>
      x \<in> set missing \<or> (ZeroHash, x) \<in> (refers P (r_storage rp))\<^sup>* \<or> k \<noteq> ZeroHash \<and> (k, x) \<in> (refers P (r_storage rp))\<^sup>*"
proof -
  let ?p = "r_storage rp" and ?ks = "if k \<noteq> ZeroHash then [k] else []"
  obtain known where known: "walk_known P ?p ?ks {} = Inr known" "known \<subseteq> (refers P ?p)\<^sup>* `` set ?ks"
  proof (cases "k = ZeroHash")
    case False
    then show thesis using walk_known_one [OF assms(1), of k thesis] that by simp
  qed (use that in simp)
  obtain missing where m: "walk_roots P ?p known [root] {} = Inr missing" "missing \<subseteq> (refers P ?p)\<^sup>* `` {root}" "\<And>x. x \<in> missing \<Longrightarrow> \<exists>obj. GetObject P ?p x = Inr obj"
    "\<And>x obj. (root, x) \<in> (refers P ?p)\<^sup>* \<Longrightarrow> GetObject P ?p x = Inr obj \<Longrightarrow> x \<in> missing \<or> (\<exists>k \<in> known \<union> {ZeroHash}. (k, x) \<in> (refers P ?p)\<^sup>*)"
    using walk_roots_one [OF assms(1,2), where known = known] by metis
  show thesis
  proof (rule that [of "order missing"])
    have "hexesToHashes (if k \<noteq> ZeroHash then [hash_String k] else []) = Inr ?ks" by simp
    then show "client_walkMissing (RegisterHandlers P order (Inr rp)) [hash_String root] (if k \<noteq> ZeroHash then [hash_String k] else [])
      = Inr \<lparr>wr_Missing = map hash_String (order missing)\<rparr>"
      using known(1) m(1) by (simp add: client_walkMissing_def RegisterHandlers_def handleWalk_def del: walk_known.simps walk_roots.simps)
    show "\<exists>obj. GetObject P ?p x = Inr obj" if "x \<in> set (order missing)" for x
      using m(3) that assms(3) by (simp add: iterates_def)
    show "x \<in> set (order missing) \<or> (ZeroHash, x) \<in> (refers P ?p)\<^sup>* \<or> k \<noteq> ZeroHash \<and> (k, x) \<in> (refers P ?p)\<^sup>*"
      if reach: "(root, x) \<in> (refers P ?p)\<^sup>*" "GetObject P ?p x = Inr obj" for x obj
    proof (cases "x \<in> missing \<or> (ZeroHash, x) \<in> (refers P ?p)\<^sup>*")
      case True
      then show ?thesis using assms(3) by (auto simp: iterates_def)
    next
      case False
      then obtain k' where "k' \<in> known" "(k', x) \<in> (refers P ?p)\<^sup>*" using m(4) [OF reach] by blast
      then show ?thesis using known(2) by (cases "k = ZeroHash") (auto dest: rtrancl_trans)
    qed
  qed
qed

section \<open>Replicas\<close>

text \<open>
  The secondary holds every object of the primary that is reachable from a hash; it does so
  for all its branches; and it holds no other object under a hash of the primary.
\<close>

definition has_all :: "'p Storage \<Rightarrow> 'p \<Rightarrow> 'l Storage \<Rightarrow> 'l \<Rightarrow> Hash \<Rightarrow> bool" where
  "has_all P p L s h \<longleftrightarrow> (\<forall>x obj. (h, x) \<in> (refers P p)\<^sup>* \<longrightarrow> GetObject P p x = Inr obj \<longrightarrow> GetObject L s x = Inr obj)"

definition replica :: "'p Storage \<Rightarrow> 'p \<Rightarrow> 'l Storage \<Rightarrow> 'l \<Rightarrow> bool" where
  "replica P p L s \<longleftrightarrow> (\<forall>z n h. GetBranch L s z n = Inr h \<longrightarrow> has_all P p L s h)"

definition agrees :: "'p Storage \<Rightarrow> 'p \<Rightarrow> (Hash \<times> Object) set \<Rightarrow> bool" where
  "agrees P p H \<longleftrightarrow> single_valued H \<and> (\<forall>h obj obj'. (h, obj) \<in> H \<longrightarrow> GetObject P p h = Inr obj' \<longrightarrow> obj = obj')"

lemma has_all_zero: "GetObject P p ZeroHash = Inl e \<Longrightarrow> has_all P p L s ZeroHash"
proof -
  assume e: "GetObject P p ZeroHash = Inl e"
  have "x = ZeroHash" if "(ZeroHash, x) \<in> (refers P p)\<^sup>*" for x
    using that by (cases rule: converse_rtranclE) (simp_all add: refers_def e)
  with e show ?thesis by (fastforce simp: has_all_def)
qed

definition zone_marker :: "string \<Rightarrow> string" where
  "zone_marker z = ZoneMarkerPrefix @ CanonZone z"

lemma agrees_insert:
  "agrees P p H \<Longrightarrow> h \<notin> Domain H \<Longrightarrow> GetObject P p h = Inr obj \<Longrightarrow> agrees P p (insert (h, obj) H)"
  by (auto simp: agrees_def single_valued_def)

context storage
begin

lemma agrees_get:
  assumes "agrees P p (hist s)" and "x \<in> Domain (hist s)" and "GetObject P p x = Inr obj"
  shows "GetObject S s x = Inr obj"
proof -
  obtain obj' where "(x, obj') \<in> hist s" using assms(2) by blast
  with assms(1,3) show ?thesis using get_present [of x obj' s] by (auto simp: agrees_def)
qed

lemma has_all_mono:
  "has_all P p S s h \<Longrightarrow> hist s \<subseteq> hist s' \<Longrightarrow> agrees P p (hist s') \<Longrightarrow> has_all P p S s' h"
  unfolding has_all_def agrees_def by (blast intro: get_stable)

lemma fetch_missing_spec:
  assumes "\<And>x. x \<in> set missing \<Longrightarrow> \<exists>obj. GetObject P (r_storage rp) x = Inr obj" and "agrees P (r_storage rp) (hist s)"
  obtains s' where "fetch_missing S (RegisterHandlers P order (Inr rp)) (map hash_String missing) s = (s', Inr ())"
    "ref s' = ref s" "log s' = log s" "hist s \<subseteq> hist s'" "agrees P (r_storage rp) (hist s')" "set missing \<subseteq> Domain (hist s')"
proof -
  let ?T = "RegisterHandlers P order (Inr rp)"
  have "\<exists>s'. fetch_missing S ?T (map hash_String missing) s = (s', Inr ()) \<and> ref s' = ref s \<and> log s' = log s \<and> hist s \<subseteq> hist s' \<and>
    agrees P (r_storage rp) (hist s') \<and> set missing \<subseteq> Domain (hist s')"
    using assms
  proof (induction missing arbitrary: s)
    case (Cons h hs)
    obtain obj where obj: "GetObject P (r_storage rp) h = Inr obj" using Cons.prems(1) [of h] by auto
    define s1 where "s1 = (if h \<in> Domain (hist s) then s else fst (PutObject S s h obj))"
    have put: "PutObject S s h obj = (fst (PutObject S s h obj), Inr ())" using put_total by (simp add: prod_eq_iff)
    have hist1: "hist s1 = (if h \<in> Domain (hist s) then hist s else insert (h, obj) (hist s))" using put_ok [OF put] by (simp add: s1_def)
    have step: "fetch_missing S ?T (map hash_String (h # hs)) s = fetch_missing S ?T (map hash_String hs) s1"
      using put obj by (auto simp: s1_def has_object serve_object split: prod.split)
    have "agrees P (r_storage rp) (hist s1)" using Cons.prems(2) agrees_insert [OF _ _ obj] by (simp add: hist1)
    then obtain s' where s': "fetch_missing S ?T (map hash_String hs) s1 = (s', Inr ())" "ref s' = ref s1" "log s' = log s1" "hist s1 \<subseteq> hist s'"
      "agrees P (r_storage rp) (hist s')" "set hs \<subseteq> Domain (hist s')"
      using Cons.IH [of s1] Cons.prems(1) by auto
    have "ref s1 = ref s" "log s1 = log s" by (simp_all add: s1_def put_ref put_log)
    moreover have "hist s \<subseteq> hist s'" "h \<in> Domain (hist s')" using s'(4) by (auto simp: hist1 split: if_splits)
    ultimately show ?case using s' step by auto
  qed auto
  then show thesis using that by blast
qed

lemma pullBranch_spec:
  fixes rp :: "'p Repo"
  assumes prim: "decodable P (r_storage rp)" "all_present P (r_storage rp) h" "iterates order" "GetObject P (r_storage rp) ZeroHash = Inl e"
    and loc: "agrees P (r_storage rp) (hist s)" "replica P (r_storage rp) S s"
    and b: "b_Hash b = hash_String h" "h \<noteq> ZeroHash" "k = (case GetBranch S s (b_Zone b) (b_Name b) of Inl e \<Rightarrow> ZeroHash | Inr k \<Rightarrow> k)"
  obtains s' where "pullBranch S (RegisterHandlers P order (Inr rp)) s b h k = (s', Inr ())"
    "ref s' = (ref s)(BranchRef (b_Zone b) (b_Name b) \<mapsto> h)" "log s' = log s" "hist s \<subseteq> hist s'" "agrees P (r_storage rp) (hist s')"
    "has_all P (r_storage rp) S s' h"
proof -
  let ?T = "RegisterHandlers P order (Inr rp)" and ?p = "r_storage rp" and ?r = "BranchRef (b_Zone b) (b_Name b)"
  obtain missing where m: "client_walkMissing ?T [hash_String h] (if k \<noteq> ZeroHash then [hash_String k] else []) = Inr \<lparr>wr_Missing = map hash_String missing\<rparr>"
    "\<And>x. x \<in> set missing \<Longrightarrow> \<exists>obj. GetObject P ?p x = Inr obj"
    "\<And>x obj. (h, x) \<in> (refers P ?p)\<^sup>* \<Longrightarrow> GetObject P ?p x = Inr obj \<Longrightarrow>
      x \<in> set missing \<or> (ZeroHash, x) \<in> (refers P ?p)\<^sup>* \<or> k \<noteq> ZeroHash \<and> (k, x) \<in> (refers P ?p)\<^sup>*"
    using serve_walk [OF prim(1-3), where k = k] by metis
  obtain s1 where s1: "fetch_missing S ?T (map hash_String missing) s = (s1, Inr ())" "ref s1 = ref s" "log s1 = log s" "hist s \<subseteq> hist s1"
    "agrees P ?p (hist s1)" "set missing \<subseteq> Domain (hist s1)"
    by (rule fetch_missing_spec [OF m(2) loc(1)])
  have guard: "cas_guard (ref s1 ?r) k"
    using b(3) by (auto simp: s1(2) cas_guard_def GetBranch_def get_ref_or_absent_def get_ref split: option.splits)
  define s' where "s' = fst (CASRef S s1 ?r k h)"
  have cas: "CASRef S s1 ?r k h = (s', Inr ())" "ref s' = (ref s)(?r \<mapsto> h)" "log s' = log s" "hist s' = hist s1"
    using guard b(2) s1(2,3) by (simp_all add: s'_def cas_result cas_ref cas_log cas_hist prod_eq_iff)
  have known: "k \<noteq> ZeroHash \<Longrightarrow> has_all P ?p S s k" using loc(2) b(3) by (auto simp: replica_def split: sum.splits)
  have all: "has_all P ?p S s' h"
    unfolding has_all_def
  proof (intro allI impI)
    fix x obj assume x: "(h, x) \<in> (refers P ?p)\<^sup>*" "GetObject P ?p x = Inr obj"
    from m(3) [OF x] show "GetObject S s' x = Inr obj"
    proof (elim disjE conjE)
      assume "x \<in> set missing"
      then show ?thesis using agrees_get [of P ?p s' x obj] s1(5,6) x(2) cas(4) by auto
    next
      assume "(ZeroHash, x) \<in> (refers P ?p)\<^sup>*"
      then show ?thesis using has_all_zero [OF prim(4), of S s'] x(2) by (simp add: has_all_def)
    next
      assume "k \<noteq> ZeroHash" "(k, x) \<in> (refers P ?p)\<^sup>*"
      moreover have "hist s \<subseteq> hist s'" "agrees P ?p (hist s')" using s1(4,5) cas(4) by simp_all
      ultimately have "has_all P ?p S s' k" using has_all_mono [OF known] by simp
      with \<open>(k, x) \<in> (refers P ?p)\<^sup>*\<close> x(2) show ?thesis by (simp add: has_all_def)
    qed
  qed
  show thesis
  proof (rule that [OF _ cas(2,3) _ _ all])
    show "pullBranch S ?T s b h k = (s', Inr ())"
      using m(1) s1(1) cas(1) by (cases "k = ZeroHash") (simp_all add: pullBranch_def b(1) CreateBranch_def UpdateBranch_def Let_def)
  qed (use s1(4,5) cas(4) in simp_all)
qed

text \<open>One branch: afterwards it is where the primary has it, and the secondary is a replica still.\<close>

lemma pull_one_spec:
  fixes rp :: "'p Repo"
  assumes prim: "decodable P (r_storage rp)" "all_present P (r_storage rp) h" "iterates order" "GetObject P (r_storage rp) ZeroHash = Inl e"
    and loc: "agrees P (r_storage rp) (hist s)" "replica P (r_storage rp) S s"
    and b: "b_Hash b = hash_String h" "h \<noteq> ZeroHash"
  obtains s' where "pull_one S (RegisterHandlers P order (Inr rp)) b s = s'"
    "ref s' = (ref s)(BranchRef (b_Zone b) (b_Name b) \<mapsto> h)" "log s' = log s" "hist s \<subseteq> hist s'" "agrees P (r_storage rp) (hist s')"
    "replica P (r_storage rp) S s'"
proof -
  let ?T = "RegisterHandlers P order (Inr rp)" and ?p = "r_storage rp" and ?r = "BranchRef (b_Zone b) (b_Name b)"
  define k where "k = (case GetBranch S s (b_Zone b) (b_Name b) of Inl e \<Rightarrow> ZeroHash | Inr k \<Rightarrow> k)"
  show thesis
  proof (cases "k = h")
    case True
    then have "ref s ?r = Some h"
      using b(2) unfolding k_def by (auto simp: GetBranch_def get_ref_or_absent_def get_ref split: option.splits)
    then show thesis using that [of s] True loc by (simp add: pull_one_def b(1) k_def [symmetric] fun_upd_idem)
  next
    case False
    obtain s' where s': "pullBranch S ?T s b h k = (s', Inr ())" "ref s' = (ref s)(?r \<mapsto> h)" "log s' = log s" "hist s \<subseteq> hist s'"
      "agrees P ?p (hist s')" "has_all P ?p S s' h"
      by (rule pullBranch_spec [OF prim loc b k_def])
    have "replica P ?p S s'"
      unfolding replica_def
    proof (intro allI impI)
      fix z n x assume x: "GetBranch S s' z n = Inr x"
      show "has_all P ?p S s' x"
      proof (cases "x = h")
        case False
        then have "GetBranch S s z n = Inr x" using x s'(2) by (auto simp: GetBranch_def get_ref_or_absent_def get_ref split: option.splits if_splits)
        then have "has_all P ?p S s x" using loc(2) by (simp add: replica_def)
        then show ?thesis by (rule has_all_mono [OF _ s'(4,5)])
      qed (use s'(6) in simp)
    qed
    moreover have "pull_one S ?T b s = s'" using False s'(1) by (simp add: pull_one_def b(1) k_def [symmetric])
    ultimately show thesis using that s'(2-5) by blast
  qed
qed

lemma pull_branches_spec:
  fixes rp :: "'p Repo"
  assumes prim: "decodable P (r_storage rp)" "iterates order" "GetObject P (r_storage rp) ZeroHash = Inl e"
    and loc: "agrees P (r_storage rp) (hist s)" "replica P (r_storage rp) S s"
    and bs: "\<And>b. b \<in> set bs \<Longrightarrow> \<exists>h. b_Hash b = hash_String h \<and> h \<noteq> ZeroHash \<and> all_present P (r_storage rp) h \<and> tip (BranchRef (b_Zone b) (b_Name b)) = Some h"
  shows "\<exists>s'. fold (pull_one S (RegisterHandlers P order (Inr rp))) bs s = s' \<and>
    ref s' = (\<lambda>n. if n \<in> (\<lambda>b. BranchRef (b_Zone b) (b_Name b)) ` set bs then tip n else ref s n) \<and> log s' = log s \<and> hist s \<subseteq> hist s' \<and>
    agrees P (r_storage rp) (hist s') \<and> replica P (r_storage rp) S s'"
  using loc bs
proof (induction bs arbitrary: s)
  case (Cons b bs)
  obtain h where h: "b_Hash b = hash_String h" "h \<noteq> ZeroHash" "all_present P (r_storage rp) h" "tip (BranchRef (b_Zone b) (b_Name b)) = Some h"
    using Cons.prems(3) [of b] by auto
  obtain s1 where s1: "pull_one S (RegisterHandlers P order (Inr rp)) b s = s1" "ref s1 = (ref s)(BranchRef (b_Zone b) (b_Name b) \<mapsto> h)"
    "log s1 = log s" "hist s \<subseteq> hist s1" "agrees P (r_storage rp) (hist s1)" "replica P (r_storage rp) S s1"
    by (rule pull_one_spec [OF prim(1) h(3) prim(2,3) Cons.prems(1,2) h(1,2)])
  obtain s' where s': "fold (pull_one S (RegisterHandlers P order (Inr rp))) bs s1 = s'"
    "ref s' = (\<lambda>n. if n \<in> (\<lambda>b. BranchRef (b_Zone b) (b_Name b)) ` set bs then tip n else ref s1 n)" "log s' = log s1" "hist s1 \<subseteq> hist s'"
    "agrees P (r_storage rp) (hist s')" "replica P (r_storage rp) S s'"
    using Cons.IH [OF s1(5,6)] Cons.prems(3) by auto
  have "ref s' = (\<lambda>n. if n \<in> (\<lambda>b. BranchRef (b_Zone b) (b_Name b)) ` set (b # bs) then tip n else ref s n)"
    using h(4) by (auto simp: s'(2) s1(2) fun_eq_iff)
  with s1 s' show ?case by auto
qed simp

lemma pull_zones_spec:
  assumes "\<And>z. z \<in> set zs \<Longrightarrow> z \<noteq> [] \<and> ref (r_storage r) (zone_marker z) \<in> {None, Some zoneSentinel}"
  shows "\<exists>s'. pull_zones S zs r = (r\<lparr>r_storage := s'\<rparr>, Inr ()) \<and> log s' = log (r_storage r) \<and> hist s' = hist (r_storage r) \<and>
    (\<forall>z \<in> set zs. ref s' (zone_marker z) = Some zoneSentinel) \<and>
    (\<forall>n. n \<notin> zone_marker ` set zs \<longrightarrow> ref s' n = ref (r_storage r) n)"
  using assms
proof (induction zs arbitrary: r)
  case (Cons z zs)
  have z: "CanonZone z \<noteq> []" "ref (r_storage r) (ZoneMarkerPrefix @ CanonZone (CanonZone z)) \<in> {None, Some zoneSentinel}"
    using Cons.prems [of z] by (auto simp: zone_marker_def)
  obtain s1 where s1: "RegisterZone S (r_storage r) (CanonZone z) = (s1, Inr ())" "log s1 = log (r_storage r)" "hist s1 = hist (r_storage r)"
    "ref s1 = (ref (r_storage r))(zone_marker z \<mapsto> zoneSentinel)"
    using RegisterZone_spec [OF z] by (auto simp: zone_marker_def)
  let ?r1 = "r\<lparr>r_storage := s1\<rparr>"
  have pre: "z \<noteq> [] \<and> ref (r_storage ?r1) (zone_marker z) \<in> {None, Some zoneSentinel}" if "z \<in> set zs" for z
    using Cons.prems [of z] that s1(4) by auto
  obtain s' where s': "pull_zones S zs ?r1 = (?r1\<lparr>r_storage := s'\<rparr>, Inr ())" "log s' = log s1" "hist s' = hist s1"
    "\<forall>z \<in> set zs. ref s' (zone_marker z) = Some zoneSentinel"
    "\<forall>n. n \<notin> zone_marker ` set zs \<longrightarrow> ref s' n = ref s1 n"
    using Cons.IH [of ?r1] pre by auto
  have "ref s' (zone_marker z) = Some zoneSentinel" using s'(4,5) s1(4) by (cases "zone_marker z \<in> zone_marker ` set zs") auto
  with s' s1 show ?case by (intro exI [of _ s']) (auto simp: Repo_AddZone_def)
next
  case (Nil r)
  show ?case by (intro exI [of _ "r_storage r"]) simp
qed

end

section \<open>A primary and a secondary\<close>

locale replication = storage S hist ref log + primary: storage P phist pref plog
  for S :: "'s Storage" and hist ref log and P :: "'p Storage" and phist pref plog
begin

lemma zone_branches_set:
  "set (zone_branches P p z ns) = {\<lparr>b_Zone = z, b_Name = n, b_Hash = hash_String h\<rparr> | n h. n \<in> set ns \<and> pref p (BranchRef z n) = Some h}"
proof (induction ns)
  case (Cons n ns)
  show ?case
  proof (cases "pref p (BranchRef z n)")
    case None
    then have "GetBranch P p z n = Inl ErrNotFound" by (simp add: GetBranch_def get_ref_or_absent_def primary.get_ref)
    with Cons None show ?thesis by auto
  next
    case (Some h)
    then have "GetBranch P p z n = Inr h" by (simp add: GetBranch_def get_ref_or_absent_def primary.get_ref)
    with Cons Some show ?thesis by auto
  qed
qed simp

lemma all_branches_set:
  "\<exists>bs. all_branches P p zs = Inr bs \<and>
    set bs = {\<lparr>b_Zone = z, b_Name = n, b_Hash = hash_String h\<rparr> | z n h. z \<in> set zs \<and> pref p (BranchRef z n) = Some h}"
proof (induction zs)
  case (Cons z zs)
  obtain ns where ns: "ListBranches P p z = Inr ns" "set ns = {n. pref p (BranchRef z n) \<noteq> None}"
    using primary.list_names_spec [of p "BranchPrefix @ CanonZone z @ ''/''"] by (auto simp: ListBranches_def BranchRef_def)
  obtain bs where "all_branches P p zs = Inr bs"
    "set bs = {\<lparr>b_Zone = z, b_Name = n, b_Hash = hash_String h\<rparr> | z n h. z \<in> set zs \<and> pref p (BranchRef z n) = Some h}" using Cons by blast
  with ns show ?case by (auto simp: zone_branches_set)
qed simp

lemma Pull_spec:
  assumes prim: "decodable P (r_storage rp)" "iterates order" "ZeroHash \<notin> Domain (phist (r_storage rp))" "ListZones P (r_storage rp) = Inr zs"
    and tips: "\<And>z n h. z \<in> set zs \<Longrightarrow> GetBranch P (r_storage rp) z n = Inr h \<Longrightarrow> h \<noteq> ZeroHash \<and> all_present P (r_storage rp) h"
    and loc: "agrees P (r_storage rp) (hist (r_storage r))" "replica P (r_storage rp) S (r_storage r)"
    and marks: "\<And>z. z \<in> set zs \<Longrightarrow> z \<noteq> [] \<and> ref (r_storage r) (zone_marker z) \<in> {None, Some zoneSentinel}"
  shows "\<exists>r'. Pull S (RegisterHandlers P order (Inr rp)) r = (r', Inr ()) \<and>
    (\<forall>z n h. z \<in> set zs \<and> GetBranch P (r_storage rp) z n = Inr h \<longrightarrow>
      GetBranch S (r_storage r') z n = Inr h \<and> has_all P (r_storage rp) S (r_storage r') h) \<and>
    (\<forall>z \<in> set zs. IsZoneRegistered S (r_storage r') z = Inr True) \<and>
    hist (r_storage r) \<subseteq> hist (r_storage r') \<and> agrees P (r_storage rp) (hist (r_storage r')) \<and> replica P (r_storage rp) S (r_storage r')"
proof -
  let ?T = "RegisterHandlers P order (Inr rp)" and ?p = "r_storage rp"
  have get: "GetBranch P ?p z n = Inr h \<longleftrightarrow> pref ?p (BranchRef z n) = Some h" for z n h
    by (auto simp: GetBranch_def get_ref_or_absent_def primary.get_ref split: option.split)
  have getS: "GetBranch S s z n = Inr h \<longleftrightarrow> ref s (BranchRef z n) = Some h" for s z n h
    by (auto simp: GetBranch_def get_ref_or_absent_def get_ref split: option.split)
  have other: "BranchRef z n \<noteq> zone_marker z'" for z n z' by (simp add: BranchRef_def zone_marker_def)
  obtain bs where bs: "all_branches P ?p zs = Inr bs"
    "set bs = {\<lparr>b_Zone = z, b_Name = n, b_Hash = hash_String h\<rparr> | z n h. z \<in> set zs \<and> pref ?p (BranchRef z n) = Some h}"
    using all_branches_set by blast
  have refs: "getRefs ?T = Inr \<lparr>rr_Zones = zs, rr_Branches = bs\<rparr>"
    using bs(1) prim(4) by (simp add: getRefs_def RegisterHandlers_def handleRefs_def Repo_Zones_def)
  obtain s1 where s1: "pull_zones S zs r = (r\<lparr>r_storage := s1\<rparr>, Inr ())" "hist s1 = hist (r_storage r)"
    "\<forall>z \<in> set zs. ref s1 (zone_marker z) = Some zoneSentinel" "\<forall>n. n \<notin> zone_marker ` set zs \<longrightarrow> ref s1 n = ref (r_storage r) n"
    using pull_zones_spec [of zs r] marks by auto
  have same: "ref s1 (BranchRef z n) = ref (r_storage r) (BranchRef z n)" for z n using s1(4) other by (metis imageE)
  have single: "single_valued (hist s1)" using loc(1) s1(2) by (simp add: agrees_def)
  have "has_all P ?p S s1 h" if "has_all P ?p S (r_storage r) h" for h
    by (rule has_all_mono [OF that]) (use s1(2) loc(1) in simp_all)
  then have rep: "replica P ?p S s1" using loc(2) same by (simp add: replica_def getS)
  have zero: "GetObject P ?p ZeroHash = Inl ErrNotFound" by (rule primary.get_absent [OF prim(3)])
  have tip: "\<exists>h. b_Hash b = hash_String h \<and> h \<noteq> ZeroHash \<and> all_present P ?p h \<and> pref ?p (BranchRef (b_Zone b) (b_Name b)) = Some h" if "b \<in> set bs" for b
    using that tips unfolding bs(2) get by fastforce
  obtain s' where s': "fold (pull_one S ?T) bs s1 = s'"
    "ref s' = (\<lambda>n. if n \<in> (\<lambda>b. BranchRef (b_Zone b) (b_Name b)) ` set bs then pref ?p n else ref s1 n)" "hist s1 \<subseteq> hist s'"
    "agrees P ?p (hist s')" "replica P ?p S s'"
    using pull_branches_spec [where tip = "pref ?p", OF prim(1,2) zero _ rep tip] loc(1) s1(2) by auto
  have run: "Pull S ?T r = (r\<lparr>r_storage := s'\<rparr>, Inr ())" using refs s1(1) s'(1) by (simp add: Pull_def)
  have synced: "GetBranch S s' z n = Inr h \<and> has_all P ?p S s' h" if "z \<in> set zs" "GetBranch P ?p z n = Inr h" for z n h
  proof -
    have "\<lparr>b_Zone = z, b_Name = n, b_Hash = hash_String h\<rparr> \<in> set bs" using that unfolding bs(2) get by blast
    then have "BranchRef z n \<in> (\<lambda>b. BranchRef (b_Zone b) (b_Name b)) ` set bs" by force
    then have "GetBranch S s' z n = Inr h" using that(2) by (simp add: getS get s'(2))
    then show ?thesis using s'(5) by (auto simp: replica_def)
  qed
  have "IsZoneRegistered S s' z = Inr True" if "z \<in> set zs" for z
  proof -
    have "zone_marker z \<notin> (\<lambda>b. BranchRef (b_Zone b) (b_Name b)) ` set bs"
      using other [of _ _ z, symmetric] by auto
    then have "ref s' (zone_marker z) = Some zoneSentinel" using s1(3) that by (simp add: s'(2))
    then show ?thesis by (simp add: IsZoneRegistered_def get_ref zone_marker_def)
  qed
  with run synced s'(3-5) s1(2) show ?thesis by (intro exI [of _ "r\<lparr>r_storage := s'\<rparr>"]) auto
qed

end

interpretation mem_pair: replication memstore mem_hist mem_ref ms_reflog memstore mem_hist mem_ref ms_reflog
  by unfold_locales

section \<open>Trees of a replica\<close>

lemma has_all_reach: "has_all P p L s h \<Longrightarrow> (h, x) \<in> (refers P p)\<^sup>* \<Longrightarrow> has_all P p L s x"
  unfolding has_all_def by (meson rtrancl_trans)

lemma has_all_get: "has_all P p L s h \<Longrightarrow> GetObject P p h = Inr obj \<Longrightarrow> GetObject L s h = Inr obj"
  by (simp add: has_all_def)

lemma LoadTree_refers:
  assumes "LoadTree P sha p h = Inr t" and "e \<in> set (Entries t)"
  shows "(h, te_Hash e) \<in> refers P p"
  using LoadTree_DecodeTree [OF assms(1)] assms(2) by (auto simp: refers_def walkChildren_def kind_defs)

lemma LoadTree_replica: "has_all P p L s h \<Longrightarrow> LoadTree P sha p h = Inr t \<Longrightarrow> LoadTree L sha s h = Inr t"
  by (auto simp: LoadTree_def dest: has_all_get split: sum.splits)

lemma WalkTree_replica:
  assumes "tree_ok P sha p n h" and "has_all P p L s h"
  shows "WalkTree L sha s h q rt = WalkTree P sha p h q rt \<and>
    (\<forall>b. WalkTree P sha p h q rt = Inr b \<longrightarrow> (h, b) \<in> (refers P p)\<^sup>* \<and> b \<noteq> ZeroHash)"
  using assms
proof (induction n arbitrary: h q)
  case (Suc n)
  from Suc.prems(1) obtain t where t: "LoadTree P sha p h = Inr t" "node_ok P sha p n t" by (auto simp: tree_ok_Suc)
  have t': "LoadTree L sha s h = Inr t" by (rule LoadTree_replica [OF Suc.prems(2) t(1)])
  have get: "e \<in> set (Entries t) \<and> te_Kind e = k \<and> te_Hash e \<noteq> ZeroHash \<and> (h, te_Hash e) \<in> refers P p" if "Get t k nm = Some e" for k nm e
    using that t(2) LoadTree_refers [OF t(1)] unfolding Get_canonical [OF node_ok_canonical [OF t(2)]] by (auto simp: node_ok_def te_key_def)
  show ?case
  proof (cases q)
    case Nil
    then show ?thesis using get by (auto simp: WalkTree_node [OF t(1)] WalkTree_node [OF t'] split: option.splits)
  next
    case (Cons l q')
    show ?thesis
    proof (cases "Get t EntrySubtree l")
      case None
      then show ?thesis by (simp add: Cons WalkTree_node [OF t(1)] WalkTree_node [OF t'])
    next
      case (Some e)
      note e = get [OF Some]
      have "tree_ok P sha p n (te_Hash e)" using e t(2) by (auto simp: node_ok_def)
      moreover have "has_all P p L s (te_Hash e)" using has_all_reach [OF Suc.prems(2)] e by blast
      ultimately show ?thesis
        using Suc.IH [of "te_Hash e" q'] e Some
        by (auto simp: Cons WalkTree_node [OF t(1)] WalkTree_node [OF t'] intro: converse_rtrancl_into_rtrancl)
    qed
  qed
qed simp

text \<open>A lookup in a commit gives the same on the primary and on a replica that holds the commit.\<close>

lemma Lookup_replica:
  assumes "has_all P (r_storage rp) L (r_storage r) h" and "all_present P (r_storage rp) h" and "h \<noteq> ZeroHash"
    and "GetObject P (r_storage rp) h = Inr obj" and "obj_Kind obj = KindCommit" and "DecodeCommit (obj_Payload obj) = Inr c"
    and "tree_ok P sha (r_storage rp) n (c_Tree c)"
  shows "Repo_Lookup L sha D r h fqdn rrtype = Repo_Lookup P sha D rp h fqdn rrtype"
proof -
  let ?p = "r_storage rp" and ?s = "r_storage r" and ?q = "splitFQDN (normFQDN fqdn)" and ?rt = "ToUpper rrtype"
  have tree: "(h, c_Tree c) \<in> (refers P ?p)\<^sup>*"
    using assms(4-6) by (intro r_into_rtrancl) (auto simp: refers_def walkChildren_def kind_defs)
  note walk = WalkTree_replica [OF assms(7) has_all_reach [OF assms(1) tree], of ?q ?rt]
  have "GetObject L ?s b = GetObject P ?p b" if "WalkTree P sha ?p (c_Tree c) ?q ?rt = Inr b" for b
  proof -
    have b: "(h, b) \<in> (refers P ?p)\<^sup>*" "b \<noteq> ZeroHash" using walk that tree by (auto intro: rtrancl_trans)
    then obtain bobj where "GetObject P ?p b = Inr bobj" using assms(2) by (auto simp: all_present_def)
    then show ?thesis using has_all_get [OF has_all_reach [OF assms(1) b(1)]] by simp
  qed
  with walk assms(3,4,6) has_all_get [OF assms(1,4)] show ?thesis by (simp add: Repo_Lookup_def Let_def split: sum.split)
qed

section \<open>The sample zone as a primary\<close>

fun sobj_children :: "sobj \<Rightarrow> Hash list" where
  "sobj_children (SCommit c) = c_Tree c # c_Parents c"
| "sobj_children (STree t) = map te_Hash (Entries t)"
| "sobj_children _ = []"

lemma table_children:
  assumes "sobj_ok x"
  shows "walkChildren (sobject x) = Inr (sobj_children x)"
proof (cases x)
  case (STree t)
  then have "tree_small t" "length (tree_payload t) < 2 ^ 47" using assms by simp_all
  then have "DecodeTree (tree_payload t) = Inr t"
    using DecodeTree_tree_payload [of t] payload_no_panic [of t] sortEntries_id by (auto simp: tree_small_def canonical_def strict_sorted_iff)
  then show ?thesis by (simp add: STree walkChildren_def kind_defs)
next
  case (SCommit c)
  then have "DecodeCommit (bytes_of (commit_text c)) = Inr c" using assms DecodeCommit_commit_text [of c] by simp
  then show ?thesis by (simp add: SCommit walkChildren_def commit_object_def kind_defs)
qed (simp_all add: walkChildren_def blob_object_def kind_defs)

lemma table_refers:
  assumes "table_ok tab" and "set objs \<subseteq> set tab" and "(h, x) \<in> set objs" and "y \<in> set (sobj_children x)"
  shows "(h, y) \<in> refers memstore (table_store objs refs)"
proof -
  have "sobj_ok x" using assms(1-3) by (force simp: table_ok_def)
  then show ?thesis by (rule refersI [OF table_store_Get [OF assms(1-3)] table_children assms(4)])
qed

lemma table_store_absent: "h \<notin> fst ` set objs \<Longrightarrow> GetObject memstore (table_store objs refs) h = Inl ErrNotFound"
  by (rule mem.get_absent) (auto simp: table_store_hist Domain_fst image_iff)

lemma table_decodable:
  assumes "table_ok tab" and "set objs \<subseteq> set tab"
  shows "decodable memstore (table_store objs refs)"
  unfolding decodable_def
proof
  fix h
  show "GetObject memstore (table_store objs refs) h = Inl ErrNotFound \<or>
    (\<exists>obj cs. GetObject memstore (table_store objs refs) h = Inr obj \<and> walkChildren obj = Inr cs)"
  proof (cases "h \<in> fst ` set objs")
    case True
    then obtain x where x: "(h, x) \<in> set objs" by force
    then have "sobj_ok x" using assms by (force simp: table_ok_def)
    then show ?thesis using table_store_Get [OF assms x, of refs] table_children by auto
  qed (use table_store_absent in blast)
qed

lemma table_all_present:
  assumes "table_ok tab" and "set objs \<subseteq> set tab" and "h \<in> fst ` set objs" and "\<forall>x \<in> snd ` set objs. set (sobj_children x) \<subseteq> fst ` set objs"
  shows "all_present memstore (table_store objs refs) h"
proof -
  have read: "\<exists>y. GetObject memstore (table_store objs refs) x = Inr (sobject y) \<and> sobj_ok y \<and> y \<in> snd ` set objs" if "x \<in> fst ` set objs" for x
  proof -
    have "\<exists>y. (x, y) \<in> set objs" using that by force
    then show ?thesis using table_store_Get [OF assms(1,2)] assms(1,2) by (force simp: table_ok_def)
  qed
  have "x \<in> fst ` set objs" if "(h, x) \<in> (refers memstore (table_store objs refs))\<^sup>*" for x
    using that
  proof (induction rule: rtrancl_induct)
    case (step y z)
    from read [OF step.IH] obtain w where "GetObject memstore (table_store objs refs) y = Inr (sobject w)" "sobj_ok w" "w \<in> snd ` set objs" by blast
    moreover then have "z \<in> set (sobj_children w)" using step.hyps(2) by (auto simp: refers_def table_children)
    ultimately show ?case using assms(4) by blast
  qed (rule assms(3))
  with read show ?thesis unfolding all_present_def by blast
qed

definition sample_primary :: "MemStore Repo" where
  "sample_primary = \<lparr>r_storage = table_store sample_base_objs (sample_refs @ [(''refs/zonegit/zones/a.'', zoneSentinel)]), r_staging = [], r_activeZone = ''a.''\<rparr>"

definition sample_secondary :: "MemStore Repo" where
  "sample_secondary = \<lparr>r_storage = table_store [] [], r_staging = [], r_activeZone = []\<rparr>"

lemma sample_primary_facts:
  "decodable memstore (r_storage sample_primary)" "iterates sorted_list_of_set" "ZeroHash \<notin> Domain (mem_hist (r_storage sample_primary))"
  "ListZones memstore (r_storage sample_primary) = Inr [''a.'']"
  "\<And>z n h. GetBranch memstore (r_storage sample_primary) z n = Inr h \<Longrightarrow> h \<in> {31, 32, 33} \<and> all_present memstore (r_storage sample_primary) h"
  "agrees memstore (r_storage sample_primary) (mem_hist (r_storage sample_secondary))"
  "replica memstore (r_storage sample_primary) memstore (r_storage sample_secondary)"
  "\<And>n. mem_ref (r_storage sample_secondary) n = None"
  "GetBranch memstore (r_storage sample_primary) ''a.'' ''main'' = Inr 32"
proof -
  let ?p = "r_storage sample_primary"
  have p: "?p = table_store sample_base_objs (sample_refs @ [(''refs/zonegit/zones/a.'', zoneSentinel)])" by (simp add: sample_primary_def)
  have sub: "set sample_base_objs \<subseteq> set sample_table" by (simp add: sample_table_def)
  show "ListZones memstore ?p = Inr [''a.'']" unfolding p by code_simp
  show "decodable memstore ?p" unfolding p by (rule table_decodable [OF sample_table_ok sub])
  show "iterates sorted_list_of_set" by (simp add: iterates_def)
  show "ZeroHash \<notin> Domain (mem_hist ?p)" unfolding p table_store_hist by (simp add: sample_base_objs_def)
  have closed: "\<forall>x \<in> snd ` set sample_base_objs. set (sobj_children x) \<subseteq> fst ` set sample_base_objs" by (simp add: sample_base_objs_def)
  show "h \<in> {31, 32, 33} \<and> all_present memstore ?p h" if "GetBranch memstore ?p z n = Inr h" for z n h
  proof -
    have "mem_ref ?p (BranchRef z n) = Some h" using that by (auto simp: GetBranch_def get_ref_or_absent_def mem.get_ref split: option.splits)
    then have "h \<in> {31, 32, 33}" by (auto simp: p sample_refs_def BranchRef_def split: if_splits)
    then show ?thesis unfolding p by (intro conjI table_all_present [OF sample_table_ok sub _ closed]) (auto simp: sample_base_objs_def)
  qed
  show "agrees memstore ?p (mem_hist (r_storage sample_secondary))" "replica memstore ?p memstore (r_storage sample_secondary)"
    "mem_ref (r_storage sample_secondary) n = None" for n
    by (simp_all add: sample_secondary_def agrees_def table_store_hist replica_def GetBranch_def get_ref_or_absent_def mem.get_ref)
  show "GetBranch memstore ?p ''a.'' ''main'' = Inr 32"
    using sample_rrsets by (simp add: p GetBranch_def get_ref_or_absent_def mem.get_ref BranchRef_def sample_refs_def)
qed

lemma sample_primary_objects:
  "GetObject memstore (r_storage sample_primary) 13 = Inr (blob_object sample_a_blob)"
  "GetObject memstore (r_storage sample_primary) 32 = Inr (commit_object (sample_ci 22 [31]))"
  "(32, 13) \<in> (refers memstore (r_storage sample_primary))\<^sup>*"
proof -
  have p: "r_storage sample_primary = table_store sample_base_objs (sample_refs @ [(''refs/zonegit/zones/a.'', zoneSentinel)])" by (simp add: sample_primary_def)
  have sub: "set sample_base_objs \<subseteq> set sample_table" by (simp add: sample_table_def)
  show "GetObject memstore (r_storage sample_primary) 13 = Inr (blob_object sample_a_blob)"
    "GetObject memstore (r_storage sample_primary) 32 = Inr (commit_object (sample_ci 22 [31]))"
    unfolding p using table_store_Get [OF sample_table_ok sub sample_mem(9)] table_store_Get [OF sample_table_ok sub sample_mem(2)] by simp_all
  have "(32, 22) \<in> refers memstore (r_storage sample_primary)" "(22, 13) \<in> refers memstore (r_storage sample_primary)"
    unfolding p by (rule table_refers [OF sample_table_ok sub sample_mem(2)] table_refers [OF sample_table_ok sub sample_mem(5)], simp)+
  then show "(32, 13) \<in> (refers memstore (r_storage sample_primary))\<^sup>*" by (meson r_into_rtrancl rtrancl_into_rtrancl)
qed

lemma sample_primary_commits:
  assumes "h \<in> {31, 32, 33}"
  shows "\<exists>obj c m. GetObject memstore (r_storage sample_primary) h = Inr obj \<and> obj_Kind obj = KindCommit \<and> DecodeCommit (obj_Payload obj) = Inr c \<and>
    tree_ok memstore tab_sha (r_storage sample_primary) m (c_Tree c)"
proof -
  have p: "r_storage sample_primary = table_store sample_base_objs (sample_refs @ [(''refs/zonegit/zones/a.'', zoneSentinel)])" by (simp add: sample_primary_def)
  have sub: "set sample_base_objs \<subseteq> set sample_table" by (simp add: sample_table_def)
  note tree = table_store_tree [OF sample_table_ok sub, folded tab_sha_def]
  have trees: "tree_ok memstore tab_sha (r_storage sample_primary) 1 t" if "t \<in> {21, 22, 23}" for t
    using that tree [OF sample_mem(4)] tree [OF sample_mem(5)] tree [OF sample_mem(6)] unfolding p by (auto simp: tree_ok.simps)
  obtain t ps where c: "(h, SCommit (sample_ci t ps)) \<in> set sample_base_objs" "t \<in> {21, 22, 23}" "length ps \<le> 2"
    using assms by (auto simp: sample_base_objs_def)
  then have "GetObject memstore (r_storage sample_primary) h = Inr (commit_object (sample_ci t ps))"
    unfolding p using table_store_Get [OF sample_table_ok sub c(1)] by simp
  moreover have "DecodeCommit (obj_Payload (commit_object (sample_ci t ps))) = Inr (sample_ci t ps)"
    using sample_ci_ok [OF c(3), of t] DecodeCommit_commit_text [of "sample_ci t ps"] by (simp add: commit_object_def)
  ultimately show ?thesis using trees [OF c(2)] by (auto simp: commit_object_def)
qed

section \<open>Properties\<close>

text \<open>
  C6: One \<open>Pull\<close> brings a secondary up to date.  When the objects of the primary can be read,
  and the secondary is a replica that holds no other object under a hash of the primary, the
  pull succeeds; every branch of every zone of the primary then has the same commit on the
  secondary, which holds every object reachable from it; the zones are registered; nothing is lost; and the
  secondary is again a replica, so that the next pull can rely on it.
\<close>

theorem pull_synchronises:
  assumes "decodable memstore (r_storage rp)" and "iterates order" and "ZeroHash \<notin> Domain (mem_hist (r_storage rp))"
    and "ListZones memstore (r_storage rp) = Inr zs"
    and "\<And>z n h. z \<in> set zs \<Longrightarrow> GetBranch memstore (r_storage rp) z n = Inr h \<Longrightarrow> h \<noteq> ZeroHash \<and> all_present memstore (r_storage rp) h"
    and "agrees memstore (r_storage rp) (mem_hist (r_storage r))" and "replica memstore (r_storage rp) memstore (r_storage r)"
    and "\<And>z. z \<in> set zs \<Longrightarrow> z \<noteq> [] \<and> mem_ref (r_storage r) (zone_marker z) \<in> {None, Some zoneSentinel}"
  shows "\<exists>r'. Pull memstore (RegisterHandlers memstore order (Inr rp)) r = (r', Inr ()) \<and>
    (\<forall>z n h. z \<in> set zs \<and> GetBranch memstore (r_storage rp) z n = Inr h \<longrightarrow>
      GetBranch memstore (r_storage r') z n = Inr h \<and> has_all memstore (r_storage rp) memstore (r_storage r') h) \<and>
    (\<forall>z \<in> set zs. IsZoneRegistered memstore (r_storage r') z = Inr True) \<and>
    mem_hist (r_storage r) \<subseteq> mem_hist (r_storage r') \<and> agrees memstore (r_storage rp) (mem_hist (r_storage r')) \<and>
    replica memstore (r_storage rp) memstore (r_storage r')"
  using assms by (rule mem_pair.Pull_spec)

theorem pull_synchronises_witness:
  "\<exists>r'. Pull memstore (RegisterHandlers memstore sorted_list_of_set (Inr sample_primary)) sample_secondary = (r', Inr ()) \<and>
    GetBranch memstore (r_storage r') ''a.'' ''main'' = Inr 32 \<and> GetObject memstore (r_storage r') 13 = Inr (blob_object sample_a_blob)"
  using pull_synchronises [OF sample_primary_facts(1-4) _ sample_primary_facts(6,7)] sample_primary_facts(5,8,9) sample_primary_objects(1,3)
  by (fastforce simp: has_all_def)

end
