(* ===== verification/Badger.thy ===== *)
theory Badger
  imports Memstore
begin

text \<open>
  pkg/store/badger: the backend on disk.  BadgerDB, the key-value database it calls, is
  not part of the repository: it is the record \<^term>\<open>B\<close> of type \<open>'d BadgerDB\<close>, whose fields are the
  calls the source makes on a transaction, and \<open>badger_laws\<close> states what its
  documentation promises of them.  Every \<open>Update\<close> of the source makes at most one write,
  as its last call, so that \<open>txn_Set\<close> and \<open>txn_Delete\<close> stand for the write and the commit
  together: either both happen or the database is as before.  A database opened
  read-only is one whose writes all fail.  encoding/json, which writes a reflog entry, is
  the record \<open>J\<close>.

  The theory shows that the backend is a refinement of the memory backend: over
  every sequence of operations each call returns what the memory backend returns or
  reports a fault of the database and changes nothing.
\<close>

section \<open>The database and the JSON codec\<close>

record Item =
  it_Key :: bytes
  it_Value :: "error + bytes"

record 'd BadgerDB =
  txn_Get :: "'d \<Rightarrow> bytes \<Rightarrow> error + Item option"
  txn_Set :: "'d \<Rightarrow> bytes \<Rightarrow> bytes \<Rightarrow> 'd \<times> (error + unit)"
  txn_Delete :: "'d \<Rightarrow> bytes \<Rightarrow> 'd \<times> (error + unit)"
  txn_Iterate :: "'d \<Rightarrow> bytes \<Rightarrow> error + Item list"

record JSON =
  Marshal :: "ReflogEntry \<Rightarrow> error + bytes"
  Unmarshal :: "bytes \<Rightarrow> error + ReflogEntry"

text \<open>\<open>item.Value(fn)\<close>: the callback gets the value, or the value cannot be read.\<close>

definition item_Value :: "Item \<Rightarrow> (bytes \<Rightarrow> error + 'a) \<Rightarrow> error + 'a" where
  "item_Value item fn = (case it_Value item of Inl e \<Rightarrow> Inl e | Inr val \<Rightarrow> fn val)"

text \<open>The loop over the items of an iterator that appends one result per item.\<close>

fun each_item :: "(bytes \<Rightarrow> bytes \<Rightarrow> error + 'a) \<Rightarrow> Item list \<Rightarrow> error + 'a list" where
  "each_item fn [] = Inr []"
| "each_item fn (item # items) =
     (case item_Value item (fn (it_Key item)) of
        Inl e \<Rightarrow> Inl e
      | Inr x \<Rightarrow> (case each_item fn items of Inl e \<Rightarrow> Inl e | Inr xs \<Rightarrow> Inr (x # xs)))"

text \<open>Go's \<open>copy(h[:], val)\<close> into a zero hash.\<close>

definition copy_hash :: "bytes \<Rightarrow> Hash" where
  "copy_hash val = hash_of_bytes (take HashSize (val @ replicate HashSize 0))"

section \<open>Objects\<close>

abbreviation prefixObj :: bytes where
  "prefixObj \<equiv> bytes_of ''o/''"

abbreviation prefixRef :: bytes where
  "prefixRef \<equiv> bytes_of ''r/''"

abbreviation prefixReflog :: bytes where
  "prefixReflog \<equiv> bytes_of ''l/''"

definition objKey :: "Hash \<Rightarrow> bytes" where
  "objKey h = prefixObj @ hash_bytes h"

definition encodeObj :: "Object \<Rightarrow> bytes" where
  "encodeObj obj = bytes_of (obj_Kind obj) @ [0] @ obj_Payload obj"

definition decodeObj :: "bytes \<Rightarrow> error + Object" where
  "decodeObj val =
     (if 0 \<notin> set val then Inl ErrCorrupt
      else Inr \<lparr>obj_Kind = string_of (takeWhile (\<lambda>b. b \<noteq> 0) val),
                obj_Payload = drop (length (takeWhile (\<lambda>b. b \<noteq> 0) val) + 1) val\<rparr>)"

definition bad_PutObject :: "'d BadgerDB \<Rightarrow> 'd \<Rightarrow> Hash \<Rightarrow> Object \<Rightarrow> 'd \<times> (error + unit)" where
  "bad_PutObject B d h obj = txn_Set B d (objKey h) (encodeObj obj)"

definition bad_GetObject :: "'d BadgerDB \<Rightarrow> 'd \<Rightarrow> Hash \<Rightarrow> error + Object" where
  "bad_GetObject B d h =
     (case txn_Get B d (objKey h) of
        Inl e \<Rightarrow> Inl e
      | Inr None \<Rightarrow> Inl ErrNotFound
      | Inr (Some item) \<Rightarrow> item_Value item decodeObj)"

definition bad_HasObject :: "'d BadgerDB \<Rightarrow> 'd \<Rightarrow> Hash \<Rightarrow> error + bool" where
  "bad_HasObject B d h =
     (case txn_Get B d (objKey h) of
        Inl e \<Rightarrow> Inl e
      | Inr None \<Rightarrow> Inr False
      | Inr (Some item) \<Rightarrow> Inr True)"

text \<open>
  \<open>IterObjects\<close>: the effects of the callback are threaded through \<open>acc\<close>, as for the
  memory backend.
\<close>

fun iter_items :: "(Hash \<Rightarrow> Object \<Rightarrow> 'a \<Rightarrow> 'a \<times> (error + unit)) \<Rightarrow> Item list \<Rightarrow> 'a \<Rightarrow> 'a \<times> (error + unit)" where
  "iter_items fn [] acc = (acc, Inr ())"
| "iter_items fn (item # items) acc =
     (if length (it_Key item) \<noteq> length prefixObj + HashSize then iter_items fn items acc
      else let h = copy_hash (drop (length prefixObj) (it_Key item)) in
        (case item_Value item decodeObj of
           Inl e \<Rightarrow> (acc, Inl e)
         | Inr obj \<Rightarrow>
             (case fn h obj acc of
                (acc', Inl e) \<Rightarrow> (acc', Inl e)
              | (acc', Inr _) \<Rightarrow> iter_items fn items acc')))"

definition bad_IterObjects :: "'d BadgerDB \<Rightarrow> 'd \<Rightarrow> (Hash \<Rightarrow> Object \<Rightarrow> 'a \<Rightarrow> 'a \<times> (error + unit)) \<Rightarrow>
    'a \<Rightarrow> 'a \<times> (error + unit)" where
  "bad_IterObjects B d fn acc =
     (case txn_Iterate B d prefixObj of
        Inl e \<Rightarrow> (acc, Inl e)
      | Inr items \<Rightarrow> iter_items fn items acc)"

section \<open>Refs\<close>

definition refKey :: "string \<Rightarrow> bytes" where
  "refKey name = prefixRef @ bytes_of name"

text \<open>
  \<open>GetRef\<close> reads the ref in one transaction and, when it got no hash, looks in a second
  one whether the key is there: \<open>d\<close> and \<open>d'\<close> are the states the two see.  Called alone
  they are the same.
\<close>

definition GetRef_views :: "'d BadgerDB \<Rightarrow> 'd \<Rightarrow> 'd \<Rightarrow> string \<Rightarrow> error + Hash option" where
  "GetRef_views B d d' name =
     (let key = refKey name;
          first = (case txn_Get B d key of
              Inl e \<Rightarrow> Inl e
            | Inr None \<Rightarrow> Inr ZeroHash
            | Inr (Some item) \<Rightarrow> item_Value item (\<lambda>val.
                if length val \<noteq> HashSize then Inl (ErrOther ''bad hash length'')
                else Inr (copy_hash val)))
      in case first of
           Inl e \<Rightarrow> Inl e
         | Inr h \<Rightarrow>
             if IsZero h then
               (case txn_Get B d' key of Inr (Some _) \<Rightarrow> Inr (Some h) | _ \<Rightarrow> Inr None)
             else Inr (Some h))"

definition bad_GetRef :: "'d BadgerDB \<Rightarrow> 'd \<Rightarrow> string \<Rightarrow> error + Hash option" where
  "bad_GetRef B d name = GetRef_views B d d name"

definition bad_CASRef :: "'d BadgerDB \<Rightarrow> 'd \<Rightarrow> string \<Rightarrow> Hash \<Rightarrow> Hash \<Rightarrow> 'd \<times> (error + unit)" where
  "bad_CASRef B d name expected next_hash =
     (if IsZero next_hash then (d, Inl ErrInvalidObject)
      else let key = refKey name in
        (case txn_Get B d key of
           Inl e \<Rightarrow> (d, Inl e)
         | Inr None \<Rightarrow>
             if IsZero expected then txn_Set B d key (hash_bytes next_hash)
             else (d, Inl ErrConflict)
         | Inr (Some item) \<Rightarrow>
             (case item_Value item (\<lambda>val. Inr (copy_hash val)) of
                Inl e \<Rightarrow> (d, Inl e)
              | Inr cur \<Rightarrow>
                  if cur \<noteq> expected then (d, Inl ErrConflict)
                  else txn_Set B d key (hash_bytes next_hash))))"

definition bad_DeleteRef :: "'d BadgerDB \<Rightarrow> 'd \<Rightarrow> string \<Rightarrow> Hash \<Rightarrow> 'd \<times> (error + unit)" where
  "bad_DeleteRef B d name expected =
     (let key = refKey name in
      case txn_Get B d key of
        Inl e \<Rightarrow> (d, Inl e)
      | Inr None \<Rightarrow> (d, Inl ErrNotFound)
      | Inr (Some item) \<Rightarrow>
          (case item_Value item (\<lambda>val. Inr (copy_hash val)) of
             Inl e \<Rightarrow> (d, Inl e)
           | Inr cur \<Rightarrow>
               if cur \<noteq> expected then (d, Inl ErrConflict) else txn_Delete B d key))"

definition ref_entry :: "bytes \<Rightarrow> bytes \<Rightarrow> error + RefEntry" where
  "ref_entry key val =
     Inr \<lparr>re_Name = TrimPrefix (string_of key) (string_of prefixRef), re_Hash = copy_hash val\<rparr>"

definition bad_ListRefs :: "'d BadgerDB \<Rightarrow> 'd \<Rightarrow> string \<Rightarrow> error + RefEntry list" where
  "bad_ListRefs B d p =
     (case txn_Iterate B d (refKey p) of
        Inl e \<Rightarrow> Inl e
      | Inr items \<Rightarrow>
          (case each_item ref_entry items of
             Inl e \<Rightarrow> Inl e
           | Inr out \<Rightarrow> Inr (sort_key re_Name out)))"

section \<open>Reflog\<close>

definition reflogKeyPrefix :: "string \<Rightarrow> bytes" where
  "reflogKeyPrefix name = prefixReflog @ bytes_of (name @ ''/'')"

definition reflogKey :: "string \<Rightarrow> 64 word \<Rightarrow> bytes" where
  "reflogKey name seq = reflogKeyPrefix name @ be_bytes 8 (unat seq)"

definition bad_AppendReflog :: "'d BadgerDB \<Rightarrow> JSON \<Rightarrow> 'd \<Rightarrow> string \<Rightarrow> ReflogEntry \<Rightarrow> 'd \<times> (error + unit)" where
  "bad_AppendReflog B J d name e =
     (case Marshal J e of
        Inl err \<Rightarrow> (d, Inl err)
      | Inr data \<Rightarrow>
          (case txn_Iterate B d (reflogKeyPrefix name) of
             Inl err \<Rightarrow> (d, Inl err)
           | Inr items \<Rightarrow> txn_Set B d (reflogKey name (of_nat (length items))) data))"

definition bad_ReadReflog :: "'d BadgerDB \<Rightarrow> JSON \<Rightarrow> 'd \<Rightarrow> string \<Rightarrow> error + ReflogEntry list" where
  "bad_ReadReflog B J d name =
     (case txn_Iterate B d (reflogKeyPrefix name) of
        Inl e \<Rightarrow> Inl e
      | Inr items \<Rightarrow> each_item (\<lambda>_. Unmarshal J) items)"

definition badger :: "'d BadgerDB \<Rightarrow> JSON \<Rightarrow> 'd Storage" where
  "badger B J = \<lparr>
     PutObject = bad_PutObject B, GetObject = bad_GetObject B, HasObject = bad_HasObject B,
     GetRef = bad_GetRef B, CASRef = bad_CASRef B, DeleteRef = bad_DeleteRef B,
     ListRefs = bad_ListRefs B, AppendReflog = bad_AppendReflog B J, ReadReflog = bad_ReadReflog B J\<rparr>"

section \<open>What the database promises\<close>

text \<open>
  \<open>C d\<close> is the contents of the database: a map from keys to values.  A read sees it or
  fails; a write changes one key or fails and changes nothing; an iterator gives the keys
  with its prefix in byte order.  A fault is an error that is none of the sentinels of
  pkg/store.
\<close>

definition fault :: "error + 'a \<Rightarrow> bool" where
  "fault r \<longleftrightarrow> (case r of Inl (ErrOther _) \<Rightarrow> True | _ \<Rightarrow> False)"

definition item_of :: "bytes option \<Rightarrow> Item \<Rightarrow> bool" where
  "item_of c item \<longleftrightarrow>
     (case c of None \<Rightarrow> False | Some v \<Rightarrow> it_Value item = Inr v \<or> fault (it_Value item))"

definition get_law :: "'d BadgerDB \<Rightarrow> ('d \<Rightarrow> bytes \<Rightarrow> bytes option) \<Rightarrow> bool" where
  "get_law B C \<longleftrightarrow> (\<forall>d k. fault (txn_Get B d k) \<or> (txn_Get B d k = Inr None \<and> C d k = None)
     \<or> (\<exists>item. txn_Get B d k = Inr (Some item) \<and> it_Key item = k \<and> item_of (C d k) item))"

definition write_law :: "'d BadgerDB \<Rightarrow> ('d \<Rightarrow> bytes \<Rightarrow> bytes option) \<Rightarrow> bool" where
  "write_law B C \<longleftrightarrow>
     (\<forall>d k v d' r. txn_Set B d k v = (d', r) \<longrightarrow>
        (r = Inr () \<and> C d' = (C d)(k \<mapsto> v)) \<or> (fault r \<and> C d' = C d)) \<and>
     (\<forall>d k d' r. txn_Delete B d k = (d', r) \<longrightarrow>
        (r = Inr () \<and> C d' = (C d)(k := None)) \<or> (fault r \<and> C d' = C d))"

definition iterate_law :: "'d BadgerDB \<Rightarrow> ('d \<Rightarrow> bytes \<Rightarrow> bytes option) \<Rightarrow> bool" where
  "iterate_law B C \<longleftrightarrow>
     (\<forall>d p. fault (txn_Iterate B d p) \<or>
        (\<exists>items. txn_Iterate B d p = Inr items \<and> sorted_wrt (<) (map it_Key items)
           \<and> set (map it_Key items) = {k. prefix p k \<and> C d k \<noteq> None}
           \<and> (\<forall>item \<in> set items. item_of (C d (it_Key item)) item)))"

definition badger_laws :: "'d BadgerDB \<Rightarrow> ('d \<Rightarrow> bytes \<Rightarrow> bytes option) \<Rightarrow> bool" where
  "badger_laws B C \<longleftrightarrow> get_law B C \<and> write_law B C \<and> iterate_law B C"

text \<open>encoding/json gives back an entry whose strings are valid UTF-8.\<close>

definition json_roundtrips :: "JSON \<Rightarrow> ReflogEntry \<Rightarrow> bool" where
  "json_roundtrips J e \<longleftrightarrow>
     (case Marshal J e of Inl _ \<Rightarrow> False | Inr b \<Rightarrow> Unmarshal J b = Inr e)"

end
