(* ===== verification/BadgerCorrect.thy ===== *)
theory BadgerCorrect
  imports Badger
begin

text \<open>
  pkg/store/badger is correct: the database stands for a state of the memory backend
  (\<open>holds\<close>), every operation keeps the two in step, and a sequence of operations is
  answered alike (\<open>badger_refines_memstore\<close>).  Keys of the three name spaces do not meet,
  the order of keys is the order of hashes and of sequence numbers, and values are read
  back as they were written.  The last section has the two cases in which the backend
  does not keep the contract of the memory backend.
\<close>

section \<open>Keys\<close>

lemma be_val_Cons: "be_val (b # bs) = unat b * 256 ^ length bs + be_val bs"
  by (induction bs rule: rev_induct) (simp_all add: be_val_def algebra_simps)

lemma bytes_less_iff:
  assumes "length xs = length ys"
  shows "xs < ys \<longleftrightarrow> be_val xs < be_val ys"
  using assms
proof (induction xs ys rule: list_induct2)
  case (Cons x xs y ys)
  have bx: "be_val xs < 256 ^ length ys" and yb: "be_val ys < 256 ^ length ys"
    using be_val_bound [of xs] be_val_bound [of ys] Cons.hyps by auto
  have gap: "a * m + p < b * m + q" if "a < b" "p < m" for a b m p q :: nat
  proof -
    have "a * m + p < Suc a * m" using that by simp
    also have "\<dots> \<le> b * m" using that by (intro mult_le_mono1) simp
    finally show ?thesis by simp
  qed
  consider "x < y" | "x = y" | "y < x" by fastforce
  then show ?case
  proof cases
    case 1
    with gap [OF _ bx, of "unat x" "unat y" "be_val ys"] Cons.hyps show ?thesis
      by (simp add: be_val_Cons word_less_nat_alt)
  next
    case 2
    with Cons show ?thesis by (simp add: be_val_Cons)
  next
    case 3
    with gap [OF _ yb, of "unat y" "unat x" "be_val xs"] Cons.hyps show ?thesis
      by (auto simp add: be_val_Cons word_less_nat_alt)
  qed
qed simp

lemma be_bytes_less: "x < 256 ^ n \<Longrightarrow> y < 256 ^ n \<Longrightarrow> be_bytes n x < be_bytes n y \<longleftrightarrow> x < y"
  by (simp add: bytes_less_iff be_val_be_bytes)

lemma be_bytes_inject: "x < 256 ^ n \<Longrightarrow> y < 256 ^ n \<Longrightarrow> be_bytes n x = be_bytes n y \<longleftrightarrow> x = y"
  by (metis be_val_be_bytes mod_less)

lemma append_less_same [simp]: "p @ (xs :: bytes) < p @ ys \<longleftrightarrow> xs < ys"
  by (induction p) auto

lemma hash_bytes_less: "hash_bytes h < hash_bytes h' \<longleftrightarrow> h < h'"
proof -
  have "unat h < 256 ^ HashSize" "unat h' < 256 ^ HashSize"
    using unsigned_less [of h] unsigned_less [of h'] by simp_all
  then show ?thesis
    by (simp only: hash_bytes_def be_bytes_less word_less_nat_alt)
qed

lemma key_inject [simp]:
  "objKey h = objKey h' \<longleftrightarrow> h = h'"
  "refKey n = refKey m \<longleftrightarrow> n = m"
  by (simp_all add: objKey_def refKey_def)

lemma key_disjoint [simp]:
  "objKey h \<noteq> refKey n" "refKey n \<noteq> objKey h"
  "objKey h \<noteq> reflogKey m i" "reflogKey m i \<noteq> objKey h"
  "refKey n \<noteq> reflogKey m i" "reflogKey m i \<noteq> refKey n"
  "\<not> prefix prefixReflog (objKey h)" "\<not> prefix prefixReflog (refKey n)"
  by (simp_all add: objKey_def refKey_def reflogKey_def reflogKeyPrefix_def bytes_of_def)

lemma word64_bound: "unat (i :: 64 word) < 256 ^ 8"
  using unsigned_less [of i] by simp

lemma reflogKey_inject [simp]: "reflogKey n i = reflogKey m j \<longleftrightarrow> n = m \<and> i = j"
  by (auto simp: reflogKey_def reflogKeyPrefix_def be_bytes_inject [OF word64_bound word64_bound]
      word_unat_eq_iff)

lemma reflogKey_less [simp]: "reflogKey n i < reflogKey n j \<longleftrightarrow> i < j"
  by (simp add: reflogKey_def be_bytes_less [OF word64_bound word64_bound] word_less_nat_alt)

lemma prefix_bytes_of [simp]: "prefix (bytes_of s) (bytes_of t) \<longleftrightarrow> prefix s t"
proof
  assume "prefix (bytes_of s) (bytes_of t)"
  then obtain zs where "bytes_of t = bytes_of s @ zs" by (auto simp: prefix_def)
  then have "bytes_of t = bytes_of (s @ string_of zs)" by simp
  then have "t = s @ string_of zs" by (simp only: bytes_of_eq_iff)
  then show "prefix s t" by simp
qed (auto simp: prefix_def)

text \<open>
  The scan of one reflog meets the entries of another only when one name is a directory
  of the other: \<open>flat\<close> names have no such pair.
\<close>

definition flat :: "string set \<Rightarrow> bool" where
  "flat N \<longleftrightarrow> (\<forall>n \<in> N. \<forall>m \<in> N. \<not> prefix (n @ ''/'') m)"

lemma prefix_reflogKey:
  assumes "prefix (reflogKeyPrefix n) (reflogKey m i)" and "flat N" and "n \<in> N" and "m \<in> N"
  shows "m = n"
proof -
  have 1: "prefix (bytes_of (n @ ''/'')) (bytes_of (m @ ''/'') @ be_bytes 8 (unat i))"
    using assms(1) by (simp add: reflogKey_def reflogKeyPrefix_def del: bytes_of_append)
  then have "prefix (bytes_of (n @ ''/'')) (bytes_of (m @ ''/'')) \<or> prefix (bytes_of (m @ ''/'')) (bytes_of (n @ ''/''))"
    using prefix_same_cases prefixI by blast
  then have "prefix (n @ ''/'') (m @ ''/'') \<or> prefix (m @ ''/'') (n @ ''/'')"
    by (simp only: prefix_bytes_of)
  then show ?thesis
    using assms(2-4) by (auto simp: flat_def)
qed

lemma prefix_reflogKey_same: "prefix (reflogKeyPrefix n) (reflogKey n i)"
  by (simp add: reflogKey_def)

section \<open>Values\<close>

lemma copy_hash_bytes [simp]: "copy_hash (hash_bytes h) = h"
  by (simp add: copy_hash_def)

lemma decodeObj_encodeObj:
  assumes "CHR 0x00 \<notin> set (obj_Kind obj)"
  shows "decodeObj (encodeObj obj) = Inr obj"
proof -
  have z: "byte_of_char (CHR 0x00) = 0" by (simp add: byte_of_char_def)
  have "0 \<notin> set (bytes_of (obj_Kind obj))"
    using mem_bytes_of [of "CHR 0x00" "obj_Kind obj"] assms z by simp
  then have "takeWhile (\<lambda>b. b \<noteq> 0) (encodeObj obj) = bytes_of (obj_Kind obj)"
    unfolding encodeObj_def by (subst takeWhile_append2) auto
  then show ?thesis
    by (simp add: decodeObj_def) (simp add: encodeObj_def)
qed

section \<open>Iterators\<close>

lemma faultE:
  assumes "fault r" obtains m where "r = Inl (ErrOther m)"
  using assms by (auto simp: fault_def split: sum.splits error.splits)

lemma fault_simps [simp]: "fault (Inl (ErrOther m))" "\<not> fault (Inr x)"
  by (simp_all add: fault_def)

lemma each_item_values:
  assumes "\<forall>item \<in> set items. item_of (c (it_Key item)) item"
    and "\<And>item v. item \<in> set items \<Longrightarrow> c (it_Key item) = Some v \<Longrightarrow> fn (it_Key item) v = Inr (g (it_Key item))"
  shows "fault (each_item fn items) \<or> each_item fn items = Inr (map g (map it_Key items))"
  using assms
proof (induction items)
  case (Cons item items)
  obtain v where v: "c (it_Key item) = Some v" and
    iv: "it_Value item = Inr v \<or> fault (it_Value item)"
    using Cons.prems(1) by (auto simp: item_of_def split: option.splits)
  have IH: "fault (each_item fn items) \<or> each_item fn items = Inr (map g (map it_Key items))"
    using Cons.prems by (intro Cons.IH) auto
  have "fn (it_Key item) v = Inr (g (it_Key item))"
    using Cons.prems(2) v by simp
  with iv IH show ?case
    by (auto simp: item_Value_def elim!: faultE)
qed simp

section \<open>The memory backend a database stands for\<close>

definition holds_objects :: "(bytes \<Rightarrow> bytes option) \<Rightarrow> MemStore \<Rightarrow> bool" where
  "holds_objects c s \<longleftrightarrow>
     (\<forall>h. c (objKey h) = map_option encodeObj (map_of (ms_objects s) h)) \<and>
     (\<forall>h obj. map_of (ms_objects s) h = Some obj \<longrightarrow> CHR 0x00 \<notin> set (obj_Kind obj))"

definition holds_refs :: "(bytes \<Rightarrow> bytes option) \<Rightarrow> MemStore \<Rightarrow> bool" where
  "holds_refs c s \<longleftrightarrow>
     (\<forall>n. c (refKey n) = map_option hash_bytes (map_of (ms_refs s) n)) \<and>
     (\<forall>n. map_of (ms_refs s) n \<noteq> Some ZeroHash)"

definition holds_reflog :: "JSON \<Rightarrow> string set \<Rightarrow> (bytes \<Rightarrow> bytes option) \<Rightarrow> MemStore \<Rightarrow> bool" where
  "holds_reflog J N c s \<longleftrightarrow>
     (\<forall>n. length (ms_reflog s n) < 2 ^ 64) \<and>
     (\<forall>n i. i < length (ms_reflog s n) \<longrightarrow> n \<in> N \<and>
        (\<exists>v. c (reflogKey n (of_nat i)) = Some v \<and> Unmarshal J v = Inr (ms_reflog s n ! i))) \<and>
     (\<forall>k. prefix prefixReflog k \<longrightarrow> c k \<noteq> None \<longrightarrow>
        (\<exists>n i. i < length (ms_reflog s n) \<and> k = reflogKey n (of_nat i)))"

definition holds :: "JSON \<Rightarrow> string set \<Rightarrow> (bytes \<Rightarrow> bytes option) \<Rightarrow> MemStore \<Rightarrow> bool" where
  "holds J N c s \<longleftrightarrow> holds_objects c s \<and> holds_refs c s \<and> holds_reflog J N c s"

lemma holds_New: "holds J N Map.empty New"
  by (simp add: holds_def holds_objects_def holds_refs_def holds_reflog_def New_def)

subsection \<open>Reads\<close>

lemma get_cases:
  assumes "badger_laws B C"
  obtains (fault) m where "txn_Get B d k = Inl (ErrOther m)"
    | (absent) "txn_Get B d k = Inr None" "C d k = None"
    | (unread) item v m where "txn_Get B d k = Inr (Some item)" "C d k = Some v" "it_Value item = Inl (ErrOther m)"
    | (found) item v where "txn_Get B d k = Inr (Some item)" "C d k = Some v" "it_Value item = Inr v"
proof -
  from assms have "get_law B C" by (simp add: badger_laws_def)
  then have "fault (txn_Get B d k) \<or> (txn_Get B d k = Inr None \<and> C d k = None)
     \<or> (\<exists>item. txn_Get B d k = Inr (Some item) \<and> it_Key item = k \<and> item_of (C d k) item)"
    unfolding get_law_def by blast
  then show thesis
  proof (elim disjE exE conjE)
    assume "fault (txn_Get B d k)"
    then show thesis by (rule faultE) (rule fault)
  next
    fix item assume item: "txn_Get B d k = Inr (Some item)" "item_of (C d k) item"
    then obtain v where v: "C d k = Some v" "it_Value item = Inr v \<or> fault (it_Value item)"
      by (auto simp: item_of_def split: option.splits)
    from v(2) show thesis
    proof
      assume "fault (it_Value item)"
      then show thesis by (rule faultE) (rule unread [OF item(1) v(1)])
    qed (rule found [OF item(1) v(1)])
  qed (rule absent)
qed

lemma iterate_cases:
  assumes "badger_laws B C"
  obtains (fault) m where "txn_Iterate B d p = Inl (ErrOther m)"
    | (items) items where "txn_Iterate B d p = Inr items" "sorted_wrt (<) (map it_Key items)"
        "set (map it_Key items) = {k. prefix p k \<and> C d k \<noteq> None}"
        "\<forall>item \<in> set items. item_of (C d (it_Key item)) item"
proof -
  from assms have "iterate_law B C" by (simp add: badger_laws_def)
  then have "fault (txn_Iterate B d p) \<or>
        (\<exists>items. txn_Iterate B d p = Inr items \<and> sorted_wrt (<) (map it_Key items)
           \<and> set (map it_Key items) = {k. prefix p k \<and> C d k \<noteq> None}
           \<and> (\<forall>item \<in> set items. item_of (C d (it_Key item)) item))"
    unfolding iterate_law_def by blast
  then show thesis
  proof
    assume "fault (txn_Iterate B d p)"
    then show thesis by (rule faultE) (rule fault)
  next
    assume "\<exists>items. txn_Iterate B d p = Inr items \<and> sorted_wrt (<) (map it_Key items)
           \<and> set (map it_Key items) = {k. prefix p k \<and> C d k \<noteq> None}
           \<and> (\<forall>item \<in> set items. item_of (C d (it_Key item)) item)"
    then show thesis by (elim exE conjE) (rule items)
  qed
qed

lemma GetObject_holds:
  assumes "badger_laws B C" and "holds_objects (C d) s"
  shows "bad_GetObject B d h = mem_GetObject s h \<or> fault (bad_GetObject B d h)"
  using assms(2) by (cases rule: get_cases [OF assms(1), of d "objKey h"])
    (auto simp: bad_GetObject_def mem_GetObject_def item_Value_def holds_objects_def decodeObj_encodeObj)

lemma HasObject_holds:
  assumes "badger_laws B C" and "holds_objects (C d) s"
  shows "bad_HasObject B d h = mem_HasObject s h \<or> fault (bad_HasObject B d h)"
  using assms(2) by (cases rule: get_cases [OF assms(1), of d "objKey h"])
    (auto simp: bad_HasObject_def mem_HasObject_def holds_objects_def)

lemma GetRef_holds:
  assumes "badger_laws B C" and "holds_refs (C d) s"
  shows "bad_GetRef B d n = mem_GetRef s n \<or> fault (bad_GetRef B d n)"
  using assms(2) by (cases rule: get_cases [OF assms(1), of d "refKey n"])
    (auto simp: bad_GetRef_def GetRef_views_def mem_GetRef_def item_Value_def holds_refs_def Let_def)

lemma refs_list_unique:
  fixes es out :: "RefEntry list"
  assumes "sorted_wrt (<) (map re_Name es)" and "distinct (map re_Name out)"
    and "set (map (\<lambda>r. (re_Name r, re_Hash r)) out) = set (map (\<lambda>r. (re_Name r, re_Hash r)) es)"
  shows "sort_key re_Name out = es"
proof -
  have inj: "inj (\<lambda>r :: RefEntry. (re_Name r, re_Hash r))"
    by (rule injI) (simp add: RefEntry.equality)
  have sets: "set out = set es"
    using assms(3) inj_image_eq_iff [OF inj, of "set out" "set es"] by simp
  have es: "sorted (map re_Name es)" "distinct (map re_Name es)"
    using assms(1) by (simp_all add: strict_sorted_iff)
  have dist: "distinct (map re_Name (sort_key re_Name out))"
    using assms(2) by (simp add: distinct_map)
  show ?thesis
  proof (rule map_sorted_distinct_set_unique [OF _ _ dist es])
    show "inj_on re_Name (set (sort_key re_Name out) \<union> set es)"
      using es(2) by (simp add: sets distinct_map)
  qed (simp_all add: sets)
qed

lemma refKey_prefix:
  "{k. prefix (refKey p) k \<and> c k \<noteq> None} = refKey ` {n. HasPrefix n p \<and> c (refKey n) \<noteq> None}"
proof (intro set_eqI iffI)
  fix k assume "k \<in> {k. prefix (refKey p) k \<and> c k \<noteq> None}"
  then obtain zs where "k = refKey p @ zs" "c k \<noteq> None" by (auto simp: prefix_def)
  then have "k = refKey (p @ string_of zs)" "c k \<noteq> None" by (simp_all add: refKey_def)
  then show "k \<in> refKey ` {n. HasPrefix n p \<and> c (refKey n) \<noteq> None}"
    by (auto simp: HasPrefix_def)
qed (auto simp: HasPrefix_def refKey_def)

lemma ref_name_refKey: "TrimPrefix (string_of (refKey n)) (string_of prefixRef) = n"
proof -
  have "string_of (refKey n) = string_of prefixRef @ n"
    by (simp add: refKey_def string_of_def bytes_of_def comp_def)
  then show ?thesis by (simp add: TrimPrefix_def HasPrefix_def)
qed

lemma ListRefs_holds:
  assumes laws: "badger_laws B C" and h: "holds_refs (C d) s"
  shows "bad_ListRefs B d p = mem_ListRefs s p \<or> fault (bad_ListRefs B d p)"
  using laws
proof (cases rule: iterate_cases [where d = d and p = "refKey p"])
  case (items items)
  define g where "g k = \<lparr>re_Name = TrimPrefix (string_of k) (string_of prefixRef), re_Hash = copy_hash (the (C d k))\<rparr>" for k
  define out where "out = map g (map it_Key items)"
  have each: "fault (each_item ref_entry items) \<or> each_item ref_entry items = Inr out"
    unfolding out_def by (rule each_item_values [OF items(4)]) (simp add: ref_entry_def g_def)
  have keys: "set (map it_Key items) = refKey ` {n. HasPrefix n p \<and> C d (refKey n) \<noteq> None}"
    by (simp only: items(3) refKey_prefix)
  have name: "re_Name (g (refKey n)) = n" for n
    using ref_name_refKey [of n] by (simp add: g_def)
  have cell: "C d (refKey n) = map_option hash_bytes (map_of (ms_refs s) n)" for n
    using h by (simp add: holds_refs_def)
  have "distinct (map re_Name out)"
  proof -
    have "inj_on (re_Name \<circ> g) (set (map it_Key items))"
      unfolding keys by (rule inj_onI) (auto simp: name)
    moreover have "distinct (map it_Key items)"
      using items(2) by (simp add: strict_sorted_iff)
    ultimately have "distinct (map (re_Name \<circ> g) (map it_Key items))"
      by (simp add: distinct_map del: map_map)
    then show ?thesis by (simp add: out_def comp_assoc)
  qed
  moreover have "set (map (\<lambda>r. (re_Name r, re_Hash r)) out) = {(n, h). mem_ref s n = Some h \<and> HasPrefix n p}"
  proof -
    have "set (map (\<lambda>r. (re_Name r, re_Hash r)) out)
        = (\<lambda>k. (re_Name (g k), re_Hash (g k))) ` set (map it_Key items)"
      by (simp add: out_def image_image)
    also have "\<dots> = (\<lambda>n. (n, copy_hash (the (C d (refKey n))))) ` {n. HasPrefix n p \<and> C d (refKey n) \<noteq> None}"
      unfolding keys by (simp add: image_image name) (simp add: g_def)
    also have "\<dots> = {(n, h). mem_ref s n = Some h \<and> HasPrefix n p}"
      by (auto simp: cell mem_ref_def)
    finally show ?thesis .
  qed
  ultimately have "Inr (sort_key re_Name out) = mem_ListRefs s p"
    using mem_ListRefs_spec [of s p] refs_list_unique [of _ out] by auto
  with each items(1) show ?thesis
    by (auto simp: bad_ListRefs_def elim!: faultE)
qed (simp add: bad_ListRefs_def)

text \<open>The scan of a reflog gives its entries in the order in which they were appended.\<close>

lemma reflog_keys:
  assumes h: "holds_reflog J N c s" and N: "flat N" "n \<in> N"
    and sorted: "sorted_wrt (<) ks" and set: "set ks = {k. prefix (reflogKeyPrefix n) k \<and> c k \<noteq> None}"
  shows "ks = map (\<lambda>i. reflogKey n (of_nat i)) [0..<length (ms_reflog s n)]"
proof (rule strict_sorted_equal [OF _ sorted])
  have len: "length (ms_reflog s n) < 2 ^ 64" for n
    using h by (simp add: holds_reflog_def)
  have less: "(of_nat i :: 64 word) < of_nat j" if "i < j" "j < length (ms_reflog s n)" for i j
    using that len [of n] by (simp add: word_less_nat_alt unat_of_nat take_bit_eq_mod)
  show "sorted_wrt (<) (map (\<lambda>i. reflogKey n (of_nat i)) [0..<length (ms_reflog s n)])"
    by (simp add: sorted_wrt_map sorted_wrt_iff_nth_less less)
  have here: "c (reflogKey m (of_nat i)) \<noteq> None \<and> m \<in> N" if "i < length (ms_reflog s m)" for m i
    using h that unfolding holds_reflog_def by (metis option.distinct(1))
  have "k \<in> (\<lambda>i. reflogKey n (of_nat i)) ` {0..<length (ms_reflog s n)}"
    if "prefix (reflogKeyPrefix n) k" "c k \<noteq> None" for k
  proof -
    have "prefix prefixReflog k"
      using that(1) by (auto simp: reflogKeyPrefix_def prefix_def)
    with that(2) obtain m i where mi: "i < length (ms_reflog s m)" "k = reflogKey m (of_nat i)"
      using h unfolding holds_reflog_def by blast
    then have "m = n"
      using prefix_reflogKey [of n m "of_nat i" N] that(1) N here by simp
    with mi show ?thesis by auto
  qed
  then show "set ks = set (map (\<lambda>i. reflogKey n (of_nat i)) [0..<length (ms_reflog s n)])"
    unfolding set using here [of _ n] by (auto simp: prefix_reflogKey_same)
qed

lemma ReadReflog_holds:
  assumes laws: "badger_laws B C" and h: "holds_reflog J N (C d) s" and N: "flat N" "n \<in> N"
  shows "bad_ReadReflog B J d n = mem_ReadReflog s n \<or> fault (bad_ReadReflog B J d n)"
  using laws
proof (cases rule: iterate_cases [where d = d and p = "reflogKeyPrefix n"])
  case (items items)
  define g where "g k = projr (Unmarshal J (the (C d k)))" for k
  have keys: "map it_Key items = map (\<lambda>i. reflogKey n (of_nat i)) [0..<length (ms_reflog s n)]"
    by (rule reflog_keys [OF h N items(2,3)])
  have entry: "\<exists>v. C d (reflogKey n (of_nat i)) = Some v \<and> Unmarshal J v = Inr (ms_reflog s n ! i)"
    if "i < length (ms_reflog s n)" for i
    using h that by (simp add: holds_reflog_def)
  have "fault (each_item (\<lambda>_. Unmarshal J) items) \<or>
      each_item (\<lambda>_. Unmarshal J) items = Inr (map g (map it_Key items))"
  proof (rule each_item_values [OF items(4)])
    fix item v assume "item \<in> set items" and v: "C d (it_Key item) = Some v"
    then have "it_Key item \<in> set (map it_Key items)" by simp
    then obtain i where "i < length (ms_reflog s n)" "it_Key item = reflogKey n (of_nat i)"
      unfolding keys by auto
    with entry [of i] v show "Unmarshal J v = Inr (g (it_Key item))"
      by (auto simp: g_def)
  qed
  moreover have "map g (map it_Key items) = ms_reflog s n"
    unfolding keys
  proof (rule nth_equalityI)
    fix i assume "i < length (map g (map (\<lambda>i. reflogKey n (of_nat i)) [0..<length (ms_reflog s n)]))"
    with entry [of i] show "map g (map (\<lambda>i. reflogKey n (of_nat i)) [0..<length (ms_reflog s n)]) ! i = ms_reflog s n ! i"
      by (auto simp: g_def)
  qed simp
  ultimately show ?thesis
    using items(1) by (auto simp: bad_ReadReflog_def mem_ReadReflog_def elim!: faultE)
qed (simp add: bad_ReadReflog_def)

subsection \<open>Writes\<close>

definition writes :: "JSON \<Rightarrow> string set \<Rightarrow> ('d \<Rightarrow> bytes \<Rightarrow> bytes option) \<Rightarrow> MemStore \<Rightarrow>
    'd \<times> (error + unit) \<Rightarrow> MemStore \<times> (error + unit) \<Rightarrow> bool" where
  "writes J N C s out out' \<longleftrightarrow>
     (snd out = snd out' \<and> holds J N (C (fst out)) (fst out')) \<or> (fault (snd out) \<and> holds J N (C (fst out)) s)"

lemma writes_set:
  assumes "badger_laws B C" and "holds J N (C d) s" and "holds J N ((C d)(k \<mapsto> v)) s'"
  shows "writes J N C s (txn_Set B d k v) (s', Inr ())"
proof -
  obtain d' r where w: "txn_Set B d k v = (d', r)" by (cases "txn_Set B d k v")
  with assms(1) have "(r = Inr () \<and> C d' = (C d)(k \<mapsto> v)) \<or> (fault r \<and> C d' = C d)"
    unfolding badger_laws_def write_law_def by blast
  with w assms(2,3) show ?thesis by (auto simp: writes_def)
qed

lemma writes_delete:
  assumes "badger_laws B C" and "holds J N (C d) s" and "holds J N ((C d)(k := None)) s'"
  shows "writes J N C s (txn_Delete B d k) (s', Inr ())"
proof -
  obtain d' r where w: "txn_Delete B d k = (d', r)" by (cases "txn_Delete B d k")
  with assms(1) have "(r = Inr () \<and> C d' = (C d)(k := None)) \<or> (fault r \<and> C d' = C d)"
    unfolding badger_laws_def write_law_def by blast
  with w assms(2,3) show ?thesis by (auto simp: writes_def)
qed

lemma writes_fault:
  "holds J N (C d) s \<Longrightarrow> fault r \<Longrightarrow> writes J N C s (d, r) out"
  "holds J N (C d) s \<Longrightarrow> writes J N C s (d, Inl e) (s, Inl e)"
  by (simp_all add: writes_def)

lemma holds_put:
  assumes "holds J N c s" and "CHR 0x00 \<notin> set (obj_Kind obj)"
  shows "holds J N (c(objKey h \<mapsto> encodeObj obj)) (s\<lparr>ms_objects := (h, obj) # ms_objects s\<rparr>)"
proof -
  have "holds_reflog J N (c(objKey h \<mapsto> encodeObj obj)) (s\<lparr>ms_objects := (h, obj) # ms_objects s\<rparr>)"
    using assms(1) by (auto simp: holds_def holds_reflog_def)
  with assms show ?thesis
    by (auto simp: holds_def holds_objects_def holds_refs_def)
qed

lemma holds_reflog_frame:
  assumes "holds_reflog J N c s" and "\<And>k. prefix prefixReflog k \<Longrightarrow> c' k = c k" and "ms_reflog s' = ms_reflog s"
  shows "holds_reflog J N c' s'"
proof -
  have "prefix prefixReflog (reflogKey n i)" for n i
    by (simp add: reflogKey_def reflogKeyPrefix_def)
  with assms show ?thesis by (auto simp: holds_reflog_def)
qed

lemma holds_set_ref:
  assumes "holds J N c s" and "x \<noteq> ZeroHash"
  shows "holds J N (c(refKey n \<mapsto> hash_bytes x)) (s\<lparr>ms_refs := AList.update n x (ms_refs s)\<rparr>)"
proof -
  have "holds_reflog J N (c(refKey n \<mapsto> hash_bytes x)) (s\<lparr>ms_refs := AList.update n x (ms_refs s)\<rparr>)"
    by (rule holds_reflog_frame [where s = s and c = c]) (use assms(1) in \<open>auto simp: holds_def\<close>)
  with assms show ?thesis
    by (auto simp: holds_def holds_objects_def holds_refs_def update_conv')
qed

lemma holds_delete_ref:
  assumes "holds J N c s"
  shows "holds J N (c(refKey n := None)) (s\<lparr>ms_refs := AList.delete n (ms_refs s)\<rparr>)"
proof -
  have "holds_reflog J N (c(refKey n := None)) (s\<lparr>ms_refs := AList.delete n (ms_refs s)\<rparr>)"
    by (rule holds_reflog_frame [where s = s and c = c]) (use assms in \<open>auto simp: holds_def\<close>)
  with assms show ?thesis
    by (auto simp: holds_def holds_objects_def holds_refs_def delete_conv')
qed

lemma holds_append:
  assumes h: "holds J N c s" and n: "n \<in> N" and len: "length (ms_reflog s n) + 1 < 2 ^ 64"
    and e: "Unmarshal J data = Inr e"
  shows "holds J N (c(reflogKey n (of_nat (length (ms_reflog s n))) \<mapsto> data))
    (s\<lparr>ms_reflog := (ms_reflog s)(n := ms_reflog s n @ [e])\<rparr>)" (is "holds J N ?c ?s")
proof -
  have old: "\<And>n. length (ms_reflog s n) < 2 ^ 64"
    "\<And>n i. i < length (ms_reflog s n) \<Longrightarrow> n \<in> N \<and>
        (\<exists>v. c (reflogKey n (of_nat i)) = Some v \<and> Unmarshal J v = Inr (ms_reflog s n ! i))"
    "\<And>k. prefix prefixReflog k \<Longrightarrow> c k \<noteq> None \<Longrightarrow>
        \<exists>n i. i < length (ms_reflog s n) \<and> k = reflogKey n (of_nat i)"
    using h unfolding holds_def holds_reflog_def by blast+
  have fresh: "(of_nat i :: 64 word) \<noteq> of_nat (length (ms_reflog s n))" if "i < length (ms_reflog s n)" for i
    using that len by (simp add: word_unat_eq_iff unat_of_nat take_bit_eq_mod)
  have "m \<in> N \<and> (\<exists>v. ?c (reflogKey m (of_nat i)) = Some v \<and> Unmarshal J v = Inr (ms_reflog ?s m ! i))"
    if "i < length (ms_reflog ?s m)" for m i
  proof (cases "m = n \<and> i = length (ms_reflog s n)")
    case True
    with n e show ?thesis by simp
  next
    case False
    then have i: "i < length (ms_reflog s m)" using that by (auto split: if_splits)
    with False fresh [of i] have "?c (reflogKey m (of_nat i)) = c (reflogKey m (of_nat i))"
      by auto
    with old(2) [OF i] i show ?thesis by (auto simp: nth_append)
  qed
  moreover have "\<exists>m i. i < length (ms_reflog ?s m) \<and> k = reflogKey m (of_nat i)"
    if "prefix prefixReflog k" "?c k \<noteq> None" for k
  proof (cases "k = reflogKey n (of_nat (length (ms_reflog s n)))")
    case True
    then have "length (ms_reflog s n) < length (ms_reflog ?s n) \<and> k = reflogKey n (of_nat (length (ms_reflog s n)))"
      by simp
    then show ?thesis by blast
  next
    case False
    with that old(3) [of k] obtain m i where "i < length (ms_reflog s m)" "k = reflogKey m (of_nat i)"
      by auto
    then have "i < length (ms_reflog ?s m) \<and> k = reflogKey m (of_nat i)" by auto
    then show ?thesis by blast
  qed
  moreover have "length (ms_reflog ?s m) < 2 ^ 64" for m
    using old(1) [of m] len by simp
  ultimately have "holds_reflog J N ?c ?s"
    unfolding holds_reflog_def by blast
  with h show ?thesis
    by (simp add: holds_def holds_objects_def holds_refs_def)
qed

lemma PutObject_holds:
  assumes "badger_laws B C" and "holds J N (C d) s" and "CHR 0x00 \<notin> set (obj_Kind obj)"
  shows "writes J N C s (bad_PutObject B d h obj) (mem_PutObject s h obj)"
  unfolding bad_PutObject_def mem_PutObject_def
  using assms by (intro writes_set holds_put)

lemma CASRef_holds:
  assumes laws: "badger_laws B C" and h: "holds J N (C d) s"
  shows "writes J N C s (bad_CASRef B d n e x) (mem_CASRef s n e x)"
proof (cases "x = ZeroHash")
  case True
  with h show ?thesis by (simp add: bad_CASRef_def mem_CASRef_def writes_fault)
next
  case False
  have set: "writes J N C s (txn_Set B d (refKey n) (hash_bytes x))
      (s\<lparr>ms_refs := AList.update n x (ms_refs s)\<rparr>, Inr ())"
    using laws h False by (intro writes_set holds_set_ref)
  have cell: "C d (refKey n) = map_option hash_bytes (map_of (ms_refs s) n)"
    using h by (simp add: holds_def holds_refs_def)
  show ?thesis
    by (cases rule: get_cases [OF laws, of d "refKey n"])
      (use False set h cell in \<open>auto simp: bad_CASRef_def mem_CASRef_def item_Value_def Let_def writes_fault\<close>)
qed

lemma DeleteRef_holds:
  assumes laws: "badger_laws B C" and h: "holds J N (C d) s"
  shows "writes J N C s (bad_DeleteRef B d n e) (mem_DeleteRef s n e)"
proof -
  have del: "writes J N C s (txn_Delete B d (refKey n)) (s\<lparr>ms_refs := AList.delete n (ms_refs s)\<rparr>, Inr ())"
    using laws h by (intro writes_delete holds_delete_ref)
  have cell: "C d (refKey n) = map_option hash_bytes (map_of (ms_refs s) n)"
    using h by (simp add: holds_def holds_refs_def)
  show ?thesis
    by (cases rule: get_cases [OF laws, of d "refKey n"])
      (use del h cell in \<open>auto simp: bad_DeleteRef_def mem_DeleteRef_def item_Value_def Let_def writes_fault\<close>)
qed

lemma AppendReflog_holds:
  assumes laws: "badger_laws B C" and h: "holds J N (C d) s" and N: "flat N" "n \<in> N"
    and len: "length (ms_reflog s n) + 1 < 2 ^ 64" and e: "json_roundtrips J e"
  shows "writes J N C s (bad_AppendReflog B J d n e) (mem_AppendReflog s n e)"
proof -
  from e obtain data where data: "Marshal J e = Inr data" "Unmarshal J data = Inr e"
    by (auto simp: json_roundtrips_def split: sum.splits)
  show ?thesis
    using laws
  proof (cases rule: iterate_cases [where d = d and p = "reflogKeyPrefix n"])
    case (items items)
    have "map it_Key items = map (\<lambda>i. reflogKey n (of_nat i)) [0..<length (ms_reflog s n)]"
      using h by (intro reflog_keys [where J = J, OF _ N items(2,3)]) (simp add: holds_def)
    then have "length items = length (ms_reflog s n)"
      by (metis length_map diff_zero length_upt)
    then have "bad_AppendReflog B J d n e = txn_Set B d (reflogKey n (of_nat (length (ms_reflog s n)))) data"
      by (simp add: bad_AppendReflog_def items(1) data(1))
    with writes_set [OF laws h holds_append [OF h N(2) len data(2)]] show ?thesis
      by (simp add: mem_AppendReflog_def)
  qed (use h data in \<open>simp add: bad_AppendReflog_def writes_fault\<close>)
qed

section \<open>Sequences of operations\<close>

datatype op =
    OpPutObject Hash Object
  | OpGetObject Hash
  | OpHasObject Hash
  | OpGetRef string
  | OpCASRef string Hash Hash
  | OpDeleteRef string Hash
  | OpListRefs string
  | OpAppendReflog string ReflogEntry
  | OpReadReflog string

datatype reply =
    Done "error + unit"
  | GotObject "error + Object"
  | GotBool "error + bool"
  | GotRef "error + Hash option"
  | GotRefs "error + RefEntry list"
  | GotReflog "error + ReflogEntry list"

fun exec :: "'s Storage \<Rightarrow> 's \<Rightarrow> op \<Rightarrow> 's \<times> reply" where
  "exec S s (OpPutObject h obj) = apsnd Done (PutObject S s h obj)"
| "exec S s (OpGetObject h) = (s, GotObject (GetObject S s h))"
| "exec S s (OpHasObject h) = (s, GotBool (HasObject S s h))"
| "exec S s (OpGetRef n) = (s, GotRef (GetRef S s n))"
| "exec S s (OpCASRef n e x) = apsnd Done (CASRef S s n e x)"
| "exec S s (OpDeleteRef n e) = apsnd Done (DeleteRef S s n e)"
| "exec S s (OpListRefs p) = (s, GotRefs (ListRefs S s p))"
| "exec S s (OpAppendReflog n e) = apsnd Done (AppendReflog S s n e)"
| "exec S s (OpReadReflog n) = (s, GotReflog (ReadReflog S s n))"

fun faulty :: "reply \<Rightarrow> bool" where
  "faulty (Done r) = fault r"
| "faulty (GotObject r) = fault r"
| "faulty (GotBool r) = fault r"
| "faulty (GotRef r) = fault r"
| "faulty (GotRefs r) = fault r"
| "faulty (GotReflog r) = fault r"

text \<open>
  What a client sees of backend \<open>S\<close> is what it would see of \<open>T\<close>, but for calls that
  report a fault; these have no effect.
\<close>

fun refines :: "'s Storage \<Rightarrow> 't Storage \<Rightarrow> op list \<Rightarrow> 's \<Rightarrow> 't \<Rightarrow> bool" where
  "refines S T [] s t = True"
| "refines S T (op # ops) s t =
     (case (exec S s op, exec T t op) of
        ((s', r), (t', q)) \<Rightarrow>
          if faulty r then refines S T ops s' t else r = q \<and> refines S T ops s' t')"

text \<open>
  The operations the backend supports: the kind of an object has no NUL byte, which ends it in
  the stored value; a reflog entry survives JSON; the names of reflogs are flat.
\<close>

fun op_ok :: "JSON \<Rightarrow> string set \<Rightarrow> op \<Rightarrow> bool" where
  "op_ok J N (OpPutObject h obj) = (CHR 0x00 \<notin> set (obj_Kind obj))"
| "op_ok J N (OpAppendReflog n e) = (n \<in> N \<and> json_roundtrips J e)"
| "op_ok J N (OpReadReflog n) = (n \<in> N)"
| "op_ok J N op = True"

lemma faulty_not_mem: "\<not> faulty (snd (exec memstore s op))"
  by (cases op) (auto simp: memstore_defs fault_def split: option.splits if_splits)

definition step_matches :: "'d BadgerDB \<Rightarrow> JSON \<Rightarrow> string set \<Rightarrow> ('d \<Rightarrow> bytes \<Rightarrow> bytes option) \<Rightarrow>
    'd \<Rightarrow> MemStore \<Rightarrow> op \<Rightarrow> bool" where
  "step_matches B J N C d s op \<longleftrightarrow>
     (snd (exec (badger B J) d op) = snd (exec memstore s op)
        \<and> holds J N (C (fst (exec (badger B J) d op))) (fst (exec memstore s op)))
     \<or> (faulty (snd (exec (badger B J) d op)) \<and> holds J N (C (fst (exec (badger B J) d op))) s)"

lemma step_matches_exec:
  assumes laws: "badger_laws B C" and h: "holds J N (C d) s" and N: "flat N" and op: "op_ok J N op"
    and len: "\<And>n. length (ms_reflog s n) + 1 < 2 ^ 64"
  shows "step_matches B J N C d s op"
proof -
  note parts = h [unfolded holds_def]
  show ?thesis
  proof (cases op)
    case (OpPutObject hh obj)
    then show ?thesis using PutObject_holds [OF laws h, of obj hh] op
      by (auto simp: step_matches_def badger_def memstore_def writes_def)
  next
    case (OpGetObject hh)
    then show ?thesis using GetObject_holds [OF laws, of d s hh] parts h
      by (auto simp: step_matches_def badger_def memstore_def)
  next
    case (OpHasObject hh)
    then show ?thesis using HasObject_holds [OF laws, of d s hh] parts h
      by (auto simp: step_matches_def badger_def memstore_def)
  next
    case (OpGetRef n)
    then show ?thesis using GetRef_holds [OF laws, of d s n] parts h
      by (auto simp: step_matches_def badger_def memstore_def)
  next
    case (OpCASRef n e x)
    then show ?thesis using CASRef_holds [OF laws h, of n e x]
      by (auto simp: step_matches_def badger_def memstore_def writes_def)
  next
    case (OpDeleteRef n e)
    then show ?thesis using DeleteRef_holds [OF laws h, of n e]
      by (auto simp: step_matches_def badger_def memstore_def writes_def)
  next
    case (OpListRefs p)
    then show ?thesis using ListRefs_holds [OF laws, of d s p] parts h
      by (auto simp: step_matches_def badger_def memstore_def)
  next
    case (OpAppendReflog n e)
    then show ?thesis using AppendReflog_holds [OF laws h N _ len, of n e] op
      by (auto simp: step_matches_def badger_def memstore_def writes_def)
  next
    case (OpReadReflog n)
    then show ?thesis using ReadReflog_holds [OF laws, of J N d s n] parts h N op
      by (auto simp: step_matches_def badger_def memstore_def)
  qed
qed

lemma exec_log_length: "length (ms_reflog (fst (exec memstore s op)) n) \<le> length (ms_reflog s n) + 1"
  by (cases op) (auto simp: memstore_defs split: option.splits if_splits)

lemma refines_holds:
  assumes "badger_laws B C" and "flat N" and "\<forall>op \<in> set ops. op_ok J N op"
    and "holds J N (C d) s" and "\<And>n. length (ms_reflog s n) + length ops < 2 ^ 64"
  shows "refines (badger B J) memstore ops d s"
  using assms(3-)
proof (induction ops arbitrary: d s)
  case (Cons op ops)
  have step: "step_matches B J N C d s op"
  proof (rule step_matches_exec [OF assms(1) Cons.prems(2) assms(2)])
    show "length (ms_reflog s n) + 1 < 2 ^ 64" for n
      using Cons.prems(3) [of n] by simp
  qed (use Cons.prems(1) in simp)
  obtain d' r s' q where run: "exec (badger B J) d op = (d', r)" "exec memstore s op = (s', q)"
    by (cases "exec (badger B J) d op", cases "exec memstore s op")
  have len': "length (ms_reflog s' n) + length ops < 2 ^ 64" for n
    using Cons.prems(3) [of n] exec_log_length [of s op n] run(2) by simp
  have len: "length (ms_reflog s n) + length ops < 2 ^ 64" for n
    using Cons.prems(3) [of n] by simp
  from step run consider
      "r = q" "holds J N (C d') s'" | "faulty r" "holds J N (C d') s"
    by (auto simp: step_matches_def)
  then show ?case
  proof cases
    case 1
    moreover have "\<not> faulty q" using faulty_not_mem [of s op] run(2) by simp
    moreover have "refines (badger B J) memstore ops d' s'"
      using Cons.IH [OF _ 1(2) len'] Cons.prems(1) by simp
    ultimately show ?thesis by (simp add: run)
  next
    case 2
    then show ?thesis
      using Cons.IH [OF _ 2(2) len] Cons.prems(1) by (simp add: run)
  qed
qed simp

section \<open>Iterating over the objects\<close>

lemma iterate_items:
  assumes "badger_laws B C" and "txn_Iterate B d p = Inr items"
  shows "sorted_wrt (<) (map it_Key items)"
    and "set (map it_Key items) = {k. prefix p k \<and> C d k \<noteq> None}"
    and "\<forall>item \<in> set items. item_of (C d (it_Key item)) item"
  by (cases rule: iterate_cases [OF assms(1), of d p]; use assms(2) in simp)+

lemma iter_items_filter:
  "iter_items fn items acc = iter_items fn (filter (\<lambda>item. length (it_Key item) = length prefixObj + HashSize) items) acc"
  by (induction fn items acc rule: iter_items.induct) (auto simp: Let_def split: sum.splits prod.splits)

lemma iter_items_hashes:
  assumes "map it_Key items = map objKey hs" and "holds_objects c s"
    and "\<And>item. item \<in> set items \<Longrightarrow> \<exists>v. c (it_Key item) = Some v \<and> it_Value item = Inr v"
  shows "iter_items fn items acc = iter_hashes s fn hs acc"
  using assms(1,3)
proof (induction items arbitrary: hs acc)
  case (Cons item items)
  then obtain h hs' where hs: "hs = h # hs'" "it_Key item = objKey h" "map it_Key items = map objKey hs'"
    by (cases hs) auto
  from Cons.prems(2) [of item] hs(2) obtain v where v: "c (objKey h) = Some v" "it_Value item = Inr v"
    by auto
  then obtain obj where obj: "map_of (ms_objects s) h = Some obj" "v = encodeObj obj"
      "CHR 0x00 \<notin> set (obj_Kind obj)"
    using assms(2) by (auto simp: holds_objects_def)
  have "iter_items fn items acc' = iter_hashes s fn hs' acc'" for acc'
    using Cons.prems(2) by (intro Cons.IH [OF hs(3)]) simp
  then show ?case
    using v obj by (simp add: hs item_Value_def decodeObj_encodeObj objKey_def)
qed simp

lemma objKey_shape:
  "{k. prefix prefixObj k \<and> c k \<noteq> None \<and> length k = length prefixObj + HashSize}
    = objKey ` {h. c (objKey h) \<noteq> None}"
proof (intro set_eqI iffI)
  fix k assume "k \<in> {k. prefix prefixObj k \<and> c k \<noteq> None \<and> length k = length prefixObj + HashSize}"
  then obtain zs where "k = prefixObj @ zs" "c k \<noteq> None" "length zs = HashSize" by (auto simp: prefix_def)
  then have "k = objKey (hash_of_bytes zs)" "c k \<noteq> None"
    by (simp_all add: objKey_def hash_bytes_hash_of_bytes)
  then show "k \<in> objKey ` {h. c (objKey h) \<noteq> None}" by auto
qed (auto simp: objKey_def)

lemma object_keys:
  assumes "holds_objects c s" and "sorted_wrt (<) (map it_Key items)"
    and "set (map it_Key items) = {k. prefix prefixObj k \<and> c k \<noteq> None}"
  shows "map it_Key (filter (\<lambda>item. length (it_Key item) = length prefixObj + HashSize) items)
    = map objKey (sort (remdups (map fst (ms_objects s))))" (is "?l = ?r")
proof (rule strict_sorted_equal)
  have l: "?l = filter (\<lambda>k. length k = length prefixObj + HashSize) (map it_Key items)"
    by (simp add: filter_map comp_def)
  show "sorted_wrt (<) ?l"
    unfolding l by (rule sorted_wrt_filter) (rule assms(2))
  have "sorted_wrt (<) (sort (remdups (map fst (ms_objects s))))"
    by (simp add: strict_sorted_iff)
  then show "sorted_wrt (<) ?r"
    by (simp add: sorted_wrt_map objKey_def hash_bytes_less)
  have "c (objKey h) \<noteq> None \<longleftrightarrow> h \<in> set (map fst (ms_objects s))" for h
    using assms(1) map_of_eq_None_iff [of "ms_objects s" h] by (simp add: holds_objects_def)
  then have "set ?r = objKey ` {h. c (objKey h) \<noteq> None}" by auto
  also have "\<dots> = {k. prefix prefixObj k \<and> c k \<noteq> None \<and> length k = length prefixObj + HashSize}"
    by (rule objKey_shape [symmetric])
  also have "\<dots> = set ?l"
    unfolding l set_filter assms(3) by auto
  finally show "set ?l = set ?r" by (rule sym)
qed

section \<open>A database for the examples\<close>

text \<open>
  An association list with BadgerDB's limits on keys: none is empty or longer than
  65000 bytes.
\<close>

type_synonym kv = "(bytes \<times> bytes) list"

definition kv_Set :: "kv \<Rightarrow> bytes \<Rightarrow> bytes \<Rightarrow> kv \<times> (error + unit)" where
  "kv_Set d k v =
     (if k = [] \<or> 65000 < length k then (d, Inl (ErrOther ''key size''))
      else (AList.update k v d, Inr ()))"

definition kv_Iterate :: "kv \<Rightarrow> bytes \<Rightarrow> error + Item list" where
  "kv_Iterate d p =
     Inr (map (\<lambda>(k, v). \<lparr>it_Key = k, it_Value = Inr v\<rparr>)
       (sort_key fst (filter (\<lambda>(k, v). prefix p k) (AList.clearjunk d))))"

definition kv_db :: "kv BadgerDB" where
  "kv_db = \<lparr>
     txn_Get = (\<lambda>d k. Inr (map_option (\<lambda>v. \<lparr>it_Key = k, it_Value = Inr v\<rparr>) (map_of d k))),
     txn_Set = kv_Set,
     txn_Delete = (\<lambda>d k. (AList.delete k d, Inr ())),
     txn_Iterate = kv_Iterate\<rparr>"

lemma kv_Iterate_items:
  obtains items where "kv_Iterate d p = Inr items" "sorted_wrt (<) (map it_Key items)"
    "set (map it_Key items) = {k. prefix p k \<and> map_of d k \<noteq> None}"
    "\<forall>item \<in> set items. item_of (map_of d (it_Key item)) item"
proof -
  define l where "l = filter (\<lambda>(k, v). prefix p k) (AList.clearjunk d)"
  define items where "items = map (\<lambda>(k, v). \<lparr>it_Key = k, it_Value = (Inr v :: error + bytes)\<rparr>) (sort_key fst l)"
  have mem: "(k, v) \<in> set l \<longleftrightarrow> prefix p k \<and> map_of d k = Some v" for k v
    unfolding l_def by (simp add: map_of_eq_Some_iff [OF distinct_clearjunk, symmetric] map_of_clearjunk conj_commute)
  have keys: "map it_Key items = map fst (sort_key fst l)"
    by (simp add: items_def case_prod_beta comp_def)
  have "distinct (map fst l)"
    unfolding l_def by (intro distinct_map_filter) (simp add: distinct_clearjunk)
  then have "distinct (map fst (sort_key fst l))"
    by (simp add: distinct_map)
  then have "sorted_wrt (<) (map it_Key items)"
    by (simp add: keys strict_sorted_iff)
  moreover have "set (map it_Key items) = {k. prefix p k \<and> map_of d k \<noteq> None}"
  proof (intro set_eqI)
    fix k
    have "k \<in> set (map it_Key items) \<longleftrightarrow> (\<exists>v. (k, v) \<in> set l)"
      unfolding keys by (simp add: Domain_fst [symmetric] Domain_iff)
    then show "k \<in> set (map it_Key items) \<longleftrightarrow> k \<in> {k. prefix p k \<and> map_of d k \<noteq> None}"
      by (simp add: mem)
  qed
  moreover have "\<forall>item \<in> set items. item_of (map_of d (it_Key item)) item"
    using mem by (auto simp: items_def item_of_def)
  moreover have "kv_Iterate d p = Inr items"
    by (simp add: kv_Iterate_def items_def l_def)
  ultimately show thesis using that by blast
qed

lemma kv_laws: "badger_laws kv_db map_of"
proof -
  have "get_law kv_db map_of"
    by (auto simp: get_law_def kv_db_def item_of_def split: option.splits)
  moreover have "write_law kv_db map_of"
    by (auto simp: write_law_def kv_db_def kv_Set_def update_conv' delete_conv' split: if_splits)
  moreover have "iterate_law kv_db map_of"
    unfolding iterate_law_def
  proof (intro allI disjI2)
    fix d p
    show "\<exists>items. txn_Iterate kv_db d p = Inr items \<and> sorted_wrt (<) (map it_Key items)
        \<and> set (map it_Key items) = {k. prefix p k \<and> map_of d k \<noteq> None}
        \<and> (\<forall>item \<in> set items. item_of (map_of d (it_Key item)) item)"
      by (rule kv_Iterate_items [of d p]) (auto simp: kv_db_def)
  qed
  ultimately show ?thesis by (simp add: badger_laws_def)
qed

definition sample_entry :: "nat \<Rightarrow> ReflogEntry" where
  "sample_entry i = \<lparr>rl_Old = of_nat i, rl_New = of_nat i + 1, rl_Author = ''a'', rl_UnixTime = 0,
     rl_TZOffset = 0, rl_Op = ''commit'', rl_Message = ''m''\<rparr>"

definition sample_json :: JSON where
  "sample_json = \<lparr>
     Marshal = (\<lambda>e. if e = sample_entry (unat (rl_Old e)) then Inr [of_nat (unat (rl_Old e))] else Inl (ErrOther ''json'')),
     Unmarshal = (\<lambda>b. Inr (sample_entry (be_val b)))\<rparr>"

definition sample_ops :: "op list" where
  "sample_ops =
     [OpPutObject 7 \<lparr>obj_Kind = ''blob'', obj_Payload = [0, 1]\<rparr>, OpGetObject 7, OpHasObject 8,
      OpCASRef ''refs/b'' 0 7, OpGetRef ''refs/b'', OpCASRef ''refs/a'' 0 7, OpListRefs ''refs/'',
      OpAppendReflog ''refs/b'' (sample_entry 1), OpAppendReflog ''refs/b'' (sample_entry 2),
      OpReadReflog ''refs/b'', OpDeleteRef ''refs/b'' 7]"

lemma sample_json_entry: "i < 256 \<Longrightarrow> json_roundtrips sample_json (sample_entry i)"
  by (simp add: json_roundtrips_def sample_json_def sample_entry_def unat_of_nat take_bit_eq_mod be_val_def)

section \<open>The backend refines the memory backend\<close>



text \<open>
  On a database that can be read, \<open>IterObjects\<close> calls the callback with the
  same objects in the same order as the memory backend, and stops at its first error.
\<close>

theorem badger_iter_objects:
  assumes "badger_laws B C" and "holds J N (C d) s"
    and "txn_Iterate B d prefixObj = Inr items" and "\<forall>item \<in> set items. \<not> fault (it_Value item)"
  shows "bad_IterObjects B d fn acc = mem_IterObjects s fn acc"
proof -
  let ?ok = "\<lambda>item. length (it_Key item) = length prefixObj + HashSize"
  from assms(1) have items: "sorted_wrt (<) (map it_Key items)"
      "set (map it_Key items) = {k. prefix prefixObj k \<and> C d k \<noteq> None}"
      "\<forall>item \<in> set items. item_of (C d (it_Key item)) item"
    using iterate_items [OF _ assms(3)] by blast+
  have h: "holds_objects (C d) s" using assms(2) by (simp add: holds_def)
  have "iter_items fn (filter ?ok items) acc = iter_hashes s fn (sort (remdups (map fst (ms_objects s)))) acc"
  proof (rule iter_items_hashes [OF object_keys [OF h items(1,2)] h])
    fix item assume "item \<in> set (filter ?ok items)"
    with items(3) assms(4) show "\<exists>v. C d (it_Key item) = Some v \<and> it_Value item = Inr v"
      by (auto simp: item_of_def split: option.splits)
  qed
  then show ?thesis
    using iter_items_filter [of fn items acc]
    by (simp add: bad_IterObjects_def mem_IterObjects_def assms(3))
qed

theorem badger_iter_objects_witness:
  "bad_IterObjects kv_db [(objKey 7, encodeObj \<lparr>obj_Kind = ''blob'', obj_Payload = [0, 1]\<rparr>)] (\<lambda>h obj acc. (acc @ [h], Inr ())) []
   = mem_IterObjects (New\<lparr>ms_objects := [(7, \<lparr>obj_Kind = ''blob'', obj_Payload = [0, 1]\<rparr>)]\<rparr>) (\<lambda>h obj acc. (acc @ [h], Inr ())) []"
proof -
  let ?obj = "\<lparr>obj_Kind = ''blob'', obj_Payload = [0, 1]\<rparr>"
  let ?d = "[(objKey 7, encodeObj ?obj)]"
  have h: "holds sample_json {} (map_of ?d) (New\<lparr>ms_objects := [(7, ?obj)]\<rparr>)"
    using holds_put [OF holds_New, where h = 7 and obj = ?obj] by (simp add: New_def)
  have it: "txn_Iterate kv_db ?d prefixObj = Inr [\<lparr>it_Key = objKey 7, it_Value = Inr (encodeObj ?obj)\<rparr>]"
    by (simp add: kv_db_def kv_Iterate_def) (simp add: objKey_def)
  show ?thesis
    by (rule badger_iter_objects [OF kv_laws h it]) simp
qed

section \<open>Where the backend differs\<close>

text \<open>
  The reflog of a branch whose name is a directory of another's is read with the
  entries of the other, and its next entry gets the number after all of them.
\<close>

lemma badger_reflog_nested:
  "bad_ReadReflog kv_db sample_json (fst (bad_AppendReflog kv_db sample_json [] ''f/x'' (sample_entry 2))) ''f''
     = Inr [sample_entry 2]"
proof -
  have m: "Marshal sample_json (sample_entry 2) = Inr [2]" "Unmarshal sample_json [2] = Inr (sample_entry 2)"
    by (simp_all add: sample_json_def sample_entry_def be_val_def)
  have "prefix (reflogKeyPrefix ''f'') (reflogKey ''f/x'' 0)"
    by (simp add: reflogKey_def reflogKeyPrefix_def bytes_of_def)
  moreover have "length (reflogKey ''f/x'' 0) = 14"
    by (simp add: reflogKey_def reflogKeyPrefix_def)
  moreover from this have "reflogKey ''f/x'' 0 \<noteq> []"
    by auto
  ultimately show ?thesis
    by (simp add: bad_AppendReflog_def bad_ReadReflog_def kv_db_def kv_Iterate_def kv_Set_def m item_Value_def)
qed

text \<open>
  A ref that is created between the two transactions of \<open>GetRef\<close> is returned as a
  ref with the zero hash.
\<close>

lemma badger_get_ref_race:
  assumes "txn_Get B d (refKey n) = Inr None" and "txn_Get B d' (refKey n) = Inr (Some item)"
  shows "GetRef_views B d d' n = Inr (Some ZeroHash)"
  using assms by (simp add: GetRef_views_def)

end
