(* ===== verification/Base64.thy ===== *)
theory Base64
  imports GoStrings
begin

text \<open>
  encoding/base64, \<open>StdEncoding\<close>, which the key files, commit signatures and DNSKEY
  records use: three bytes are four digits, the last group is padded with \<open>=\<close>.  The
  decoder skips carriage returns and newlines, asks for the padding, and ignores the
  bits of the last digit that no byte holds.
\<close>

section \<open>Digits\<close>

definition b64_digit :: "nat \<Rightarrow> char" where
  "b64_digit n =
     (if n < 26 then char_of (n + 65)
      else if n < 52 then char_of (n + 71)
      else if n < 62 then char_of (n - 4)
      else if n = 62 then CHR ''+'' else CHR ''/'')"

definition b64_value :: "char \<Rightarrow> nat option" where
  "b64_value c =
     (let n = of_char c in
      if 65 \<le> n \<and> n < 91 then Some (n - 65)
      else if 97 \<le> n \<and> n < 123 then Some (n - 71)
      else if 48 \<le> n \<and> n < 58 then Some (n + 4)
      else if c = CHR ''+'' then Some 62
      else if c = CHR ''/'' then Some 63 else None)"

abbreviation PadChar :: char where "PadChar \<equiv> CHR ''=''"

section \<open>Encoding\<close>

definition b64_quad :: "nat \<Rightarrow> string" where
  "b64_quad v = [b64_digit (v div 262144), b64_digit (v div 4096 mod 64), b64_digit (v div 64 mod 64), b64_digit (v mod 64)]"

fun EncodeToString :: "bytes \<Rightarrow> string" where
  "EncodeToString [] = []"
| "EncodeToString [a] = take 2 (b64_quad (unat a * 65536)) @ [PadChar, PadChar]"
| "EncodeToString [a, b] = take 3 (b64_quad (unat a * 65536 + unat b * 256)) @ [PadChar]"
| "EncodeToString (a # b # c # bs) = b64_quad (unat a * 65536 + unat b * 256 + unat c) @ EncodeToString bs"

section \<open>Decoding\<close>

text \<open>One group of four digits and what is left; \<open>drop_pad\<close> bytes of it are padding.\<close>

definition b64_group :: "nat \<Rightarrow> nat \<Rightarrow> nat \<Rightarrow> nat \<Rightarrow> bytes" where
  "b64_group w x y z =
     (let v = w * 262144 + x * 4096 + y * 64 + z in [of_nat (v div 65536), of_nat (v div 256), of_nat v])"

fun b64_decode :: "string \<Rightarrow> bytes option" where
  "b64_decode [] = Some []"
| "b64_decode (c1 # c2 # c3 # c4 # cs) =
     (case (b64_value c1, b64_value c2) of
        (Some w, Some x) \<Rightarrow>
          (case b64_value c3 of
             None \<Rightarrow>
               if c3 = PadChar \<and> c4 = PadChar \<and> cs = [] then Some (take 1 (b64_group w x 0 0)) else None
           | Some y \<Rightarrow>
               (case b64_value c4 of
                  None \<Rightarrow> if c4 = PadChar \<and> cs = [] then Some (take 2 (b64_group w x y 0)) else None
                | Some z \<Rightarrow>
                    (case b64_decode cs of None \<Rightarrow> None | Some bs \<Rightarrow> Some (b64_group w x y z @ bs))))
      | _ \<Rightarrow> None)"
| "b64_decode cs = None"

definition DecodeString :: "string \<Rightarrow> bytes option" where
  "DecodeString s = b64_decode (filter (\<lambda>c. c \<noteq> CHR 0x0A \<and> c \<noteq> CHR 0x0D) s)"

section \<open>The round trip\<close>

lemma not_space: "32 < (of_char c :: nat) \<Longrightarrow> \<not> is_space c"
  by (auto simp: is_space_def less_eq_char_def)

lemma pad_not_space [simp]: "\<not> is_space PadChar"
  by (rule not_space) simp

lemma b64_digit_code:
  "n < 26 \<Longrightarrow> of_char (b64_digit n) = n + 65"
  "26 \<le> n \<Longrightarrow> n < 52 \<Longrightarrow> of_char (b64_digit n) = n + 71"
  "52 \<le> n \<Longrightarrow> n < 62 \<Longrightarrow> of_char (b64_digit n) = n - 4"
  by (simp_all add: b64_digit_def)

lemma b64_digits: "n < 64 \<Longrightarrow> b64_value (b64_digit n) = Some n \<and> \<not> is_space (b64_digit n)"
proof -
  assume "n < 64"
  then consider "n < 26" | "26 \<le> n" "n < 52" | "52 \<le> n" "n < 62" | "n = 62" | "n = 63"
    by linarith
  then show ?thesis
    by cases (auto simp: b64_value_def Let_def b64_digit_code intro!: not_space, auto simp: b64_digit_def)
qed

lemma b64_value_digit [simp]: "n < 64 \<Longrightarrow> b64_value (b64_digit n) = Some n"
  by (simp add: b64_digits)

lemma b64_value_pad [simp]: "b64_value PadChar = None"
  by (simp add: b64_value_def)

lemma sextets: "(v :: nat) div 262144 * 262144 + v div 4096 mod 64 * 4096 + v div 64 mod 64 * 64 + v mod 64 = v"
proof -
  have "v div 4096 = v div 262144 * 64 + v div 4096 mod 64"
    using div_mult_mod_eq [of "v div 4096" 64] by (simp add: div_mult2_eq [symmetric])
  moreover have "v div 64 = v div 4096 * 64 + v div 64 mod 64"
    using div_mult_mod_eq [of "v div 64" 64] by (simp add: div_mult2_eq [symmetric])
  moreover have "v = v div 64 * 64 + v mod 64"
    by simp
  ultimately show ?thesis by linarith
qed

lemma b64_group_quad:
  "b64_group (v div 262144) (v div 4096 mod 64) (v div 64 mod 64) (v mod 64)
    = [of_nat (v div 65536), of_nat (v div 256), of_nat v]"
  by (simp only: b64_group_def Let_def sextets)

lemma b64_quad_digits:
  assumes "v < 16777216"
  obtains w x y z where "b64_quad v = map b64_digit [w, x, y, z]" "w < 64" "x < 64" "y < 64" "z < 64"
    "b64_group w x y z = [of_nat (v div 65536), of_nat (v div 256), of_nat v]"
    "v mod 64 = 0 \<longrightarrow> z = 0" "v mod 4096 = 0 \<longrightarrow> y = 0"
proof
  show "b64_quad v = map b64_digit [v div 262144, v div 4096 mod 64, v div 64 mod 64, v mod 64]"
    by (simp add: b64_quad_def)
  show "v div 262144 < 64" using assms by (simp add: less_mult_imp_div_less)
  show "v mod 4096 = 0 \<longrightarrow> v div 64 mod 64 = 0" using mod_mult2_eq [of v 64 64] by simp
qed (simp_all add: b64_group_quad)

lemma group_bytes:
  fixes a b c :: byte
  defines "v \<equiv> unat a * 65536 + unat b * 256 + unat c"
  shows "[of_nat (v div 65536), of_nat (v div 256), of_nat v] = [a, b, c]" and "v < 16777216"
proof -
  have bounds: "unat a < 256" "unat b < 256" "unat c < 256" by simp_all
  have v: "v = unat c + (unat a * 256 + unat b) * 256" "v = (unat b * 256 + unat c) + unat a * 65536"
    by (simp_all add: v_def)
  have "unat b * 256 + unat c < 65536" using bounds by linarith
  then have "v div 65536 = unat a"
    unfolding v(2) by (subst div_mult_self1) simp_all
  moreover have "v div 256 = unat a * 256 + unat b"
    unfolding v(1) using bounds by (subst div_mult_self1) simp_all
  moreover have "of_nat v = c"
    unfolding v(1) using of_nat_byte_add_256 [of "unat a * 256 + unat b" c] by (simp only: add.commute)
  moreover have "of_nat (unat a * 256 + unat b) = b"
    by (rule of_nat_byte_add_256)
  ultimately show "[of_nat (v div 65536), of_nat (v div 256), of_nat v] = [a, b, c]"
    by (simp only:) simp
  show "v < 16777216" using bounds unfolding v_def by linarith
qed

lemma b64_decode_EncodeToString: "b64_decode (EncodeToString bs) = Some bs"
proof (induction bs rule: EncodeToString.induct)
  case (2 a)
  let ?v = "unat a * 65536"
  have v: "?v < 16777216" "?v mod 64 = 0" "?v mod 4096 = 0" "?v = unat a * 65536 + unat (0 :: byte) * 256 + unat (0 :: byte)"
    using unat_byte_less [of a] by (linarith, simp_all)
  obtain w x y z where q: "b64_quad ?v = map b64_digit [w, x, y, z]" "w < 64" "x < 64" "y < 64" "z < 64"
    "b64_group w x y z = [of_nat (?v div 65536), of_nat (?v div 256), of_nat ?v]" "?v mod 64 = 0 \<longrightarrow> z = 0" "?v mod 4096 = 0 \<longrightarrow> y = 0"
    by (rule b64_quad_digits [OF v(1)])
  have "b64_group w x 0 0 = [a, 0, 0]"
    using q(6) q(7) [THEN mp, OF v(2)] q(8) [THEN mp, OF v(3)] group_bytes(1) [of a 0 0, folded v(4)] by (simp only:)
  then show ?case
    unfolding EncodeToString.simps q(1) using q(2,3) by simp
next
  case (3 a b)
  let ?v = "unat a * 65536 + unat b * 256"
  have v: "?v < 16777216" "?v mod 64 = 0" "?v = unat a * 65536 + unat b * 256 + unat (0 :: byte)"
    using unat_byte_less [of a] unat_byte_less [of b] by (linarith, simp_all add: mod_add_eq [symmetric])
  obtain w x y z where q: "b64_quad ?v = map b64_digit [w, x, y, z]" "w < 64" "x < 64" "y < 64" "z < 64"
    "b64_group w x y z = [of_nat (?v div 65536), of_nat (?v div 256), of_nat ?v]" "?v mod 64 = 0 \<longrightarrow> z = 0"
    by (rule b64_quad_digits [OF v(1)])
  have "b64_group w x y 0 = [a, b, 0]"
    using q(6) q(7) [THEN mp, OF v(2)] group_bytes(1) [of a b 0, folded v(3)] by (simp only:)
  then show ?case
    unfolding EncodeToString.simps q(1) using q(2-4) by simp
next
  case (4 a b c bs)
  let ?v = "unat a * 65536 + unat b * 256 + unat c"
  obtain w x y z where q: "b64_quad ?v = map b64_digit [w, x, y, z]" "w < 64" "x < 64" "y < 64" "z < 64"
    "b64_group w x y z = [of_nat (?v div 65536), of_nat (?v div 256), of_nat ?v]"
    by (rule b64_quad_digits [OF group_bytes(2) [of a b c]])
  have "b64_group w x y z = [a, b, c]"
    using q(6) by (simp only: group_bytes(1))
  then show ?case
    unfolding EncodeToString.simps q(1) using q(2-5) "4.IH" by simp
qed simp

lemma b64_quad_chars: "v < 16777216 \<Longrightarrow> c \<in> set (b64_quad v) \<Longrightarrow> \<not> is_space c"
  by (erule b64_quad_digits) (auto simp: b64_digits)

lemma EncodeToString_chars: "c \<in> set (EncodeToString bs) \<Longrightarrow> \<not> is_space c"
proof (induction bs rule: EncodeToString.induct)
  case (2 a)
  moreover have "unat a * 65536 < 16777216" using unat_byte_less [of a] by linarith
  ultimately show ?case
    using b64_quad_chars [of "unat a * 65536" c] by (auto dest!: in_set_takeD intro: not_space)
next
  case (3 a b)
  moreover have "unat a * 65536 + unat b * 256 < 16777216"
    using unat_byte_less [of a] unat_byte_less [of b] by linarith
  ultimately show ?case
    using b64_quad_chars [of "unat a * 65536 + unat b * 256" c] by (auto dest!: in_set_takeD intro: not_space)
next
  case (4 a b d bs)
  then show ?case
    using b64_quad_chars [OF group_bytes(2), of c a b d] by auto
qed simp

lemma DecodeString_EncodeToString [simp, codec]: "DecodeString (EncodeToString bs) = Some bs"
proof -
  have "filter (\<lambda>c. c \<noteq> CHR 0x0A \<and> c \<noteq> CHR 0x0D) (EncodeToString bs) = EncodeToString bs"
    using EncodeToString_chars [of "CHR 0x0A" bs] EncodeToString_chars [of "CHR 0x0D" bs]
    by (auto simp: filter_id_conv is_space_def less_eq_char_def)
  then show ?thesis by (simp add: DecodeString_def b64_decode_EncodeToString)
qed

lemma EncodeToString_empty [simp]: "EncodeToString bs = [] \<longleftrightarrow> bs = []"
  by (cases bs rule: EncodeToString.cases) (auto simp: b64_quad_def)

end
