(* ===== verification/Keys.thy ===== *)
theory Keys
  imports Base64 CommitCodec
begin

text \<open>
  Keys and commit signatures: pkg/sign, and the key files of pkg/dnssec.

  The files are a state of any type with the calls of package os as the record \<open>F\<close>, and
  crypto/ed25519 is the record \<open>E\<close>, whose random source is a state of any type; what the
  theorems need of the two is \<open>fs_laws\<close> and \<open>ed25519_laws\<close>.  \<open>Sign\<close> and \<open>Verify\<close> of the
  library panic on a key of the wrong size.
\<close>

section \<open>The standard library\<close>

record 'f FS =
  ReadFile :: "'f \<Rightarrow> string \<Rightarrow> error + bytes"
  WriteFile :: "'f \<Rightarrow> string \<Rightarrow> bytes \<Rightarrow> nat \<Rightarrow> 'f \<times> (error + unit)"
  MkdirAll :: "'f \<Rightarrow> string \<Rightarrow> nat \<Rightarrow> 'f \<times> (error + unit)"
  Stat :: "'f \<Rightarrow> string \<Rightarrow> error + unit"
  path_Join :: "string \<Rightarrow> string \<Rightarrow> string"

record 'g Ed25519 =
  ed_GenerateKey :: "'g \<Rightarrow> 'g \<times> (error + bytes \<times> bytes)"
  ed_Sign :: "bytes \<Rightarrow> bytes \<Rightarrow> bytes"
  ed_Verify :: "bytes \<Rightarrow> bytes \<Rightarrow> bytes \<Rightarrow> bool"

abbreviation PublicKeySize :: nat where "PublicKeySize \<equiv> 32"
abbreviation PrivateKeySize :: nat where "PrivateKeySize \<equiv> 64"
abbreviation mode_0600 :: nat where "mode_0600 \<equiv> 384"
abbreviation mode_0644 :: nat where "mode_0644 \<equiv> 420"
abbreviation mode_0755 :: nat where "mode_0755 \<equiv> 493"

text \<open>The contents of a key file.\<close>

definition key_file :: "bytes \<Rightarrow> bytes" where
  "key_file k = bytes_of (EncodeToString k @ [NL])"

definition load_key :: "'f FS \<Rightarrow> 'f \<Rightarrow> string \<Rightarrow> nat \<Rightarrow> error + bytes" where
  "load_key F f path want =
     (case ReadFile F f path of
        Inl e \<Rightarrow> Inl e
      | Inr b \<Rightarrow>
          (case DecodeString (TrimSpace (string_of b)) of
             None \<Rightarrow> Inl (ErrOther ''bad base64'')
           | Some raw \<Rightarrow> if length raw \<noteq> want then Inl (ErrOther ''key size'') else Inr raw))"

section \<open>Commit signing keys (sign.go)\<close>

definition GenerateKeypair :: "'f FS \<Rightarrow> 'g Ed25519 \<Rightarrow> 'f \<Rightarrow> 'g \<Rightarrow> string \<Rightarrow> string \<Rightarrow> 'f \<times> 'g \<times> (error + unit)" where
  "GenerateKeypair F E f g pubPath privPath =
     (case ed_GenerateKey E g of
        (g', Inl e) \<Rightarrow> (f, g', Inl e)
      | (g', Inr (pub, priv)) \<Rightarrow>
          (case WriteFile F f pubPath (key_file pub) mode_0644 of
             (f1, Inl e) \<Rightarrow> (f1, g', Inl e)
           | (f1, Inr _) \<Rightarrow>
               (case WriteFile F f1 privPath (key_file priv) mode_0600 of (f2, res) \<Rightarrow> (f2, g', res))))"

definition LoadPrivateKey :: "'f FS \<Rightarrow> 'f \<Rightarrow> string \<Rightarrow> error + bytes" where
  "LoadPrivateKey F f path = load_key F f path PrivateKeySize"

definition LoadPublicKey :: "'f FS \<Rightarrow> 'f \<Rightarrow> string \<Rightarrow> error + bytes" where
  "LoadPublicKey F f path = load_key F f path PublicKeySize"

section \<open>Signatures of commits (sign.go)\<close>

abbreviation sig_prefix :: string where "sig_prefix \<equiv> ''ed25519:''"

definition unsigned_payload :: "(bytes \<Rightarrow> Hash) \<Rightarrow> Commit \<Rightarrow> bytes" where
  "unsigned_payload sha c = obj_Payload (snd (Commit_Encode sha (c\<lparr>c_Signature := []\<rparr>)))"

definition SignCommit :: "'g Ed25519 \<Rightarrow> (bytes \<Rightarrow> Hash) \<Rightarrow> Commit \<Rightarrow> bytes \<Rightarrow> error + Commit \<times> Hash \<times> Object" where
  "SignCommit E sha c priv =
     (if length priv \<noteq> PrivateKeySize then Inl GoPanic
      else
        let sig = ed_Sign E priv (unsigned_payload sha c);
            c' = c\<lparr>c_Signature := sig_prefix @ EncodeToString sig\<rparr>
        in (case Commit_Encode sha c' of (h, obj) \<Rightarrow> Inr (c', h, obj)))"

datatype sign_error = ErrUnsigned | ErrBadSignatureFormat | ErrSignatureMismatch | SignPanic

definition VerifyCommit :: "'g Ed25519 \<Rightarrow> (bytes \<Rightarrow> Hash) \<Rightarrow> Commit \<Rightarrow> bytes \<Rightarrow> sign_error option" where
  "VerifyCommit E sha c pub =
     (if c_Signature c = [] then Some ErrUnsigned
      else if \<not> HasPrefix (c_Signature c) sig_prefix then Some ErrBadSignatureFormat
      else case DecodeString (drop (length sig_prefix) (c_Signature c)) of
        None \<Rightarrow> Some ErrBadSignatureFormat
      | Some sig \<Rightarrow>
          if length pub \<noteq> PublicKeySize then Some SignPanic
          else if \<not> ed_Verify E pub (unsigned_payload sha c) sig then Some ErrSignatureMismatch
          else None)"

section \<open>Zone keys (dnssec.go)\<close>

record Keypair =
  kp_Public :: bytes
  kp_Private :: bytes

record ZoneKeys =
  zk_KSK :: Keypair
  zk_ZSK :: Keypair

definition canonZone :: "string \<Rightarrow> string" where
  "canonZone z =
     (let z = ToLower z in
      if z = [] then [] else if \<not> HasSuffix z ''.'' then z @ ''.'' else z)"

definition newKeypair :: "'g Ed25519 \<Rightarrow> 'g \<Rightarrow> 'g \<times> (error + Keypair)" where
  "newKeypair E g =
     (case ed_GenerateKey E g of
        (g', Inl e) \<Rightarrow> (g', Inl e)
      | (g', Inr (pub, priv)) \<Rightarrow> (g', Inr \<lparr>kp_Public = pub, kp_Private = priv\<rparr>))"

definition Generate :: "'g Ed25519 \<Rightarrow> 'g \<Rightarrow> 'g \<times> (error + ZoneKeys)" where
  "Generate E g =
     (case newKeypair E g of
        (g1, Inl e) \<Rightarrow> (g1, Inl e)
      | (g1, Inr ksk) \<Rightarrow>
          (case newKeypair E g1 of
             (g2, Inl e) \<Rightarrow> (g2, Inl e)
           | (g2, Inr zsk) \<Rightarrow> (g2, Inr \<lparr>zk_KSK = ksk, zk_ZSK = zsk\<rparr>)))"

definition key_files :: "ZoneKeys \<Rightarrow> string \<Rightarrow> (string \<times> bytes \<times> nat) list" where
  "key_files zk zone =
     [(zone @ ''ksk.priv'', key_file (kp_Private (zk_KSK zk)), mode_0600),
      (zone @ ''ksk.pub'', key_file (kp_Public (zk_KSK zk)), mode_0644),
      (zone @ ''zsk.priv'', key_file (kp_Private (zk_ZSK zk)), mode_0600),
      (zone @ ''zsk.pub'', key_file (kp_Public (zk_ZSK zk)), mode_0644)]"

fun write_files :: "'f FS \<Rightarrow> string \<Rightarrow> 'f \<Rightarrow> (string \<times> bytes \<times> nat) list \<Rightarrow> 'f \<times> (error + unit)" where
  "write_files F dir f [] = (f, Inr ())"
| "write_files F dir f ((filename, data, mode) # kvs) =
     (case WriteFile F f (path_Join F dir filename) data mode of
        (f1, Inl e) \<Rightarrow> (f1, Inl e)
      | (f1, Inr _) \<Rightarrow> write_files F dir f1 kvs)"

definition WriteToDir :: "'f FS \<Rightarrow> 'f \<Rightarrow> ZoneKeys \<Rightarrow> string \<Rightarrow> string \<Rightarrow> 'f \<times> (error + unit)" where
  "WriteToDir F f zk dir zone =
     (case MkdirAll F f dir mode_0755 of
        (f1, Inl e) \<Rightarrow> (f1, Inl e)
      | (f1, Inr _) \<Rightarrow> write_files F dir f1 (key_files zk (canonZone zone)))"

definition LoadFromDir :: "'f FS \<Rightarrow> 'f \<Rightarrow> string \<Rightarrow> string \<Rightarrow> error + ZoneKeys" where
  "LoadFromDir F f dir zone =
     (let zone = canonZone zone;
          loadKey = (\<lambda>filename want. load_key F f (path_Join F dir filename) want)
      in case loadKey (zone @ ''ksk.priv'') PrivateKeySize of
           Inl e \<Rightarrow> Inl e
         | Inr kskPriv \<Rightarrow>
             (case loadKey (zone @ ''ksk.pub'') PublicKeySize of
                Inl e \<Rightarrow> Inl e
              | Inr kskPub \<Rightarrow>
                  (case loadKey (zone @ ''zsk.priv'') PrivateKeySize of
                     Inl e \<Rightarrow> Inl e
                   | Inr zskPriv \<Rightarrow>
                       (case loadKey (zone @ ''zsk.pub'') PublicKeySize of
                          Inl e \<Rightarrow> Inl e
                        | Inr zskPub \<Rightarrow>
                            Inr \<lparr>zk_KSK = \<lparr>kp_Public = kskPub, kp_Private = kskPriv\<rparr>,
                                 zk_ZSK = \<lparr>kp_Public = zskPub, kp_Private = zskPriv\<rparr>\<rparr>))))"

definition HasKeys :: "'f FS \<Rightarrow> 'f \<Rightarrow> string \<Rightarrow> string \<Rightarrow> bool" where
  "HasKeys F f dir zone =
     (case Stat F f (path_Join F dir (canonZone zone @ ''ksk.priv'')) of Inl _ \<Rightarrow> False | Inr _ \<Rightarrow> True)"

section \<open>What the library promises\<close>

text \<open>
  A file that has been written is there and read back until its path is written again;
  \<open>filepath.Join\<close> keeps apart names that are single path elements.
\<close>

definition plain_name :: "string \<Rightarrow> bool" where
  "plain_name n \<longleftrightarrow> CHR ''/'' \<notin> set n \<and> n \<noteq> [] \<and> n \<noteq> ''.'' \<and> n \<noteq> ''..''"

definition fs_laws :: "'f FS \<Rightarrow> bool" where
  "fs_laws F \<longleftrightarrow>
     (\<forall>f p b m f'. WriteFile F f p b m = (f', Inr ()) \<longrightarrow> ReadFile F f' p = Inr b \<and> Stat F f' p = Inr ()
        \<and> (\<forall>q. q \<noteq> p \<longrightarrow> ReadFile F f' q = ReadFile F f q \<and> Stat F f' q = Stat F f q)) \<and>
     (\<forall>dir a b. plain_name a \<longrightarrow> plain_name b \<longrightarrow> path_Join F dir a = path_Join F dir b \<longrightarrow> a = b)"

text \<open>\<open>paired\<close>: the keys belong together.  A signature is not empty.\<close>

definition paired :: "'g Ed25519 \<Rightarrow> bytes \<Rightarrow> bytes \<Rightarrow> bool" where
  "paired E pub priv \<longleftrightarrow> length pub = PublicKeySize \<and> length priv = PrivateKeySize \<and>
     (\<forall>m. ed_Verify E pub m (ed_Sign E priv m))"

definition ed25519_laws :: "'g Ed25519 \<Rightarrow> bool" where
  "ed25519_laws E \<longleftrightarrow>
     (\<forall>g g' pub priv. ed_GenerateKey E g = (g', Inr (pub, priv)) \<longrightarrow> paired E pub priv)"

section \<open>Keys are read back\<close>

lemma load_key_file:
  assumes "ReadFile F f path = Inr (key_file k)" and "length k = want"
  shows "load_key F f path want = Inr k"
proof -
  have "TrimSpace (EncodeToString k @ [NL]) = EncodeToString k"
  proof (cases "EncodeToString k = []")
    case False
    then have "\<not> is_space (hd (EncodeToString k))" "\<not> is_space (last (EncodeToString k))"
      using EncodeToString_chars [of _ k] hd_in_set last_in_set by blast+
    with False show ?thesis
      by (simp add: TrimSpace_snoc TrimSpace_id is_space_def)
  qed (simp add: TrimSpace_def is_space_def)
  with assms show ?thesis by (simp add: load_key_def key_file_def del: bytes_of_append)
qed

lemma write_files_read:
  assumes "fs_laws F" and "write_files F dir f kvs = (f', Inr ())"
    and "distinct (map fst kvs)" and "\<forall>kv \<in> set kvs. plain_name (fst kv)"
  shows "(\<forall>(n, b, m) \<in> set kvs. ReadFile F f' (path_Join F dir n) = Inr b \<and> Stat F f' (path_Join F dir n) = Inr ())
    \<and> (\<forall>n. plain_name n \<longrightarrow> n \<notin> fst ` set kvs \<longrightarrow> ReadFile F f' (path_Join F dir n) = ReadFile F f (path_Join F dir n)
        \<and> Stat F f' (path_Join F dir n) = Stat F f (path_Join F dir n))"
  using assms(2-)
proof (induction kvs arbitrary: f)
  case (Cons kv kvs)
  obtain n b m where kv: "kv = (n, b, m)" by (cases kv)
  from Cons.prems(1) obtain f1 where w: "WriteFile F f (path_Join F dir n) b m = (f1, Inr ())"
    and rest: "write_files F dir f1 kvs = (f', Inr ())"
    by (auto simp: kv split: prod.splits sum.splits)
  have IH: "(\<forall>(n, b, m) \<in> set kvs. ReadFile F f' (path_Join F dir n) = Inr b \<and> Stat F f' (path_Join F dir n) = Inr ())
    \<and> (\<forall>n. plain_name n \<longrightarrow> n \<notin> fst ` set kvs \<longrightarrow> ReadFile F f' (path_Join F dir n) = ReadFile F f1 (path_Join F dir n)
        \<and> Stat F f' (path_Join F dir n) = Stat F f1 (path_Join F dir n))"
    using Cons.prems(2,3) by (intro Cons.IH rest) auto
  have n: "plain_name n" "n \<notin> fst ` set kvs"
    using Cons.prems(2,3) by (auto simp: kv)
  have join: "path_Join F dir q \<noteq> path_Join F dir n" if "plain_name q" "q \<noteq> n" for q
    using assms(1) n(1) that unfolding fs_laws_def by blast
  have 1: "ReadFile F f1 (path_Join F dir n) = Inr b" "Stat F f1 (path_Join F dir n) = Inr ()"
    using assms(1) w unfolding fs_laws_def by blast+
  have 2: "ReadFile F f1 (path_Join F dir q) = ReadFile F f (path_Join F dir q)"
      "Stat F f1 (path_Join F dir q) = Stat F f (path_Join F dir q)" if "plain_name q" "q \<noteq> n" for q
    using assms(1) w join [OF that] unfolding fs_laws_def by blast+
  show ?case
    using IH 1 2 n by (auto simp: kv)
qed simp

definition keys_ok :: "ZoneKeys \<Rightarrow> bool" where
  "keys_ok zk \<longleftrightarrow> (\<forall>k \<in> {zk_KSK zk, zk_ZSK zk}.
     length (kp_Public k) = PublicKeySize \<and> length (kp_Private k) = PrivateKeySize)"

lemma key_files_names:
  assumes "CHR ''/'' \<notin> set zone"
  shows "distinct (map fst (key_files zk zone))" and "\<forall>kv \<in> set (key_files zk zone). plain_name (fst kv)"
  using assms by (auto simp: key_files_def plain_name_def append_eq_Cons_conv)

lemma lower_slash: "CHR ''/'' = lower_char c \<Longrightarrow> c = CHR ''/''"
proof (rule ccontr)
  assume eq: "CHR ''/'' = lower_char c" and "c \<noteq> CHR ''/''"
  then have c: "65 \<le> (of_char c :: nat)" "(of_char c :: nat) \<le> 90" and l: "lower_char c = char_of (of_char c + 32 :: nat)"
    by (auto simp: lower_char_def less_eq_char_def split: if_splits)
  have "(of_char (CHR ''/'') :: nat) = of_char (char_of (of_char c + 32 :: nat))"
    using eq l by simp
  with c show False by simp
qed

text \<open>
  C18: the keys of a zone that \<open>WriteToDir\<close> has written are found by \<open>HasKeys\<close> and
  read back by \<open>LoadFromDir\<close>, under any spelling of the zone name.
\<close>

theorem zone_keys_roundtrip:
  assumes "fs_laws F" and "keys_ok zk" and "CHR ''/'' \<notin> set zone" and "canonZone zone' = canonZone zone"
    and "WriteToDir F f zk dir zone = (f', Inr ())"
  shows "LoadFromDir F f' dir zone' = Inr zk \<and> HasKeys F f' dir zone'"
proof -
  from assms(5) obtain f1 where w: "write_files F dir f1 (key_files zk (canonZone zone)) = (f', Inr ())"
    by (auto simp: WriteToDir_def split: prod.splits sum.splits)
  have "CHR ''/'' \<notin> set (canonZone zone)"
    using assms(3) by (auto simp: canonZone_def Let_def ToLower_def dest: lower_slash)
  note names = key_files_names [OF this, of zk]
  have read: "ReadFile F f' (path_Join F dir n) = Inr b" "Stat F f' (path_Join F dir n) = Inr ()"
    if "(n, b, m) \<in> set (key_files zk (canonZone zone))" for n b m
    using write_files_read [OF assms(1) w names] that by fast+
  have load: "load_key F f' (path_Join F dir n) (length k) = Inr k"
    if "(n, key_file k, m) \<in> set (key_files zk (canonZone zone))" for n k m
    using read(1) [OF that] by (rule load_key_file) simp
  have sizes: "length (kp_Private (zk_KSK zk)) = 64" "length (kp_Public (zk_KSK zk)) = 32"
      "length (kp_Private (zk_ZSK zk)) = 64" "length (kp_Public (zk_ZSK zk)) = 32"
    using assms(2) by (simp_all add: keys_ok_def)
  have loads: "load_key F f' (path_Join F dir (canonZone zone @ ''ksk.priv'')) 64 = Inr (kp_Private (zk_KSK zk))"
      "load_key F f' (path_Join F dir (canonZone zone @ ''ksk.pub'')) 32 = Inr (kp_Public (zk_KSK zk))"
      "load_key F f' (path_Join F dir (canonZone zone @ ''zsk.priv'')) 64 = Inr (kp_Private (zk_ZSK zk))"
      "load_key F f' (path_Join F dir (canonZone zone @ ''zsk.pub'')) 32 = Inr (kp_Public (zk_ZSK zk))"
    using load [of "canonZone zone @ ''ksk.priv''" "kp_Private (zk_KSK zk)" mode_0600]
      load [of "canonZone zone @ ''ksk.pub''" "kp_Public (zk_KSK zk)" mode_0644]
      load [of "canonZone zone @ ''zsk.priv''" "kp_Private (zk_ZSK zk)" mode_0600]
      load [of "canonZone zone @ ''zsk.pub''" "kp_Public (zk_ZSK zk)" mode_0644]
    by (simp_all add: key_files_def sizes)
  have "Stat F f' (path_Join F dir (canonZone zone @ ''ksk.priv'')) = Inr ()"
    by (rule read(2)) (simp add: key_files_def)
  with loads show ?thesis
    by (simp add: LoadFromDir_def HasKeys_def assms(4))
qed


text \<open>Files in an association list; every key generated is the same pair.\<close>

definition sample_fs :: "(string \<times> bytes) list FS" where
  "sample_fs = \<lparr>
     ReadFile = (\<lambda>f p. case map_of f p of None \<Rightarrow> Inl (ErrOther ''no such file'') | Some b \<Rightarrow> Inr b),
     WriteFile = (\<lambda>f p b m. (AList.update p b f, Inr ())),
     MkdirAll = (\<lambda>f d m. (f, Inr ())),
     Stat = (\<lambda>f p. case map_of f p of None \<Rightarrow> Inl (ErrOther ''no such file'') | Some b \<Rightarrow> Inr ()),
     path_Join = (\<lambda>d n. d @ ''/'' @ n)\<rparr>"

lemma sample_fs_laws: "fs_laws sample_fs"
  by (auto simp: fs_laws_def sample_fs_def update_conv')

definition sample_keypair :: "byte \<Rightarrow> Keypair" where
  "sample_keypair b = \<lparr>kp_Public = replicate 32 b, kp_Private = replicate 64 b\<rparr>"

definition sample_ed25519 :: "unit Ed25519" where
  "sample_ed25519 = \<lparr>
     ed_GenerateKey = (\<lambda>g. (g, Inr (replicate 32 1, replicate 64 1))),
     ed_Sign = (\<lambda>priv m. take 32 priv @ m),
     ed_Verify = (\<lambda>pub m sig. sig = pub @ m)\<rparr>"

lemma sample_ed25519_paired: "paired sample_ed25519 (replicate 32 b) (replicate 64 b)"
  by (simp add: paired_def sample_ed25519_def)

lemma sample_ed25519_laws: "ed25519_laws sample_ed25519"
  unfolding ed25519_laws_def
proof (intro allI impI)
  fix g g' pub priv assume "ed_GenerateKey sample_ed25519 g = (g', Inr (pub, priv))"
  then have "pub = replicate 32 1" "priv = replicate 64 1" by (simp_all add: sample_ed25519_def)
  then show "paired sample_ed25519 pub priv" using sample_ed25519_paired [of 1] by simp
qed

theorem zone_keys_roundtrip_witness:
  "LoadFromDir sample_fs (fst (WriteToDir sample_fs [] \<lparr>zk_KSK = sample_keypair 1, zk_ZSK = sample_keypair 2\<rparr> ''keys'' ''foo.com.''))
     ''keys'' ''Foo.com'' = Inr \<lparr>zk_KSK = sample_keypair 1, zk_ZSK = sample_keypair 2\<rparr>"
proof -
  let ?zk = "\<lparr>zk_KSK = sample_keypair 1, zk_ZSK = sample_keypair 2\<rparr>"
  have "keys_ok ?zk" by (simp add: keys_ok_def sample_keypair_def)
  moreover have "canonZone ''Foo.com'' = canonZone ''foo.com.''" by code_simp
  moreover have "snd (WriteToDir sample_fs [] ?zk ''keys'' ''foo.com.'') = Inr ()"
    by (simp add: WriteToDir_def sample_fs_def) (simp add: key_files_def)
  ultimately show ?thesis
    using zone_keys_roundtrip [OF sample_fs_laws, of ?zk "''foo.com.''" "''Foo.com''" "[]" "''keys''"
        "fst (WriteToDir sample_fs [] ?zk ''keys'' ''foo.com.'')"]
    by (simp add: prod_eq_iff)
qed

section \<open>Signed commits verify\<close>

lemma norm_commit_text:
  assumes "norm_commit c = c"
  shows "norm_commit (c\<lparr>c_Signature := sg\<rparr>) = c\<lparr>c_Signature := sg\<rparr>"
  using assms by (cases c) (simp add: norm_commit_def)

lemma commit_ok_signature:
  "commit_ok c \<Longrightarrow> commit_ok (c\<lparr>c_Signature := sig_prefix @ EncodeToString sg\<rparr>)"
  using EncodeToString_chars [of NL sg] by (auto simp: commit_ok_def is_space_def less_eq_char_def)

definition signed_commit :: "'g Ed25519 \<Rightarrow> (bytes \<Rightarrow> Hash) \<Rightarrow> bytes \<Rightarrow> Commit \<Rightarrow> Commit" where
  "signed_commit E sha priv c = c\<lparr>c_Signature := sig_prefix @ EncodeToString (ed_Sign E priv (unsigned_payload sha c))\<rparr>"

lemma unsigned_payload_signed [simp]: "unsigned_payload sha (signed_commit E sha priv c) = unsigned_payload sha c"
  by (simp add: signed_commit_def unsigned_payload_def)

lemma SignCommit_signed:
  "length priv = PrivateKeySize \<Longrightarrow> SignCommit E sha c priv = Inr (signed_commit E sha priv c, Commit_Encode sha (signed_commit E sha priv c))"
  by (simp add: SignCommit_def signed_commit_def Let_def split: prod.splits)

lemma signed_commit_ok:
  assumes "commit_ok c" and "norm_commit c = c"
  shows "commit_ok (signed_commit E sha priv c)" and "norm_commit (signed_commit E sha priv c) = signed_commit E sha priv c"
  using commit_ok_signature [OF assms(1)] norm_commit_text [OF assms(2)] by (simp_all add: signed_commit_def)

lemma DecodeCommit_signed:
  "commit_ok c \<Longrightarrow> norm_commit c = c \<Longrightarrow>
    DecodeCommit (bytes_of (commit_text (signed_commit E sha priv c))) = Inr (signed_commit E sha priv c)"
  by (simp only: DecodeCommit_commit_text [OF signed_commit_ok(1)] signed_commit_ok(2))

lemma VerifyCommit_signed:
  "paired E pub priv \<Longrightarrow> VerifyCommit E sha (signed_commit E sha priv c) pub = None"
  using unsigned_payload_signed [of sha E priv c] by (simp add: VerifyCommit_def paired_def signed_commit_def HasPrefix_def)

text \<open>
  C17: \<open>SignCommit\<close> of a commit as it is decoded from the store succeeds and changes
  nothing but the signature; what it writes is decoded to the same signed commit, which
  \<open>VerifyCommit\<close> accepts with the public key of the pair.  The same commit with another
  signed content is rejected whenever the signature does not verify for that content.
\<close>

theorem sign_commit_verifies:
  assumes "paired E pub priv" and "commit_ok c" and "norm_commit c = c"
  shows "\<exists>c' h obj. SignCommit E sha c priv = Inr (c', h, obj)
    \<and> c'\<lparr>c_Signature := c_Signature c\<rparr> = c \<and> (h, obj) = Commit_Encode sha c'
    \<and> DecodeCommit (obj_Payload obj) = Inr c' \<and> VerifyCommit E sha c' pub = None
    \<and> (\<forall>d. c_Signature d = c_Signature c' \<longrightarrow>
         \<not> ed_Verify E pub (unsigned_payload sha d) (ed_Sign E priv (unsigned_payload sha c)) \<longrightarrow>
         VerifyCommit E sha d pub = Some ErrSignatureMismatch)"
proof -
  let ?c = "signed_commit E sha priv c"
  have "DecodeCommit (obj_Payload (snd (Commit_Encode sha ?c))) = Inr ?c"
    by (simp add: Commit_Encode_def Encode_def DecodeCommit_signed [OF assms(2,3)])
  moreover have "SignCommit E sha c priv = Inr (?c, Commit_Encode sha ?c)"
    by (rule SignCommit_signed) (use assms(1) in \<open>simp add: paired_def\<close>)
  moreover have "VerifyCommit E sha ?c pub = None" by (rule VerifyCommit_signed [OF assms(1)])
  moreover have "VerifyCommit E sha d pub = Some ErrSignatureMismatch"
    if "c_Signature d = c_Signature ?c" "\<not> ed_Verify E pub (unsigned_payload sha d) (ed_Sign E priv (unsigned_payload sha c))" for d
    using that assms(1) by (simp add: VerifyCommit_def signed_commit_def paired_def HasPrefix_def)
  moreover have "?c\<lparr>c_Signature := c_Signature c\<rparr> = c" by (simp add: signed_commit_def)
  ultimately show ?thesis
    by (intro exI [of _ ?c] exI [of _ "fst (Commit_Encode sha ?c)"] exI [of _ "snd (Commit_Encode sha ?c)"]) auto
qed

theorem sign_commit_verifies_witness:
  "\<exists>c' h obj. SignCommit sample_ed25519 sample_sha (norm_commit sample_commit) (replicate 64 1) = Inr (c', h, obj)
    \<and> DecodeCommit (obj_Payload obj) = Inr c' \<and> VerifyCommit sample_ed25519 sample_sha c' (replicate 32 1) = None"
proof -
  have "commit_ok (norm_commit sample_commit)" "norm_commit (norm_commit sample_commit) = norm_commit sample_commit"
    by code_simp+
  then show ?thesis
    using sign_commit_verifies [OF sample_ed25519_paired [of 1], of "norm_commit sample_commit" sample_sha] by blast
qed

end
