(* ===== verification/ZoneSign.thy ===== *)
theory ZoneSign
  imports Keys Resolver
begin

text \<open>
  DNSSEC: the records and signatures of pkg/dnssec, and pkg/zonesign, which stages a
  signed view of a zone (\<open>SignZone\<close>) or new signatures for the records an edit has
  touched (\<open>AutoSign\<close>).

  The DNSSEC functions of the DNS library are one more parameter, \<open>X\<close>.  \<open>mk_DNSKEY\<close>,
  \<open>mk_NSEC\<close> and \<open>mk_RRSIG\<close> build the data of a record from the fields of the struct;
  \<open>RRSIG_Sign\<close> is the method that fills in the signature.  Go iterates over a map in an
  order of its own choice, which is the argument \<open>ord\<close>, one order per loop; maps are
  association lists.  The clock is the argument \<open>now\<close>.
\<close>

section \<open>The library\<close>

record RRSIGData =
  sg_TypeCovered :: "16 word"
  sg_Algorithm :: byte
  sg_Labels :: byte
  sg_OrigTtl :: "32 word"
  sg_Expiration :: "32 word"
  sg_Inception :: "32 word"
  sg_KeyTag :: "16 word"
  sg_SignerName :: string
  sg_Signature :: string

record 'd SEC =
  mk_DNSKEY :: "16 word \<Rightarrow> byte \<Rightarrow> byte \<Rightarrow> string \<Rightarrow> 'd"
  mk_NSEC :: "string \<Rightarrow> 16 word list \<Rightarrow> 'd"
  mk_RRSIG :: "RRSIGData \<Rightarrow> 'd"
  StringToType :: "string \<Rightarrow> 16 word option"
  CountLabel :: "string \<Rightarrow> nat"
  KeyTag :: "'d RR \<Rightarrow> 16 word"
  RRSIG_Sign :: "bytes \<Rightarrow> 'd RR \<Rightarrow> 'd RR list \<Rightarrow> error + 'd RR"

abbreviation "TypeRRSIG \<equiv> 46 :: 16 word"
abbreviation "TypeNSEC \<equiv> 47 :: 16 word"
abbreviation "TypeDNSKEY \<equiv> 48 :: 16 word"
abbreviation "ClassINET \<equiv> 1 :: 16 word"
abbreviation "RSASHA256 \<equiv> 8 :: byte"
abbreviation "ED25519 \<equiv> 15 :: byte"

definition mk_rr :: "string \<Rightarrow> 16 word \<Rightarrow> 32 word \<Rightarrow> 'd \<Rightarrow> 'd RR" where
  "mk_rr name rrtype ttl d = \<lparr>rr_Name = name, rr_Rrtype = rrtype, rr_Class = ClassINET, rr_Ttl = ttl, rr_Data = d\<rparr>"

section \<open>Keys and signatures (dnssec.go)\<close>

definition dnskey_rr :: "'d SEC \<Rightarrow> string \<Rightarrow> 32 word \<Rightarrow> 16 word \<Rightarrow> byte \<Rightarrow> string \<Rightarrow> 'd RR" where
  "dnskey_rr X zone ttl flags alg key = mk_rr zone TypeDNSKEY ttl (mk_DNSKEY X flags 3 alg key)"

definition DNSKEYs :: "'d SEC \<Rightarrow> ZoneKeys \<Rightarrow> string \<Rightarrow> 32 word \<Rightarrow> 'd RR list" where
  "DNSKEYs X zk zone ttl =
     (let zone = canonZone zone in
      [dnskey_rr X zone ttl 257 ED25519 (EncodeToString (kp_Public (zk_KSK zk))),
       dnskey_rr X zone ttl 256 ED25519 (EncodeToString (kp_Public (zk_ZSK zk)))])"

definition SignRRset :: "'d SEC \<Rightarrow> 32 word \<Rightarrow> 'd RR list \<Rightarrow> string \<Rightarrow> Keypair \<Rightarrow> bool \<Rightarrow> 32 word \<Rightarrow> 32 word \<Rightarrow> error + 'd RR" where
  "SignRRset X now rrs zone key isKSK inception expiration =
     (case rrs of
        [] \<Rightarrow> Inl (ErrOther ''SignRRset: empty rrset'')
      | hdr # _ \<Rightarrow>
          let inception = (if inception = 0 then now else inception);
              expiration = (if expiration = 0 then inception + 30 * 24 * 3600 else expiration);
              zone = canonZone zone;
              keyFlag = (if isKSK then 257 else 256);
              keyDNSKEY = dnskey_rr X zone (rr_Ttl hdr) keyFlag ED25519 (EncodeToString (kp_Public key));
              sig = mk_rr (rr_Name hdr) TypeRRSIG (rr_Ttl hdr) (mk_RRSIG X
                \<lparr>sg_TypeCovered = rr_Rrtype hdr, sg_Algorithm = ED25519,
                 sg_Labels = of_nat (CountLabel X (rr_Name hdr)), sg_OrigTtl = rr_Ttl hdr,
                 sg_Expiration = expiration, sg_Inception = inception, sg_KeyTag = KeyTag X keyDNSKEY,
                 sg_SignerName = zone, sg_Signature = []\<rparr>)
          in RRSIG_Sign X (kp_Private key) sig rrs)"

section \<open>Options and helpers (zonesign.go)\<close>

record Options =
  o_TTL :: "32 word"
  o_ValidityDays :: "32 word"

definition opt_ttl :: "Options \<Rightarrow> 32 word" where
  "opt_ttl opts = (if o_TTL opts = 0 then 300 else o_TTL opts)"

definition opt_validityDays :: "Options \<Rightarrow> 32 word" where
  "opt_validityDays opts = (if o_ValidityDays opts = 0 then 30 else o_ValidityDays opts)"

definition placeholderDNSKEYs :: "'d SEC \<Rightarrow> string \<Rightarrow> 32 word \<Rightarrow> 'd RR list" where
  "placeholderDNSKEYs X zoneName ttl =
     [dnskey_rr X zoneName ttl 257 RSASHA256 ''AwEAAcUlFV1vhmqx6NSOUOJgPLkNgmpC0c8oXdSnPp9LpvWPdcA3'',
      dnskey_rr X zoneName ttl 256 RSASHA256 ''AwEAAdVlGW2whnrx7OTPVPKhQMlOhnqD1d9pYeTpQq+MqwXQecB4'']"

definition placeholderRRSIG :: "'d SEC \<Rightarrow> string \<Rightarrow> string \<Rightarrow> string \<Rightarrow> 32 word \<Rightarrow> 32 word \<Rightarrow> 32 word \<Rightarrow> 'd RR" where
  "placeholderRRSIG X owner covered zoneName origTTL inception expiration =
     (let origTTL = (if origTTL = 0 then 300 else origTTL) in
      mk_rr owner TypeRRSIG origTTL (mk_RRSIG X
        \<lparr>sg_TypeCovered = (case StringToType X covered of None \<Rightarrow> 0 | Some c \<Rightarrow> c), sg_Algorithm = RSASHA256,
         sg_Labels = of_nat (CountLabel X owner), sg_OrigTtl = origTTL,
         sg_Expiration = expiration, sg_Inception = inception, sg_KeyTag = 0,
         sg_SignerName = zoneName, sg_Signature = ''AAAA''\<rparr>))"

text \<open>The codes of the known types, each once, in ascending order.\<close>

definition typesToBitmap :: "'d SEC \<Rightarrow> string list \<Rightarrow> 16 word list" where
  "typesToBitmap X types = sort (remdups (List.map_filter (StringToType X) types))"

fun owner_labels :: "string list \<Rightarrow> string \<Rightarrow> string" where
  "owner_labels [] out = out"
| "owner_labels (l # ls) out = owner_labels ls (if out = [] then l else out @ ''.'' @ l)"

definition ownerFQDN :: "string \<Rightarrow> string list \<Rightarrow> string" where
  "ownerFQDN zoneName path =
     (if path = [] then zoneName else owner_labels (rev path) [] @ ''.'' @ zoneName)"

definition stripZoneOwner :: "string \<Rightarrow> string \<Rightarrow> string" where
  "stripZoneOwner owner zoneName =
     (if owner = zoneName then ''@''
      else if length owner > length zoneName + 1 \<and> drop (length owner - length zoneName - 1) owner = ''.'' @ zoneName
      then take (length owner - length zoneName - 1) owner
      else owner)"

text \<open>Keeps the first of equal strings.\<close>

definition uniqStrings :: "string list \<Rightarrow> string list" where
  "uniqStrings xs = (if length xs \<le> 1 then xs else rev (remdups (rev xs)))"

section \<open>SignZone\<close>

type_synonym types = "(string \<times> Hash) list"
type_synonym owners = "(string \<times> types) list"

datatype loop = NsecTypes string | SigOwners | SigTypes string | NsecCover string | SigSets | Groups

type_synonym map_order = "loop \<Rightarrow> string list \<Rightarrow> string list"

definition types_of :: "owners \<Rightarrow> string \<Rightarrow> types" where
  "types_of owners owner = (case map_of owners owner of None \<Rightarrow> [] | Some ts \<Rightarrow> ts)"

definition add_type :: "owners \<Rightarrow> string \<Rightarrow> string \<Rightarrow> Hash \<Rightarrow> owners" where
  "add_type owners owner rrtype h = AList.update owner (AList.update rrtype h (types_of owners owner)) owners"

definition collect_owner :: "string \<Rightarrow> string list \<Rightarrow> string \<Rightarrow> Hash \<Rightarrow> owners \<Rightarrow> owners \<times> (error + unit)" where
  "collect_owner zoneName path rrtype blobHash owners =
     (add_type owners (ownerFQDN zoneName path) rrtype blobHash, Inr ())"

definition nsec_rr :: "'d SEC \<Rightarrow> 32 word \<Rightarrow> string \<Rightarrow> string \<Rightarrow> string list \<Rightarrow> 'd RR" where
  "nsec_rr X ttl owner next types =
     mk_rr owner TypeNSEC ttl (mk_NSEC X next (typesToBitmap X (uniqStrings (types @ [''NSEC'', ''RRSIG'']))))"

text \<open>The loop that stages the NSEC chain, over the indices of \<open>names\<close>.\<close>

fun stage_nsecs :: "'s Storage \<Rightarrow> (bytes \<Rightarrow> Hash) \<Rightarrow> 'd DNS \<Rightarrow> 'd SEC \<Rightarrow> map_order \<Rightarrow> 32 word \<Rightarrow> string list \<Rightarrow> nat list \<Rightarrow>
    's Repo \<Rightarrow> owners \<Rightarrow> 's Repo \<times> (error + owners)" where
  "stage_nsecs S sha D X ord ttl names [] r owners = (r, Inr owners)"
| "stage_nsecs S sha D X ord ttl names (i # is) r owners =
     (let owner = names ! i;
          next = names ! ((i + 1) mod length names);
          types = ord (NsecTypes owner) (map fst (types_of owners owner))
      in case Repo_Set S sha D r [nsec_rr X ttl owner next types] of
           (r1, Inl e) \<Rightarrow> (r1, Inl e)
         | (r1, Inr _) \<Rightarrow> stage_nsecs S sha D X ord ttl names is r1 (add_type owners owner ''NSEC'' ZeroHash))"

text \<open>The records a signature covers.\<close>

definition coveredRRs :: "'s Storage \<Rightarrow> (bytes \<Rightarrow> Hash) \<Rightarrow> 'd DNS \<Rightarrow> 'd SEC \<Rightarrow> map_order \<Rightarrow> 32 word \<Rightarrow> string \<Rightarrow> Hash \<Rightarrow>
    'd RR list \<Rightarrow> string list \<Rightarrow> 's Repo \<Rightarrow> string \<Rightarrow> types \<Rightarrow> string \<Rightarrow> error + 'd RR list" where
  "coveredRRs S sha D X ord ttl zoneName head dnskeySet names r owner ts t =
     (if t = ''DNSKEY'' then Inr dnskeySet
      else if t = ''NSEC'' then
        let idx = Search (length names) (\<lambda>i. owner \<le> names ! i);
            next = names ! ((idx + 1) mod length names)
        in Inr [nsec_rr X ttl owner next (ord (NsecCover owner) (map fst ts))]
      else case Repo_Lookup S sha D r head (stripZoneOwner owner zoneName) t of
        Inl e \<Rightarrow> Inl e
      | Inr rs \<Rightarrow> Inr (rs_RRs rs))"

definition rrsig_for :: "'d SEC \<Rightarrow> 32 word \<Rightarrow> ZoneKeys option \<Rightarrow> string \<Rightarrow> string \<Rightarrow> string \<Rightarrow> 32 word \<Rightarrow> 32 word \<Rightarrow>
    'd RR list \<Rightarrow> error + 'd RR" where
  "rrsig_for X now zkeys zoneName owner t inception expiration rrs =
     (case zkeys of
        Some zk \<Rightarrow>
          let isKSK = (t = ''DNSKEY'');
              signer = (if isKSK then zk_KSK zk else zk_ZSK zk)
          in SignRRset X now rrs zoneName signer isKSK inception expiration
      | None \<Rightarrow>
          (case rrs of
             [] \<Rightarrow> Inl GoPanic
           | rr # _ \<Rightarrow> Inr (placeholderRRSIG X owner t zoneName (rr_Ttl rr) inception expiration)))"

fun sign_types :: "(string \<Rightarrow> error + 'd RR list) \<Rightarrow> (string \<Rightarrow> 'd RR list \<Rightarrow> error + 'd RR) \<Rightarrow> string list \<Rightarrow> error + 'd RR list" where
  "sign_types cover sign [] = Inr []"
| "sign_types cover sign (t # ts) =
     (if t = ''RRSIG'' then sign_types cover sign ts
      else case cover t of
        Inl e \<Rightarrow> Inl e
      | Inr rrs \<Rightarrow>
          (case sign t rrs of
             Inl e \<Rightarrow> Inl e
           | Inr rrsig \<Rightarrow>
               (case sign_types cover sign ts of
                  Inl e \<Rightarrow> Inl e
                | Inr sigs \<Rightarrow> Inr (rrsig # sigs))))"

fun sign_owners :: "(string \<Rightarrow> error + 'd RR list) \<Rightarrow> string list \<Rightarrow> error + (string \<times> 'd RR list) list" where
  "sign_owners sigs_of [] = Inr []"
| "sign_owners sigs_of (owner # os) =
     (case sigs_of owner of
        Inl e \<Rightarrow> Inl e
      | Inr sigs \<Rightarrow>
          (case sign_owners sigs_of os of
             Inl e \<Rightarrow> Inl e
           | Inr rest \<Rightarrow> Inr ((owner, sigs) # rest)))"

text \<open>All signatures of an owner are one RRset, with the TTL of the first.\<close>

definition base_ttl :: "'d RR list \<Rightarrow> 'd RR list" where
  "base_ttl sigs = map (\<lambda>s. s\<lparr>rr_Ttl := rr_Ttl (hd sigs)\<rparr>) sigs"

fun stage_sigs :: "'s Storage \<Rightarrow> (bytes \<Rightarrow> Hash) \<Rightarrow> 'd DNS \<Rightarrow> (string \<Rightarrow> 'd RR list) \<Rightarrow> string list \<Rightarrow>
    's Repo \<Rightarrow> 's Repo \<times> (error + unit)" where
  "stage_sigs S sha D ownerSigs [] r = (r, Inr ())"
| "stage_sigs S sha D ownerSigs (owner # os) r =
     (let sigs = ownerSigs owner in
      if sigs = [] then stage_sigs S sha D ownerSigs os r
      else case Repo_Set S sha D r (base_ttl sigs) of
        (r1, Inl e) \<Rightarrow> (r1, Inl e)
      | (r1, Inr _) \<Rightarrow> stage_sigs S sha D ownerSigs os r1)"

definition lookup_sigs :: "(string \<times> 'd RR list) list \<Rightarrow> string \<Rightarrow> 'd RR list" where
  "lookup_sigs m owner = (case map_of m owner of None \<Rightarrow> [] | Some sigs \<Rightarrow> sigs)"

definition SignZone :: "'s Storage \<Rightarrow> (bytes \<Rightarrow> Hash) \<Rightarrow> 'd DNS \<Rightarrow> 'd SEC \<Rightarrow> nat \<Rightarrow> 32 word \<Rightarrow> map_order \<Rightarrow> 's Repo \<Rightarrow>
    ZoneKeys option \<Rightarrow> Options \<Rightarrow> 's Repo \<times> (error + unit) option" where
  "SignZone S sha D X fuel now ord r zkeys opts =
     (let ttl = opt_ttl opts;
          validityDays = opt_validityDays opts;
          zoneName = r_activeZone r
      in if zoneName = [] then (r, Some (Inl (ErrOther ''sign-zone: no active zone'')))
      else case Repo_Head S r of
        Inl e \<Rightarrow> (r, Some (Inl e))
      | Inr (_, _, head) \<Rightarrow>
          if IsZero head then (r, Some (Inl (ErrOther ''sign-zone: HEAD is empty'')))
          else let headTree = TreeOf S (r_storage r) head in
          if IsZero headTree then (r, Some (Inl (ErrOther ''sign-zone: HEAD has no tree'')))
          else case WalkAllLeaves S sha (r_storage r) fuel headTree (collect_owner zoneName) [] of
            None \<Rightarrow> (r, None)
          | Some (owners, Inl e) \<Rightarrow> (r, Some (Inl e))
          | Some (owners, Inr _) \<Rightarrow>
              if owners = [] then (r, Some (Inl (ErrOther ''sign-zone: zone is empty'')))
              else
                let dnskeySet = (case zkeys of Some zk \<Rightarrow> DNSKEYs X zk zoneName ttl | None \<Rightarrow> placeholderDNSKEYs X zoneName ttl)
                in (case Repo_Set S sha D r dnskeySet of
                      (r1, Inl e) \<Rightarrow> (r1, Some (Inl e))
                    | (r1, Inr _) \<Rightarrow>
                        let owners1 = add_type owners zoneName ''DNSKEY'' ZeroHash;
                            names = sort (map fst owners1)
                        in (case stage_nsecs S sha D X ord ttl names [0..<length names] r1 owners1 of
                              (r2, Inl e) \<Rightarrow> (r2, Some (Inl e))
                            | (r2, Inr owners2) \<Rightarrow>
                                let inception = now;
                                    expiration = inception + validityDays * 24 * 3600;
                                    sigs_of = (\<lambda>owner. let ts = types_of owners2 owner in
                                      sign_types (coveredRRs S sha D X ord ttl zoneName head dnskeySet names r2 owner ts)
                                        (\<lambda>t. rrsig_for X now zkeys zoneName owner t inception expiration)
                                        (ord (SigTypes owner) (map fst ts)))
                                in (case sign_owners sigs_of (ord SigOwners (map fst owners2)) of
                                      Inl e \<Rightarrow> (r2, Some (Inl e))
                                    | Inr ownerSigs \<Rightarrow>
                                        (case stage_sigs S sha D (lookup_sigs ownerSigs) (ord SigSets (map fst ownerSigs)) r2 of
                                           (r3, res) \<Rightarrow> (r3, Some res))))))"

section \<open>AutoSign\<close>

record groupKey =
  g_owner :: string
  g_rtype :: string

text \<open>The touched records by owner and type, in the order of their first record.\<close>

definition group_key :: "'d DNS \<Rightarrow> 'd DNSQ \<Rightarrow> 'd RR \<Rightarrow> groupKey" where
  "group_key D Q rr = \<lparr>g_owner = ToLower (Fqdn Q (rr_Name rr)), g_rtype = TypeToString D (rr_Rrtype rr)\<rparr>"

definition touched_groups :: "'d DNS \<Rightarrow> 'd DNSQ \<Rightarrow> 'd RR list \<Rightarrow> (groupKey \<times> 'd RR list) list" where
  "touched_groups D Q touched =
     (let known = filter (\<lambda>rr. TypeToString D (rr_Rrtype rr) \<noteq> []) touched
      in map (\<lambda>k. (k, filter (\<lambda>rr. group_key D Q rr = k) known)) (remdups (map (group_key D Q) known)))"

definition existing_sigs :: "'s Storage \<Rightarrow> (bytes \<Rightarrow> Hash) \<Rightarrow> 'd DNS \<Rightarrow> 's Repo \<Rightarrow> Hash \<Rightarrow> string \<Rightarrow> 'd RR list" where
  "existing_sigs S sha D r head owner =
     (if IsZero head then []
      else case Repo_Lookup S sha D r head (stripZoneOwner owner (r_activeZone r)) ''RRSIG'' of
        Inl e \<Rightarrow> []
      | Inr existing \<Rightarrow> rs_RRs existing)"

fun resign_groups :: "'d SEC \<Rightarrow> 'd DNSQ \<Rightarrow> 32 word \<Rightarrow> ZoneKeys \<Rightarrow> string \<Rightarrow> 32 word \<Rightarrow> 32 word \<Rightarrow>
    (groupKey \<times> 'd RR list) list \<Rightarrow> (string \<times> 'd RR list) list \<Rightarrow> error + (string \<times> 'd RR list) list" where
  "resign_groups X Q now zk zoneName inception expiration [] ownerSigs = Inr ownerSigs"
| "resign_groups X Q now zk zoneName inception expiration ((k, rrs) # gs) ownerSigs =
     (let coveredCode = (case StringToType X (g_rtype k) of None \<Rightarrow> 0 | Some c \<Rightarrow> c);
          kept = filter (\<lambda>e. AsRRSIG Q (rr_Data e) \<noteq> Some coveredCode) (lookup_sigs ownerSigs (g_owner k))
      in case SignRRset X now rrs zoneName (zk_ZSK zk) False inception expiration of
           Inl e \<Rightarrow> Inl e
         | Inr rrsig \<Rightarrow>
             resign_groups X Q now zk zoneName inception expiration gs (AList.update (g_owner k) (kept @ [rrsig]) ownerSigs))"

text \<open>\<open>gord\<close> is the order of the loop over the groups.\<close>

definition AutoSign :: "'s Storage \<Rightarrow> (bytes \<Rightarrow> Hash) \<Rightarrow> 'd DNS \<Rightarrow> 'd SEC \<Rightarrow> 'd DNSQ \<Rightarrow> 32 word \<Rightarrow> map_order \<Rightarrow>
    ((groupKey \<times> 'd RR list) list \<Rightarrow> (groupKey \<times> 'd RR list) list) \<Rightarrow> 's Repo \<Rightarrow> ZoneKeys option \<Rightarrow> 'd RR list \<Rightarrow>
    's Repo \<times> (error + unit)" where
  "AutoSign S sha D X Q now ord gord r zkeys touched =
     (let zoneName = r_activeZone r in
      if zoneName = [] then (r, Inr ())
      else case zkeys of
        None \<Rightarrow> (r, Inr ())
      | Some zk \<Rightarrow>
          let groups = touched_groups D Q touched;
              head = (case Repo_Head S r of Inl _ \<Rightarrow> ZeroHash | Inr (_, _, h) \<Rightarrow> h);
              ownerSigs = map (\<lambda>owner. (owner, existing_sigs S sha D r head owner)) (remdups (map (g_owner \<circ> fst) groups));
              inception = now;
              expiration = inception + 30 * 24 * 3600
          in (case resign_groups X Q now zk zoneName inception expiration (gord groups) ownerSigs of
                Inl e \<Rightarrow> (r, Inl e)
              | Inr ownerSigs' \<Rightarrow> stage_sigs S sha D (lookup_sigs ownerSigs') (ord SigSets (map fst ownerSigs')) r))"

end
