(* ===== verification/ZoneSignCorrect.thy ===== *)
theory ZoneSignCorrect
  imports ZoneSign ResolverCorrect
begin

text \<open>
  The parts of zone signing: owner names and the paths of a tree, what a staged
  RRset is and how the staging loops extend the staging area, the NSEC records, and
  the records that a signature covers.
\<close>

section \<open>Owner names\<close>

lemma owner_labels_Join: "out \<noteq> [] \<Longrightarrow> owner_labels ls out = Join (out # ls) ''.''"
proof (induction ls arbitrary: out)
  case (Cons l ls)
  have "owner_labels (l # ls) out = Join ((out @ ''.'' @ l) # ls) ''.''"
    using Cons.IH [of "out @ ''.'' @ l"] Cons.prems by simp
  also have "\<dots> = Join (out # l # ls) ''.''"
    by (cases ls) simp_all
  finally show ?case .
qed simp

definition relname :: "string list \<Rightarrow> string" where
  "relname p = Join (rev p) ''.''"

text \<open>A path of the tree as the repository writes it.\<close>

definition path_ok :: "string list \<Rightarrow> bool" where
  "path_ok p \<longleftrightarrow> name_ok (relname p) \<and> splitFQDN (relname p) = p"

lemma path_okD:
  assumes "path_ok p" and "p \<noteq> []"
  shows "relname p \<noteq> []" and "relname p \<noteq> ''@''" and "ToLower (relname p) = relname p" and "[] \<notin> set p"
proof -
  have norm: "normFQDN (relname p) = relname p" and split: "splitFQDN (relname p) = p"
    and labels: "[] \<notin> set (splitFQDN (relname p))"
    using assms(1) by (auto simp: path_ok_def name_ok_def)
  show ne: "relname p \<noteq> []"
    using split assms(2) by (auto simp: splitFQDN_def normFQDN_def ToLower_def TrimSuffix_def Let_def)
  have *: "TrimSuffix (ToLower (relname p)) ''.'' = relname p"
    using norm ne by (auto simp: normFQDN_def Let_def split: if_splits)
  have "length (ToLower (relname p)) = length (relname p)" by (simp add: ToLower_def)
  with * show "ToLower (relname p) = relname p"
    by (auto simp: TrimSuffix_def HasSuffix_def suffix_def split: if_splits)
  show "relname p \<noteq> ''@''"
    using norm by (auto simp: normFQDN_def Let_def split: if_splits)
  show "[] \<notin> set p" using labels split by simp
qed

definition zone_name :: "string \<Rightarrow> bool" where
  "zone_name z \<longleftrightarrow> z \<noteq> [] \<and> canonicalName z = z"

lemma zone_nameD: "zone_name z \<Longrightarrow> ToLower z = z" "zone_name z \<Longrightarrow> HasSuffix z ''.''"
  unfolding zone_name_def canonicalName_def Let_def
proof -
  assume *: "z \<noteq> [] \<and> (if \<not> HasSuffix (ToLower z) ''.'' then ToLower z @ ''.'' else ToLower z) = z"
  have "length (ToLower z) = length z" by (simp add: ToLower_def)
  with * show "ToLower z = z" by (auto split: if_splits) (metis length_append_singleton n_not_Suc_n)
  with * show "HasSuffix z ''.''" by (auto split: if_splits)
qed

lemma owner_of_path:
  assumes "path_ok p" and "p \<noteq> []"
  shows "ownerFQDN z p = relname p @ ''.'' @ z"
proof -
  obtain l ls where rev: "rev p = l # ls" using assms(2) by (cases "rev p") auto
  then have "l \<in> set p" by (metis list.set_intros(1) set_rev)
  then have "l \<noteq> []" using path_okD(4) [OF assms] by auto
  then have "owner_labels (rev p) [] = relname p"
    using owner_labels_Join [of l ls] by (simp add: rev relname_def)
  with assms(2) show ?thesis by (simp add: ownerFQDN_def)
qed

lemma owner_apex [simp]: "ownerFQDN z [] = z"
  by (simp add: ownerFQDN_def)

lemma ToLower_append: "ToLower (a @ b) = ToLower a @ ToLower b"
  by (simp add: ToLower_def)

lemma stripZoneOwner_sub:
  assumes "n \<noteq> []"
  shows "stripZoneOwner (n @ ''.'' @ z) z = n"
proof -
  have 1: "n @ ''.'' @ z \<noteq> z" by simp
  have 2: "length (n @ ''.'' @ z) - length z - 1 = length n" by simp
  have 3: "length z + 1 < length (n @ ''.'' @ z)" using assms by simp
  have 4: "drop (length n) (n @ ''.'' @ z) = ''.'' @ z" by simp
  have 5: "take (length n) (n @ ''.'' @ z) = n" by simp
  show ?thesis unfolding stripZoneOwner_def 2 4 5 using 1 3 by presburger
qed

lemma owner_names:
  assumes "zone_name z" and "path_ok p"
  shows "canonicalName (ownerFQDN z p) = ownerFQDN z p"
    and "stripZoneSuffix (ownerFQDN z p) z = (if p = [] then [] else relname p)"
    and "splitFQDN (normFQDN (stripZoneOwner (ownerFQDN z p) z)) = p"
proof -
  note z = zone_nameD [OF assms(1)]
  show "canonicalName (ownerFQDN z p) = ownerFQDN z p"
  proof (cases "p = []")
    case False
    have dot: "ToLower ''.'' = ''.''" by code_simp
    have suf: "HasSuffix (relname p @ ''.'' @ z) ''.''"
      using z(2) by (auto simp: HasSuffix_def suffix_def)
    moreover have "ToLower (relname p @ ''.'' @ z) = relname p @ ''.'' @ z"
      using path_okD(3) [OF assms(2) False] z(1) dot by (simp only: ToLower_append)
    ultimately show ?thesis
      unfolding owner_of_path [OF assms(2) False] canonicalName_def Let_def by simp
  qed (use assms(1) in \<open>simp add: zone_name_def\<close>)
  show "stripZoneSuffix (ownerFQDN z p) z = (if p = [] then [] else relname p)"
    using stripZoneSuffix_sub [of "relname p" z] path_okD(1) [OF assms(2)]
    by (cases "p = []") (simp_all add: owner_of_path [OF assms(2)])
  show "splitFQDN (normFQDN (stripZoneOwner (ownerFQDN z p) z)) = p"
  proof (cases "p = []")
    case True
    then show ?thesis by (simp add: stripZoneOwner_def normFQDN_def splitFQDN_def ToLower_def lower_char_def TrimSuffix_def HasSuffix_def suffix_def)
  next
    case False
    have "relname p \<noteq> []" by (rule path_okD(1) [OF assms(2) False])
    then have "stripZoneOwner (ownerFQDN z p) z = relname p"
      unfolding owner_of_path [OF assms(2) False] by (rule stripZoneOwner_sub)
    with assms(2) show ?thesis by (simp add: path_ok_def)
  qed
qed

lemma owner_inject:
  assumes "zone_name z" and "path_ok p" and "path_ok q" and "ownerFQDN z p = ownerFQDN z q"
  shows "p = q"
  by (metis owner_names(3) [OF assms(1,2)] owner_names(3) [OF assms(1,3)] assms(4))

definition sec_key :: "string \<Rightarrow> string \<Rightarrow> string \<Rightarrow> stagingKey" where
  "sec_key z owner ty = \<lparr>sk_fqdn = stripZoneSuffix owner z, sk_rrtype = ty\<rparr>"

lemma sec_key_inject:
  assumes "zone_name z" and "path_ok p" and "path_ok q"
    and "sec_key z (ownerFQDN z p) t = sec_key z (ownerFQDN z q) u"
  shows "p = q"
proof -
  have eq: "(if p = [] then [] else relname p) = (if q = [] then [] else relname q)"
    using assms(4) owner_names(2) [OF assms(1,2)] owner_names(2) [OF assms(1,3)] by (simp add: sec_key_def)
  have "relname p \<noteq> []" if "p \<noteq> []" using path_okD(1) [OF assms(2)] that by simp
  moreover have "relname q \<noteq> []" if "q \<noteq> []" using path_okD(1) [OF assms(3)] that by simp
  moreover have "p = q" if "relname p = relname q" using assms(2,3) that by (metis path_ok_def)
  ultimately show ?thesis using eq by (auto split: if_splits)
qed

section \<open>What is staged\<close>

definition staged :: "(bytes \<Rightarrow> Hash) \<Rightarrow> 'd DNS \<Rightarrow> 's Repo \<Rightarrow> stagingKey \<Rightarrow> 'd RR list \<Rightarrow> bool" where
  "staged sha D r k rrs \<longleftrightarrow> (\<exists>payload. EncodeRRset D rrs = Inr payload \<and>
     map_of (r_staging r) k = Some \<lparr>sv_tombstone = False, sv_blob = blob_hash sha payload\<rparr>)"

lemma staged_frame: "map_of (r_staging r') k = map_of (r_staging r) k \<Longrightarrow> staged sha D r' k rrs \<longleftrightarrow> staged sha D r k rrs"
  by (simp add: staged_def)

lemma set_key_sec_key:
  "canonicalName (rr_Name rr) = owner \<Longrightarrow> TypeToString D (rr_Rrtype rr) = ty \<Longrightarrow> set_key D z rr = sec_key z owner ty"
  by (simp add: set_key_def sec_key_def)

lemma types_of_add_type:
  "types_of (add_type owners o1 t h) o2 = (if o2 = o1 then AList.update t h (types_of owners o1) else types_of owners o2)"
  by (simp add: types_of_def add_type_def update_conv')

lemma map_fst_update: "k \<in> fst ` set al \<Longrightarrow> map fst (AList.update k v al) = map fst al"
  by (induction al) auto

context storage
begin

lemma Set_staged:
  assumes "Repo_Set S sha D r rrs = (r1, Inr ())"
  shows "staged sha D r1 (set_key D (r_activeZone r) (hd rrs)) rrs"
    and "k \<noteq> set_key D (r_activeZone r) (hd rrs) \<Longrightarrow> map_of (r_staging r1) k = map_of (r_staging r) k"
    and "r_activeZone r1 = r_activeZone r" and "grows (r_storage r) (r_storage r1)"
  by (rule Set_ok [OF assms], simp add: staged_def update_conv')
    (rule Set_ok [OF assms], auto simp: update_conv' extends_def)+

lemma stage_nsecs_spec:
  fixes r r2 :: "'s Repo"
  assumes "stage_nsecs S sha D X ord ttl names ixs r owners = (r2, Inr owners2)" and "distinct ixs"
    and sub: "\<And>i. i \<in> set ixs \<Longrightarrow> i < length names" "set names \<subseteq> fst ` set owners" and z: "z = r_activeZone r"
    and names: "distinct names"
      "\<And>n. n \<in> set names \<Longrightarrow> canonicalName n = n" "inj_on (\<lambda>n. sec_key z n ''NSEC'') (set names)"
    and ty: "TypeToString D TypeNSEC = ''NSEC''"
  shows "(\<forall>i \<in> set ixs. staged sha D r2 (sec_key z (names ! i) ''NSEC'')
        [nsec_rr X ttl (names ! i) (names ! ((i + 1) mod length names)) (ord (NsecTypes (names ! i)) (map fst (types_of owners (names ! i))))])
    \<and> (\<forall>k. (\<forall>i \<in> set ixs. k \<noteq> sec_key z (names ! i) ''NSEC'') \<longrightarrow> map_of (r_staging r2) k = map_of (r_staging r) k)
    \<and> r_activeZone r2 = z \<and> grows (r_storage r) (r_storage r2) \<and> map fst owners2 = map fst owners
    \<and> (\<forall>n. types_of owners2 n = (if n \<in> (!) names ` set ixs then AList.update ''NSEC'' ZeroHash (types_of owners n) else types_of owners n))"
  using assms(1,2) sub z
proof (induction ixs arbitrary: r owners)
  case (Cons i ixs)
  let ?n = "names ! i"
  let ?rr = "nsec_rr X ttl ?n (names ! ((i + 1) mod length names)) (ord (NsecTypes ?n) (map fst (types_of owners ?n)))"
  from Cons.prems(1) obtain r1 where set: "Repo_Set S sha D r [?rr] = (r1, Inr ())"
    and rest: "stage_nsecs S sha D X ord ttl names ixs r1 (add_type owners ?n ''NSEC'' ZeroHash) = (r2, Inr owners2)"
    by (auto simp: Let_def split: prod.splits sum.splits)
  have i: "i < length names" "?n \<in> set names" using Cons.prems(3) by auto
  have key: "set_key D (r_activeZone r) (hd [?rr]) = sec_key z ?n ''NSEC''"
    using names(2) [OF i(2)] ty Cons.prems(5) by (simp add: set_key_def sec_key_def nsec_rr_def mk_rr_def)
  note st = Set_staged [OF set, unfolded key]
  have keys: "map fst (add_type owners ?n ''NSEC'' ZeroHash) = map fst owners"
    unfolding add_type_def using i(2) Cons.prems(4) by (intro map_fst_update) auto
  have sub: "set names \<subseteq> fst ` set (add_type owners ?n ''NSEC'' ZeroHash)"
    using Cons.prems(4) keys by (metis set_map)
  have z1: "z = r_activeZone r1" using st(3) Cons.prems(5) by simp
  note IH = Cons.IH [OF rest _ _ sub z1]
  have IH: "(\<forall>j \<in> set ixs. staged sha D r2 (sec_key z (names ! j) ''NSEC'')
        [nsec_rr X ttl (names ! j) (names ! ((j + 1) mod length names))
          (ord (NsecTypes (names ! j)) (map fst (types_of (add_type owners ?n ''NSEC'' ZeroHash) (names ! j))))])"
      "\<And>k. (\<forall>j \<in> set ixs. k \<noteq> sec_key z (names ! j) ''NSEC'') \<Longrightarrow> map_of (r_staging r2) k = map_of (r_staging r1) k"
      "r_activeZone r2 = z" "grows (r_storage r1) (r_storage r2)" "map fst owners2 = map fst (add_type owners ?n ''NSEC'' ZeroHash)"
      "\<And>n. types_of owners2 n = (if n \<in> (!) names ` set ixs then AList.update ''NSEC'' ZeroHash (types_of (add_type owners ?n ''NSEC'' ZeroHash) n)
         else types_of (add_type owners ?n ''NSEC'' ZeroHash) n)"
    using IH Cons.prems(2,3) by simp_all
  have other: "names ! j \<noteq> ?n" "sec_key z (names ! j) ''NSEC'' \<noteq> sec_key z ?n ''NSEC''" if "j \<in> set ixs" for j
  proof -
    have j: "j < length names" "j \<noteq> i" using that Cons.prems(2,3) by auto
    then show "names ! j \<noteq> ?n" using i names(1) by (simp add: nth_eq_iff_index_eq)
    then show "sec_key z (names ! j) ''NSEC'' \<noteq> sec_key z ?n ''NSEC''"
      using names(3) i j nth_mem unfolding inj_on_def by blast
  qed
  have "staged sha D r2 (sec_key z ?n ''NSEC'') [?rr]"
  proof -
    have "\<forall>j \<in> set ixs. sec_key z ?n ''NSEC'' \<noteq> sec_key z (names ! j) ''NSEC''"
      by (rule ballI, rule not_sym, erule other(2))
    from staged_frame [OF IH(2) [OF this]] st(1) show ?thesis by blast
  qed
  moreover have "staged sha D r2 (sec_key z (names ! j) ''NSEC'')
        [nsec_rr X ttl (names ! j) (names ! ((j + 1) mod length names)) (ord (NsecTypes (names ! j)) (map fst (types_of owners (names ! j))))]"
    if "j \<in> set ixs" for j
    using IH(1) that other(1) [OF that] by (auto simp: types_of_add_type)
  moreover have "map_of (r_staging r2) k = map_of (r_staging r) k" if "\<forall>j \<in> set (i # ixs). k \<noteq> sec_key z (names ! j) ''NSEC''" for k
    using that IH(2) [of k] st(2) [of k] by simp
  moreover have "types_of owners2 n = (if n \<in> (!) names ` set (i # ixs) then AList.update ''NSEC'' ZeroHash (types_of owners n) else types_of owners n)" for n
    using IH(6) [of n] other(1) by (auto simp: types_of_add_type)
  moreover have "grows (r_storage r) (r_storage r2)"
    using st(4) IH(4) by (rule extends_trans)
  ultimately show ?case
    using IH(3,5) keys by simp
qed auto

end

section \<open>Signatures\<close>

lemma sign_types_all:
  "sign_types cover sign ts = Inr sigs \<Longrightarrow>
    list_all2 (\<lambda>t sig. \<exists>rrs. cover t = Inr rrs \<and> sign t rrs = Inr sig) (filter (\<lambda>t. t \<noteq> ''RRSIG'') ts) sigs"
proof (induction ts arbitrary: sigs)
  case (Cons t ts)
  then show ?case
    by (cases "cover t") (auto split: sum.splits if_splits)
qed auto

lemma sign_owners_all:
  assumes "sign_owners sigs_of os = Inr res" and "distinct os"
  shows "map fst res = os \<and> (\<forall>owner \<in> set os. sigs_of owner = Inr (lookup_sigs res owner))"
  using assms
proof (induction os arbitrary: res)
  case (Cons owner os)
  then obtain sigs rest where *: "sigs_of owner = Inr sigs" "sign_owners sigs_of os = Inr rest" "res = (owner, sigs) # rest"
    by (auto split: sum.splits)
  with Cons.IH [OF *(2)] Cons.prems(2) show ?case
    by (auto simp: lookup_sigs_def)
qed simp

lemma hd_base_ttl: "sigs \<noteq> [] \<Longrightarrow> hd (base_ttl sigs) = hd sigs"
  by (cases sigs) (simp_all add: base_ttl_def)

context storage
begin

lemma stage_sigs_spec:
  fixes r r2 :: "'s Repo"
  assumes "stage_sigs S sha D ownerSigs os r = (r2, Inr ())" and "distinct os"
    and owner: "\<And>n. n \<in> set os \<Longrightarrow> ownerSigs n \<noteq> [] \<and> canonicalName (rr_Name (hd (ownerSigs n))) = n
        \<and> TypeToString D (rr_Rrtype (hd (ownerSigs n))) = ''RRSIG''"
      "inj_on (\<lambda>n. sec_key z n ''RRSIG'') (set os)"
    and z: "z = r_activeZone r"
  shows "(\<forall>n \<in> set os. staged sha D r2 (sec_key z n ''RRSIG'') (base_ttl (ownerSigs n)))
    \<and> (\<forall>k. (\<forall>n \<in> set os. k \<noteq> sec_key z n ''RRSIG'') \<longrightarrow> map_of (r_staging r2) k = map_of (r_staging r) k)
    \<and> r_activeZone r2 = z \<and> grows (r_storage r) (r_storage r2)"
  using assms
proof (induction os arbitrary: r)
  case (Cons n os)
  have n: "ownerSigs n \<noteq> []" "canonicalName (rr_Name (hd (ownerSigs n))) = n" "TypeToString D (rr_Rrtype (hd (ownerSigs n))) = ''RRSIG''"
    using Cons.prems(3) [of n] by auto
  from Cons.prems(1) n(1) obtain r1 where set: "Repo_Set S sha D r (base_ttl (ownerSigs n)) = (r1, Inr ())"
    and rest: "stage_sigs S sha D ownerSigs os r1 = (r2, Inr ())"
    by (auto simp: Let_def split: prod.splits sum.splits)
  have key: "set_key D (r_activeZone r) (hd (base_ttl (ownerSigs n))) = sec_key z n ''RRSIG''"
    using n Cons.prems(5) by (simp add: hd_base_ttl set_key_sec_key)
  note st = Set_staged [OF set, unfolded key]
  have "(\<forall>n \<in> set os. staged sha D r2 (sec_key z n ''RRSIG'') (base_ttl (ownerSigs n)))
    \<and> (\<forall>k. (\<forall>n \<in> set os. k \<noteq> sec_key z n ''RRSIG'') \<longrightarrow> map_of (r_staging r2) k = map_of (r_staging r1) k)
    \<and> r_activeZone r2 = z \<and> grows (r_storage r1) (r_storage r2)"
  proof (rule Cons.IH [OF rest])
    show "z = r_activeZone r1" using st(3) Cons.prems(5) by simp
    show "inj_on (\<lambda>n. sec_key z n ''RRSIG'') (set os)"
      using Cons.prems(4) by (rule inj_on_subset) auto
  qed (use Cons.prems(2,3) in simp_all)
  note IH = this
  have other: "sec_key z m ''RRSIG'' \<noteq> sec_key z n ''RRSIG''" if "m \<in> set os" for m
    using Cons.prems(2,4) that unfolding inj_on_def by auto
  have "map_of (r_staging r2) (sec_key z n ''RRSIG'') = map_of (r_staging r1) (sec_key z n ''RRSIG'')"
    using IH other by metis
  then have "staged sha D r2 (sec_key z n ''RRSIG'') (base_ttl (ownerSigs n))"
    using st(1) by (simp add: staged_def)
  moreover have "grows (r_storage r) (r_storage r2)"
    by (rule extends_trans [OF st(4)]) (use IH in blast)
  moreover have "map_of (r_staging r2) k = map_of (r_staging r) k" if "\<forall>m \<in> set (n # os). k \<noteq> sec_key z m ''RRSIG''" for k
    using that IH st(2) [of k] by simp
  ultimately show ?case using IH by simp
qed auto

end

section \<open>The owners of a zone\<close>

lemma types_of_dom: "distinct (map fst (types_of owners n)) \<Longrightarrow> distinct (map fst (AList.update t h (types_of owners n)))"
  by (simp add: distinct_update)

lemma add_type_keys: "fst ` set (add_type owners n t h) = insert n (fst ` set owners)"
  by (auto simp: add_type_def dom_update)

lemma add_type_distinct:
  assumes "distinct (map fst owners)" and "\<And>n. distinct (map fst (types_of owners n))"
  shows "distinct (map fst (add_type owners o1 t h)) \<and> (\<forall>n. distinct (map fst (types_of (add_type owners o1 t h) n)))"
  using assms by (simp add: types_of_add_type types_of_dom) (simp add: add_type_def distinct_update)

lemma collect_owners:
  assumes "visit (collect_owner z) ls acc = (owners, res)"
    and "distinct (map fst acc)" and "\<And>n. distinct (map fst (types_of acc n))"
  shows "res = Inr () \<and> distinct (map fst owners) \<and> (\<forall>n. distinct (map fst (types_of owners n)))
    \<and> fst ` set owners = fst ` set acc \<union> {ownerFQDN z p |p t b. (p, t, b) \<in> set ls}
    \<and> (\<forall>n. fst ` set (types_of owners n) = fst ` set (types_of acc n) \<union> {t |p t b. (p, t, b) \<in> set ls \<and> ownerFQDN z p = n})"
  using assms
proof (induction ls arbitrary: acc)
  case (Cons l ls)
  obtain p t b where l: "l = (p, t, b)" by (cases l)
  let ?acc = "add_type acc (ownerFQDN z p) t b"
  have run: "visit (collect_owner z) ls ?acc = (owners, res)"
    using Cons.prems(1) by (simp add: l collect_owner_def [of z p])
  note d = add_type_distinct [OF Cons.prems(2,3), of "ownerFQDN z p" t b]
  have IH: "res = Inr () \<and> distinct (map fst owners) \<and> (\<forall>n. distinct (map fst (types_of owners n)))
    \<and> fst ` set owners = fst ` set ?acc \<union> {ownerFQDN z p |p t b. (p, t, b) \<in> set ls}
    \<and> (\<forall>n. fst ` set (types_of owners n) = fst ` set (types_of ?acc n) \<union> {t |p t b. (p, t, b) \<in> set ls \<and> ownerFQDN z p = n})"
    using d by (intro Cons.IH [OF run]) auto
  have "fst ` set (types_of ?acc n) = fst ` set (types_of acc n) \<union> (if n = ownerFQDN z p then {t} else {})" for n
    by (simp add: types_of_add_type dom_update)
  with IH show ?case
    by (auto simp: add_type_keys l)
qed auto

section \<open>What is expected of the library and of the zone\<close>

text \<open>
  The tables of type names, and \<open>RRSIG.Sign\<close>, which takes the owner and the type from the
  records it signs.  A loop over a map meets every key once.
\<close>

definition dnssec_laws :: "'d DNS \<Rightarrow> 'd SEC \<Rightarrow> bool" where
  "dnssec_laws D X \<longleftrightarrow> TypeToString D TypeRRSIG = ''RRSIG'' \<and> TypeToString D TypeNSEC = ''NSEC'' \<and>
     TypeToString D TypeDNSKEY = ''DNSKEY'' \<and>
     (\<forall>priv sig rr rrs s. RRSIG_Sign X priv sig (rr # rrs) = Inr s \<longrightarrow> rr_Name s = rr_Name rr \<and> rr_Rrtype s = TypeRRSIG)"

definition iterates_maps :: "map_order \<Rightarrow> bool" where
  "iterates_maps ord \<longleftrightarrow> (\<forall>l xs. mset (ord l xs) = mset xs)"

lemma iterates_mapsD:
  assumes "iterates_maps ord"
  shows "set (ord l xs) = set xs" and "distinct (ord l xs) \<longleftrightarrow> distinct xs"
  using assms by (metis iterates_maps_def mset_eq_setD) (metis assms iterates_maps_def mset_eq_imp_distinct_iff)

definition zone_paths :: "zone_map \<Rightarrow> string list set" where
  "zone_paths Z = insert [] {p. \<exists>t. Z p t \<noteq> None}"

definition signed_types :: "zone_map \<Rightarrow> string list \<Rightarrow> string set" where
  "signed_types Z p = {t. Z p t \<noteq> None} \<union> {''NSEC''} \<union> (if p = [] then {''DNSKEY''} else {})"

text \<open>
  A zone as the repository writes it: its paths are names in normal form, its types are
  in upper case, every RRset can be read and is owned by the name of its path, and only the apex has
  a DNSKEY.
\<close>

definition zone_clean :: "'s Storage \<Rightarrow> 'd DNS \<Rightarrow> 's \<Rightarrow> string \<Rightarrow> zone_map \<Rightarrow> bool" where
  "zone_clean S D s z Z \<longleftrightarrow> readable S D s Z \<and>
     (\<forall>p t. Z p t \<noteq> None \<longrightarrow> path_ok p \<and> ToUpper t = t \<and> (t = ''DNSKEY'' \<longrightarrow> p = []) \<and>
        (\<forall>rr \<in> set (cell_rrs S D s (Z p t)). canonicalName (rr_Name rr) = ownerFQDN z p))"

section \<open>NSEC records\<close>

lemma set_uniqStrings: "set (uniqStrings xs) = set xs"
  by (simp add: uniqStrings_def)

lemma typesToBitmap_cong: "set xs = set ys \<Longrightarrow> typesToBitmap X xs = typesToBitmap X ys"
proof -
  assume "set xs = set ys"
  then have "set (List.map_filter (StringToType X) xs) = set (List.map_filter (StringToType X) ys)"
    by (auto simp: List.map_filter_def)
  then show ?thesis
    by (simp add: typesToBitmap_def sorted_list_of_set_sort_remdups [symmetric])
qed

lemma nsec_rr_cong:
  assumes "set xs \<union> {''NSEC'', ''RRSIG''} = set ys \<union> {''NSEC'', ''RRSIG''}"
  shows "nsec_rr X ttl owner next xs = nsec_rr X ttl owner next ys"
proof -
  have "set (uniqStrings (xs @ [''NSEC'', ''RRSIG''])) = set (uniqStrings (ys @ [''NSEC'', ''RRSIG'']))"
    using assms unfolding set_uniqStrings by simp
  from typesToBitmap_cong [OF this, of X] show ?thesis
    by (simp only: nsec_rr_def)
qed

lemma Search_sorted:
  assumes "sorted names" and "distinct names" and "i < length names"
  shows "Search (length names) (\<lambda>j. names ! i \<le> names ! j) = i"
proof -
  let ?f = "\<lambda>j. names ! i \<le> names ! j" and ?k = "Search (length names) (\<lambda>j. names ! i \<le> names ! j)"
  have mono: "\<forall>j k. j \<le> k \<longrightarrow> k < length names \<longrightarrow> ?f j \<longrightarrow> ?f k"
    using assms(1) by (meson order_trans sorted_nth_mono)
  note S = Search_least [OF mono]
  have "\<not> i < ?k" using S(2) [of i] by blast
  moreover have "\<not> ?k < i"
  proof
    assume k: "?k < i"
    then have "names ! i \<le> names ! ?k" using S(3) [of ?k] assms(3) by simp
    moreover have "names ! ?k \<le> names ! i" "names ! ?k \<noteq> names ! i"
      using assms k by (simp_all add: sorted_nth_mono nth_eq_iff_index_eq)
    ultimately show False by simp
  qed
  ultimately show ?thesis by simp
qed

section \<open>A signed zone\<close>

text \<open>
  What \<open>SignZone\<close> promises of the name with number \<open>i\<close>: an NSEC record that points to the
  next name and lists the types of this one, and one RRset of signatures with
  a signature over the records of every type.
\<close>

definition nsec_at :: "'d SEC \<Rightarrow> 32 word \<Rightarrow> string list \<Rightarrow> nat \<Rightarrow> string list \<Rightarrow> 'd RR" where
  "nsec_at X ttl names i ts = nsec_rr X ttl (names ! i) (names ! ((i + 1) mod length names)) ts"

definition records_of :: "'s Storage \<Rightarrow> 'd DNS \<Rightarrow> 'd SEC \<Rightarrow> 's \<Rightarrow> zone_map \<Rightarrow> 'd RR list \<Rightarrow> 'd RR \<Rightarrow> string list \<Rightarrow> string \<Rightarrow> 'd RR list" where
  "records_of S D X s Z dnskeys nsec p t =
     (if t = ''DNSKEY'' then dnskeys else if t = ''NSEC'' then [nsec] else cell_rrs S D s (Z p t))"

definition owner_signed :: "'s Storage \<Rightarrow> (bytes \<Rightarrow> Hash) \<Rightarrow> 'd DNS \<Rightarrow> 'd SEC \<Rightarrow> 's Repo \<Rightarrow> ('d RR list \<Rightarrow> string \<Rightarrow> error + 'd RR) \<Rightarrow>
    's \<Rightarrow> string \<Rightarrow> zone_map \<Rightarrow> 32 word \<Rightarrow> 'd RR list \<Rightarrow> string list \<Rightarrow> nat \<Rightarrow> bool" where
  "owner_signed S sha D X r' sign s z Z ttl dnskeys names i \<longleftrightarrow>
     (\<exists>p ts sigs. p \<in> zone_paths Z \<and> names ! i = ownerFQDN z p \<and> distinct ts \<and> set ts = signed_types Z p
        \<and> staged sha D r' (sec_key z (names ! i) ''NSEC'') [nsec_at X ttl names i ts]
        \<and> list_all2 (\<lambda>t sig. sign (records_of S D X s Z dnskeys (nsec_at X ttl names i ts) p t) t = Inr sig)
            (filter (\<lambda>t. t \<noteq> ''RRSIG'') ts) sigs
        \<and> staged sha D r' (sec_key z (names ! i) ''RRSIG'') (base_ttl sigs))"

definition zone_signer :: "'d SEC \<Rightarrow> 32 word \<Rightarrow> ZoneKeys \<Rightarrow> string \<Rightarrow> 32 word \<Rightarrow> 'd RR list \<Rightarrow> string \<Rightarrow> error + 'd RR" where
  "zone_signer X now zk z expiration rrs t =
     SignRRset X now rrs z (if t = ''DNSKEY'' then zk_KSK zk else zk_ZSK zk) (t = ''DNSKEY'') now expiration"

lemma canonZone_zone_name: "zone_name z \<Longrightarrow> canonZone z = z"
  using zone_nameD [of z] by (auto simp: canonZone_def Let_def)

lemma SignRRset_header:
  assumes "SignRRset X now rrs z k b inc ex = Inr sig" and "dnssec_laws D X"
  shows "rrs \<noteq> []" and "rr_Name sig = rr_Name (hd rrs)" and "rr_Rrtype sig = TypeRRSIG"
proof -
  obtain rr rest where rrs: "rrs = rr # rest" using assms(1) by (cases rrs) (auto simp: SignRRset_def)
  then obtain priv sg where "RRSIG_Sign X priv sg (rr # rest) = Inr sig"
    using assms(1) unfolding SignRRset_def Let_def by auto
  with assms(2) have "rr_Name sig = rr_Name rr \<and> rr_Rrtype sig = TypeRRSIG"
    unfolding dnssec_laws_def by blast
  then show "rrs \<noteq> []" "rr_Name sig = rr_Name (hd rrs)" "rr_Rrtype sig = TypeRRSIG"
    by (simp_all add: rrs)
qed

context storage
begin

lemma rrset_at_stable:
  "rrset_at S D s b = Inr rs \<Longrightarrow> hist s \<subseteq> hist s' \<Longrightarrow> single_valued (hist s') \<Longrightarrow> rrset_at S D s' b = Inr rs"
  unfolding rrset_at_def by (cases "GetObject S s b") (auto dest: get_stable)

lemma coveredRRs_cell:
  fixes r r2 :: "'s Repo"
  assumes c: "loadCommit S (r_storage r) head = Inr c" "head \<noteq> ZeroHash" and root: "root_ok S sha (r_storage r) n (c_Tree c)"
    and Z: "Z = zone_of S sha (r_storage r) (c_Tree c)" "zone_clean S D (r_storage r) z Z" and z: "zone_name z"
    and g: "grows (r_storage r) (r_storage r2)" and healthy: "healthy (hist (r_storage r2))"
    and t: "Z p t \<noteq> None" "t \<noteq> ''DNSKEY''" "t \<noteq> ''NSEC''"
  shows "coveredRRs S sha D X ord ttl z head dnskeys names r2 (ownerFQDN z p) ts t = Inr (cell_rrs S D (r_storage r) (Z p t))"
proof -
  have sub: "hist (r_storage r) \<subseteq> hist (r_storage r2)" using g by (simp add: extends_def)
  have sv: "single_valued (hist (r_storage r2))" and zero: "ZeroHash \<notin> Domain (hist (r_storage r2))"
    using healthy by (simp_all add: healthy_def)
  obtain b rs where b: "Z p t = Some b" "rrset_at S D (r_storage r) b = Inr rs"
    using t(1) Z(2) unfolding zone_clean_def readable_def by blast
  have p: "path_ok p" "ToUpper t = t" using t(1) Z(2) by (auto simp: zone_clean_def)
  note look = Lookup_zone [OF loadCommit_stable [OF c(1) sub sv] c(2) root_ok_stable [OF root sub sv] zero,
      unfolded zone_of_stable [OF root sub sv] Z(1) [symmetric]]
  have "Repo_Lookup S sha D r2 head (stripZoneOwner (ownerFQDN z p) z) t = Inr rs"
    unfolding look owner_names(3) [OF z p(1)] p(2) b(1) using rrset_at_stable [OF b(2) sub sv] by simp
  with t(2,3) b show ?thesis by (simp add: coveredRRs_def cell_rrs_def)
qed

end

end
