(* ===== verification/ZoneSignRuns.thy ===== *)
theory ZoneSignRuns
  imports ZoneSignCorrect
begin

text \<open>
  Runs of \<open>SignZone\<close> and \<open>AutoSign\<close> on any store: the owners that the walk of the tree
  collects are those of the zone, so a successful run signs every owner, and the
  groups of touched records are signed again and nothing else.
\<close>

definition zone_owners :: "owners \<Rightarrow> string \<Rightarrow> owners" where
  "zone_owners owners z = add_type owners z ''DNSKEY'' ZeroHash"

lemma SignZone_ok:
  assumes "SignZone S sha D X fuel now ord r (Some zk) opts = (r', Some (Inr ()))" and "Repo_Head S r = Inr (zb, bn, head)"
  defines "z \<equiv> r_activeZone r" and "ttl \<equiv> opt_ttl opts" and "expiration \<equiv> now + opt_validityDays opts * 24 * 3600"
  obtains owners r1 r2 owners2 ownerSigs names where
    "head \<noteq> ZeroHash" "TreeOf S (r_storage r) head \<noteq> ZeroHash"
    "WalkAllLeaves S sha (r_storage r) fuel (TreeOf S (r_storage r) head) (collect_owner z) [] = Some (owners, Inr ())"
    "Repo_Set S sha D r (DNSKEYs X zk z ttl) = (r1, Inr ())"
    "names = sort (map fst (zone_owners owners z))"
    "stage_nsecs S sha D X ord ttl names [0..<length names] r1 (zone_owners owners z) = (r2, Inr owners2)"
    "sign_owners (\<lambda>owner. sign_types (coveredRRs S sha D X ord ttl z head (DNSKEYs X zk z ttl) names r2 owner (types_of owners2 owner))
        (\<lambda>t rrs. zone_signer X now zk z expiration rrs t) (ord (SigTypes owner) (map fst (types_of owners2 owner))))
      (ord SigOwners (map fst owners2)) = Inr ownerSigs"
    "stage_sigs S sha D (lookup_sigs ownerSigs) (ord SigSets (map fst ownerSigs)) r2 = (r', Inr ())"
proof -
  have sg: "(\<lambda>t. rrsig_for X now (Some zk) z owner t now expiration) = (\<lambda>t rrs. zone_signer X now zk z expiration rrs t)" for owner
    by (intro ext) (simp add: rrsig_for_def zone_signer_def Let_def)
  show thesis
    using assms(1) that
    unfolding SignZone_def Let_def assms(2) z_def [symmetric] ttl_def [symmetric] expiration_def [symmetric] zone_owners_def sg option.case
    by (auto split: if_splits sum.splits option.splits prod.splits)
qed

text \<open>The owners that \<open>SignZone\<close> collects are the names of the zone, each with its types.\<close>

definition owners_match :: "string \<Rightarrow> zone_map \<Rightarrow> owners \<Rightarrow> bool" where
  "owners_match z Z owners \<longleftrightarrow> distinct (map fst owners) \<and> fst ` set owners = ownerFQDN z ` zone_paths Z \<and>
     (\<forall>p \<in> zone_paths Z. distinct (map fst (types_of owners (ownerFQDN z p))) \<and>
        fst ` set (types_of owners (ownerFQDN z p)) = {t. Z p t \<noteq> None} \<union> (if p = [] then {''DNSKEY''} else {}))"

lemma zone_paths_ok:
  assumes "zone_clean S D s z Z" and "p \<in> zone_paths Z"
  shows "path_ok p"
proof -
  have "path_ok []" by (simp add: path_ok_def relname_def name_ok_def normFQDN_def splitFQDN_def ToLower_def TrimSuffix_def HasSuffix_def)
  with assms show ?thesis by (auto simp: zone_paths_def zone_clean_def)
qed

lemma zone_owners_match:
  assumes walk: "WalkAllLeaves S sha s fuel root (collect_owner z) [] = Some (owners, Inr ())" and root: "tree_ok S sha s fuel root" "root \<noteq> ZeroHash"
    and clean: "zone_clean S D s z (zone_of S sha s root)" and z: "zone_name z"
  shows "owners_match z (zone_of S sha s root) (zone_owners owners z)"
proof -
  let ?Z = "zone_of S sha s root" and ?ls = "leaf_list S sha s fuel [] root"
  have "visit (collect_owner z) ?ls [] = (owners, Inr ())"
    using walk root walkLeavesAt_visit [OF root(1), of "[]" "collect_owner z" "[]"] by (simp add: WalkAllLeaves_def)
  note col = collect_owners [OF this]
  have none: "types_of [] n = []" for n by (simp add: types_of_def)
  have leaves: "(p, t, b) \<in> set ?ls \<longleftrightarrow> ?Z p t = Some b" for p t b
    using leaf_list_set [OF root(1), of "[]"] root(2) by (simp add: zone_of_def)
  have col: "distinct (map fst owners)" "\<And>n. distinct (map fst (types_of owners n))"
      "fst ` set owners = {ownerFQDN z p |p t b. ?Z p t = Some b}"
      "\<And>n. fst ` set (types_of owners n) = {t |p t b. ?Z p t = Some b \<and> ownerFQDN z p = n}"
    using col by (simp_all add: leaves none)
  have "fst ` set (zone_owners owners z) = ownerFQDN z ` zone_paths ?Z"
    unfolding zone_owners_def add_type_keys col(3) zone_paths_def by (auto simp: image_iff)
  moreover have "fst ` set (types_of (zone_owners owners z) (ownerFQDN z p)) = {t. ?Z p t \<noteq> None} \<union> (if p = [] then {''DNSKEY''} else {})"
    if p: "p \<in> zone_paths ?Z" for p
  proof -
    have "q = p" if "?Z q t = Some b" "ownerFQDN z q = ownerFQDN z p" for q t b
      using that clean by (intro owner_inject [OF z _ zone_paths_ok [OF clean p]]) (auto simp: zone_clean_def)
    then have same: "fst ` set (types_of owners (ownerFQDN z p)) = {t. ?Z p t \<noteq> None}"
      unfolding col(4) by auto
    have "ownerFQDN z p = z \<longleftrightarrow> p = []"
      using owner_inject [OF z zone_paths_ok [OF clean p], of "[]"] zone_paths_ok [OF clean, of "[]"] by (auto simp: zone_paths_def)
    then show ?thesis
      using same by (cases "p = []") (simp_all add: zone_owners_def types_of_add_type dom_update)
  qed
  moreover have "distinct (map fst (zone_owners owners z)) \<and> (\<forall>n. distinct (map fst (types_of (zone_owners owners z) n)))"
    unfolding zone_owners_def by (rule add_type_distinct [OF col(1,2)])
  ultimately show ?thesis by (simp add: owners_match_def)
qed

lemma signature_header:
  assumes all: "list_all2 (\<lambda>t sig. sign (records_of S D X s Z dnskeys nsec p t) t = Inr sig) (filter (\<lambda>t. t \<noteq> ''RRSIG'') ts) sigs"
    and sign: "sign = zone_signer X now zk z ex" and dnskeys: "dnskeys = DNSKEYs X zk z ttl" and nsec: "rr_Name nsec = ownerFQDN z p"
    and ts: "set ts = signed_types Z p" and clean: "zone_clean S D s z Z" and laws: "dnssec_laws D X" and z: "zone_name z" and p: "path_ok p"
  shows "sigs \<noteq> [] \<and> canonicalName (rr_Name (hd sigs)) = ownerFQDN z p \<and> TypeToString D (rr_Rrtype (hd sigs)) = ''RRSIG''"
proof -
  have "''NSEC'' \<in> set (filter (\<lambda>t. t \<noteq> ''RRSIG'') ts)" by (simp add: ts signed_types_def)
  then obtain t rest where t: "filter (\<lambda>t. t \<noteq> ''RRSIG'') ts = t # rest"
    by (cases "filter (\<lambda>t. t \<noteq> ''RRSIG'') ts") auto
  with all obtain sig sigs' where sigs: "sigs = sig # sigs'" "sign (records_of S D X s Z dnskeys nsec p t) t = Inr sig"
    by (auto simp: list_all2_Cons1)
  let ?rrs = "records_of S D X s Z dnskeys nsec p t"
  have tm: "t \<in> signed_types Z p"
  proof -
    have "t \<in> set (filter (\<lambda>t. t \<noteq> ''RRSIG'') ts)" using t by simp
    then show ?thesis by (simp add: ts)
  qed
  have "zone_signer X now zk z ex ?rrs t = Inr sig" using sigs(2) by (simp add: sign)
  note hdr = SignRRset_header [OF this [unfolded zone_signer_def] laws]
  have "canonicalName (rr_Name (hd ?rrs)) = ownerFQDN z p"
  proof (cases "t = ''DNSKEY''")
    case True
    then have "p = []" using tm clean by (auto simp: signed_types_def zone_clean_def split: if_splits)
    with True z show ?thesis
      by (simp add: records_of_def dnskeys DNSKEYs_def dnskey_rr_def mk_rr_def Let_def canonZone_zone_name) (simp add: zone_name_def)
  next
    case False
    show ?thesis
    proof (cases "t = ''NSEC''")
      case True
      with False nsec owner_names(1) [OF z p] show ?thesis by (simp add: records_of_def)
    next
      case nns: False
      then have "Z p t \<noteq> None" using tm False by (auto simp: signed_types_def split: if_splits)
      moreover have "?rrs = cell_rrs S D s (Z p t)" using False nns by (simp add: records_of_def)
      ultimately show ?thesis using clean hdr(1) by (simp add: zone_clean_def)
    qed
  qed
  with hdr laws show ?thesis by (simp add: sigs dnssec_laws_def)
qed

context storage
begin

lemma covered_records:
  fixes r r2 :: "'s Repo"
  assumes c: "loadCommit S (r_storage r) head = Inr c" "head \<noteq> ZeroHash" and root: "root_ok S sha (r_storage r) n (c_Tree c)"
    and Z: "Z = zone_of S sha (r_storage r) (c_Tree c)" "zone_clean S D (r_storage r) z Z" and z: "zone_name z"
    and g: "grows (r_storage r) (r_storage r2)" and healthy: "healthy (hist (r_storage r2))"
    and names: "sorted names" "distinct names" "i < length names" "names ! i = ownerFQDN z p"
    and ts: "set ts = signed_types Z p" "set (ord (NsecCover (ownerFQDN z p)) (map fst tt)) = signed_types Z p"
    and t: "t \<in> signed_types Z p"
  shows "coveredRRs S sha D X ord ttl z head dnskeys names r2 (ownerFQDN z p) tt t
    = Inr (records_of S D X (r_storage r) Z dnskeys (nsec_at X ttl names i ts) p t)"
proof (cases "t = ''DNSKEY'' \<or> t = ''NSEC''")
  case True
  have "nsec_rr X ttl (ownerFQDN z p) (names ! ((i + 1) mod length names)) (ord (NsecCover (ownerFQDN z p)) (map fst tt))
      = nsec_at X ttl names i ts"
    unfolding nsec_at_def names(4) using ts by (intro nsec_rr_cong) simp
  with True show ?thesis
    using Search_sorted [OF names(1-3)] unfolding names(4) by (auto simp: coveredRRs_def records_of_def)
next
  case False
  then have "Z p t \<noteq> None" using t by (auto simp: signed_types_def split: if_splits)
  with coveredRRs_cell [OF c root Z z g healthy this] False show ?thesis
    by (simp add: records_of_def)
qed

end

context storage
begin

lemma stage_sigs_grows:
  "stage_sigs S sha D ownerSigs os r = (r2, Inr ()) \<Longrightarrow> grows (r_storage r) (r_storage r2)"
proof (induction os arbitrary: r)
  case (Cons n os)
  show ?case
  proof (cases "ownerSigs n = []")
    case True
    with Cons show ?thesis by simp
  next
    case False
    with Cons.prems obtain r1 where r1: "Repo_Set S sha D r (base_ttl (ownerSigs n)) = (r1, Inr ())" "stage_sigs S sha D ownerSigs os r1 = (r2, Inr ())"
      by (auto simp: Let_def split: prod.splits sum.splits)
    show ?thesis by (rule extends_trans [OF Set_staged(4) [OF r1(1)] Cons.IH [OF r1(2)]])
  qed
qed simp

lemma SignZone_signs:
  fixes r r' :: "'s Repo"
  defines "s \<equiv> r_storage r" and "z \<equiv> r_activeZone r"
  assumes run: "SignZone S sha D X fuel now ord r (Some zk) opts = (r', Some (Inr ()))"
    and head: "Repo_Head S r = Inr (zb, bn, head)" and c: "loadCommit S s head = Inr c" and tree: "tree_ok S sha s fuel (c_Tree c)"
    and healthy: "healthy (hist (r_storage r'))"
    and laws: "dnssec_laws D X" "iterates_maps ord" and zn: "zone_name z"
  defines "Z \<equiv> zone_of S sha s (c_Tree c)" and "dnskeys \<equiv> DNSKEYs X zk z (opt_ttl opts)"
    and "sign \<equiv> zone_signer X now zk z (now + opt_validityDays opts * 24 * 3600)"
  assumes clean: "zone_clean S D s z Z"
  shows "\<exists>names. sorted names \<and> distinct names \<and> set names = ownerFQDN z ` zone_paths Z
    \<and> staged sha D r' (sec_key z z ''DNSKEY'') dnskeys
    \<and> (\<forall>i < length names. owner_signed S sha D X r' sign s z Z (opt_ttl opts) dnskeys names i)
    \<and> (\<forall>k. sk_rrtype k \<notin> {''DNSKEY'', ''NSEC'', ''RRSIG''} \<longrightarrow> map_of (r_staging r') k = map_of (r_staging r) k)
    \<and> grows s (r_storage r') \<and> r_activeZone r' = z"
proof -
  let ?ttl = "opt_ttl opts"
  obtain owners r1 r2 owners2 ownerSigs names where
    nz: "head \<noteq> ZeroHash" "TreeOf S s head \<noteq> ZeroHash"
    and walk: "WalkAllLeaves S sha s fuel (TreeOf S s head) (collect_owner z) [] = Some (owners, Inr ())"
    and set1: "Repo_Set S sha D r dnskeys = (r1, Inr ())"
    and names: "names = sort (map fst (zone_owners owners z))"
    and nsecs: "stage_nsecs S sha D X ord ?ttl names [0..<length names] r1 (zone_owners owners z) = (r2, Inr owners2)"
    and signs: "sign_owners (\<lambda>owner. sign_types (coveredRRs S sha D X ord ?ttl z head dnskeys names r2 owner (types_of owners2 owner))
        (\<lambda>t rrs. sign rrs t) (ord (SigTypes owner) (map fst (types_of owners2 owner))))
      (ord SigOwners (map fst owners2)) = Inr ownerSigs"
    and stage: "stage_sigs S sha D (lookup_sigs ownerSigs) (ord SigSets (map fst ownerSigs)) r2 = (r', Inr ())"
    unfolding s_def z_def dnskeys_def sign_def by (rule SignZone_ok [OF run head])
  have root: "TreeOf S s head = c_Tree c" using TreeOf_loadCommit [OF c nz(1)] .
  have tz: "c_Tree c \<noteq> ZeroHash" using nz(2) root by simp
  have match: "owners_match z Z (zone_owners owners z)"
    unfolding Z_def using zone_owners_match [OF walk [unfolded root] tree tz clean [unfolded Z_def] zn] .
  have nset: "set names = ownerFQDN z ` zone_paths Z" "distinct names" "sorted names"
    using match by (simp_all add: names owners_match_def)
  have paths: "\<exists>p. p \<in> zone_paths Z \<and> path_ok p \<and> m = ownerFQDN z p" if "m \<in> set names" for m
    using that nset(1) zone_paths_ok [OF clean] by auto
  have canon: "canonicalName m = m" if "m \<in> set names" for m
    using paths [OF that] owner_names(1) [OF zn] by auto
  have inj: "inj_on (\<lambda>m. sec_key z m ty) (set names)" for ty
    using paths sec_key_inject [OF zn] by (intro inj_onI) metis
  have types: "TypeToString D TypeNSEC = ''NSEC''" "TypeToString D TypeDNSKEY = ''DNSKEY''" using laws(1) by (simp_all add: dnssec_laws_def)
  note st1 = Set_staged [OF set1]
  have key1: "set_key D (r_activeZone r) (hd dnskeys) = sec_key z z ''DNSKEY''"
    using zn types canonZone_zone_name [OF zn]
    by (simp add: set_key_def sec_key_def dnskeys_def DNSKEYs_def dnskey_rr_def mk_rr_def Let_def zone_name_def z_def)
  have N: "(\<forall>i \<in> set [0..<length names]. staged sha D r2 (sec_key z (names ! i) ''NSEC'')
        [nsec_rr X ?ttl (names ! i) (names ! ((i + 1) mod length names)) (ord (NsecTypes (names ! i)) (map fst (types_of (zone_owners owners z) (names ! i))))])
    \<and> (\<forall>k. (\<forall>i \<in> set [0..<length names]. k \<noteq> sec_key z (names ! i) ''NSEC'') \<longrightarrow> map_of (r_staging r2) k = map_of (r_staging r1) k)
    \<and> r_activeZone r2 = z \<and> grows (r_storage r1) (r_storage r2) \<and> map fst owners2 = map fst (zone_owners owners z)
    \<and> (\<forall>n. types_of owners2 n = (if n \<in> (!) names ` set [0..<length names] then AList.update ''NSEC'' ZeroHash (types_of (zone_owners owners z) n) else types_of (zone_owners owners z) n))"
  proof (rule stage_nsecs_spec [OF nsecs])
    show "set names \<subseteq> fst ` set (zone_owners owners z)" by (simp add: names)
    show "z = r_activeZone r1" using st1(3) by (simp add: z_def)
  qed (use canon inj types nset in simp_all)
  note N1 = N [THEN conjunct1] and N2 = N [THEN conjunct2, THEN conjunct1] and N3 = N [THEN conjunct2, THEN conjunct2]
  have tail: "r_activeZone r2 = z" "grows (r_storage r1) (r_storage r2)" "map fst owners2 = map fst (zone_owners owners z)"
    using N3 by blast+
  have owner_types: "distinct (map fst (types_of owners2 (ownerFQDN z p))) \<and> fst ` set (types_of owners2 (ownerFQDN z p)) = signed_types Z p"
    if p: "p \<in> zone_paths Z" for p
  proof -
    have "ownerFQDN z p \<in> set names" using nset(1) p by blast
    then have "ownerFQDN z p \<in> (!) names ` set [0..<length names]" by (auto simp: in_set_conv_nth intro!: image_eqI)
    then have "types_of owners2 (ownerFQDN z p) = AList.update ''NSEC'' ZeroHash (types_of (zone_owners owners z) (ownerFQDN z p))"
      using N3 by presburger
    with match p show ?thesis
      by (auto simp: owners_match_def distinct_update dom_update signed_types_def)
  qed
  have os: "distinct (ord SigOwners (map fst owners2))" "set (ord SigOwners (map fst owners2)) = set names"
    using match by (simp_all add: iterates_mapsD [OF laws(2)] tail(3) owners_match_def names)
  note so = sign_owners_all [OF signs os(1)]
  have os2: "distinct (ord SigSets (map fst ownerSigs))" "set (ord SigSets (map fst ownerSigs)) = set names"
    using so os by (simp_all add: iterates_mapsD [OF laws(2)] del: set_map)
  have g2: "grows s (r_storage r2)" using extends_trans [OF st1(4) tail(2)] by (simp add: s_def)
  have g3: "grows (r_storage r2) (r_storage r')" by (rule stage_sigs_grows [OF stage])
  have h2: "healthy (hist (r_storage r2))"
    by (rule healthy_subset [OF healthy]) (use g3 in \<open>simp add: extends_def\<close>)
  define ts where "ts m = ord (SigTypes m) (map fst (types_of owners2 m))" for m
  have ts: "distinct (ts (ownerFQDN z p))" "set (ts (ownerFQDN z p)) = signed_types Z p"
      "set (ord (NsecCover (ownerFQDN z p)) (map fst (types_of owners2 (ownerFQDN z p)))) = signed_types Z p"
    if "p \<in> zone_paths Z" for p
    using owner_types [OF that] by (simp_all add: ts_def iterates_mapsD [OF laws(2)])
  have sigs: "list_all2 (\<lambda>t sig. sign (records_of S D X s Z dnskeys (nsec_at X ?ttl names i (ts (names ! i))) p t) t = Inr sig)
      (filter (\<lambda>t. t \<noteq> ''RRSIG'') (ts (names ! i))) (lookup_sigs ownerSigs (names ! i))"
    if i: "i < length names" "p \<in> zone_paths Z" "names ! i = ownerFQDN z p" for i p
  proof -
    have "names ! i \<in> set (ord SigOwners (map fst owners2))" using i(1) os(2) by simp
    then have "sign_types (coveredRRs S sha D X ord ?ttl z head dnskeys names r2 (ownerFQDN z p) (types_of owners2 (ownerFQDN z p)))
        (\<lambda>t rrs. sign rrs t) (ts (ownerFQDN z p)) = Inr (lookup_sigs ownerSigs (ownerFQDN z p))"
      unfolding ts_def i(3) using so by blast
    note all = sign_types_all [OF this]
    have cov: "coveredRRs S sha D X ord ?ttl z head dnskeys names r2 (ownerFQDN z p) (types_of owners2 (ownerFQDN z p)) t
        = Inr (records_of S D X s Z dnskeys (nsec_at X ?ttl names i (ts (ownerFQDN z p))) p t)" if "t \<in> set (ts (ownerFQDN z p))" for t
      unfolding s_def
      by (rule covered_records [OF c [unfolded s_def] nz(1) _ Z_def [unfolded s_def, THEN meta_eq_to_obj_eq] clean [unfolded s_def] zn g2 [unfolded s_def] h2 nset(3,2) i(1,3)])
        (use tree ts i(2) that in \<open>auto simp: root_ok_def s_def\<close>)
    show ?thesis
      unfolding i(3) by (rule list.rel_mono_strong [OF all]) (use cov in auto)
  qed
  have idx: "\<exists>i p. m = names ! i \<and> i < length names \<and> p \<in> zone_paths Z \<and> names ! i = ownerFQDN z p" if "m \<in> set names" for m
    using that nset(1) by (metis imageE in_set_conv_nth)
  have hdr: "lookup_sigs ownerSigs m \<noteq> [] \<and> canonicalName (rr_Name (hd (lookup_sigs ownerSigs m))) = m
      \<and> TypeToString D (rr_Rrtype (hd (lookup_sigs ownerSigs m))) = ''RRSIG''" if m: "m \<in> set names" for m
  proof -
    obtain i p where i: "m = names ! i" "i < length names" "p \<in> zone_paths Z" "names ! i = ownerFQDN z p"
      using idx [OF m] by blast
    show ?thesis
      unfolding i(1) i(4)
      by (rule signature_header [OF sigs [OF i(2-4), unfolded i(4)] sign_def [THEN meta_eq_to_obj_eq] dnskeys_def [THEN meta_eq_to_obj_eq] _ ts(2) [OF i(3)] clean laws(1) zn zone_paths_ok [OF clean i(3)]])
        (simp add: nsec_at_def nsec_rr_def mk_rr_def i(4))
  qed
  have R: "(\<forall>n \<in> set (ord SigSets (map fst ownerSigs)). staged sha D r' (sec_key z n ''RRSIG'') (base_ttl (lookup_sigs ownerSigs n)))
    \<and> (\<forall>k. (\<forall>n \<in> set (ord SigSets (map fst ownerSigs)). k \<noteq> sec_key z n ''RRSIG'') \<longrightarrow> map_of (r_staging r') k = map_of (r_staging r2) k)
    \<and> r_activeZone r' = z \<and> grows (r_storage r2) (r_storage r')"
    by (rule stage_sigs_spec [OF stage os2(1)]) (use os2(2) hdr inj tail(1) in simp_all)
  have keep2: "map_of (r_staging r') k = map_of (r_staging r2) k" if "sk_rrtype k \<noteq> ''RRSIG''" for k
    by (rule R [THEN conjunct2, THEN conjunct1, rule_format]) (use that in \<open>auto simp: sec_key_def\<close>)
  have keep1: "map_of (r_staging r2) k = map_of (r_staging r1) k" if "sk_rrtype k \<noteq> ''NSEC''" for k
    by (rule N2 [rule_format]) (use that in \<open>auto simp: sec_key_def\<close>)
  have keep0: "map_of (r_staging r1) k = map_of (r_staging r) k" if "sk_rrtype k \<noteq> ''DNSKEY''" for k
    by (rule st1(2) [unfolded key1]) (use that in \<open>auto simp: sec_key_def\<close>)
  have "map_of (r_staging r') (sec_key z z ''DNSKEY'') = map_of (r_staging r1) (sec_key z z ''DNSKEY'')"
    using keep1 keep2 by (simp add: sec_key_def)
  from staged_frame [OF this] have dk: "staged sha D r' (sec_key z z ''DNSKEY'') dnskeys"
    using st1(1) unfolding key1 by blast
  have signed: "owner_signed S sha D X r' sign s z Z ?ttl dnskeys names i" if i: "i < length names" for i
  proof -
    obtain p where p: "p \<in> zone_paths Z" "names ! i = ownerFQDN z p" using nset(1) i by (metis imageE nth_mem)
    have "staged sha D r2 (sec_key z (names ! i) ''NSEC'') [nsec_at X ?ttl names i (ts (names ! i))]"
    proof -
      have "set (ord (NsecTypes (names ! i)) (map fst (types_of (zone_owners owners z) (names ! i)))) \<union> {''NSEC'', ''RRSIG''}
          = set (ts (names ! i)) \<union> {''NSEC'', ''RRSIG''}"
        using ts(2) [OF p(1)] match p by (auto simp: iterates_mapsD [OF laws(2)] owners_match_def signed_types_def)
      from nsec_rr_cong [OF this, of X ?ttl "names ! i" "names ! ((i + 1) mod length names)"] N1 [rule_format, of i] i
      show ?thesis by (simp add: nsec_at_def)
    qed
    then have "staged sha D r' (sec_key z (names ! i) ''NSEC'') [nsec_at X ?ttl names i (ts (names ! i))]"
      using staged_frame [OF keep2 [of "sec_key z (names ! i) ''NSEC''"], of sha D] by (simp add: sec_key_def)
    moreover have "staged sha D r' (sec_key z (names ! i) ''RRSIG'') (base_ttl (lookup_sigs ownerSigs (names ! i)))"
      using R os2(2) i by simp
    ultimately show ?thesis
      unfolding owner_signed_def using sigs [OF i p] ts(1,2) [OF p(1)] p by (intro exI conjI) (simp_all add: p(2))
  qed
  have "map_of (r_staging r') k = map_of (r_staging r) k" if "sk_rrtype k \<notin> {''DNSKEY'', ''NSEC'', ''RRSIG''}" for k
    using that keep0 keep1 keep2 by simp
  moreover have "grows s (r_storage r')" using extends_trans [OF g2 g3] .
  ultimately show ?thesis using nset dk signed R by blast
qed

end

section \<open>Touched records\<close>

text \<open>
  The library gives back the type that a signature covers, the code of a type name, and
  a fully qualified name.
\<close>

definition rrsig_laws :: "'d DNS \<Rightarrow> 'd SEC \<Rightarrow> 'd DNSQ \<Rightarrow> bool" where
  "rrsig_laws D X Q \<longleftrightarrow>
     (\<forall>priv sig rr rrs s. RRSIG_Sign X priv sig (rr # rrs) = Inr s \<longrightarrow> AsRRSIG Q (rr_Data s) = Some (rr_Rrtype rr)) \<and>
     (\<forall>c. TypeToString D c \<noteq> [] \<longrightarrow> StringToType X (TypeToString D c) = Some c) \<and>
     (\<forall>n. ToLower (Fqdn Q n) = canonicalName n)"

definition group_code :: "'d SEC \<Rightarrow> groupKey \<Rightarrow> 16 word" where
  "group_code X k = (case StringToType X (g_rtype k) of None \<Rightarrow> 0 | Some c \<Rightarrow> c)"

text \<open>The groups of one owner, and what replaces its signatures.\<close>

definition groups_of :: "(groupKey \<times> 'd RR list) list \<Rightarrow> string \<Rightarrow> (groupKey \<times> 'd RR list) list" where
  "groups_of gs owner = filter (\<lambda>(k, rrs). g_owner k = owner) gs"

definition untouched :: "'d SEC \<Rightarrow> 'd DNSQ \<Rightarrow> (groupKey \<times> 'd RR list) list \<Rightarrow> 'd RR list \<Rightarrow> 'd RR list" where
  "untouched X Q gs sigs = filter (\<lambda>e. \<forall>(k, rrs) \<in> set gs. AsRRSIG Q (rr_Data e) \<noteq> Some (group_code X k)) sigs"

lemma resign_groups_spec:
  assumes "resign_groups X Q now zk z inc ex gs m = Inr m'"
    and codes: "\<And>k rrs s. (k, rrs) \<in> set gs \<Longrightarrow> SignRRset X now rrs z (zk_ZSK zk) False inc ex = Inr s \<Longrightarrow> AsRRSIG Q (rr_Data s) = Some (group_code X k)"
    and dist: "\<And>owner. distinct (map (group_code X \<circ> fst) (groups_of gs owner))"
    and dom: "g_owner ` fst ` set gs \<subseteq> fst ` set m"
  shows "map fst m' = map fst m \<and> (\<forall>owner. \<exists>sigs.
      list_all2 (\<lambda>(k, rrs) s. SignRRset X now rrs z (zk_ZSK zk) False inc ex = Inr s) (groups_of gs owner) sigs \<and>
      lookup_sigs m' owner = untouched X Q (groups_of gs owner) (lookup_sigs m owner) @ sigs)"
  using assms
proof (induction gs arbitrary: m)
  case Nil
  then show ?case by (simp add: groups_of_def untouched_def)
next
  case (Cons g gs)
  obtain k rrs where g: "g = (k, rrs)" by (cases g)
  let ?kept = "filter (\<lambda>e. AsRRSIG Q (rr_Data e) \<noteq> Some (group_code X k)) (lookup_sigs m (g_owner k))"
  from Cons.prems(1) obtain s where s: "SignRRset X now rrs z (zk_ZSK zk) False inc ex = Inr s"
    and rest: "resign_groups X Q now zk z inc ex gs (AList.update (g_owner k) (?kept @ [s]) m) = Inr m'"
    by (auto simp: g Let_def group_code_def split: sum.splits)
  let ?m = "AList.update (g_owner k) (?kept @ [s]) m"
  have keys: "map fst ?m = map fst m"
    using Cons.prems(4) by (intro map_fst_update) (auto simp: g)
  have IH: "map fst m' = map fst ?m \<and> (\<forall>owner. \<exists>sigs.
      list_all2 (\<lambda>(k, rrs) s. SignRRset X now rrs z (zk_ZSK zk) False inc ex = Inr s) (groups_of gs owner) sigs \<and>
      lookup_sigs m' owner = untouched X Q (groups_of gs owner) (lookup_sigs ?m owner) @ sigs)"
  proof (rule Cons.IH [OF rest])
    show "distinct (map (group_code X \<circ> fst) (groups_of gs owner))" for owner
      using Cons.prems(3) [of owner] by (auto simp: groups_of_def g comp_def split: if_splits)
    show "g_owner ` fst ` set gs \<subseteq> fst ` set ?m"
    proof -
      have "fst ` set ?m = fst ` set m" using arg_cong [OF keys, of set] by (simp only: set_map)
      then show ?thesis using Cons.prems(4) by (simp only:) auto
    qed
  qed (use Cons.prems(2) in auto)
  have "\<exists>sigs. list_all2 (\<lambda>(k, rrs) s. SignRRset X now rrs z (zk_ZSK zk) False inc ex = Inr s) (groups_of (g # gs) owner) sigs \<and>
      lookup_sigs m' owner = untouched X Q (groups_of (g # gs) owner) (lookup_sigs m owner) @ sigs" for owner
  proof -
    from IH obtain sigs where sigs: "list_all2 (\<lambda>(k, rrs) s. SignRRset X now rrs z (zk_ZSK zk) False inc ex = Inr s) (groups_of gs owner) sigs"
      "lookup_sigs m' owner = untouched X Q (groups_of gs owner) (lookup_sigs ?m owner) @ sigs" by blast
    show ?thesis
    proof (cases "owner = g_owner k")
      case True
      have code: "AsRRSIG Q (rr_Data s) = Some (group_code X k)" using Cons.prems(2) [of k rrs s] s by (simp add: g)
      have fresh: "\<forall>(k', rrs') \<in> set (groups_of gs owner). group_code X k' \<noteq> group_code X k"
        using Cons.prems(3) [of owner] True by (force simp: groups_of_def g)
      have "lookup_sigs ?m owner = ?kept @ [s]" by (simp add: lookup_sigs_def update_conv' True)
      moreover have "untouched X Q (groups_of gs owner) [s] = [s]"
        using fresh code by (auto simp: untouched_def)
      moreover have "untouched X Q (groups_of gs owner) ?kept = untouched X Q (groups_of (g # gs) owner) (lookup_sigs m owner)"
        by (auto simp: untouched_def groups_of_def g True intro!: filter_cong)
      ultimately have "lookup_sigs m' owner = untouched X Q (groups_of (g # gs) owner) (lookup_sigs m owner) @ s # sigs"
        using sigs(2) by (simp add: untouched_def)
      moreover have "list_all2 (\<lambda>(k, rrs) s. SignRRset X now rrs z (zk_ZSK zk) False inc ex = Inr s) (groups_of (g # gs) owner) (s # sigs)"
        using sigs(1) s True by (simp add: groups_of_def g)
      ultimately show ?thesis by blast
    next
      case False
      then have "groups_of (g # gs) owner = groups_of gs owner" by (simp add: groups_of_def g)
      moreover have "lookup_sigs ?m owner = lookup_sigs m owner" using False by (simp add: lookup_sigs_def update_conv')
      ultimately show ?thesis using sigs by auto
    qed
  qed
  with IH keys show ?case by simp
qed

lemma touched_groups_mem:
  assumes "(k, rrs) \<in> set (touched_groups D Q touched)"
  shows "rrs \<noteq> []" and "\<forall>rr \<in> set rrs. rr \<in> set touched \<and> group_key D Q rr = k \<and> TypeToString D (rr_Rrtype rr) \<noteq> []"
proof -
  let ?known = "filter (\<lambda>rr. TypeToString D (rr_Rrtype rr) \<noteq> []) touched"
  have k: "k \<in> set (map (group_key D Q) ?known)" "rrs = filter (\<lambda>rr. group_key D Q rr = k) ?known"
    using assms by (auto simp: touched_groups_def Let_def)
  then show "rrs \<noteq> []" by (auto simp: filter_empty_conv)
  show "\<forall>rr \<in> set rrs. rr \<in> set touched \<and> group_key D Q rr = k \<and> TypeToString D (rr_Rrtype rr) \<noteq> []"
    using k(2) by auto
qed

lemma touched_groups_code:
  assumes "(k, rrs) \<in> set (touched_groups D Q touched)" and "rrsig_laws D X Q"
  shows "StringToType X (g_rtype k) = Some (rr_Rrtype (hd rrs))" and "g_rtype k = TypeToString D (group_code X k)"
    and "g_owner k = canonicalName (rr_Name (hd rrs))"
proof -
  have "hd rrs \<in> set rrs" using touched_groups_mem(1) [OF assms(1)] by simp
  then have hd: "group_key D Q (hd rrs) = k" "TypeToString D (rr_Rrtype (hd rrs)) \<noteq> []"
    using touched_groups_mem(2) [OF assms(1)] by auto
  then have rt: "g_rtype k = TypeToString D (rr_Rrtype (hd rrs))" by (auto simp: group_key_def)
  with hd(2) assms(2) show st: "StringToType X (g_rtype k) = Some (rr_Rrtype (hd rrs))" by (simp add: rrsig_laws_def)
  with rt show "g_rtype k = TypeToString D (group_code X k)" by (simp add: group_code_def)
  show "g_owner k = canonicalName (rr_Name (hd rrs))"
    using hd(1) assms(2) by (auto simp: group_key_def rrsig_laws_def)
qed

lemma touched_groups_distinct:
  assumes "mset gs = mset (touched_groups D Q touched)" and "rrsig_laws D X Q"
  shows "distinct (map (group_code X \<circ> fst) (groups_of gs owner))"
proof -
  have set: "set gs = set (touched_groups D Q touched)" using assms(1) by (rule mset_eq_setD)
  have "distinct (map fst (touched_groups D Q touched))" by (simp add: touched_groups_def Let_def comp_def)
  then have "distinct (map fst gs)" using assms(1) by (metis mset_map mset_eq_imp_distinct_iff)
  then have "distinct (map fst (groups_of gs owner))" unfolding groups_of_def by (rule distinct_map_filter)
  moreover have "inj_on (group_code X) (set (map fst (groups_of gs owner)))"
  proof (rule inj_onI)
    fix k k' assume "k \<in> set (map fst (groups_of gs owner))" "k' \<in> set (map fst (groups_of gs owner))"
      and eq: "group_code X k = group_code X k'"
    then obtain rrs rrs' where "(k, rrs) \<in> set (touched_groups D Q touched)" "(k', rrs') \<in> set (touched_groups D Q touched)"
      and o: "g_owner k = g_owner k'" by (auto simp: groups_of_def set)
    then have "g_rtype k = g_rtype k'" using touched_groups_code(2) [OF _ assms(2)] eq by metis
    with o show "k = k'" by simp
  qed
  ultimately have "distinct (map (group_code X) (map fst (groups_of gs owner)))"
    by (simp only: distinct_map)
  then show ?thesis by simp
qed

lemma list_all2_mem2:
  "list_all2 P xs ys \<Longrightarrow> y \<in> set ys \<Longrightarrow> \<exists>x \<in> set xs. P x y"
  by (induction rule: list_all2_induct) auto

definition touched_in :: "'d DNS \<Rightarrow> string \<Rightarrow> 'd RR list \<Rightarrow> bool" where
  "touched_in D z touched \<longleftrightarrow> (\<forall>rr \<in> set touched. TypeToString D (rr_Rrtype rr) \<noteq> [] \<longrightarrow>
     (\<exists>p. path_ok p \<and> canonicalName (rr_Name rr) = ownerFQDN z p))"

context storage
begin

lemma AutoSign_signs:
  fixes r r' :: "'s Repo"
  assumes run: "AutoSign S sha D X Q now ord gord r (Some zk) touched = (r', Inr ())" and z: "r_activeZone r = z" "zone_name z"
    and head: "Repo_Head S r = Inr (zb, bn, head)"
    and laws: "dnssec_laws D X" "rrsig_laws D X Q" "iterates_maps ord" and gord: "mset (gord (touched_groups D Q touched)) = mset (touched_groups D Q touched)"
    and touched: "touched_in D z touched"
    and old: "\<And>owner e. e \<in> set (existing_sigs S sha D r head owner) \<Longrightarrow> canonicalName (rr_Name e) = owner \<and> rr_Rrtype e = TypeRRSIG"
    and rr: "rr \<in> set touched" "TypeToString D (rr_Rrtype rr) \<noteq> []"
  defines "owner \<equiv> canonicalName (rr_Name rr)"
  shows "\<exists>gs sigs. mset gs = mset (groups_of (touched_groups D Q touched) owner) \<and>
    list_all2 (\<lambda>(k, rrs) s. SignRRset X now rrs z (zk_ZSK zk) False now (now + 30 * 24 * 3600) = Inr s) gs sigs \<and>
    staged sha D r' (sec_key z owner ''RRSIG'') (base_ttl (untouched X Q gs (existing_sigs S sha D r head owner) @ sigs))"
proof -
  let ?groups = "touched_groups D Q touched" and ?gs = "gord (touched_groups D Q touched)"
  let ?m = "map (\<lambda>owner. (owner, existing_sigs S sha D r head owner)) (remdups (map (g_owner \<circ> fst) ?groups))"
  obtain m' where res: "resign_groups X Q now zk z now (now + 30 * 24 * 3600) ?gs ?m = Inr m'"
    and stage: "stage_sigs S sha D (lookup_sigs m') (ord SigSets (map fst m')) r = (r', Inr ())"
    using run z head by (auto simp: AutoSign_def Let_def zone_name_def split: sum.splits)
  have gset: "set ?gs = set ?groups" using gord by (rule mset_eq_setD)
  have code: "AsRRSIG Q (rr_Data s) = Some (group_code X k)" if kg: "(k, rrs) \<in> set ?gs" and sg: "SignRRset X now rrs z (zk_ZSK zk) False now (now + 30 * 24 * 3600) = Inr s" for k rrs s
  proof -
    have k: "(k, rrs) \<in> set ?groups" using kg gset by simp
    obtain x xs where rrs: "rrs = x # xs" using touched_groups_mem(1) [OF k] by (cases rrs) auto
    then obtain priv sig where "RRSIG_Sign X priv sig (x # xs) = Inr s"
      using sg unfolding SignRRset_def Let_def by auto
    then have "AsRRSIG Q (rr_Data s) = Some (rr_Rrtype x)" using laws(2) unfolding rrsig_laws_def by blast
    with touched_groups_code(1) [OF k laws(2)] show ?thesis by (simp add: group_code_def rrs)
  qed
  have R: "map fst m' = map fst ?m \<and> (\<forall>owner. \<exists>sigs.
      list_all2 (\<lambda>(k, rrs) s. SignRRset X now rrs z (zk_ZSK zk) False now (now + 30 * 24 * 3600) = Inr s) (groups_of ?gs owner) sigs \<and>
      lookup_sigs m' owner = untouched X Q (groups_of ?gs owner) (lookup_sigs ?m owner) @ sigs)"
  proof (rule resign_groups_spec [OF res])
    show "distinct (map (group_code X \<circ> fst) (groups_of ?gs owner))" for owner by (rule touched_groups_distinct [OF gord laws(2)])
    show "g_owner ` fst ` set ?gs \<subseteq> fst ` set ?m" unfolding gset by (auto simp: image_image)
  qed (rule code)
  have ms: "lookup_sigs ?m n = existing_sigs S sha D r head n" if "n \<in> set (map (g_owner \<circ> fst) ?groups)" for n
    using that by (auto simp: lookup_sigs_def map_of_map_restrict restrict_map_def)
  have os: "distinct (ord SigSets (map fst m'))" "set (ord SigSets (map fst m')) = set (map (g_owner \<circ> fst) ?groups)"
    using R by (simp_all add: iterates_mapsD [OF laws(3)] comp_def)
  have owner: "owner \<in> set (map (g_owner \<circ> fst) ?groups)"
    using rr laws(2) by (auto simp: touched_groups_def Let_def owner_def group_key_def rrsig_laws_def image_iff)
  have path: "\<exists>p. path_ok p \<and> n = ownerFQDN z p" if n: "n \<in> set (map (g_owner \<circ> fst) ?groups)" for n
  proof -
    obtain k rrs where k: "(k, rrs) \<in> set ?groups" "n = g_owner k" using n by auto
    have "hd rrs \<in> set rrs" using touched_groups_mem(1) [OF k(1)] by simp
    then have "hd rrs \<in> set touched" "TypeToString D (rr_Rrtype (hd rrs)) \<noteq> []"
      using touched_groups_mem(2) [OF k(1)] by auto
    with touched touched_groups_code(3) [OF k(1) laws(2)] k(2) show ?thesis by (auto simp: touched_in_def)
  qed
  have inj: "inj_on (\<lambda>n. sec_key z n ''RRSIG'') (set (map (g_owner \<circ> fst) ?groups))"
  proof (rule inj_onI)
    fix n n' assume n: "n \<in> set (map (g_owner \<circ> fst) ?groups)" "n' \<in> set (map (g_owner \<circ> fst) ?groups)"
      and eq: "sec_key z n ''RRSIG'' = sec_key z n' ''RRSIG''"
    obtain p p' where p: "path_ok p" "path_ok p'" "n = ownerFQDN z p" "n' = ownerFQDN z p'"
      using path [OF n(1)] path [OF n(2)] by blast
    from sec_key_inject [OF z(2) p(1,2) eq [unfolded p(3,4)]] show "n = n'" by (simp add: p(3,4))
  qed
  have hdr: "lookup_sigs m' n \<noteq> [] \<and> canonicalName (rr_Name (hd (lookup_sigs m' n))) = n
      \<and> TypeToString D (rr_Rrtype (hd (lookup_sigs m' n))) = ''RRSIG''" if n: "n \<in> set (map (g_owner \<circ> fst) ?groups)" for n
  proof -
    obtain sigs where sigs: "list_all2 (\<lambda>(k, rrs) s. SignRRset X now rrs z (zk_ZSK zk) False now (now + 30 * 24 * 3600) = Inr s) (groups_of ?gs n) sigs"
      "lookup_sigs m' n = untouched X Q (groups_of ?gs n) (existing_sigs S sha D r head n) @ sigs"
      using R [THEN conjunct2, rule_format, of n] unfolding ms [OF n] by blast
    have "groups_of ?gs n \<noteq> []" using n gset by (auto simp: groups_of_def filter_empty_conv)
    then have ne: "sigs \<noteq> []" using sigs(1) by auto
    have new: "canonicalName (rr_Name e) = n \<and> rr_Rrtype e = TypeRRSIG" if e: "e \<in> set sigs" for e
    proof -
      obtain k rrs where g: "(k, rrs) \<in> set (groups_of ?gs n)" "SignRRset X now rrs z (zk_ZSK zk) False now (now + 30 * 24 * 3600) = Inr e"
        using list_all2_mem2 [OF sigs(1) e] by auto
      then have k: "(k, rrs) \<in> set ?groups" "g_owner k = n" using gset by (auto simp: groups_of_def)
      show ?thesis
        using SignRRset_header(2,3) [OF g(2) laws(1)] touched_groups_code(3) [OF k(1) laws(2)] k(2) by simp
    qed
    have "canonicalName (rr_Name e) = n \<and> rr_Rrtype e = TypeRRSIG" if "e \<in> set (lookup_sigs m' n)" for e
      using that new old [of e n] by (auto simp: sigs(2) untouched_def)
    moreover have "hd (lookup_sigs m' n) \<in> set (lookup_sigs m' n)" by (rule hd_in_set) (simp add: sigs(2) ne)
    ultimately show ?thesis using ne laws(1) by (simp add: sigs(2) dnssec_laws_def)
  qed
  have "(\<forall>n \<in> set (ord SigSets (map fst m')). staged sha D r' (sec_key z n ''RRSIG'') (base_ttl (lookup_sigs m' n)))
    \<and> (\<forall>k. (\<forall>n \<in> set (ord SigSets (map fst m')). k \<noteq> sec_key z n ''RRSIG'') \<longrightarrow> map_of (r_staging r') k = map_of (r_staging r) k)
    \<and> r_activeZone r' = z \<and> grows (r_storage r) (r_storage r')"
    by (rule stage_sigs_spec [OF stage os(1) hdr inj [folded os(2)] z(1) [symmetric]]) (simp only: os(2))
  from this [THEN conjunct1, rule_format, of owner]
  have "staged sha D r' (sec_key z owner ''RRSIG'') (base_ttl (lookup_sigs m' owner))"
    using owner by (simp only: os(2))
  moreover have "mset (groups_of ?gs owner) = mset (groups_of ?groups owner)"
    unfolding groups_of_def using gord by (simp only: mset_filter)
  moreover obtain sigs where "list_all2 (\<lambda>(k, rrs) s. SignRRset X now rrs z (zk_ZSK zk) False now (now + 30 * 24 * 3600) = Inr s) (groups_of ?gs owner) sigs"
      "lookup_sigs m' owner = untouched X Q (groups_of ?gs owner) (existing_sigs S sha D r head owner) @ sigs"
    using R [THEN conjunct2, rule_format, of owner] unfolding ms [OF owner] by blast
  ultimately show ?thesis by (intro exI [of _ "groups_of ?gs owner"] exI [of _ sigs]) simp
qed

end

end
