(* ===== verification/SignedZone.thy ===== *)
theory SignedZone
  imports ZoneSignRuns ServedZone
begin

text \<open>
  The properties of zone signing on the in-memory store, with a small zone as the
  example: \<open>SignZone\<close> stages a signed view of the zone, \<open>AutoSign\<close> keeps the signatures of
  touched records current.
\<close>

section \<open>A signed zone\<close>

text \<open>A library of DNSSEC functions, and the zone \<open>a.\<close> with one A record at its apex.\<close>

definition sec_dns :: "bytes DNS" where
  "sec_dns = sample_dns\<lparr>TypeToString := (\<lambda>t. if t = 1 then ''A'' else if t = TypeRRSIG then ''RRSIG''
     else if t = TypeNSEC then ''NSEC'' else if t = TypeDNSKEY then ''DNSKEY'' else [])\<rparr>"

definition sec_lib :: "bytes SEC" where
  "sec_lib = \<lparr>mk_DNSKEY = (\<lambda>flags _ _ _. be16 flags), mk_NSEC = (\<lambda>next types. bytes_of next @ concat (map be16 types)),
     mk_RRSIG = (\<lambda>d. be16 (sg_TypeCovered d)),
     StringToType = map_of [(''A'', 1), (''RRSIG'', TypeRRSIG), (''NSEC'', TypeNSEC), (''DNSKEY'', TypeDNSKEY)],
     CountLabel = (\<lambda>n. count_list n CHR ''.''), KeyTag = (\<lambda>rr. Uint16 (rr_Data rr)),
     RRSIG_Sign = (\<lambda>_ sig rrs. case rrs of [] \<Rightarrow> Inl (ErrOther ''empty'')
       | rr # _ \<Rightarrow> Inr (sig\<lparr>rr_Name := rr_Name rr, rr_Rrtype := TypeRRSIG, rr_Data := be16 (rr_Rrtype rr)\<rparr>))\<rparr>"

definition sec_dnsq :: "bytes DNSQ" where
  "sec_dnsq = \<lparr>Fqdn = canonicalName, AsCNAME = (\<lambda>_. None), AsRRSIG = (\<lambda>d. Some (Uint16 d))\<rparr>"

lemma sec_laws: "dnssec_laws sec_dns sec_lib" "rrsig_laws sec_dns sec_lib sec_dnsq" "iterates_maps (\<lambda>_ xs. xs)"
proof -
  show "dnssec_laws sec_dns sec_lib" by (auto simp: dnssec_laws_def sec_dns_def sec_lib_def)
  have "ToLower (canonicalName n) = canonicalName n" for n
  proof -
    have "ToLower (m @ ''.'') = ToLower m @ ''.''" for m by (simp add: ToLower_def lower_char_def)
    then show ?thesis by (simp add: canonicalName_def Let_def ToLower_idem)
  qed
  moreover have "Uint16 (be16 x) = x" for x using Uint16_be16 [of x "[]"] by simp
  ultimately show "rrsig_laws sec_dns sec_lib sec_dnsq"
    by (auto simp: rrsig_laws_def sec_dnsq_def sec_dns_def sec_lib_def)
  show "iterates_maps (\<lambda>_ xs. xs)" by (simp add: iterates_maps_def)
qed

abbreviation "sec_keypair \<equiv> \<lparr>kp_Public = [], kp_Private = []\<rparr>"
abbreviation "sec_keys \<equiv> \<lparr>zk_KSK = sec_keypair, zk_ZSK = sec_keypair\<rparr>"
abbreviation "sec_opts \<equiv> \<lparr>o_TTL = 0, o_ValidityDays = 0\<rparr>"
abbreviation "sec_rr \<equiv> sample_a_rr\<lparr>rr_Name := ''a.''\<rparr>"
abbreviation "sec_tree \<equiv> \<lparr>Entries = [sample_leaf ''A'' 13]\<rparr>"

definition sec_sig :: "16 word \<Rightarrow> 32 word \<Rightarrow> bytes RR" where
  "sec_sig t ttl = mk_rr ''a.'' TypeRRSIG ttl (be16 t)"

definition sec_nsec :: "bytes RR" where
  "sec_nsec = nsec_rr sec_lib 300 ''a.'' ''a.'' [''A'', ''DNSKEY'']"

definition sec_dnskey_blob :: bytes where
  "sec_dnskey_blob = [1, 2, 97, 46, 0, 1, 0, 48, 0, 0, 1, 44, 0, 2, 0, 2, 1, 0, 0, 2, 1, 1]"
definition sec_nsec_blob :: bytes where
  "sec_nsec_blob = [1, 2, 97, 46, 0, 1, 0, 47, 0, 0, 1, 44, 0, 1, 0, 10, 97, 46, 0, 1, 0, 46, 0, 47, 0, 48]"
definition sec_sigs_blob :: bytes where
  "sec_sigs_blob = [1, 2, 97, 46, 0, 1, 0, 46, 0, 0, 0, 7, 0, 3, 0, 2, 0, 1, 0, 2, 0, 47, 0, 2, 0, 48]"
definition sec_a_sig_blob :: bytes where
  "sec_a_sig_blob = [1, 2, 97, 46, 0, 1, 0, 46, 0, 0, 0, 7, 0, 1, 0, 2, 0, 1]"

definition sec_base :: "(Hash \<times> sobj) list" where
  "sec_base = [(1, SSymref ''refs/heads/a./main''), (13, SBlob sample_a_blob), (26, STree sec_tree), (36, SCommit (sample_ci 26 []))]"

definition sec_new :: "(Hash \<times> sobj) list" where
  "sec_new = [(43, SBlob sec_sigs_blob), (42, SBlob sec_nsec_blob), (41, SBlob sec_dnskey_blob), (44, SBlob sec_a_sig_blob)]"

definition sec_sha :: "bytes \<Rightarrow> Hash" where
  "sec_sha = table_sha (sec_new @ sec_base)"

definition sec_store :: "(Hash \<times> sobj) list \<Rightarrow> MemStore" where
  "sec_store new = table_store (new @ sec_base) [(''refs/heads/a./main'', 36), (''HEAD'', 1)]"

definition sec_repo :: "(Hash \<times> sobj) list \<Rightarrow> staging_area \<Rightarrow> MemStore Repo" where
  "sec_repo new st = \<lparr>r_storage = sec_store new, r_staging = st, r_activeZone = ''a.''\<rparr>"

lemma sec_repo_sel [simp]: "r_storage (sec_repo new st) = sec_store new" "r_staging (sec_repo new st) = st" "r_activeZone (sec_repo new st) = ''a.''"
  by (simp_all add: sec_repo_def)

lemma sec_table_ok: "table_ok (sec_new @ sec_base)"
proof -
  have "tree_small sec_tree" by (simp add: tree_small_def canonical_def sample_leaf_storable)
  then show ?thesis
    unfolding table_ok_def using sample_ci_ok [of "[]" 26] sample_tree_length [of "[sample_leaf ''A'' 13]"]
    by (simp add: sec_new_def sec_base_def sample_a_blob_def sec_dnskey_blob_def sec_nsec_blob_def sec_sigs_blob_def sec_a_sig_blob_def del: sobj_ok.simps(3))
qed

lemma sec_mem: "(13, SBlob sample_a_blob) \<in> set sec_base" "(26, STree sec_tree) \<in> set sec_base" "(36, SCommit (sample_ci 26 [])) \<in> set sec_base"
  by (simp_all add: sec_base_def)

lemma sec_store_reads:
  assumes "set new \<subseteq> set sec_new"
  shows "healthy (mem_hist (sec_store new))" "loadCommit memstore (sec_store new) 36 = Inr (sample_ci 26 [])" "TreeOf memstore (sec_store new) 36 = 26"
    "LoadTree memstore sec_sha (sec_store new) 26 = Inr sec_tree" "GetObject memstore (sec_store new) 13 = Inr (blob_object sample_a_blob)"
    "ReadHEAD memstore (sec_store new) = Inr (''a.'', ''main'', 36)"
proof -
  let ?refs = "[(''refs/heads/a./main'', 36), (''HEAD'', 1)]"
  have sub: "set (new @ sec_base) \<subseteq> set (sec_new @ sec_base)" using assms by auto
  note rules = table_store_commit(1,2) table_store_tree table_store_Get
  show h: "healthy (mem_hist (sec_store new))"
    unfolding sec_store_def by (rule table_store_healthy [OF sec_table_ok sub])
  show "loadCommit memstore (sec_store new) 36 = Inr (sample_ci 26 [])" "TreeOf memstore (sec_store new) 36 = 26"
    "LoadTree memstore sec_sha (sec_store new) 26 = Inr sec_tree"
    unfolding sec_store_def sec_sha_def
    using table_store_commit(1,2) [OF sec_table_ok sub, unfolded set_append, OF UnI2 [OF sec_mem(3)], of ?refs]
      table_store_tree [OF sec_table_ok sub, unfolded set_append, OF UnI2 [OF sec_mem(2)], of ?refs] by simp_all
  show "GetObject memstore (sec_store new) 13 = Inr (blob_object sample_a_blob)"
    unfolding sec_store_def using table_store_Get [OF sec_table_ok sub, unfolded set_append, OF UnI2 [OF sec_mem(1)], of ?refs] by simp
  have "BranchRef ''a.'' ''main'' = ''refs/heads/a./main''" "CanonZone ''a.'' = ''a.''" using sample_rrsets by (simp_all add: BranchRef_def)
  then have "parseBranchTarget ''refs/heads/a./main'' = Some (''a.'', ''main'')"
    using parseBranchTarget_BranchRef [of "''main''" "''a.''"] by simp
  moreover have "(1, sobject (SSymref ''refs/heads/a./main'')) \<in> mem_hist (sec_store new)"
    by (simp add: sec_store_def table_store_hist sec_base_def)
  moreover have "mem_ref (sec_store new) HeadRef = Some 1" "mem_ref (sec_store new) ''refs/heads/a./main'' = Some 36" by (simp_all add: sec_store_def)
  ultimately show "ReadHEAD memstore (sec_store new) = Inr (''a.'', ''main'', 36)"
    using mem.ReadHEAD_symref [of "sec_store new" 1 "''refs/heads/a./main''"] h by (simp add: healthy_def)
qed

lemma sec_set:
  assumes "EncodeRRset sec_dns (rr # rrs) = Inr payload" and "(h, SBlob payload) \<in> set sec_new"
  shows "Repo_Set memstore sec_sha sec_dns (sec_repo new st) (rr # rrs) =
    (sec_repo ((h, SBlob payload) # new) (AList.update (set_key sec_dns ''a.'' rr) \<lparr>sv_tombstone = False, sv_blob = h\<rparr> st), Inr ())"
proof -
  have "blob_hash sec_sha payload = h"
    using table_hash [OF sec_table_ok, of h "SBlob payload"] assms(2) by (simp add: blob_hash_def sec_sha_def blob_object_def)
  moreover have "PutObject memstore (sec_store new) h (blob_object payload) = (sec_store ((h, SBlob payload) # new), Inr ())"
    unfolding sec_store_def using table_store_put [of "new @ sec_base" _ h "SBlob payload"] by simp
  ultimately show ?thesis
    using assms(1) by (simp add: Repo_Set_def Blob_Encode_parts set_key_def canonicalName_def Let_def sec_repo_def)
qed

lemma sec_encodings:
  "EncodeRRset sec_dns (DNSKEYs sec_lib sec_keys ''a.'' 300) = Inr sec_dnskey_blob"
  "EncodeRRset sec_dns [sec_nsec] = Inr sec_nsec_blob"
  "EncodeRRset sec_dns [sec_sig 1 7, sec_sig 48 7, sec_sig 47 7] = Inr sec_sigs_blob"
  "EncodeRRset sec_dns [sec_sig 1 7] = Inr sec_a_sig_blob"
  "map_sum id rs_RRs (DecodeRRset sec_dns sample_a_blob) = Inr [sec_rr]"
  by code_simp+

lemma sec_zone:
  "zone_of memstore sec_sha (sec_store []) 26 p t = (if p = [] \<and> t = ''A'' then Some 13 else None)"
  using flat_lookup [of memstore sec_sha "sec_store []" 26 "[(''A'', 13)]"] sec_store_reads(4) [of "[]"]
  by (simp add: zone_of_def canonical_def)

lemma sec_cell:
  "cell_rrs memstore sec_dns (sec_store []) (Some 13) = [sec_rr]" "readable memstore sec_dns (sec_store []) (zone_of memstore sec_sha (sec_store []) 26)"
proof -
  obtain rs where "rrset_at memstore sec_dns (sec_store []) 13 = Inr rs" "rs_RRs rs = [sec_rr]"
    using sec_store_reads(5) [of "[]"] sec_encodings(5) [THEN map_sum_InrD] by (auto simp: rrset_at_def blob_object_def kind_defs)
  then show "cell_rrs memstore sec_dns (sec_store []) (Some 13) = [sec_rr]" "readable memstore sec_dns (sec_store []) (zone_of memstore sec_sha (sec_store []) 26)"
    by (auto simp: cell_rrs_def readable_def sec_zone split: if_splits)
qed

lemma sec_clean: "zone_clean memstore sec_dns (sec_store []) ''a.'' (zone_of memstore sec_sha (sec_store []) 26)" "zone_name ''a.''"
proof -
  have "path_ok [] \<and> ToUpper ''A'' = ''A'' \<and> canonicalName ''a.'' = ''a.''" by code_simp
  then show "zone_clean memstore sec_dns (sec_store []) ''a.'' (zone_of memstore sec_sha (sec_store []) 26)" "zone_name ''a.''"
    using sec_cell by (auto simp: zone_clean_def sec_zone zone_name_def ownerFQDN_def split: if_splits)
qed

lemma sec_signs:
  "SignRRset sec_lib now (rr # rrs) z k b inc ex = Inr (mk_rr (rr_Name rr) TypeRRSIG (rr_Ttl rr) (be16 (rr_Rrtype rr)))"
  by (simp add: SignRRset_def sec_lib_def Let_def mk_rr_def)

abbreviation "sec_val h \<equiv> \<lparr>sv_tombstone = False, sv_blob = h\<rparr>"
abbreviation "sec_at t \<equiv> sec_key ''a.'' ''a.'' t"

lemma sec_set_keys:
  "set_key sec_dns ''a.'' (hd (DNSKEYs sec_lib sec_keys ''a.'' 300)) = sec_at ''DNSKEY''"
  "set_key sec_dns ''a.'' sec_nsec = sec_at ''NSEC''" "set_key sec_dns ''a.'' (sec_sig t ttl) = sec_at ''RRSIG''"
  using sec_clean(2) by (simp_all add: zone_name_def set_key_def sec_key_def sec_nsec_def sec_sig_def nsec_rr_def mk_rr_def DNSKEYs_def dnskey_rr_def Let_def sec_dns_def canonZone_zone_name [OF sec_clean(2)])

abbreviation "sec_run_new \<equiv> [(43, SBlob sec_sigs_blob), (42, SBlob sec_nsec_blob), (41, SBlob sec_dnskey_blob)]"

lemma sec_sign_zone:
  "\<exists>st. SignZone memstore sec_sha sec_dns sec_lib 1 9 (\<lambda>_ xs. xs) (sec_repo [] []) (Some sec_keys) sec_opts
    = (sec_repo sec_run_new st, Some (Inr ()))"
proof -
  let ?dnskeys = "DNSKEYs sec_lib sec_keys ''a.'' 300"
  let ?st1 = "[(sec_at ''DNSKEY'', sec_val 41)]" and ?new1 = "[(41, SBlob sec_dnskey_blob)]"
  let ?st2 = "?st1 @ [(sec_at ''NSEC'', sec_val 42)]" and ?new2 = "(42, SBlob sec_nsec_blob) # ?new1"
  let ?st3 = "?st2 @ [(sec_at ''RRSIG'', sec_val 43)]"
  note r0 = sec_store_reads [of "[]", simplified]
  have walk: "WalkAllLeaves memstore sec_sha (sec_store []) 1 26 (collect_owner ''a.'') [] = Some ([(''a.'', [(''A'', 13)])], Inr ())"
    using r0(4) by (simp add: WalkAllLeaves_def collect_owner_def ownerFQDN_def add_type_def types_of_def)
  have set1: "Repo_Set memstore sec_sha sec_dns (sec_repo [] []) ?dnskeys = (sec_repo ?new1 ?st1, Inr ())"
    using sec_set [of "hd ?dnskeys" "tl ?dnskeys" _ 41 "[]" "[]"] sec_encodings(1) sec_set_keys(1) by (simp add: sec_new_def DNSKEYs_def Let_def)
  have set2: "Repo_Set memstore sec_sha sec_dns (sec_repo ?new1 ?st1) [sec_nsec] = (sec_repo ?new2 ?st2, Inr ())"
    using sec_set [OF sec_encodings(2), of 42 ?new1 ?st1] by (simp add: sec_new_def sec_set_keys sec_key_def)
  have set3: "Repo_Set memstore sec_sha sec_dns (sec_repo ?new2 ?st2) [sec_sig 1 7, sec_sig 48 7, sec_sig 47 7] = (sec_repo sec_run_new ?st3, Inr ())"
    using sec_set [OF sec_encodings(3), of 43 ?new2 ?st2] by (simp add: sec_new_def sec_set_keys sec_key_def)
  have nsec: "nsec_rr sec_lib 300 ''a.'' ''a.'' [''A'', ''DNSKEY''] = sec_nsec" by (simp add: sec_nsec_def)
  have coverA: "coveredRRs memstore sec_sha sec_dns sec_lib (\<lambda>_ xs. xs) 300 ''a.'' 36 ?dnskeys [''a.''] (sec_repo ?new2 ?st2) ''a.'' ts ''A'' = Inr [sec_rr]" for ts
  proof -
    have "extends mem_hist mem_ref ms_reflog (sec_store []) (sec_store ?new2)"
      using extends_trans [OF mem.Set_staged(4) [OF set1] mem.Set_staged(4) [OF set2]] by simp
    moreover have "healthy (mem_hist (sec_store ?new2))" by (rule sec_store_reads(1)) (simp add: sec_new_def)
    ultimately show ?thesis
      using mem.coveredRRs_cell [of "sec_repo [] []" 36 "sample_ci 26 []" sec_sha 1 _ sec_dns "''a.''" "sec_repo ?new2 ?st2" "[]" "''A''" sec_lib "\<lambda>_ xs. xs" 300 ?dnskeys "[''a.'']" ts]
        r0 sec_clean by (simp add: sec_zone sec_cell ownerFQDN_def root_ok_def tree_ok.simps)
  qed
  have cover: "coveredRRs memstore sec_sha sec_dns sec_lib (\<lambda>_ xs. xs) 300 ''a.'' 36 ?dnskeys [''a.''] (sec_repo ?new2 ?st2) ''a.'' ts ''DNSKEY'' = Inr ?dnskeys"
    "\<exists>nsec. rr_Name nsec = ''a.'' \<and> rr_Rrtype nsec = TypeNSEC \<and> rr_Ttl nsec = 300 \<and>
      coveredRRs memstore sec_sha sec_dns sec_lib (\<lambda>_ xs. xs) 300 ''a.'' 36 ?dnskeys [''a.''] (sec_repo ?new2 ?st2) ''a.'' ts ''NSEC'' = Inr [nsec]" for ts
    by (simp_all add: coveredRRs_def Let_def nsec_rr_def mk_rr_def)
  have sign: "rrsig_for sec_lib 9 (Some sec_keys) ''a.'' ''a.'' t 9 ex (rr # rrs) = Inr (mk_rr (rr_Name rr) TypeRRSIG (rr_Ttl rr) (be16 (rr_Rrtype rr)))" for t ex rr rrs
    by (simp add: rrsig_for_def sec_signs)
  have dk: "\<exists>k k'. ?dnskeys = [k, k'] \<and> rr_Name k = ''a.'' \<and> rr_Rrtype k = TypeDNSKEY \<and> rr_Ttl k = 300"
    using sec_clean(2) by (simp add: DNSKEYs_def dnskey_rr_def mk_rr_def Let_def canonZone_zone_name)
  have sigs: "sign_types (coveredRRs memstore sec_sha sec_dns sec_lib (\<lambda>_ xs. xs) 300 ''a.'' 36 ?dnskeys [''a.''] (sec_repo ?new2 ?st2) ''a.'' ts)
      (\<lambda>t. rrsig_for sec_lib 9 (Some sec_keys) ''a.'' ''a.'' t 9 ex) [''A'', ''DNSKEY'', ''NSEC''] = Inr [sec_sig 1 7, sec_sig 48 300, sec_sig 47 300]" for ts ex
    using coverA cover(1) cover(2) [of ts] dk by (auto simp: sign sec_sig_def sample_a_rr_def)
  have ttl: "base_ttl [sec_sig 1 7, sec_sig 48 300, sec_sig 47 300] = [sec_sig 1 7, sec_sig 48 7, sec_sig 47 7]"
    by (simp add: base_ttl_def sec_sig_def mk_rr_def)
  have "SignZone memstore sec_sha sec_dns sec_lib 1 9 (\<lambda>_ xs. xs) (sec_repo [] []) (Some sec_keys) sec_opts = (sec_repo sec_run_new ?st3, Some (Inr ()))"
    using r0(3,6) walk set1 set2 sigs set3
    by (simp add: SignZone_def Let_def nsec Repo_Head_def opt_ttl_def add_type_def types_of_def lookup_sigs_def ttl)
  then show ?thesis ..
qed


section \<open>Properties\<close>

text \<open>
  C12: when \<open>SignZone\<close> with keys succeeds, the staged zone is signed: the owner names of the
  committed zone (and the apex) are listed once, in ascending order; the DNSKEY set of the two
  keys is staged at the apex; every owner has a NSEC record that names the next owner
  (cyclically) and lists the types present there, and one RRSIG set with exactly one signature per
  type present, made with the KSK for DNSKEY and with the ZSK for every other type, over the
  records that the zone holds; nothing else is staged.
\<close>

theorem sign_zone_signs:
  fixes r r' :: "MemStore Repo"
  assumes "SignZone memstore sha D X fuel now ord r (Some zk) opts = (r', Some (Inr ()))"
    and "Repo_Head memstore r = Inr (zb, bn, head)" and "loadCommit memstore (r_storage r) head = Inr c"
    and "tree_ok memstore sha (r_storage r) fuel (c_Tree c)"
    and "healthy (mem_hist (r_storage r'))"
    and "dnssec_laws D X" and "iterates_maps ord" and "zone_name (r_activeZone r)"
    and "zone_clean memstore D (r_storage r) (r_activeZone r) (zone_of memstore sha (r_storage r) (c_Tree c))"
  shows "\<exists>names. sorted names \<and> distinct names
    \<and> set names = ownerFQDN (r_activeZone r) ` zone_paths (zone_of memstore sha (r_storage r) (c_Tree c))
    \<and> staged sha D r' (sec_key (r_activeZone r) (r_activeZone r) ''DNSKEY'') (DNSKEYs X zk (r_activeZone r) (opt_ttl opts))
    \<and> (\<forall>i < length names. owner_signed memstore sha D X r'
         (zone_signer X now zk (r_activeZone r) (now + opt_validityDays opts * 24 * 3600)) (r_storage r) (r_activeZone r)
         (zone_of memstore sha (r_storage r) (c_Tree c)) (opt_ttl opts) (DNSKEYs X zk (r_activeZone r) (opt_ttl opts)) names i)
    \<and> (\<forall>k. sk_rrtype k \<notin> {''DNSKEY'', ''NSEC'', ''RRSIG''} \<longrightarrow> map_of (r_staging r') k = map_of (r_staging r) k)"
  using mem.SignZone_signs [OF assms] by blast

theorem sign_zone_signs_witness:
  "\<exists>r' names. SignZone memstore sec_sha sec_dns sec_lib 1 9 (\<lambda>_ xs. xs) (sec_repo [] []) (Some sec_keys) sec_opts = (r', Some (Inr ()))
    \<and> sorted names \<and> distinct names \<and> set names = {''a.''}
    \<and> staged sec_sha sec_dns r' (sec_key ''a.'' ''a.'' ''DNSKEY'') (DNSKEYs sec_lib sec_keys ''a.'' 300)
    \<and> (\<forall>i < length names. owner_signed memstore sec_sha sec_dns sec_lib r'
         (zone_signer sec_lib 9 sec_keys ''a.'' (9 + 30 * 24 * 3600)) (sec_store []) ''a.''
         (zone_of memstore sec_sha (sec_store []) 26) 300 (DNSKEYs sec_lib sec_keys ''a.'' 300) names i)"
proof -
  obtain st where run: "SignZone memstore sec_sha sec_dns sec_lib 1 9 (\<lambda>_ xs. xs) (sec_repo [] []) (Some sec_keys) sec_opts
      = (sec_repo sec_run_new st, Some (Inr ()))" using sec_sign_zone by blast
  note r0 = sec_store_reads [of "[]", simplified]
  have h: "healthy (mem_hist (sec_store sec_run_new))" by (rule sec_store_reads(1)) (simp add: sec_new_def)
  have "{p. \<exists>t. zone_of memstore sec_sha (sec_store []) 26 p t \<noteq> None} = {[]}" by (auto simp: sec_zone)
  then have paths: "ownerFQDN ''a.'' ` zone_paths (zone_of memstore sec_sha (sec_store []) 26) = {''a.''}" by (simp add: zone_paths_def ownerFQDN_def)
  have opts: "opt_ttl sec_opts = 300" "opt_validityDays sec_opts = 30" by (simp_all add: opt_ttl_def opt_validityDays_def)
  show ?thesis
    using sign_zone_signs [OF run, of "''a.''" "''main''" 36 "sample_ci 26 []"] r0 h sec_laws sec_clean run
    unfolding sec_repo_sel sample_ci_fields paths opts by (simp add: Repo_Head_def tree_ok.simps) blast
qed




end
