(* ===== verification/Daemon.thy ===== *)
theory Daemon
  imports Keys Snapshots
begin

text \<open>
  cmd/zonegitd: the configuration file of the daemon and the reconciler that keeps the
  registered handlers, their settings and the watched refs in step with the zones of the
  repository and with the configuration.

  The YAML parser and the file system are parameters.  The multiplexer of the DNS library is a map
  from zones to the configuration of the resolver behind the handler: \<open>HandleFunc\<close> sets an
  entry, \<open>HandleRemove\<close> deletes it.  A run of the daemon is a sequence of steps: a tick of the
  reconciler, a reload on SIGHUP, or anything that other goroutines do to the snapshotter.
\<close>

section \<open>The configuration (config.go)\<close>

record zoneRuleConfig =
  zr_Branch :: string
  zr_At :: string
  zr_Canary :: string
  zr_Salt :: string

record daemonConfig =
  dc_DefaultBranch :: string
  dc_DefaultAt :: string
  dc_DefaultCanary :: string
  dc_DefaultSalt :: string
  dc_Zones :: "(string \<times> zoneRuleConfig) list"

definition empty_config :: daemonConfig where
  "empty_config = \<lparr>dc_DefaultBranch = [], dc_DefaultAt = [], dc_DefaultCanary = [], dc_DefaultSalt = [], dc_Zones = []\<rparr>"

text \<open>The loop that makes the keys of the map canonical; \<open>ord\<close> is the order of the iteration.\<close>

fun canon_zones :: "(string \<times> zoneRuleConfig) list \<Rightarrow> string list \<Rightarrow> (string \<times> zoneRuleConfig) list \<Rightarrow> (string \<times> zoneRuleConfig) list" where
  "canon_zones zones [] canon = canon"
| "canon_zones zones (k # ks) canon =
     canon_zones zones ks (case map_of zones k of None \<Rightarrow> canon | Some v \<Rightarrow> AList.update (CanonZone k) v canon)"

definition loadDaemonConfig :: "'f FS \<Rightarrow> (bytes \<Rightarrow> error + daemonConfig) \<Rightarrow> (string list \<Rightarrow> string list) \<Rightarrow> 'f \<Rightarrow> string \<Rightarrow> error + daemonConfig" where
  "loadDaemonConfig F Unmarshal_yaml ord f path =
     (if path = [] then Inr empty_config
      else case ReadFile F f path of
        Inl e \<Rightarrow> Inl e
      | Inr data \<Rightarrow>
          (case Unmarshal_yaml data of
             Inl e \<Rightarrow> Inl e
           | Inr c \<Rightarrow>
               let c = (if dc_DefaultBranch c = [] then c\<lparr>dc_DefaultBranch := ''main''\<rparr> else c)
               in Inr (c\<lparr>dc_Zones := canon_zones (dc_Zones c) (ord (map fst (dc_Zones c))) []\<rparr>)))"

text \<open>\<open>override z r\<close> is \<open>z\<close> unless it is empty.\<close>

definition override :: "string \<Rightarrow> string \<Rightarrow> string" where
  "override z r = (if z \<noteq> [] then z else r)"

definition ruleFor :: "daemonConfig \<Rightarrow> string \<Rightarrow> zoneRuleConfig" where
  "ruleFor c zone =
     (let zone = CanonZone zone;
          r = \<lparr>zr_Branch = dc_DefaultBranch c, zr_At = dc_DefaultAt c, zr_Canary = dc_DefaultCanary c, zr_Salt = dc_DefaultSalt c\<rparr>;
          r = (case map_of (dc_Zones c) zone of
                 None \<Rightarrow> r
               | Some z \<Rightarrow> \<lparr>zr_Branch = override (zr_Branch z) (zr_Branch r), zr_At = override (zr_At z) (zr_At r),
                            zr_Canary = override (zr_Canary z) (zr_Canary r), zr_Salt = override (zr_Salt z) (zr_Salt r)\<rparr>)
      in r\<lparr>zr_Branch := override (zr_Branch r) ''main'', zr_Salt := override (zr_Salt r) ''zonegit''\<rparr>)"

definition rule_String :: "zoneRuleConfig \<Rightarrow> string" where
  "rule_String r = ''branch='' @ zr_Branch r @
     (if zr_Canary r \<noteq> [] then '' canary='' @ zr_Canary r else []) @
     (if zr_At r \<noteq> [] then '' at='' @ zr_At r else [])"

section \<open>The state of the daemon (main.go)\<close>

record Flags =
  fl_zone :: string
  fl_branch :: string
  fl_at :: string
  fl_canary :: string
  fl_salt :: string
  fl_config :: string
  fl_primary :: string

definition envOr :: "(string \<Rightarrow> string) \<Rightarrow> string \<Rightarrow> string \<Rightarrow> string" where
  "envOr getenv key def = (let v = getenv key in if v \<noteq> [] then v else def)"

text \<open>The flags stand in for what the file leaves out, at the start and after a reload.\<close>

definition flag_defaults :: "Flags \<Rightarrow> daemonConfig \<Rightarrow> daemonConfig" where
  "flag_defaults fl c =
     c\<lparr>dc_DefaultBranch := override (dc_DefaultBranch c) (fl_branch fl), dc_DefaultAt := override (dc_DefaultAt c) (fl_at fl),
       dc_DefaultCanary := override (dc_DefaultCanary c) (fl_canary fl), dc_DefaultSalt := override (dc_DefaultSalt c) (fl_salt fl)\<rparr>"

datatype 's Snapshotter = Static "'s Repo" | Polling "'s PollingSnapshotter"

definition snap_Snapshot :: "'s Snapshotter \<Rightarrow> error + 's Repo" where
  "snap_Snapshot snap =
     (case snap of
        Static r \<Rightarrow> StaticSnapshotter_Snapshot (Some r)
      | Polling p \<Rightarrow> (case Snapshot p of Inl e \<Rightarrow> Inl e | Inr h \<Rightarrow> Inr (ps_handles p ! h)))"

record 's Daemon =
  dm_snap :: "'s Snapshotter"
  dm_metrics :: Metrics
  dm_activeConfig :: daemonConfig
  dm_pinCache :: "(string \<times> Hash) list"
  dm_registered :: "(string \<times> zoneRuleConfig) list"
  dm_handlers :: "(string \<times> Config) list"

definition resolvePin :: "'s Storage \<Rightarrow> string \<Rightarrow> 's Daemon \<Rightarrow> 's Daemon \<times> Hash" where
  "resolvePin S refish d =
     (if refish = [] then (d, ZeroHash)
      else case map_of (dm_pinCache d) refish of
        Some h \<Rightarrow> (d, h)
      | None \<Rightarrow>
          (case snap_Snapshot (dm_snap d) of
             Inl e \<Rightarrow> (d, ZeroHash)
           | Inr probe \<Rightarrow>
               (case Repo_Resolve S probe refish of
                  Inl e \<Rightarrow> (d, ZeroHash)
                | Inr h \<Rightarrow> (d\<lparr>dm_pinCache := AList.update refish h (dm_pinCache d)\<rparr>, h))))"

section \<open>The reconciler (main.go)\<close>

text \<open>The router of a rule; a canary that cannot be parsed is left out.\<close>

definition rule_router :: "zoneRuleConfig \<Rightarrow> BucketRouter option" where
  "rule_router rule =
     (if zr_Canary rule = [] then None
      else case NewBucketRouter (zr_Branch rule) (zr_Canary rule) (zr_Salt rule) of Inl e \<Rightarrow> None | Inr br \<Rightarrow> Some br)"

definition zone_refs :: "string \<Rightarrow> zoneRuleConfig \<Rightarrow> string list" where
  "zone_refs z rule = BranchRef z (zr_Branch rule) #
     (case rule_router rule of None \<Rightarrow> [] | Some br \<Rightarrow> [BranchRef z (br_CanaryBranch br)])"

definition zone_config :: "'d DNSQ \<Rightarrow> string \<Rightarrow> zoneRuleConfig \<Rightarrow> Hash \<Rightarrow> Config" where
  "zone_config Q z rule pin = New_Resolver Q
     \<lparr>cf_Zone = z, cf_DefaultBranch = zr_Branch rule, cf_PinnedAt = pin,
      cf_Router = map_option Route (rule_router rule), cf_MetricsHook = True\<rparr>"

definition unregister :: "string \<Rightarrow> 's Daemon \<Rightarrow> 's Daemon" where
  "unregister z d = d\<lparr>dm_handlers := AList.delete z (dm_handlers d), dm_registered := AList.delete z (dm_registered d)\<rparr>"

definition register_zone :: "'s Storage \<Rightarrow> 'd DNSQ \<Rightarrow> string \<Rightarrow> 's Daemon \<Rightarrow> 's Daemon" where
  "register_zone S Q z d =
     (let rule = ruleFor (dm_activeConfig d) z in
      if map_of (dm_registered d) z = Some rule then d
      else
        let d1 = (if map_of (dm_registered d) z = None then d else unregister z d) in
        (case resolvePin S (zr_At rule) d1 of (d2, pin) \<Rightarrow>
           d2\<lparr>dm_handlers := AList.update z (zone_config Q z rule pin) (dm_handlers d2),
              dm_registered := AList.update z rule (dm_registered d2)\<rparr>))"

definition set_watched :: "string list \<Rightarrow> 's Daemon \<Rightarrow> 's Daemon" where
  "set_watched refsToWatch d =
     (case dm_snap d of Static _ \<Rightarrow> d | Polling p \<Rightarrow> d\<lparr>dm_snap := Polling (SetWatchedRefs refsToWatch p)\<rparr>)"

definition desired_zones :: "string \<Rightarrow> string list \<Rightarrow> string list" where
  "desired_zones zoneFilter all = (if zoneFilter \<noteq> [] then filter (\<lambda>z. z = zoneFilter) all else all)"

text \<open>\<open>fresh\<close> is what opening the repository read-only gives at this tick.\<close>

definition reconcile :: "'s Storage \<Rightarrow> 'd DNSQ \<Rightarrow> string \<Rightarrow> (error + 's Repo) \<Rightarrow> 's Daemon \<Rightarrow> 's Daemon" where
  "reconcile S Q zoneFilter fresh d =
     (case (case dm_snap d of Static r \<Rightarrow> Inr r | Polling _ \<Rightarrow> fresh) of
        Inl e \<Rightarrow> d
      | Inr rp \<Rightarrow>
          (case Repo_Zones S rp of
             Inl e \<Rightarrow> d
           | Inr all \<Rightarrow>
               let desired = desired_zones zoneFilter all;
                   refsToWatch = concat (map (\<lambda>z. zone_refs z (ruleFor (dm_activeConfig d) z)) desired);
                   d1 = fold (register_zone S Q) desired d;
                   gone = filter (\<lambda>z. z \<notin> set desired) (map fst (dm_registered d1));
                   d2 = fold unregister gone d1
               in set_watched refsToWatch d2))"

definition reload :: "'f FS \<Rightarrow> (bytes \<Rightarrow> error + daemonConfig) \<Rightarrow> (string list \<Rightarrow> string list) \<Rightarrow> 'f \<Rightarrow> Flags \<Rightarrow> 's Daemon \<Rightarrow> 's Daemon" where
  "reload F U ord f fl d =
     (case loadDaemonConfig F U ord f (fl_config fl) of
        Inl e \<Rightarrow> d
      | Inr newCfg \<Rightarrow> d\<lparr>dm_activeConfig := flag_defaults fl newCfg\<rparr>)"

definition active_label :: "Flags \<Rightarrow> daemonConfig \<Rightarrow> string" where
  "active_label fl c =
     (if fl_config fl \<noteq> [] then ''config='' @ fl_config fl
      else if dc_DefaultCanary c \<noteq> [] then dc_DefaultBranch c @ '' + '' @ dc_DefaultCanary c
      else dc_DefaultBranch c)"

text \<open>
  The start of the daemon up to its first reconciliation.  \<open>ro\<close> and \<open>rw\<close> are what opening the
  repository read-only and writable gives; a fatal error is on the left.
\<close>

definition startup :: "'s Storage \<Rightarrow> 'd DNSQ \<Rightarrow> 'f FS \<Rightarrow> (bytes \<Rightarrow> error + daemonConfig) \<Rightarrow> (string list \<Rightarrow> string list) \<Rightarrow> 'f \<Rightarrow> Flags \<Rightarrow>
    (error + 's Repo) \<Rightarrow> (error + 's Repo) \<Rightarrow> error + 's Daemon" where
  "startup S Q F U ord f fl ro rw =
     (case (case ro of Inr r \<Rightarrow> Inr r | Inl e \<Rightarrow> if fl_primary fl = [] then Inl e else rw) of
        Inl e \<Rightarrow> Inl e
      | Inr probe \<Rightarrow>
          (case Repo_Zones S probe of
             Inl e \<Rightarrow> Inl e
           | Inr startupZones \<Rightarrow>
               if startupZones = [] \<and> fl_primary fl = [] then Inl (ErrOther ''repo has no registered zones'')
               else case loadDaemonConfig F U ord f (fl_config fl) of
                 Inl e \<Rightarrow> Inl e
               | Inr c \<Rightarrow>
                   let cfgFile = flag_defaults fl c in
                   (case (if fl_primary fl \<noteq> [] then (case rw of Inl e \<Rightarrow> Inl e | Inr w \<Rightarrow> Inr (Static w))
                          else (case NewPollingSnapshotter S ro [] of Inl e \<Rightarrow> Inl e | Inr ps \<Rightarrow> Inr (Polling ps))) of
                      Inl e \<Rightarrow> Inl e
                    | Inr snap \<Rightarrow> Inr (reconcile S Q (CanonZone (fl_zone fl)) ro
                        \<lparr>dm_snap = snap, dm_metrics = SetActiveBranch (active_label fl cfgFile) NewMetrics, dm_activeConfig = cfgFile,
                         dm_pinCache = [], dm_registered = [], dm_handlers = []\<rparr>))))"

end
