(* ===== verification/DaemonCorrect.thy ===== *)
theory DaemonCorrect
  imports Daemon
begin

text \<open>
  The daemon: what a rule is made of, the invariant that every handler is configured by the rule
  that its zone is registered with, and what the reconciler brings about.
\<close>

section \<open>Rules\<close>

lemma override_simps [simp]: "override [] r = r" "z \<noteq> [] \<Longrightarrow> override z r = z" "override z r = [] \<longleftrightarrow> z = [] \<and> r = []"
  by (simp_all add: override_def)

lemma ruleFor_canon: "ruleFor c (CanonZone z) = ruleFor c z"
  by (simp add: ruleFor_def)

lemma ruleFor_nonempty: "zr_Branch (ruleFor c z) \<noteq> []" "zr_Salt (ruleFor c z) \<noteq> []"
  by (simp_all add: ruleFor_def Let_def)

lemma canon_zones_canonical:
  "fst ` set canon \<subseteq> range CanonZone \<Longrightarrow> fst ` set (canon_zones zones ks canon) \<subseteq> range CanonZone"
  by (induction zones ks canon rule: canon_zones.induct) (auto simp: dom_update split: option.splits)

text \<open>With a configuration file the flag for the branch has no effect.\<close>

lemma config_ignores_branch_flag:
  assumes "loadDaemonConfig F U ord f path = Inr c" and "path \<noteq> []"
  shows "flag_defaults fl c = flag_defaults (fl\<lparr>fl_branch := b\<rparr>) c"
proof -
  have "dc_DefaultBranch c \<noteq> []" using assms by (auto simp: loadDaemonConfig_def Let_def split: sum.splits if_splits)
  then show ?thesis by (simp add: flag_defaults_def)
qed

section \<open>The invariant\<close>

definition pin_ok :: "'s Daemon \<Rightarrow> zoneRuleConfig \<Rightarrow> Hash \<Rightarrow> bool" where
  "pin_ok d rule pin \<longleftrightarrow> pin = ZeroHash \<or> zr_At rule \<noteq> [] \<and> map_of (dm_pinCache d) (zr_At rule) = Some pin"

definition daemon_inv :: "'d DNSQ \<Rightarrow> 's Daemon \<Rightarrow> bool" where
  "daemon_inv Q d \<longleftrightarrow> (\<forall>z. case map_of (dm_registered d) z of
      None \<Rightarrow> map_of (dm_handlers d) z = None
    | Some rule \<Rightarrow> \<exists>pin. map_of (dm_handlers d) z = Some (zone_config Q z rule pin) \<and> pin_ok d rule pin)"

lemma pin_ok_mono: "pin_ok d rule pin \<Longrightarrow> map_of (dm_pinCache d) \<subseteq>\<^sub>m map_of (dm_pinCache d') \<Longrightarrow> pin_ok d' rule pin"
  by (auto simp: pin_ok_def map_le_def dom_def)

lemma resolvePin_spec:
  assumes "resolvePin S (zr_At rule) d = (d', pin)"
  shows "pin_ok d' rule pin" and "map_of (dm_pinCache d) \<subseteq>\<^sub>m map_of (dm_pinCache d')"
    and "d' = d\<lparr>dm_pinCache := dm_pinCache d'\<rparr>"
  using assms by (auto simp: resolvePin_def pin_ok_def map_le_def update_conv' split: if_splits option.splits sum.splits)

lemma daemon_inv_cong:
  "dm_registered d' = dm_registered d \<Longrightarrow> dm_handlers d' = dm_handlers d \<Longrightarrow> dm_pinCache d' = dm_pinCache d \<Longrightarrow>
    daemon_inv Q d' \<longleftrightarrow> daemon_inv Q d"
  by (simp add: daemon_inv_def pin_ok_def cong: option.case_cong)

text \<open>What does not concern the handlers of other zones, the configuration and the snapshotter.\<close>

definition keeps :: "'s Daemon \<Rightarrow> 's Daemon \<Rightarrow> bool" where
  "keeps d d' \<longleftrightarrow> dm_activeConfig d' = dm_activeConfig d \<and> dm_snap d' = dm_snap d \<and> map_of (dm_pinCache d) \<subseteq>\<^sub>m map_of (dm_pinCache d')"

lemma keeps_refl: "keeps d d" and keeps_trans: "keeps d d1 \<Longrightarrow> keeps d1 d2 \<Longrightarrow> keeps d d2"
  by (auto simp: keeps_def intro: map_le_trans)

lemma daemon_inv_frame:
  assumes "daemon_inv Q d" and "map_of (dm_pinCache d) \<subseteq>\<^sub>m map_of (dm_pinCache d')"
    and "map_of (dm_registered d') z = map_of (dm_registered d) z" "map_of (dm_handlers d') z = map_of (dm_handlers d) z"
  shows "case map_of (dm_registered d') z of
      None \<Rightarrow> map_of (dm_handlers d') z = None
    | Some rule \<Rightarrow> \<exists>pin. map_of (dm_handlers d') z = Some (zone_config Q z rule pin) \<and> pin_ok d' rule pin"
  using assms(1) [unfolded daemon_inv_def, rule_format, of z] assms(3,4) pin_ok_mono [OF _ assms(2)]
  by (auto split: option.splits)

lemma unregister_spec:
  "map_of (dm_registered (unregister z d)) = (map_of (dm_registered d))(z := None)"
  "map_of (dm_handlers (unregister z d)) = (map_of (dm_handlers d))(z := None)" "keeps d (unregister z d)"
  by (auto simp: unregister_def delete_conv' keeps_def)

lemma unregister_inv: "daemon_inv Q d \<Longrightarrow> daemon_inv Q (unregister z d)"
  unfolding daemon_inv_def [of Q "unregister z d"]
proof
  fix z' assume inv: "daemon_inv Q d"
  show "case map_of (dm_registered (unregister z d)) z' of
      None \<Rightarrow> map_of (dm_handlers (unregister z d)) z' = None
    | Some rule \<Rightarrow> \<exists>pin. map_of (dm_handlers (unregister z d)) z' = Some (zone_config Q z' rule pin) \<and> pin_ok (unregister z d) rule pin"
  proof (cases "z' = z")
    case False
    show ?thesis
      by (rule daemon_inv_frame [OF inv]) (use False unregister_spec [where z = z and d = d] in \<open>simp_all add: keeps_def\<close>)
  qed (simp add: unregister_spec)
qed

lemma register_zone_spec:
  fixes S :: "'s Storage" and d :: "'s Daemon" and z :: string
  assumes inv: "daemon_inv Q d"
  defines "d' \<equiv> register_zone S Q z d"
  shows "daemon_inv Q d'" and "map_of (dm_registered d') = (map_of (dm_registered d))(z \<mapsto> ruleFor (dm_activeConfig d) z)" and "keeps d d'"
    and "z' \<noteq> z \<or> map_of (dm_registered d) z = Some (ruleFor (dm_activeConfig d) z) \<Longrightarrow> map_of (dm_handlers d') z' = map_of (dm_handlers d) z'"
proof -
  let ?rule = "ruleFor (dm_activeConfig d) z"
  have "daemon_inv Q d' \<and> map_of (dm_registered d') = (map_of (dm_registered d))(z \<mapsto> ?rule) \<and> keeps d d' \<and>
    (\<forall>z'. z' \<noteq> z \<or> map_of (dm_registered d) z = Some ?rule \<longrightarrow> map_of (dm_handlers d') z' = map_of (dm_handlers d) z')"
  proof (cases "map_of (dm_registered d) z = Some ?rule")
    case True
    then show ?thesis using inv keeps_refl by (auto simp: d'_def register_zone_def Let_def)
  next
    case False
    define d1 where "d1 = (if map_of (dm_registered d) z = None then d else unregister z d)"
    have d1: "map_of (dm_registered d1) = (map_of (dm_registered d))(z := None)" "keeps d d1"
        "\<And>z'. z' \<noteq> z \<Longrightarrow> map_of (dm_handlers d1) z' = map_of (dm_handlers d) z'"
      using unregister_spec [where z = z and d = d] by (auto simp: d1_def keeps_refl fun_upd_idem)
    have inv1: "daemon_inv Q d1" using inv unregister_inv [OF inv] by (simp add: d1_def)
    obtain d2 pin where pin: "resolvePin S (zr_At ?rule) d1 = (d2, pin)" by (cases "resolvePin S (zr_At ?rule) d1")
    note p = resolvePin_spec [OF pin]
    have d': "d' = d2\<lparr>dm_handlers := AList.update z (zone_config Q z ?rule pin) (dm_handlers d2), dm_registered := AList.update z ?rule (dm_registered d2)\<rparr>"
      using False pin by (simp add: d'_def register_zone_def Let_def d1_def)
    have parts: "dm_registered d2 = dm_registered d1" "dm_handlers d2 = dm_handlers d1" "dm_activeConfig d2 = dm_activeConfig d1" "dm_snap d2 = dm_snap d1"
      using p(3) by (metis Daemon.select_convs Daemon.surjective Daemon.update_convs(4))+
    have inv': "daemon_inv Q d'"
      unfolding daemon_inv_def
    proof
      fix y
      show "case map_of (dm_registered d') y of
          None \<Rightarrow> map_of (dm_handlers d') y = None
        | Some rule \<Rightarrow> \<exists>pin. map_of (dm_handlers d') y = Some (zone_config Q y rule pin) \<and> pin_ok d' rule pin"
      proof (cases "y = z")
        case True
        then show ?thesis using p(1) by (auto simp: d' update_conv' pin_ok_def)
      next
        case False
        then show ?thesis using daemon_inv_frame [OF inv1, of d' y] p(2) parts by (simp add: d' update_conv')
      qed
    qed
    show ?thesis
      using inv' d1 parts p(2) False by (auto simp: d' update_conv' keeps_def intro: map_le_trans)
  qed
  then show "daemon_inv Q d'" "map_of (dm_registered d') = (map_of (dm_registered d))(z \<mapsto> ?rule)" "keeps d d'"
    "z' \<noteq> z \<or> map_of (dm_registered d) z = Some ?rule \<Longrightarrow> map_of (dm_handlers d') z' = map_of (dm_handlers d) z'"
    by blast+
qed


lemma fold_register:
  assumes "daemon_inv Q d"
  shows "daemon_inv Q (fold (register_zone S Q) zs d) \<and> keeps d (fold (register_zone S Q) zs d)
    \<and> (\<forall>z. map_of (dm_registered (fold (register_zone S Q) zs d)) z =
         (if z \<in> set zs then Some (ruleFor (dm_activeConfig d) z) else map_of (dm_registered d) z))
    \<and> (\<forall>z. z \<notin> set zs \<or> map_of (dm_registered d) z = Some (ruleFor (dm_activeConfig d) z) \<longrightarrow>
         map_of (dm_handlers (fold (register_zone S Q) zs d)) z = map_of (dm_handlers d) z)"
  using assms
proof (induction zs arbitrary: d)
  case Nil
  then show ?case by (simp add: keeps_refl)
next
  case (Cons y zs)
  note r = register_zone_spec [OF Cons.prems, where S = S and z = y]
  have cfg: "dm_activeConfig (register_zone S Q y d) = dm_activeConfig d" using r(3) by (simp add: keeps_def)
  have h: "map_of (dm_handlers (register_zone S Q y d)) z = map_of (dm_handlers d) z"
    if "z \<noteq> y \<or> map_of (dm_registered d) z = Some (ruleFor (dm_activeConfig d) z)" for z
    using r(4) [of z] that by (cases "z = y") auto
  have "map_of (dm_handlers (register_zone S Q y d)) z = map_of (dm_handlers d) z"
    if "z \<notin> set (y # zs) \<or> map_of (dm_registered d) z = Some (ruleFor (dm_activeConfig d) z)" for z
    by (rule h) (use that in auto)
  then show ?case
    using Cons.IH [OF r(1)] keeps_trans [OF r(3)] unfolding cfg r(2) by auto
qed

lemma fold_unregister:
  assumes "daemon_inv Q d"
  shows "daemon_inv Q (fold unregister zs d) \<and> keeps d (fold unregister zs d)
    \<and> (\<forall>z. map_of (dm_registered (fold unregister zs d)) z = (if z \<in> set zs then None else map_of (dm_registered d) z))
    \<and> (\<forall>z. z \<notin> set zs \<longrightarrow> map_of (dm_handlers (fold unregister zs d)) z = map_of (dm_handlers d) z)"
  using assms
proof (induction zs arbitrary: d)
  case (Cons y zs)
  note u = unregister_spec [where z = y and d = d]
  from Cons.IH [OF unregister_inv [OF Cons.prems], of y] show ?case
    using keeps_trans [OF u(3)] by (simp add: u(1,2))
qed (simp add: keeps_refl)

definition tick_repo :: "(error + 's Repo) \<Rightarrow> 's Daemon \<Rightarrow> error + 's Repo" where
  "tick_repo fresh d = (case dm_snap d of Static r \<Rightarrow> Inr r | Polling _ \<Rightarrow> fresh)"

lemma reconcile_spec:
  fixes zf :: string and S :: "'s Storage" and d :: "'s Daemon"
  assumes inv: "daemon_inv Q d" and rp: "tick_repo fresh d = Inr rp" "Repo_Zones S rp = Inr all"
  defines "d' \<equiv> reconcile S Q zf fresh d" and "desired \<equiv> set (desired_zones zf all)" and "rule \<equiv> ruleFor (dm_activeConfig d)"
  shows "daemon_inv Q d'" and "dm_activeConfig d' = dm_activeConfig d"
    and "map_of (dm_registered d') z = (if z \<in> desired then Some (rule z) else None)"
    and "z \<in> desired \<Longrightarrow> map_of (dm_registered d) z = Some (rule z) \<Longrightarrow> map_of (dm_handlers d') z = map_of (dm_handlers d) z"
    and "dm_snap d' = (case dm_snap d of Static r \<Rightarrow> Static r
      | Polling p \<Rightarrow> Polling (SetWatchedRefs (concat (map (\<lambda>z. zone_refs z (rule z)) (desired_zones zf all))) p))"
proof -
  let ?zs = "desired_zones zf all"
  define d1 where "d1 = fold (register_zone S Q) ?zs d"
  define gone where "gone = filter (\<lambda>z. z \<notin> set ?zs) (map fst (dm_registered d1))"
  define d2 where "d2 = fold unregister gone d1"
  have d': "d' = set_watched (concat (map (\<lambda>z. zone_refs z (rule z)) ?zs)) d2"
    using rp by (simp add: d'_def reconcile_def tick_repo_def Let_def d1_def d2_def gone_def rule_def)
  note r = fold_register [OF inv, of S ?zs, folded d1_def]
  note u = fold_unregister [OF r [THEN conjunct1], of gone, folded d2_def]
  have snap: "dm_snap d2 = dm_snap d" and cfg: "dm_activeConfig d2 = dm_activeConfig d" using r u by (simp_all add: keeps_def)
  have same: "dm_registered d' = dm_registered d2" "dm_handlers d' = dm_handlers d2" "dm_pinCache d' = dm_pinCache d2" "dm_activeConfig d' = dm_activeConfig d2"
    by (simp_all add: d' set_watched_def split: Snapshotter.splits)
  show "dm_activeConfig d' = dm_activeConfig d" by (simp add: same cfg)
  show "daemon_inv Q d'" using u daemon_inv_cong [OF same(1-3)] by blast
  have ins: "z \<in> set gone" if "z \<notin> desired" "map_of (dm_registered d1) z \<noteq> None"
    using that unfolding map_of_eq_None_iff by (simp add: gone_def desired_def)
  have outs: "z \<notin> set gone" if "z \<in> desired" using that by (simp add: gone_def desired_def)
  have "map_of (dm_registered d2) z = (if z \<in> set gone then None else map_of (dm_registered d1) z)" using u by blast
  moreover have "map_of (dm_registered d1) z = Some (rule z)" if "z \<in> desired" using that r by (simp add: desired_def rule_def)
  ultimately show "map_of (dm_registered d') z = (if z \<in> desired then Some (rule z) else None)"
    using ins outs by (cases "map_of (dm_registered d1) z") (auto simp: same)
  show "map_of (dm_handlers d') z = map_of (dm_handlers d) z" if "z \<in> desired" "map_of (dm_registered d) z = Some (rule z)"
    using that r u by (simp add: same gone_def desired_def rule_def)
  show "dm_snap d' = (case dm_snap d of Static r \<Rightarrow> Static r
      | Polling p \<Rightarrow> Polling (SetWatchedRefs (concat (map (\<lambda>z. zone_refs z (rule z)) ?zs)) p))"
    by (simp add: d' set_watched_def snap split: Snapshotter.splits)
qed

lemma reconcile_error: "tick_repo fresh d = Inl e \<or> tick_repo fresh d = Inr rp \<and> Repo_Zones S rp = Inl e \<Longrightarrow> reconcile S Q zf fresh d = d"
  by (auto simp: reconcile_def tick_repo_def)


section \<open>Runs of the daemon\<close>

text \<open>
  A tick of the reconciler, a reload of the configuration file (only a daemon with \<open>--config\<close>
  listens for SIGHUP), or a step of another goroutine, which may change the snapshotter and nothing else.
\<close>

inductive daemon_step :: "'s Storage \<Rightarrow> 'd DNSQ \<Rightarrow> 'f FS \<Rightarrow> (bytes \<Rightarrow> error + daemonConfig) \<Rightarrow> Flags \<Rightarrow> 's Daemon \<Rightarrow> 's Daemon \<Rightarrow> bool"
  for S Q F U fl where
  tick: "daemon_step S Q F U fl d (reconcile S Q (CanonZone (fl_zone fl)) fresh d)"
| sighup: "fl_config fl \<noteq> [] \<Longrightarrow> daemon_step S Q F U fl d (reload F U ord f fl d)"
| other: "daemon_step S Q F U fl d (d\<lparr>dm_snap := snap\<rparr>)"

inductive daemon_reachable :: "'s Storage \<Rightarrow> 'd DNSQ \<Rightarrow> 'f FS \<Rightarrow> (bytes \<Rightarrow> error + daemonConfig) \<Rightarrow> Flags \<Rightarrow> 's Daemon \<Rightarrow> bool"
  for S Q F U fl where
  start: "startup S Q F U ord f fl ro rw = Inr d \<Longrightarrow> daemon_reachable S Q F U fl d"
| step: "daemon_reachable S Q F U fl d \<Longrightarrow> daemon_step S Q F U fl d d' \<Longrightarrow> daemon_reachable S Q F U fl d'"

inductive_cases daemon_stepE: "daemon_step S Q F U fl d d'"

lemma reconcile_inv: "daemon_inv Q d \<Longrightarrow> daemon_inv Q (reconcile S Q zf fresh d)"
proof -
  assume inv: "daemon_inv Q d"
  show ?thesis
  proof (cases "tick_repo fresh d")
    case (Inl e)
    have "reconcile S Q zf fresh d = d" by (rule reconcile_error) (use Inl in blast)
    with inv show ?thesis by simp
  next
    case (Inr rp)
    show ?thesis
    proof (cases "Repo_Zones S rp")
      case (Inl e)
      have "reconcile S Q zf fresh d = d" by (rule reconcile_error) (use Inl Inr in blast)
      with inv show ?thesis by simp
    next
      case zs: (Inr all)
      show ?thesis by (rule reconcile_spec(1) [OF inv Inr zs])
    qed
  qed
qed

lemma daemon_step_inv: "daemon_step S Q F U fl d d' \<Longrightarrow> daemon_inv Q d \<Longrightarrow> daemon_inv Q d'"
proof (induction rule: daemon_step.induct)
  case (sighup d ord f)
  have "dm_registered (reload F U ord f fl d) = dm_registered d" "dm_handlers (reload F U ord f fl d) = dm_handlers d"
    "dm_pinCache (reload F U ord f fl d) = dm_pinCache d" by (simp_all add: reload_def split: sum.splits)
  from daemon_inv_cong [OF this] sighup show ?case by blast
next
  case (other d snap)
  then show ?case using daemon_inv_cong [of "d\<lparr>dm_snap := snap\<rparr>" d Q] by simp
qed (rule reconcile_inv)

lemma daemon_reachable_inv: "daemon_reachable S Q F U fl d \<Longrightarrow> daemon_inv Q d"
proof (induction rule: daemon_reachable.induct)
  case (start ord f ro rw d)
  then show ?case
    by (auto simp: startup_def Let_def split: sum.splits if_splits intro!: reconcile_inv) (auto simp: daemon_inv_def)
next
  case (step d d')
  then show ?case by (blast intro: daemon_step_inv)
qed


section \<open>Properties\<close>


definition sample_zone_repo :: "MemStore Repo" where
  "sample_zone_repo = \<lparr>r_storage = New\<lparr>ms_refs := [(ZoneMarkerPrefix @ ''a.'', 1), (ZoneMarkerPrefix @ ''b.'', 1)]\<rparr>, r_staging = [], r_activeZone = []\<rparr>"

definition sample_flags :: Flags where
  "sample_flags = \<lparr>fl_zone = [], fl_branch = ''main'', fl_at = [], fl_canary = ''canary:20'', fl_salt = ''zonegit'', fl_config = [], fl_primary = []\<rparr>"

definition plain_dnsq :: "bytes DNSQ" where
  "plain_dnsq = \<lparr>Fqdn = id, AsCNAME = (\<lambda>_. None), AsRRSIG = (\<lambda>_. None)\<rparr>"


text \<open>A pin that cannot be resolved is not tried again: the zone is served from the tip of its branch.\<close>

lemma pin_not_retried:
  assumes "daemon_inv Q d" and "tick_repo fresh d = Inr rp" and "Repo_Zones S rp = Inr all" and "z \<in> set (desired_zones zf all)"
    and "map_of (dm_registered d) z = Some (ruleFor (dm_activeConfig d) z)"
    and "map_of (dm_handlers d) z = Some (zone_config Q z (ruleFor (dm_activeConfig d) z) ZeroHash)"
  shows "map_of (dm_handlers (reconcile S Q zf fresh d)) z = Some (zone_config Q z (ruleFor (dm_activeConfig d) z) ZeroHash)"
  using reconcile_spec(4) [OF assms(1-3), where zf = zf and z = z] assms(4-6) by simp

end
