(* ===== verification/Cli.thy ===== *)
theory Cli
  imports ZoneSign RepoMerge
begin

text \<open>
  cmd/zonegit: the commands.  A command opens the repository, calls its operations and prints; it
  is a function from the state of the storage (and of the files and the random source,
  where it uses them) to the new state, the text it prints and its result: \<^const>\<open>None\<close>
  when the fuel of a recursion through the store runs out, otherwise an error or success.  The
  number of arguments, which cobra checks, shows in the types; an optional
  argument is an option.  What the process finds outside itself is one record: the libraries, the clock,
  the environment, and the two global flags.  Text for standard error is printed in
  order with the rest.
\<close>

section \<open>The process\<close>

record ('s, 'd, 'f, 'g) Host =
  h_S :: "'s Storage"
  h_sha :: "bytes \<Rightarrow> Hash"
  h_D :: "'d DNS"
  h_X :: "'d SEC"
  h_Q :: "'d DNSQ"
  h_F :: "'f FS"
  h_E :: "'g Ed25519"
  h_NewRR :: "string \<Rightarrow> error + 'd RR option"
  h_RR_String :: "'d RR \<Rightarrow> string"
  h_ToDS :: "'d RR \<Rightarrow> 'd RR option"
  h_quote :: "string \<Rightarrow> string"
  h_Format :: "Time \<Rightarrow> string"
  h_fuel :: nat
  h_now :: Time
  h_rnow :: int
  h_unix :: "32 word"
  h_ord :: map_order
  h_gord :: "(groupKey \<times> 'd RR list) list \<Rightarrow> (groupKey \<times> 'd RR list) list"
  h_Getenv :: "string \<Rightarrow> string"
  h_user :: "string option"
  h_Hostname :: string
  flagRepoPath :: string
  flagZone :: string

type_synonym 's outcome = "'s \<times> string \<times> (error + unit) option"

abbreviation line :: "string \<Rightarrow> string" where
  "line s \<equiv> s @ [NL]"

definition envDefault :: "(string \<Rightarrow> string) \<Rightarrow> string \<Rightarrow> string \<Rightarrow> string" where
  "envDefault getenv key def = (let v = getenv key in if v \<noteq> [] then v else def)"

definition authorIdentity :: "('s, 'd, 'f, 'g) Host \<Rightarrow> Identity" where
  "authorIdentity H =
     (let name = h_Getenv H ''ZONEGIT_AUTHOR_NAME'';
          email = h_Getenv H ''ZONEGIT_AUTHOR_EMAIL'';
          name = (if name = [] then (case h_user H of Some u \<Rightarrow> u | None \<Rightarrow> ''anonymous'') else name);
          email = (if email = [] then name @ ''@'' @ h_Hostname H else email)
      in \<lparr>id_Name = name, id_Email = email\<rparr>)"

text \<open>The branch that \<open>--zone\<close> puts HEAD on: \<open>main\<close> if the zone has it, else its first branch.\<close>

definition landing_branch :: "error + string list \<Rightarrow> string" where
  "landing_branch branches =
     (case branches of
        Inr (b # bs) \<Rightarrow> if DefaultBranch \<in> set (b # bs) then DefaultBranch else b
      | _ \<Rightarrow> DefaultBranch)"

definition openRepo :: "('s, 'd, 'f, 'g) Host \<Rightarrow> 's \<Rightarrow> 's \<times> (error + 's Repo)" where
  "openRepo H s =
     (case Repo_Open (h_S H) (h_sha H) s False of
        (s1, Inl e) \<Rightarrow> (s1, Inl e)
      | (s1, Inr r) \<Rightarrow>
          if flagZone H = [] then (s1, Inr r)
          else case IsZoneRegistered (h_S H) (r_storage r) (flagZone H) of
            Inl e \<Rightarrow> (s1, Inl e)
          | Inr registered \<Rightarrow>
              if \<not> registered then (s1, Inl (ErrOther ''--zone is not registered''))
              else case Repo_SwitchZone (h_S H) (h_sha H) r (flagZone H)
                          (landing_branch (ListBranches (h_S H) (r_storage r) (flagZone H))) of
                (r1, Inl e) \<Rightarrow> (r_storage r1, Inl e)
              | (r1, Inr _) \<Rightarrow> (r_storage r1, Inr r1))"

definition fails :: "'s Repo \<Rightarrow> error \<Rightarrow> 's outcome" where
  "fails r e = (r_storage r, [], Some (Inl e))"

definition prints :: "'s Repo \<Rightarrow> string \<Rightarrow> 's outcome" where
  "prints r out = (r_storage r, out, Some (Inr ()))"

text \<open>How every command starts.\<close>

definition with_repo :: "('s, 'd, 'f, 'g) Host \<Rightarrow> 's \<Rightarrow> ('s Repo \<Rightarrow> 's outcome) \<Rightarrow> 's outcome" where
  "with_repo H s body =
     (case openRepo H s of
        (s1, Inl e) \<Rightarrow> (s1, [], Some (Inl e))
      | (s1, Inr r) \<Rightarrow> body r)"

definition currentBranch :: "'s Storage \<Rightarrow> 's Repo \<Rightarrow> string" where
  "currentBranch S r = (case ReadHEAD S (r_storage r) of Inl _ \<Rightarrow> ''(unknown)'' | Inr (_, branch, _) \<Rightarrow> branch)"

definition stripZone :: "string \<Rightarrow> string \<Rightarrow> string" where
  "stripZone name zone =
     (let name = ToLower name;
          zone = ToLower zone;
          name = (if \<not> HasSuffix name ''.'' then name @ ''.'' else name);
          zone = (if \<not> HasSuffix zone ''.'' \<and> zone \<noteq> [] then zone @ ''.'' else zone)
      in if zone = [] then TrimSuffix name ''.''
         else if name = zone then ''@''
         else if HasSuffix name (''.'' @ zone) then TrimSuffix name (''.'' @ zone)
         else TrimSuffix name ''.'')"

section \<open>Printing (format.go)\<close>

definition diffSymbol :: "Change \<Rightarrow> string" where
  "diffSymbol c = (case ch_Op c of OpAdded \<Rightarrow> ''+'' | OpRemoved \<Rightarrow> ''-'' | OpModified \<Rightarrow> ''~'')"

definition printCommitLine :: "'s Storage \<Rightarrow> 's Repo \<Rightarrow> Hash \<Rightarrow> string \<Rightarrow> string" where
  "printCommitLine S r h msg = line (''['' @ currentBranch S r @ '' '' @ Short h @ ''] '' @ msg)"

definition printMergeConflicts :: "string \<Rightarrow> MergeResult \<Rightarrow> string \<times> error" where
  "printMergeConflicts header res =
     (line header @ concat (map (\<lambda>c. line (''  '' @ Conflict_String c)) (mr_Conflicts res)),
      ErrOther (dec_nat (length (mr_Conflicts res)) @ '' conflict(s)''))"

section \<open>Writing records (main.go, autosign.go)\<close>

definition cmd_init :: "('s, 'd, 'f, 'g) Host \<Rightarrow> 's \<Rightarrow> string \<Rightarrow> 's outcome" where
  "cmd_init H s zone = with_repo H s (\<lambda>r.
     case Repo_Init (h_S H) (h_sha H) r zone of
       (r1, Inl e) \<Rightarrow> fails r1 e
     | (r1, Inr _) \<Rightarrow> prints r1 (line (''Initialized empty zonegit repository in '' @ flagRepoPath H @ '' for zone '' @ h_quote H zone)))"

definition cmd_import :: "('s, 'd, 'f, 'g) Host \<Rightarrow> 'f \<Rightarrow> 's \<Rightarrow> string \<Rightarrow> string \<Rightarrow> 's outcome" where
  "cmd_import H f s msg file = with_repo H s (\<lambda>r.
     if r_activeZone r = [] then fails r (ErrOther ''zone not set; pass --zone or run init first'')
     else case ReadFile (h_F H) f file of
       Inl e \<Rightarrow> fails r e
     | Inr src \<Rightarrow>
         (case Repo_Import (h_S H) (h_sha H) (h_D H) r (string_of src) of
            (r1, Inl e) \<Rightarrow> fails r1 e
          | (r1, Inr n) \<Rightarrow>
              let msg = (if msg = [] then ''import '' @ file @ '' ('' @ dec_nat n @ '' RRsets)'' else msg) in
              (case Repo_Commit (h_S H) (h_sha H) (h_D H) (h_now H) (h_rnow H) r1 (authorIdentity H) msg of
                 (r2, Inl e) \<Rightarrow> fails r2 e
               | (r2, Inr h) \<Rightarrow> prints r2 (line (''['' @ currentBranch (h_S H) r2 @ '' '' @ Short h @ ''] '' @ msg @
                   '' ('' @ dec_nat n @ '' RRsets)'')))))"

definition rr_text :: "string \<Rightarrow> int \<Rightarrow> string \<Rightarrow> string \<Rightarrow> string" where
  "rr_text name ttl rrtype rdata = name @ '' '' @ dec_int ttl @ '' IN '' @ rrtype @ '' '' @ rdata"

fun parse_rrs :: "(string \<Rightarrow> error + 'd RR option) \<Rightarrow> string \<Rightarrow> int \<Rightarrow> string \<Rightarrow> string list \<Rightarrow> error + 'd RR option list" where
  "parse_rrs NewRR name ttl rrtype [] = Inr []"
| "parse_rrs NewRR name ttl rrtype (rdata # rdatas) =
     (case NewRR (rr_text name ttl rrtype rdata) of
        Inl e \<Rightarrow> Inl e
      | Inr rr \<Rightarrow> (case parse_rrs NewRR name ttl rrtype rdatas of Inl e \<Rightarrow> Inl e | Inr rrs \<Rightarrow> Inr (rr # rrs)))"

definition keysDir :: "('s, 'd, 'f, 'g) Host \<Rightarrow> string" where
  "keysDir H = path_Join (h_F H) (flagRepoPath H) ''keys''"

definition autoSignTouched :: "('s, 'd, 'f, 'g) Host \<Rightarrow> 'f \<Rightarrow> 's Repo \<Rightarrow> 'd RR list \<Rightarrow> 's Repo \<times> (error + unit)" where
  "autoSignTouched H f r touched =
     (let zoneName = r_activeZone r in
      if zoneName = [] \<or> \<not> HasKeys (h_F H) f (keysDir H) zoneName then (r, Inr ())
      else case LoadFromDir (h_F H) f (keysDir H) zoneName of
        Inl e \<Rightarrow> (r, Inl e)
      | Inr zk \<Rightarrow> AutoSign (h_S H) (h_sha H) (h_D H) (h_X H) (h_Q H) (h_unix H) (h_ord H) (h_gord H) r (Some zk) touched)"

text \<open>
  \<open>dns.NewRR\<close> gives a nil record for text that holds none, such as a comment; \<open>Set\<close> then
  dereferences it.
\<close>

definition cmd_set :: "('s, 'd, 'f, 'g) Host \<Rightarrow> 'f \<Rightarrow> 's \<Rightarrow> string \<Rightarrow> bool \<Rightarrow> string \<Rightarrow> string \<Rightarrow> string \<Rightarrow> string list \<Rightarrow> 's outcome" where
  "cmd_set H f s msg autoSign name rrtype ttl rdatas = with_repo H s (\<lambda>r.
     let rrtype = ToUpper rrtype in
     case ParseInt ttl of
       None \<Rightarrow> fails r (ErrOther ''ttl: invalid syntax'')
     | Some ttl \<Rightarrow>
         (case parse_rrs (h_NewRR H) name ttl rrtype rdatas of
            Inl e \<Rightarrow> fails r e
          | Inr parsed \<Rightarrow>
              if None \<in> set parsed then fails r GoPanic
              else
                let rrs = map the parsed in
                (case Repo_Set (h_S H) (h_sha H) (h_D H) r rrs of
                   (r1, Inl e) \<Rightarrow> fails r1 e
                 | (r1, Inr _) \<Rightarrow>
                     (case (if autoSign then autoSignTouched H f r1 rrs else (r1, Inr ())) of
                        (r2, Inl e) \<Rightarrow> fails r2 e
                      | (r2, Inr _) \<Rightarrow>
                          let msg = (if msg = [] then ''set '' @ name @ '' '' @ rrtype else msg) in
                          (case Repo_Commit (h_S H) (h_sha H) (h_D H) (h_now H) (h_rnow H) r2 (authorIdentity H) msg of
                             (r3, Inl e) \<Rightarrow> fails r3 e
                           | (r3, Inr h) \<Rightarrow> prints r3 (printCommitLine (h_S H) r3 h msg))))))"

definition cmd_delete :: "('s, 'd, 'f, 'g) Host \<Rightarrow> 's \<Rightarrow> string \<Rightarrow> string \<Rightarrow> string \<Rightarrow> 's outcome" where
  "cmd_delete H s msg name rrtype = with_repo H s (\<lambda>r.
     let r1 = Repo_Delete r (stripZone name (r_activeZone r)) rrtype;
         msg = (if msg = [] then ''delete '' @ name @ '' '' @ ToUpper rrtype else msg)
     in (case Repo_Commit (h_S H) (h_sha H) (h_D H) (h_now H) (h_rnow H) r1 (authorIdentity H) msg of
           (r2, Inl e) \<Rightarrow> fails r2 e
         | (r2, Inr h) \<Rightarrow> prints r2 (printCommitLine (h_S H) r2 h msg)))"

section \<open>Reading (main.go)\<close>

definition log_entry :: "('s, 'd, 'f, 'g) Host \<Rightarrow> Entry \<Rightarrow> string" where
  "log_entry H e =
     line (''commit '' @ hash_String (en_Hash e)) @
     line (''Author: '' @ Identity_String (c_Author (en_Commit e))) @
     line (line (''Date:   '' @ h_Format H (c_CommitTime (en_Commit e)))) @
     concat (map (\<lambda>l. line (''    '' @ l)) (Split (TrimRight (c_Message (en_Commit e)) NL) NL)) @
     line []"

definition cmd_log :: "('s, 'd, 'f, 'g) Host \<Rightarrow> 's \<Rightarrow> int \<Rightarrow> string option \<Rightarrow> 's outcome" where
  "cmd_log H s n refish = with_repo H s (\<lambda>r.
     case Repo_Log (h_S H) (h_fuel H) r (case refish of None \<Rightarrow> ''HEAD'' | Some a \<Rightarrow> a) n of
       None \<Rightarrow> (r_storage r, [], None)
     | Some (Inl e) \<Rightarrow> fails r e
     | Some (Inr entries) \<Rightarrow> prints r (concat (map (log_entry H) entries)))"

definition cmd_diff :: "('s, 'd, 'f, 'g) Host \<Rightarrow> 's \<Rightarrow> string \<Rightarrow> string \<Rightarrow> 's outcome" where
  "cmd_diff H s from to = with_repo H s (\<lambda>r.
     case Repo_Diff (h_S H) (h_sha H) (h_fuel H) r from to of
       None \<Rightarrow> (r_storage r, [], None)
     | Some (Inl e) \<Rightarrow> fails r e
     | Some (Inr chs) \<Rightarrow>
         if chs = [] then prints r (line ''(no changes)'')
         else prints r (concat (map (\<lambda>c. line (diffSymbol c @ '' '' @ Change_FQDN c @ '' '' @ ch_RRType c)) chs)))"

definition cmd_blame :: "('s, 'd, 'f, 'g) Host \<Rightarrow> 's \<Rightarrow> string \<Rightarrow> string \<Rightarrow> 's outcome" where
  "cmd_blame H s name rrtype = with_repo H s (\<lambda>r.
     case Repo_Blame (h_S H) (h_sha H) (h_fuel H) r (stripZone name (r_activeZone r)) rrtype of
       None \<Rightarrow> (r_storage r, [], None)
     | Some (Inl e) \<Rightarrow> fails r e
     | Some (Inr info) \<Rightarrow>
         if \<not> bl_Found info then prints r (line (name @ '' '' @ rrtype @ '': not found at HEAD''))
         else prints r (line (Short (bl_Commit info) @ [CHR 0x09] @ Identity_String (bl_Author info) @ [CHR 0x09] @
           ''('' @ Short (bl_Blob info) @ '')'' @ [CHR 0x09] @ hd (Split (bl_Message info) NL))))"

definition cmd_show :: "('s, 'd, 'f, 'g) Host \<Rightarrow> 's \<Rightarrow> string \<Rightarrow> string \<Rightarrow> string option \<Rightarrow> 's outcome" where
  "cmd_show H s name rrtype refish = with_repo H s (\<lambda>r.
     case (case refish of None \<Rightarrow> Inr ZeroHash | Some a \<Rightarrow> Repo_Resolve (h_S H) r a) of
       Inl e \<Rightarrow> fails r e
     | Inr commit \<Rightarrow>
         (case Repo_Lookup (h_S H) (h_sha H) (h_D H) r commit (stripZone name (r_activeZone r)) rrtype of
            Inl e \<Rightarrow> fails r e
          | Inr rs \<Rightarrow> prints r (concat (map (\<lambda>rr. line (h_RR_String H rr)) (rs_RRs rs)))))"

definition cmd_status :: "('s, 'd, 'f, 'g) Host \<Rightarrow> 's \<Rightarrow> 's outcome" where
  "cmd_status H s = with_repo H s (\<lambda>r.
     case Repo_Head (h_S H) r of
       Inl e \<Rightarrow> fails r e
     | Inr (zoneName, branch, head) \<Rightarrow>
         prints r (line (''repo:   '' @ flagRepoPath H) @ line (''zone:   '' @ zoneName) @ line (''branch: '' @ branch) @
           line (''HEAD:   '' @ (if IsZero head then ''(empty)'' else Short head))))"

definition cmd_cat_object :: "('s, 'd, 'f, 'g) Host \<Rightarrow> 's \<Rightarrow> string \<Rightarrow> 's outcome" where
  "cmd_cat_object H s a = with_repo H s (\<lambda>r.
     case Repo_Resolve (h_S H) r a of
       Inl e \<Rightarrow> fails r e
     | Inr h \<Rightarrow>
         (case GetObject (h_S H) (r_storage r) h of
            Inl e \<Rightarrow> fails r e
          | Inr obj \<Rightarrow> prints r (line (''kind: '' @ obj_Kind obj) @ line (''size: '' @ dec_nat (length (obj_Payload obj))) @
              line ''---'' @ string_of (obj_Payload obj))))"

section \<open>Branches (main.go, merge.go)\<close>

definition cmd_branch :: "('s, 'd, 'f, 'g) Host \<Rightarrow> 's \<Rightarrow> (string \<times> string option) option \<Rightarrow> 's outcome" where
  "cmd_branch H s args = with_repo H s (\<lambda>r.
     case Repo_Head (h_S H) r of
       Inl e \<Rightarrow> fails r e
     | Inr (zoneName, curName, _) \<Rightarrow>
         (case args of
            None \<Rightarrow>
              (case ListBranches (h_S H) (r_storage r) zoneName of
                 Inl e \<Rightarrow> fails r e
               | Inr names \<Rightarrow> prints r (concat (map (\<lambda>n. line ((if n = curName then ''* '' else ''  '') @ n)) names)))
          | Some (name, start) \<Rightarrow>
              (case Repo_Resolve (h_S H) r (case start of None \<Rightarrow> ''HEAD'' | Some a \<Rightarrow> a) of
                 Inl e \<Rightarrow> fails r e
               | Inr h \<Rightarrow>
                   (case CreateBranch (h_S H) (r_storage r) zoneName name h of
                      (s1, Inl e) \<Rightarrow> (s1, [], Some (Inl e))
                    | (s1, Inr _) \<Rightarrow> (s1, [], Some (Inr ()))))))"

definition cmd_checkout :: "('s, 'd, 'f, 'g) Host \<Rightarrow> 's \<Rightarrow> string \<Rightarrow> 's outcome" where
  "cmd_checkout H s branch = with_repo H s (\<lambda>r.
     case Repo_Head (h_S H) r of
       Inl e \<Rightarrow> fails r e
     | Inr (zoneName, _, _) \<Rightarrow>
         (case Repo_SwitchZone (h_S H) (h_sha H) r zoneName branch of
            (r1, Inl e) \<Rightarrow> fails r1 e
          | (r1, Inr _) \<Rightarrow> prints r1 []))"

definition cmd_merge :: "('s, 'd, 'f, 'g) Host \<Rightarrow> 's \<Rightarrow> string \<Rightarrow> string \<Rightarrow> 's outcome" where
  "cmd_merge H s msg branch = with_repo H s (\<lambda>r.
     case Repo_Merge (h_S H) (h_sha H) (h_fuel H) (h_now H) (h_rnow H) r branch (authorIdentity H) msg of
       (r1, None) \<Rightarrow> (r_storage r1, [], None)
     | (r1, Some (Inl e)) \<Rightarrow> fails r1 e
     | (r1, Some (Inr res)) \<Rightarrow>
         if mr_AlreadyUpToDate res then prints r1 (line ''Already up to date.'')
         else if mr_FastForward res then prints r1 (line (''Fast-forward to '' @ Short (mr_Commit res) @ ''.''))
         else if mr_Conflicts res \<noteq> [] then
           (case printMergeConflicts ''merge conflicts (no commit produced):'' res of (out, e) \<Rightarrow> (r_storage r1, out, Some (Inl e)))
         else prints r1 (line (''Merge made by 3-way; new commit '' @ Short (mr_Commit res) @ ''.'')))"

definition cmd_revert :: "('s, 'd, 'f, 'g) Host \<Rightarrow> 's \<Rightarrow> string \<Rightarrow> string \<Rightarrow> 's outcome" where
  "cmd_revert H s msg commit = with_repo H s (\<lambda>r.
     case Repo_Revert (h_S H) (h_sha H) (h_fuel H) (h_now H) (h_rnow H) r commit (authorIdentity H) msg of
       (r1, None) \<Rightarrow> (r_storage r1, [], None)
     | (r1, Some (Inl e)) \<Rightarrow> fails r1 e
     | (r1, Some (Inr h)) \<Rightarrow> prints r1 (line (''Reverted as '' @ Short h)))"

definition cmd_reset :: "('s, 'd, 'f, 'g) Host \<Rightarrow> 's \<Rightarrow> bool \<Rightarrow> string \<Rightarrow> 's outcome" where
  "cmd_reset H s hard refish =
     (if \<not> hard then (s, [], Some (Inl (ErrOther ''reset: only --hard is supported'')))
      else with_repo H s (\<lambda>r.
        case Repo_ResetHard (h_S H) (h_rnow H) r refish (authorIdentity H) of
          (r1, Inl e) \<Rightarrow> fails r1 e
        | (r1, Inr h) \<Rightarrow> prints r1 (line (''HEAD is now at '' @ Short h))))"

section \<open>Proposals (propose.go)\<close>

definition cmd_propose :: "('s, 'd, 'f, 'g) Host \<Rightarrow> 's \<Rightarrow> string \<Rightarrow> string \<Rightarrow> 's outcome" where
  "cmd_propose H s from name = with_repo H s (\<lambda>r.
     case Repo_Resolve (h_S H) r from of
       Inl e \<Rightarrow> fails r e
     | Inr start \<Rightarrow>
         (case Repo_Head (h_S H) r of
            Inl e \<Rightarrow> fails r e
          | Inr (zoneName, _, _) \<Rightarrow>
              (case CreateBranch (h_S H) (r_storage r) zoneName name start of
                 (s1, Inl e) \<Rightarrow> fails (r\<lparr>r_storage := s1\<rparr>) e
               | (s1, Inr _) \<Rightarrow>
                   (case Repo_SwitchZone (h_S H) (h_sha H) (r\<lparr>r_storage := s1\<rparr>) zoneName name of
                      (r1, Inl e) \<Rightarrow> fails r1 e
                    | (r1, Inr _) \<Rightarrow> prints r1 (line (''proposal '' @ h_quote H name @ '' created from '' @ Short start @
                        '' (HEAD now on '' @ zoneName @ ''/'' @ name @ '')''))))))"

definition cmd_approve :: "('s, 'd, 'f, 'g) Host \<Rightarrow> 's \<Rightarrow> string \<Rightarrow> string \<Rightarrow> string \<Rightarrow> 's outcome" where
  "cmd_approve H s into msg proposal = with_repo H s (\<lambda>r.
     case Repo_Head (h_S H) r of
       Inl e \<Rightarrow> fails r e
     | Inr (zoneName, _, _) \<Rightarrow>
         (case Repo_SwitchZone (h_S H) (h_sha H) r zoneName into of
            (r1, Inl e) \<Rightarrow> fails r1 e
          | (r1, Inr _) \<Rightarrow>
              (case Repo_Merge (h_S H) (h_sha H) (h_fuel H) (h_now H) (h_rnow H) r1 proposal (authorIdentity H) msg of
                 (r2, None) \<Rightarrow> (r_storage r2, [], None)
               | (r2, Some (Inl e)) \<Rightarrow> fails r2 e
               | (r2, Some (Inr res)) \<Rightarrow>
                   if mr_AlreadyUpToDate res then
                     prints r2 (line (''Proposal '' @ h_quote H proposal @ '' is already up to date with '' @ into @ ''.''))
                   else if mr_FastForward res then
                     prints r2 (line (''Approved '' @ h_quote H proposal @ '': fast-forward to '' @ Short (mr_Commit res) @ '' on '' @ into @ ''.''))
                   else if mr_Conflicts res \<noteq> [] then
                     (case printMergeConflicts ''conflicts (proposal remains open):'' res of (out, e) \<Rightarrow> (r_storage r2, out, Some (Inl e)))
                   else prints r2 (line (''Approved '' @ h_quote H proposal @ '': merge commit '' @ Short (mr_Commit res) @ '' on '' @ into @ ''.'')))))"

definition cmd_review :: "('s, 'd, 'f, 'g) Host \<Rightarrow> 's \<Rightarrow> string \<Rightarrow> string \<Rightarrow> 's outcome" where
  "cmd_review H s into proposal = with_repo H s (\<lambda>r.
     case Repo_Diff (h_S H) (h_sha H) (h_fuel H) r into proposal of
       None \<Rightarrow> (r_storage r, [], None)
     | Some (Inl e) \<Rightarrow> fails r e
     | Some (Inr chs) \<Rightarrow>
         if chs = [] then prints r (line (''proposal '' @ h_quote H proposal @ '' has no changes vs '' @ into))
         else prints r (line (''proposal '' @ h_quote H proposal @ '' vs '' @ into @ [CHR 0x20, CHR 0xE2, CHR 0x80, CHR 0x94, CHR 0x20] @
             dec_nat (length chs) @ '' change(s):'') @
           concat (map (\<lambda>c. line (''  '' @ diffSymbol c @ '' '' @ TrimSuffix (Change_FQDN c) ''.'' @ '' '' @ ch_RRType c)) chs)))"

section \<open>Signing (sign.go, sign-zone.go, ds.go)\<close>

definition cmd_keygen :: "('s, 'd, 'f, 'g) Host \<Rightarrow> 'f \<Rightarrow> 'g \<Rightarrow> string \<Rightarrow> string \<Rightarrow> 'f \<times> 'g \<times> string \<times> (error + unit)" where
  "cmd_keygen H f g pubpath privpath =
     (case GenerateKeypair (h_F H) (h_E H) f g pubpath privpath of
        (f1, g1, Inl e) \<Rightarrow> (f1, g1, [], Inl e)
      | (f1, g1, Inr _) \<Rightarrow> (f1, g1, line (''wrote public key to  '' @ pubpath) @ line (''wrote private key to '' @ privpath), Inr ()))"

text \<open>The branch is moved when HEAD is at the commit; the error of the reflog is dropped.\<close>

definition move_signed :: "('s, 'd, 'f, 'g) Host \<Rightarrow> 's \<Rightarrow> Hash \<Rightarrow> Hash \<Rightarrow> Commit \<Rightarrow> 's \<times> (error + unit)" where
  "move_signed H s h newH sc =
     (case ReadHEAD (h_S H) s of
        Inl e \<Rightarrow> (s, Inr ())
      | Inr (zoneName, branch, headHash) \<Rightarrow>
          if headHash \<noteq> h then (s, Inr ())
          else case UpdateBranch (h_S H) s zoneName branch h newH of
            (s1, Inl e) \<Rightarrow> (s1, Inl e)
          | (s1, Inr _) \<Rightarrow>
              (fst (db_AppendReflog (h_S H) s1 (h_rnow H) (BranchRef zoneName branch) h newH
                 (Identity_String (c_Author sc)) ''sign'' ''ed25519 sign''), Inr ()))"

definition cmd_sign_commit :: "('s, 'd, 'f, 'g) Host \<Rightarrow> 'f \<Rightarrow> 's \<Rightarrow> string \<Rightarrow> string option \<Rightarrow> 's outcome" where
  "cmd_sign_commit H f s keyPath refish =
     (if keyPath = [] then (s, [], Some (Inl (ErrOther ''--key is required'')))
      else case LoadPrivateKey (h_F H) f keyPath of
        Inl e \<Rightarrow> (s, [], Some (Inl e))
      | Inr priv \<Rightarrow> with_repo H s (\<lambda>r.
          case Repo_Resolve (h_S H) r (case refish of None \<Rightarrow> ''HEAD'' | Some a \<Rightarrow> a) of
            Inl e \<Rightarrow> fails r e
          | Inr h \<Rightarrow>
              (case loadCommit (h_S H) (r_storage r) h of
                 Inl e \<Rightarrow> fails r e
               | Inr c \<Rightarrow>
                   (case SignCommit (h_E H) (h_sha H) c priv of
                      Inl e \<Rightarrow> fails r e
                    | Inr (sc, newH, newObj) \<Rightarrow>
                        (case PutObject (h_S H) (r_storage r) newH newObj of
                           (s1, Inl e) \<Rightarrow> (s1, [], Some (Inl e))
                         | (s1, Inr _) \<Rightarrow>
                             (case move_signed H s1 h newH sc of
                                (s2, Inl e) \<Rightarrow> (s2, [], Some (Inl e))
                              | (s2, Inr _) \<Rightarrow> (s2, line (''signed '' @ Short h @ '' -> '' @ Short newH), Some (Inr ()))))))))"

definition firstLine :: "string \<Rightarrow> string" where
  "firstLine s = takeWhile (\<lambda>c. c \<noteq> NL) s"

definition sign_error_text :: "sign_error \<Rightarrow> string" where
  "sign_error_text e =
     (case e of
        ErrUnsigned \<Rightarrow> ''commit has no signature''
      | ErrBadSignatureFormat \<Rightarrow> ''commit signature is not in ed25519:<base64> form''
      | ErrSignatureMismatch \<Rightarrow> ''commit signature does not verify''
      | SignPanic \<Rightarrow> ''panic'')"

definition verify_line :: "Hash \<Rightarrow> Commit \<Rightarrow> sign_error option \<Rightarrow> string" where
  "verify_line h c res =
     (case res of
        None \<Rightarrow> line (''OK     '' @ Short h @ ''  '' @ firstLine (c_Message c))
      | Some e \<Rightarrow> line (''FAIL   '' @ Short h @ ''  '' @ firstLine (c_Message c) @ ''  ('' @ sign_error_text e @ '')''))"

fun verify_loop :: "('s, 'd, 'f, 'g) Host \<Rightarrow> 's \<Rightarrow> bytes \<Rightarrow> bool \<Rightarrow> nat \<Rightarrow> Hash \<Rightarrow> string \<Rightarrow> string \<times> (error + unit) option" where
  "verify_loop H s pub whole 0 h out = (out, None)"
| "verify_loop H s pub whole (Suc n) h out =
     (case loadCommit (h_S H) s h of
        Inl e \<Rightarrow> (out, Some (Inl e))
      | Inr c \<Rightarrow>
          let res = VerifyCommit (h_E H) (h_sha H) c pub;
              out1 = out @ verify_line h c res
          in if res = Some SignPanic then (out, Some (Inl GoPanic))
             else if res \<noteq> None \<and> \<not> whole then (out1, Some (Inl (ErrOther (sign_error_text (the res)))))
             else if \<not> whole \<or> c_Parents c = [] then (out1, Some (Inr ()))
             else verify_loop H s pub whole n (hd (c_Parents c)) out1)"

definition cmd_verify :: "('s, 'd, 'f, 'g) Host \<Rightarrow> 'f \<Rightarrow> 's \<Rightarrow> string \<Rightarrow> bool \<Rightarrow> string option \<Rightarrow> 's outcome" where
  "cmd_verify H f s keyPath whole refish =
     (if keyPath = [] then (s, [], Some (Inl (ErrOther ''--key is required'')))
      else case LoadPublicKey (h_F H) f keyPath of
        Inl e \<Rightarrow> (s, [], Some (Inl e))
      | Inr pub \<Rightarrow> with_repo H s (\<lambda>r.
          case Repo_Resolve (h_S H) r (case refish of None \<Rightarrow> ''HEAD'' | Some a \<Rightarrow> a) of
            Inl e \<Rightarrow> fails r e
          | Inr h \<Rightarrow> (r_storage r, verify_loop H (r_storage r) pub whole (h_fuel H) h [])))"

definition zone_arg :: "string option \<Rightarrow> 's Repo \<Rightarrow> string" where
  "zone_arg zone r = (case zone of None \<Rightarrow> r_activeZone r | Some z \<Rightarrow> z)"

definition cmd_zone_keygen :: "('s, 'd, 'f, 'g) Host \<Rightarrow> 'f \<Rightarrow> 'g \<Rightarrow> 's \<Rightarrow> string option \<Rightarrow> 'f \<times> 'g \<times> 's outcome" where
  "cmd_zone_keygen H f g s zone =
     (case openRepo H s of
        (s1, Inl e) \<Rightarrow> (f, g, s1, [], Some (Inl e))
      | (s1, Inr r) \<Rightarrow>
          let z = zone_arg zone r in
          if z = [] then (f, g, fails r (ErrOther ''zone-keygen: no zone''))
          else if HasKeys (h_F H) f (keysDir H) z then (f, g, fails r (ErrOther ''zone-keygen: keys already exist''))
          else case Generate (h_E H) g of
            (g1, Inl e) \<Rightarrow> (f, g1, fails r e)
          | (g1, Inr zk) \<Rightarrow>
              (case WriteToDir (h_F H) f zk (keysDir H) z of
                 (f1, Inl e) \<Rightarrow> (f1, g1, fails r e)
               | (f1, Inr _) \<Rightarrow> (f1, g1, prints r (line (''generated KSK + ZSK for '' @ z @ '' in '' @ keysDir H)))))"

definition cmd_sign_zone :: "('s, 'd, 'f, 'g) Host \<Rightarrow> 'f \<Rightarrow> 's \<Rightarrow> bool \<Rightarrow> Options \<Rightarrow> 's outcome" where
  "cmd_sign_zone H f s dryRun opts = with_repo H s (\<lambda>r.
     let zname = r_activeZone r in
     if zname = [] then fails r (ErrOther ''sign-zone: no active zone'')
     else case (if dryRun then Inr None
                else if \<not> HasKeys (h_F H) f (keysDir H) zname then Inl (ErrOther ''sign-zone: no DNSSEC keys'')
                else case LoadFromDir (h_F H) f (keysDir H) zname of Inl e \<Rightarrow> Inl e | Inr zk \<Rightarrow> Inr (Some zk)) of
       Inl e \<Rightarrow> fails r e
     | Inr zkeys \<Rightarrow>
         (case SignZone (h_S H) (h_sha H) (h_D H) (h_X H) (h_fuel H) (h_unix H) (h_ord H) r zkeys opts of
            (r1, None) \<Rightarrow> (r_storage r1, [], None)
          | (r1, Some (Inl e)) \<Rightarrow> fails r1 e
          | (r1, Some (Inr _)) \<Rightarrow>
              let msg = (if dryRun then ''DNSSEC scaffold (dry-run, unsigned)'' else ''DNSSEC signed'') in
              (case Repo_Commit (h_S H) (h_sha H) (h_D H) (h_now H) (h_rnow H) r1 (authorIdentity H) msg of
                 (r2, Inl e) \<Rightarrow> fails r2 e
               | (r2, Inr h) \<Rightarrow> prints r2 (printCommitLine (h_S H) r2 h msg))))"

definition cmd_ds :: "('s, 'd, 'f, 'g) Host \<Rightarrow> 'f \<Rightarrow> 's \<Rightarrow> string option \<Rightarrow> 's outcome" where
  "cmd_ds H f s zone = with_repo H s (\<lambda>r.
     let z = zone_arg zone r in
     if z = [] then fails r (ErrOther ''ds: no zone'')
     else if \<not> HasKeys (h_F H) f (keysDir H) z then fails r (ErrOther ''ds: no keys'')
     else case LoadFromDir (h_F H) f (keysDir H) z of
       Inl e \<Rightarrow> fails r e
     | Inr zk \<Rightarrow>
         (case h_ToDS H (hd (DNSKEYs (h_X H) zk z 300)) of
            None \<Rightarrow> fails r (ErrOther ''ds: SHA-256 digest unsupported'')
          | Some ds \<Rightarrow> prints r (line (h_RR_String H ds))))"

section \<open>Zones (zone.go)\<close>

definition cmd_zone_add :: "('s, 'd, 'f, 'g) Host \<Rightarrow> 's \<Rightarrow> string \<Rightarrow> 's outcome" where
  "cmd_zone_add H s zone = with_repo H s (\<lambda>r.
     case Repo_AddZone (h_S H) r zone of
       (r1, Inl e) \<Rightarrow> fails r1 e
     | (r1, Inr _) \<Rightarrow> prints r1 (line (''registered zone '' @ zone)))"

definition cmd_zone_list :: "('s, 'd, 'f, 'g) Host \<Rightarrow> 's \<Rightarrow> 's outcome" where
  "cmd_zone_list H s = with_repo H s (\<lambda>r.
     case Repo_Zones (h_S H) r of
       Inl e \<Rightarrow> fails r e
     | Inr zones \<Rightarrow> prints r (concat (map (\<lambda>z. line ((if z = r_activeZone r then ''* '' else ''  '') @ z)) zones)))"

definition cmd_zone_switch :: "('s, 'd, 'f, 'g) Host \<Rightarrow> 's \<Rightarrow> string \<Rightarrow> string option \<Rightarrow> 's outcome" where
  "cmd_zone_switch H s zone branch = with_repo H s (\<lambda>r.
     case Repo_SwitchZone (h_S H) (h_sha H) r zone (case branch of None \<Rightarrow> ''main'' | Some b \<Rightarrow> b) of
       (r1, Inl e) \<Rightarrow> fails r1 e
     | (r1, Inr _) \<Rightarrow> prints r1 [])"

end
