(* ===== verification/CliCorrect.thy ===== *)
theory CliCorrect
  imports Cli ResolverCorrect
begin

text \<open>
  The commands over a storage with the contract of \<open>storage\<close>: opening a repository that needs no
  migration changes nothing, a signed commit verifies, and an approved proposal is
  what the target branch then holds.
\<close>

section \<open>HEAD as the commands write it\<close>

definition head_on :: "('s \<Rightarrow> (Hash \<times> Object) set) \<Rightarrow> ('s \<Rightarrow> string \<Rightarrow> Hash option) \<Rightarrow> 's \<Rightarrow> string \<Rightarrow> string \<Rightarrow> bool" where
  "head_on hist ref s z b \<longleftrightarrow> parseBranchTarget (BranchRef z b) = Some (z, b) \<and>
     (\<exists>h. ref s HeadRef = Some h \<and> (h, \<lparr>obj_Kind = KindSymref, obj_Payload = bytes_of (BranchRef z b)\<rparr>) \<in> hist s)"

lemma head_on_mono: "head_on hist ref s z b \<Longrightarrow> hist s \<subseteq> hist s' \<Longrightarrow> ref s' HeadRef = ref s HeadRef \<Longrightarrow> head_on hist ref s' z b"
  by (auto simp: head_on_def)

text \<open>A host whose commands need no migration and no change of the zone.\<close>

definition plain_host :: "('s, 'd, 'f, 'g) Host \<Rightarrow> 's Storage \<Rightarrow> bool" where
  "plain_host H S \<longleftrightarrow> h_S H = S \<and> flagZone H = []"

context storage
begin

lemma head_on_read:
  "head_on hist ref s z b \<Longrightarrow> single_valued (hist s) \<Longrightarrow>
    ReadHEAD S s = Inr (z, b, case ref s (BranchRef z b) of None \<Rightarrow> ZeroHash | Some c \<Rightarrow> c)"
  unfolding head_on_def using ReadHEAD_symref by blast

lemma openRepo_plain:
  assumes "plain_host H S" and "ref s LegacyZoneNameRef = None"
  shows "openRepo H s = (s, Inr \<lparr>r_storage = s, r_staging = [], r_activeZone = (case ReadHEAD S s of Inr (z, _, _) \<Rightarrow> z | Inl _ \<Rightarrow> [])\<rparr>)"
  using assms by (simp add: openRepo_def plain_host_def Repo_Open_def IsLegacyV03_def get_ref Let_def)

lemma resolve_HEAD:
  assumes "head_on hist ref s z b" and "single_valued (hist s)" and "ref s (BranchRef z b) = Some h" and "h \<noteq> ZeroHash"
  shows "Resolve S s ''HEAD'' = Inr h"
proof -
  have "splitAncestor ''HEAD'' = (''HEAD'', 0)" by (rule splitAncestor_plain) simp
  with assms head_on_read [OF assms(1,2)] show ?thesis
    by (simp add: Resolve_def resolveBase_def)
qed

lemma sign_then_verify_lemma:
  fixes H :: "('s, 'd, 'f, 'g) Host" and s :: 's
  assumes host: "plain_host H S" "ref s LegacyZoneNameRef = None" "h_fuel H \<noteq> 0"
    and head: "head_on hist ref s z b" "ref s (BranchRef z b) = Some h" "h \<noteq> ZeroHash"
    and key: "keyPath \<noteq> []" "LoadPrivateKey (h_F H) f keyPath = Inr priv" "pubPath \<noteq> []" "LoadPublicKey (h_F H) f pubPath = Inr pub" "paired (h_E H) pub priv"
    and c: "loadCommit S s h = Inr c" "commit_ok c" "norm_commit c = c"
  defines "c' \<equiv> signed_commit (h_E H) (h_sha H) priv c"
  defines "h' \<equiv> commit_hash (h_sha H) c'"
  assumes healthy: "healthy (insert (h', commit_object c') (hist s))"
  shows "\<exists>s'. cmd_sign_commit H f s keyPath None = (s', line (''signed '' @ Short h @ '' -> '' @ Short h'), Some (Inr ()))
    \<and> hist s' = insert (h', commit_object c') (hist s) \<and> ref s' = (ref s)(BranchRef z b \<mapsto> h') \<and> loadCommit S s' h' = Inr c'
    \<and> cmd_verify H f s' pubPath False None = (s', line (''OK     '' @ Short h' @ ''  '' @ firstLine (c_Message c)), Some (Inr ()))"
proof -
  have SH: "h_S H = S" using host(1) by (simp add: plain_host_def)
  have sv: "single_valued (hist s)" using healthy healthy_subset [OF healthy, of "hist s"] by (auto simp: healthy_def)
  have nz: "h' \<noteq> ZeroHash" using healthy by (auto simp: healthy_def)
  have sign: "SignCommit (h_E H) (h_sha H) c priv = Inr (c', h', commit_object c')"
    using SignCommit_signed [of priv "h_E H" "h_sha H" c] key(5) by (simp add: c'_def h'_def paired_def Commit_Encode_parts)
  obtain s1 where s1: "PutObject S s h' (commit_object c') = (s1, Inr ())" "hist s1 = insert (h', commit_object c') (hist s)" "ref s1 = ref s" "log s1 = log s"
    using PutObject_done by blast
  have sv1: "single_valued (hist s1)" using healthy by (simp add: s1(2) healthy_def)
  have head1: "ReadHEAD S s1 = Inr (z, b, h)"
    using head_on_read [OF head_on_mono [OF head(1), of s1] sv1] head(2) by (auto simp: s1(2,3))
  define s2 where "s2 = fst (CASRef S s1 (BranchRef z b) h h')"
  have cas: "CASRef S s1 (BranchRef z b) h h' = (s2, Inr ())"
    using cas_result [of s1 "BranchRef z b" h h'] head(2) nz by (simp add: s2_def s1(3) cas_guard_def prod_eq_iff)
  have s2: "hist s2 = hist s1" "ref s2 = (ref s)(BranchRef z b \<mapsto> h')"
    using cas_hist [of s1 "BranchRef z b" h h'] cas_ref [of s1 "BranchRef z b" h h'] head(2) nz by (simp_all add: s2_def s1(3) cas_guard_def)
  define s3 where "s3 = fst (db_AppendReflog S s2 (h_rnow H) (BranchRef z b) h h' (Identity_String (c_Author c')) ''sign'' ''ed25519 sign'')"
  have s3: "hist s3 = insert (h', commit_object c') (hist s)" "ref s3 = (ref s)(BranchRef z b \<mapsto> h')"
    by (simp_all add: s3_def db_AppendReflog_def append_hist append_ref s2 s1(2))
  have "cmd_sign_commit H f s keyPath None = (s3, line (''signed '' @ Short h @ '' -> '' @ Short h'), Some (Inr ()))"
    using key(1,2) c(1) sign s1(1) head1 cas resolve_HEAD [OF head(1) sv head(2,3)]
    by (simp add: cmd_sign_commit_def with_repo_def openRepo_plain [OF host(1,2)] SH Repo_Resolve_def move_signed_def UpdateBranch_def s3_def)
  moreover have load: "loadCommit S s3 h' = Inr c'"
  proof -
    have "GetObject S s3 h' = Inr (commit_object c')" using healthy by (intro get_present) (simp_all add: s3 healthy_def)
    then show ?thesis by (simp add: loadCommit_def c'_def commit_object_def DecodeCommit_signed [OF c(2,3)])
  qed
  moreover have "cmd_verify H f s3 pubPath False None = (s3, line (''OK     '' @ Short h' @ ''  '' @ firstLine (c_Message c)), Some (Inr ()))"
  proof -
    have sv3: "single_valued (hist s3)" using healthy by (simp add: s3 healthy_def)
    have h3: "head_on hist ref s3 z b" by (rule head_on_mono [OF head(1)]) (auto simp: s3 dest: sym)
    have r3: "Resolve S s3 ''HEAD'' = Inr h'" by (rule resolve_HEAD [OF h3 sv3 _ nz]) (simp add: s3)
    have "ref s3 LegacyZoneNameRef = None" using host(2) by (simp add: s3 BranchRef_def)
    note open3 = openRepo_plain [OF host(1) this]
    obtain n where "h_fuel H = Suc n" using host(3) by (cases "h_fuel H") auto
    with open3 show ?thesis
      using key(3,4) r3 load VerifyCommit_signed [OF key(5), of "h_sha H" c]
      by (simp add: cmd_verify_def with_repo_def SH Repo_Resolve_def Let_def verify_line_def c'_def signed_commit_def)
  qed
  ultimately show ?thesis using s3 by blast
qed

lemma parents_stable:
  assumes "complete S s h" and "hist s \<subseteq> hist s'" and "single_valued (hist s')"
  shows "(h, x) \<in> (parents S s')\<^sup>* \<longleftrightarrow> (h, x) \<in> (parents S s)\<^sup>*"
proof
  show "(h, x) \<in> (parents S s')\<^sup>* \<Longrightarrow> (h, x) \<in> (parents S s)\<^sup>*"
  proof (induction rule: rtrancl_induct)
    case (step y x)
    obtain c where c: "loadCommit S s y = Inr c" using complete_load [OF complete_reach [OF assms(1) step.IH]] ..
    then have "(y, x) \<in> parents S s" using step(2) loadCommit_stable [OF c assms(2,3)] by (simp add: parents_def)
    with step.IH show ?case by (rule rtrancl_into_rtrancl)
  qed simp
  have "parents S s \<subseteq> parents S s'" unfolding parents_def using loadCommit_stable [OF _ assms(2,3)] by blast
  then show "(h, x) \<in> (parents S s)\<^sup>* \<Longrightarrow> (h, x) \<in> (parents S s')\<^sup>*" using rtrancl_mono by blast
qed

lemma history_ok_stable:
  assumes ok: "history_ok S sha s n h" and sub: "hist s \<subseteq> hist s'" "single_valued (hist s')"
  shows "history_ok S sha s' n h"
proof -
  have comp: "complete S s h" using ok by (rule history_okD(1))
  have "(\<exists>c. loadCommit S s' x = Inr c) \<and> x \<noteq> ZeroHash \<and> root_ok S sha s' n (TreeOf S s' x)" if "(h, x) \<in> (parents S s')\<^sup>*" for x
  proof -
    have x: "(h, x) \<in> (parents S s)\<^sup>*" using that parents_stable [OF comp sub] by simp
    then obtain c where c: "loadCommit S s x = Inr c" using comp by (auto simp: complete_def)
    have nz: "x \<noteq> ZeroHash" and root: "root_ok S sha s n (TreeOf S s x)" using ok x by (simp_all add: history_ok_def)
    note c' = loadCommit_stable [OF c sub]
    have "TreeOf S s' x = TreeOf S s x" using TreeOf_loadCommit [OF c nz] TreeOf_loadCommit [OF c' nz] by simp
    with c' nz root_ok_stable [OF root sub] show ?thesis by auto
  qed
  then show ?thesis by (auto simp: history_ok_def complete_def)
qed

lemma checkout_head:
  fixes r :: "'s Repo"
  assumes "healthy (insert (hh, \<lparr>obj_Kind = KindSymref, obj_Payload = bytes_of (BranchRef z b)\<rparr>) (hist (r_storage r)))"
    and "hh = HashOf sha KindSymref (bytes_of (BranchRef z b))" and "ref (r_storage r) (ZoneMarkerPrefix @ z) \<noteq> None" and "CanonZone z = z"
    and "parseBranchTarget (BranchRef z b) = Some (z, b)"
  obtains s' where "Repo_SwitchZone S sha r z b = (r\<lparr>r_storage := s', r_activeZone := z\<rparr>, Inr ())"
    "hist s' = insert (hh, \<lparr>obj_Kind = KindSymref, obj_Payload = bytes_of (BranchRef z b)\<rparr>) (hist (r_storage r))"
    "ref s' = (ref (r_storage r))(HeadRef \<mapsto> hh)" "head_on hist ref s' z b"
proof -
  have "hh \<noteq> ZeroHash" using assms(1) by (auto simp: healthy_def)
  from SetHEAD_spec [OF this [unfolded assms(2)], folded assms(2)] obtain s' where s': "SetHEAD S sha (r_storage r) z b = (s', Inr ())"
    "ref s' = (ref (r_storage r))(HeadRef \<mapsto> hh)" "hist s' = insert (hh, \<lparr>obj_Kind = KindSymref, obj_Payload = bytes_of (BranchRef z b)\<rparr>) (hist (r_storage r))"
    by blast
  have "Repo_SwitchZone S sha r z b = (r\<lparr>r_storage := s', r_activeZone := z\<rparr>, Inr ())"
    using s'(1) assms(3,4) by (simp add: Repo_SwitchZone_def IsZoneRegistered_def get_ref)
  moreover have "head_on hist ref s' z b" using assms(5) s' by (simp add: head_on_def)
  ultimately show thesis using that s' by blast
qed

lemma approve_fast_forwards_lemma:
  fixes H :: "('s, 'd, 'f, 'g) Host" and s :: 's
  assumes host: "plain_host H S" "ref s LegacyZoneNameRef = None"
    and head: "head_on hist ref s z b0" and zone: "ref s (ZoneMarkerPrefix @ z) \<noteq> None" "CanonZone z = z"
    and tips: "ref s (BranchRef z into) = Some ours" "ref s (BranchRef z proposal) = Some theirs"
    and names: "TrimPrefix proposal BranchPrefix = proposal" "proposal \<noteq> into" "parseBranchTarget (BranchRef z into) = Some (z, into)"
    and hist_ok: "history_ok S (h_sha H) s (h_fuel H) ours" "history_ok S (h_sha H) s (h_fuel H) theirs"
    and desc: "(theirs, ours) \<in> (parents S s)\<^sup>*" "(ours, theirs) \<notin> (parents S s)\<^sup>*"
  defines "hh \<equiv> HashOf (h_sha H) KindSymref (bytes_of (BranchRef z into))"
  assumes healthy: "healthy (insert (hh, \<lparr>obj_Kind = KindSymref, obj_Payload = bytes_of (BranchRef z into)\<rparr>) (hist s))"
  shows "\<exists>s'. cmd_approve H s into msg proposal =
      (s', line (''Approved '' @ h_quote H proposal @ '': fast-forward to '' @ Short theirs @ '' on '' @ into @ ''.''), Some (Inr ()))
    \<and> ref s' = (ref s)(HeadRef \<mapsto> hh, BranchRef z into \<mapsto> theirs) \<and> head_on hist ref s' z into \<and> hist s \<subseteq> hist s'"
proof -
  have SH: "h_S H = S" using host(1) by (simp add: plain_host_def)
  have sv: "single_valued (hist s)" using healthy_subset [OF healthy, of "hist s"] by (auto simp: healthy_def)
  let ?r = "\<lparr>r_storage = s, r_staging = [], r_activeZone = (case ReadHEAD S s of Inr (z, _, _) \<Rightarrow> z | Inl _ \<Rightarrow> [])\<rparr> :: 's Repo"
  obtain s1 where s1: "Repo_SwitchZone S (h_sha H) ?r z into = (?r\<lparr>r_storage := s1, r_activeZone := z\<rparr>, Inr ())"
    "hist s1 = insert (hh, \<lparr>obj_Kind = KindSymref, obj_Payload = bytes_of (BranchRef z into)\<rparr>) (hist s)" "ref s1 = (ref s)(HeadRef \<mapsto> hh)" "head_on hist ref s1 z into"
    by (rule checkout_head [of hh z into ?r "h_sha H"]) (use healthy zone names(3) in \<open>simp_all add: hh_def\<close>)
  have sv1: "single_valued (hist s1)" and sub1: "hist s \<subseteq> hist s1" using healthy by (auto simp: s1(2) healthy_def)
  let ?r1 = "\<lparr>r_storage = s1, r_staging = [], r_activeZone = z\<rparr> :: 's Repo"
  have head1: "ReadHEAD S s1 = Inr (z, into, ours)" using head_on_read [OF s1(4) sv1] tips(1) by (simp add: s1(3))
  have get1: "GetBranch S s1 z proposal = Inr theirs" using tips(2) by (simp add: GetBranch_def get_ref_or_absent_def get_ref s1(3))
  have desc1: "(theirs, ours) \<in> (parents S s1)\<^sup>*" "(ours, theirs) \<notin> (parents S s1)\<^sup>*"
    using desc parents_stable [OF history_okD(1) [OF hist_ok(1)] sub1 sv1] parents_stable [OF history_okD(1) [OF hist_ok(2)] sub1 sv1] by simp_all
  obtain r2 res where run: "Repo_Merge S (h_sha H) (h_fuel H) (h_now H) (h_rnow H) ?r1 proposal (authorIdentity H) msg = (r2, res)" by (metis surj_pair)
  from Merge_fast_forward [OF run, of z into ours proposal theirs] head1 get1 names(1,2) zone(2) desc1
    history_ok_stable [OF hist_ok(1) sub1 sv1] history_ok_stable [OF hist_ok(2) sub1 sv1]
  have ff: "res = Some (Inr (merge_result\<lparr>mr_FastForward := True, mr_Commit := theirs\<rparr>))" "ref (r_storage r2) = (ref s1)(BranchRef z into \<mapsto> theirs)" "hist (r_storage r2) = hist s1"
    by simp_all
  have "cmd_approve H s into msg proposal = (r_storage r2, line (''Approved '' @ h_quote H proposal @ '': fast-forward to '' @ Short theirs @ '' on '' @ into @ ''.''), Some (Inr ()))"
    using head_on_read [OF head sv] s1(1) run ff(1)
    by (simp add: cmd_approve_def with_repo_def openRepo_plain [OF host] SH Repo_Head_def prints_def merge_result_def)
  moreover have "head_on hist ref (r_storage r2) z into" by (rule head_on_mono [OF s1(4)]) (auto simp: ff dest: sym)
  ultimately show ?thesis using ff sub1 by (auto simp: s1(3))
qed

end

end
