(* ===== verification/CliRuns.thy ===== *)
theory CliRuns
  imports CliCorrect ServedZone
begin

text \<open>
  The properties of the commands on the in-memory store, with the sample zone as the
  example.
\<close>

section \<open>Verification of a chain\<close>

text \<open>
  With \<open>--chain\<close> the command never fails because of a signature: an error is one of reading a
  commit.
\<close>

lemma verify_chain_ignores_failures:
  assumes "verify_loop H s pub True n h out = (out', Some (Inl e))" and "length pub = PublicKeySize"
  shows "\<exists>x. loadCommit (h_S H) s x = Inl e"
  using assms(1)
proof (induction n arbitrary: h out)
  case (Suc n)
  show ?case
  proof (cases "loadCommit (h_S H) s h")
    case (Inr c)
    have "VerifyCommit (h_E H) (h_sha H) c pub \<noteq> Some SignPanic"
      using assms(2) by (auto simp: VerifyCommit_def split: option.splits)
    with Suc Inr show ?thesis by (auto simp: Let_def split: if_splits)
  qed (use Suc.prems in auto)
qed simp

section \<open>A repository for the commands\<close>

definition cli_ed :: "unit Ed25519" where
  "cli_ed = \<lparr>ed_GenerateKey = (\<lambda>g. (g, Inr (replicate 32 1, replicate 64 1))),
     ed_Sign = (\<lambda>priv m. take 32 priv), ed_Verify = (\<lambda>pub m sig. sig = pub)\<rparr>"

abbreviation "cli_priv \<equiv> replicate 64 (1 :: byte)"
abbreviation "cli_pub \<equiv> replicate 32 (1 :: byte)"

definition cli_signed :: Commit where
  "cli_signed = (sample_ci 22 [31])\<lparr>c_Signature := sig_prefix @ EncodeToString cli_pub\<rparr>"

definition cli_new :: "(Hash \<times> sobj) list" where
  "cli_new = [(50, SCommit cli_signed), (51, SSymref ''refs/heads/a./old'')]"

definition cli_sha :: "bytes \<Rightarrow> Hash" where
  "cli_sha = table_sha (cli_new @ sample_table)"

definition cli_store :: MemStore where
  "cli_store = table_store sample_base_objs ((ZoneMarkerPrefix @ ''a.'', 1) # sample_refs)"

definition cli_files :: "(string \<times> bytes) list" where
  "cli_files = [(''k.priv'', key_file cli_priv), (''k.pub'', key_file cli_pub)]"

definition cli_host :: "(MemStore, bytes, (string \<times> bytes) list, unit) Host" where
  "cli_host = \<lparr>h_S = memstore, h_sha = cli_sha, h_D = sample_dns,
     h_X = \<lparr>mk_DNSKEY = (\<lambda>_ _ _ _. []), mk_NSEC = (\<lambda>_ _. []), mk_RRSIG = (\<lambda>_. []), StringToType = (\<lambda>_. None), CountLabel = (\<lambda>_. 0),
            KeyTag = (\<lambda>_. 0), RRSIG_Sign = (\<lambda>_ _ _. Inl GoPanic)\<rparr>,
     h_Q = sample_dnsq, h_F = sample_fs, h_E = cli_ed, h_NewRR = (\<lambda>_. Inl GoPanic), h_RR_String = (\<lambda>_. []), h_ToDS = (\<lambda>_. None),
     h_quote = (\<lambda>s. s), h_Format = (\<lambda>_. []), h_fuel = 1, h_now = sample_now, h_rnow = 9, h_unix = 9, h_ord = (\<lambda>_ xs. xs), h_gord = (\<lambda>xs. xs),
     h_Getenv = (\<lambda>_. ''me''), h_user = None, h_Hostname = [], flagRepoPath = ''repo'', flagZone = []\<rparr>"

lemma cli_host_sel [simp]: "h_S cli_host = memstore" "h_sha cli_host = cli_sha" "h_E cli_host = cli_ed" "h_F cli_host = sample_fs" "h_fuel cli_host = 1"
  "plain_host cli_host memstore" "h_quote cli_host s = s"
  by (simp_all add: cli_host_def plain_host_def)

lemma cli_signed_ok: "sobj_ok (SCommit cli_signed)" "signed_commit cli_ed sha cli_priv (sample_ci 22 [31]) = cli_signed"
proof -
  have c: "commit_ok (sample_ci 22 [31])" "norm_commit (sample_ci 22 [31]) = sample_ci 22 [31]" "length (commit_text (sample_ci 22 [31])) < 2 ^ 47"
    using sample_ci_ok [of "[31]" 22] by simp_all
  show eq: "signed_commit cli_ed sha cli_priv (sample_ci 22 [31]) = cli_signed"
    by (simp add: signed_commit_def cli_signed_def cli_ed_def)
  have "length (formatTime sample_now) < 100 \<and> length (Identity_String sample_id) < 100 \<and> length (dec_int commitVersion) < 100" by code_simp
  then have t: "length (formatTime sample_now) < 100" "length (Identity_String sample_id) < 100" "length (dec_int commitVersion) < 100" by blast+
  have "length (EncodeToString bs) \<le> 4 * length bs" for bs
    by (induction bs rule: EncodeToString.induct) (simp_all add: b64_quad_def)
  from this [of cli_pub] have t4: "length (EncodeToString cli_pub) \<le> 128" by simp
  have "length (commit_text cli_signed) < 2 ^ 47"
    using t t4 by (simp add: commit_text_def cli_signed_def sample_ci_def new_commit_def)
  with signed_commit_ok [OF c(1,2), of cli_ed sha cli_priv] show "sobj_ok (SCommit cli_signed)" by (simp add: eq)
qed

lemma cli_table_ok: "table_ok (cli_new @ sample_table)"
proof -
  have "fst ` set sample_table \<inter> {50, 51} = {}" by (auto simp: sample_table_def sample_new_objs_def sample_base_objs_def)
  moreover have "snd ` set sample_table \<inter> {SCommit cli_signed, SSymref ''refs/heads/a./old''} = {}"
    by (auto simp: sample_table_def sample_new_objs_def sample_base_objs_def cli_signed_def sample_ci_def new_commit_def)
  ultimately show ?thesis
    using sample_table_ok cli_signed_ok(1) by (simp add: table_ok_def cli_new_def)
qed


lemma cli_mem: "set sample_base_objs \<subseteq> set (cli_new @ sample_table)" "(50, SCommit cli_signed) \<in> set (cli_new @ sample_table)"
  "(51, SSymref ''refs/heads/a./old'') \<in> set (cli_new @ sample_table)"
  by (auto simp: sample_table_def cli_new_def)

lemma cli_reads:
  "loadCommit memstore cli_store 31 = Inr (sample_ci 21 [])" "loadCommit memstore cli_store 32 = Inr (sample_ci 22 [31])"
  "root_ok memstore cli_sha cli_store 1 21" "root_ok memstore cli_sha cli_store 1 22"
proof -
  let ?refs = "(ZoneMarkerPrefix @ ''a.'', 1) # sample_refs"
  show "loadCommit memstore cli_store 31 = Inr (sample_ci 21 [])" "loadCommit memstore cli_store 32 = Inr (sample_ci 22 [31])"
    unfolding cli_store_def
    by (rule table_store_commit(1) [OF cli_table_ok cli_mem(1) sample_mem(1)] table_store_commit(1) [OF cli_table_ok cli_mem(1) sample_mem(2)])+
  have "LoadTree memstore cli_sha cli_store 21 = Inr sample_t21" "LoadTree memstore cli_sha cli_store 22 = Inr sample_t22"
    unfolding cli_store_def cli_sha_def
    by (rule table_store_tree [OF cli_table_ok cli_mem(1) sample_mem(4)] table_store_tree [OF cli_table_ok cli_mem(1) sample_mem(5)])+
  then show "root_ok memstore cli_sha cli_store 1 21" "root_ok memstore cli_sha cli_store 1 22" by (simp_all add: root_ok_def tree_ok.simps)
qed

lemma cli_hist:
  "healthy (insert (50, commit_object cli_signed) (mem_hist cli_store))"
  "healthy (insert (51, \<lparr>obj_Kind = KindSymref, obj_Payload = bytes_of ''refs/heads/a./old''\<rparr>) (mem_hist cli_store))"
  using table_store_healthy [OF cli_table_ok, of "(50, SCommit cli_signed) # sample_base_objs"]
    table_store_healthy [OF cli_table_ok, of "(51, SSymref ''refs/heads/a./old'') # sample_base_objs"] cli_mem
  by (simp_all add: table_store_hist cli_store_def)

lemma cli_refs:
  "mem_ref cli_store LegacyZoneNameRef = None" "head_on mem_hist mem_ref cli_store ''a.'' ''main''" "mem_ref cli_store (BranchRef ''a.'' ''main'') = Some 32"
  "mem_ref cli_store (BranchRef ''a.'' ''old'') = Some 31" "mem_ref cli_store (ZoneMarkerPrefix @ ''a.'') = Some 1" "CanonZone ''a.'' = ''a.''"
  "BranchRef ''a.'' ''old'' = ''refs/heads/a./old''" "parseBranchTarget (BranchRef ''a.'' ''old'') = Some (''a.'', ''old'')"
proof -
  show canon: "CanonZone ''a.'' = ''a.''" using sample_rrsets by simp
  have names: "BranchRef ''a.'' ''main'' = ''refs/heads/a./main''" and old: "BranchRef ''a.'' ''old'' = ''refs/heads/a./old''"
    by (simp_all add: BranchRef_def canon)
  show "mem_ref cli_store LegacyZoneNameRef = None" "mem_ref cli_store (BranchRef ''a.'' ''main'') = Some 32" "BranchRef ''a.'' ''old'' = ''refs/heads/a./old''"
    "mem_ref cli_store (BranchRef ''a.'' ''old'') = Some 31" "mem_ref cli_store (ZoneMarkerPrefix @ ''a.'') = Some 1"
    by (simp_all add: names old cli_store_def sample_refs_def)
  show "parseBranchTarget (BranchRef ''a.'' ''old'') = Some (''a.'', ''old'')"
    using parseBranchTarget_BranchRef [of "''old''" "''a.''"] by (simp add: canon)
  have "parseBranchTarget (BranchRef ''a.'' ''main'') = Some (''a.'', ''main'')"
    using parseBranchTarget_BranchRef [of "''main''" "''a.''"] by (simp add: canon)
  moreover have "(1, sobject (SSymref ''refs/heads/a./main'')) \<in> mem_hist cli_store"
    by (simp add: cli_store_def table_store_hist sample_base_objs_def)
  moreover have "mem_ref cli_store HeadRef = Some 1" by (simp add: cli_store_def sample_refs_def)
  ultimately show "head_on mem_hist mem_ref cli_store ''a.'' ''main''" by (simp add: head_on_def names)
qed

lemma cli_hashes: "commit_hash cli_sha cli_signed = 50" "HashOf cli_sha KindSymref (bytes_of (BranchRef ''a.'' ''old'')) = 51"
  using table_hash [OF cli_table_ok cli_mem(2)] table_hash [OF cli_table_ok cli_mem(3)]
  by (simp_all add: cli_sha_def commit_hash_def commit_object_def cli_refs(7))

lemma cli_keys: "LoadPrivateKey sample_fs cli_files ''k.priv'' = Inr cli_priv" "LoadPublicKey sample_fs cli_files ''k.pub'' = Inr cli_pub"
  unfolding LoadPrivateKey_def LoadPublicKey_def
  by (rule load_key_file, simp add: sample_fs_def cli_files_def, simp)+

section \<open>Properties\<close>

text \<open>
  C15: \<open>sign-commit\<close> and \<open>verify\<close>.  With the private key of a pair, \<open>sign-commit\<close> succeeds on the commit that
  HEAD is at: it stores the signed commit, which differs in its signature only, and moves the branch of HEAD
  to it and no other ref; \<open>verify\<close> with the public key then reports the commit at HEAD
  as good and succeeds.
\<close>

theorem sign_then_verify:
  fixes H :: "(MemStore, 'd, 'f, 'g) Host"
  assumes "plain_host H memstore" and "mem_ref s LegacyZoneNameRef = None" and "h_fuel H \<noteq> 0"
    and "head_on mem_hist mem_ref s z b" and "mem_ref s (BranchRef z b) = Some h" and "h \<noteq> ZeroHash"
    and "keyPath \<noteq> []" and "LoadPrivateKey (h_F H) f keyPath = Inr priv"
    and "pubPath \<noteq> []" and "LoadPublicKey (h_F H) f pubPath = Inr pub" and "paired (h_E H) pub priv"
    and "loadCommit memstore s h = Inr c" and "commit_ok c" and "norm_commit c = c"
    and "c' = signed_commit (h_E H) (h_sha H) priv c" and "h' = commit_hash (h_sha H) c'"
    and "healthy (insert (h', commit_object c') (mem_hist s))"
  shows "\<exists>s'. cmd_sign_commit H f s keyPath None = (s', line (''signed '' @ Short h @ '' -> '' @ Short h'), Some (Inr ()))
    \<and> loadCommit memstore s' h' = Inr c' \<and> c'\<lparr>c_Signature := c_Signature c\<rparr> = c
    \<and> mem_ref s' = (mem_ref s)(BranchRef z b \<mapsto> h')
    \<and> cmd_verify H f s' pubPath False None = (s', line (''OK     '' @ Short h' @ ''  '' @ firstLine (c_Message c)), Some (Inr ()))"
proof -
  have "c'\<lparr>c_Signature := c_Signature c\<rparr> = c" by (simp add: assms(15) signed_commit_def)
  with mem.sign_then_verify_lemma [OF assms(1-14), folded assms(15), folded assms(16), OF assms(17)] show ?thesis by blast
qed

theorem sign_then_verify_witness:
  "\<exists>s'. cmd_sign_commit cli_host cli_files cli_store ''k.priv'' None = (s', line (''signed '' @ Short 32 @ '' -> '' @ Short 50), Some (Inr ()))
    \<and> loadCommit memstore s' 50 = Inr cli_signed
    \<and> cmd_verify cli_host cli_files s' ''k.pub'' False None = (s', line (''OK     '' @ Short 50 @ ''  '' @ firstLine (c_Message (sample_ci 22 [31]))), Some (Inr ()))"
proof -
  have ok: "commit_ok (sample_ci 22 [31])" "norm_commit (sample_ci 22 [31]) = sample_ci 22 [31]" using sample_ci_ok [of "[31]" 22] by simp_all
  have pair: "paired (h_E cli_host) cli_pub cli_priv" by (simp add: paired_def cli_ed_def)
  have ne: "''k.priv'' \<noteq> ([] :: string)" "''k.pub'' \<noteq> ([] :: string)" "h_fuel cli_host \<noteq> 0" "(32 :: Hash) \<noteq> ZeroHash" by simp_all
  have keys: "LoadPrivateKey (h_F cli_host) cli_files ''k.priv'' = Inr cli_priv" "LoadPublicKey (h_F cli_host) cli_files ''k.pub'' = Inr cli_pub"
    using cli_keys by simp_all
  have c': "cli_signed = signed_commit (h_E cli_host) (h_sha cli_host) cli_priv (sample_ci 22 [31])" using cli_signed_ok(2) by simp
  have h': "50 = commit_hash (h_sha cli_host) cli_signed" using cli_hashes(1) by simp
  show ?thesis
    using sign_then_verify [OF cli_host_sel(6) cli_refs(1) ne(3) cli_refs(2,3) ne(4,1) keys(1) ne(2) keys(2) pair cli_reads(2) ok c' h' cli_hist(1)] by blast
qed

text \<open>
  C16: \<open>approve\<close> of a proposal whose tip descends from the tip of the target branch succeeds:
  it puts HEAD on the target branch and moves that branch to the tip of the
  proposal; every other ref stays as it is, and so does every object.
\<close>

theorem approve_fast_forwards:
  fixes H :: "(MemStore, 'd, 'f, 'g) Host"
  assumes "plain_host H memstore" and "mem_ref s LegacyZoneNameRef = None"
    and "head_on mem_hist mem_ref s z b0" and "mem_ref s (ZoneMarkerPrefix @ z) \<noteq> None" and "CanonZone z = z"
    and "mem_ref s (BranchRef z into) = Some ours" and "mem_ref s (BranchRef z proposal) = Some theirs"
    and "TrimPrefix proposal BranchPrefix = proposal" and "proposal \<noteq> into" and "parseBranchTarget (BranchRef z into) = Some (z, into)"
    and "history_ok memstore (h_sha H) s (h_fuel H) ours" and "history_ok memstore (h_sha H) s (h_fuel H) theirs"
    and "(theirs, ours) \<in> (parents memstore s)\<^sup>*" and "(ours, theirs) \<notin> (parents memstore s)\<^sup>*"
    and "healthy (insert (HashOf (h_sha H) KindSymref (bytes_of (BranchRef z into)),
      \<lparr>obj_Kind = KindSymref, obj_Payload = bytes_of (BranchRef z into)\<rparr>) (mem_hist s))"
  shows "\<exists>s'. cmd_approve H s into msg proposal =
      (s', line (''Approved '' @ h_quote H proposal @ '': fast-forward to '' @ Short theirs @ '' on '' @ into @ ''.''), Some (Inr ()))
    \<and> mem_ref s' = (mem_ref s)(HeadRef \<mapsto> HashOf (h_sha H) KindSymref (bytes_of (BranchRef z into)), BranchRef z into \<mapsto> theirs)
    \<and> head_on mem_hist mem_ref s' z into \<and> mem_hist s \<subseteq> mem_hist s'"
  using assms by (rule mem.approve_fast_forwards_lemma)

theorem approve_fast_forwards_witness:
  "\<exists>s'. cmd_approve cli_host cli_store ''old'' [] ''main'' = (s', line (''Approved main: fast-forward to '' @ Short 32 @ '' on old.''), Some (Inr ()))
    \<and> mem_ref s' (BranchRef ''a.'' ''old'') = Some 32"
proof -
  have ok: "\<forall>x \<in> {32, 31}. x \<noteq> ZeroHash \<and> (\<exists>c. loadCommit memstore cli_store x = Inr c \<and>
      set (c_Parents c) \<subseteq> {32, 31} \<and> root_ok memstore cli_sha cli_store 1 (c_Tree c))"
    "\<forall>x \<in> {31}. x \<noteq> ZeroHash \<and> (\<exists>c. loadCommit memstore cli_store x = Inr c \<and>
      set (c_Parents c) \<subseteq> {31} \<and> root_ok memstore cli_sha cli_store 1 (c_Tree c))"
    using cli_reads by simp_all
  have hist: "history_ok memstore (h_sha cli_host) cli_store (h_fuel cli_host) 31" "history_ok memstore (h_sha cli_host) cli_store (h_fuel cli_host) 32"
    using history_okI(1) [OF _ ok(1), of 31] history_okI(1) [OF _ ok(1), of 32] by simp_all
  have rel: "(32, 31) \<in> (parents memstore cli_store)\<^sup>*" "(31, 32) \<notin> (parents memstore cli_store)\<^sup>*"
    using cli_reads(2) history_okI(2) [OF _ ok(2), of 31 32] by (auto simp: parents_def)
  have names: "TrimPrefix ''main'' BranchPrefix = ''main''" "''main'' \<noteq> ''old''" by code_simp+
  have marker: "mem_ref cli_store (ZoneMarkerPrefix @ ''a.'') \<noteq> None" using cli_refs(5) by simp
  have healthy: "healthy (insert (HashOf (h_sha cli_host) KindSymref (bytes_of (BranchRef ''a.'' ''old'')),
      \<lparr>obj_Kind = KindSymref, obj_Payload = bytes_of (BranchRef ''a.'' ''old'')\<rparr>) (mem_hist cli_store))"
    using cli_hist(2) cli_hashes(2) by (simp add: cli_refs(7))
  show ?thesis
    using approve_fast_forwards [OF cli_host_sel(6) cli_refs(1,2) marker cli_refs(6,4,3) names cli_refs(8) hist rel healthy, of "[]"] by auto
qed

end
