(* ===== verification/Spec2Isabelle.thy ===== *)
theory Spec2Isabelle
  imports ServedZone Snapshots ReplicateCorrect BadgerCorrect SignedZone DaemonCorrect CliRuns
begin

text \<open>
  A verification development for zonegit, a version control system for DNS zones with a
  resolver and pull replication (Go).

  The program.  A backend (pkg/store) keeps immutable objects under their hashes, named refs, and a reflog
  per ref.  Blobs, trees and commits (pkg/object) are encoded into objects: a zone is a tree whose paths are the
  labels of owner names, apex first, and whose leaves are RRsets (pkg/zone); a commit names a
  tree and its parents.  Refs (pkg/refs) hold the branches and tags of every zone and HEAD.  A
  repository (pkg/repo) stages edits and commits them, and merges, reverts and resets branches by way of pkg/merge
  and pkg/history.  A resolver (pkg/resolve) answers queries and zone transfers from the commit of a branch that a
  router (pkg/route) may choose per client, through a handle that a snapshotter reopens when refs move.  A
  secondary (pkg/replicate) copies branches and their objects from a primary.  Commits are signed by pkg/sign, zones by
  pkg/zonesign with the keys and records of pkg/dnssec.  The commands (cmd/zonegit) call the repository, and the
  daemon (cmd/zonegitd) registers a resolver for every zone and keeps the registrations in step with the repository and
  with its configuration.

  Modelling.  A Go string is a \<^typ>\<open>string\<close> of bytes, a byte slice a list of 8-bit words, a hash a
  256-bit word, other fixed-width integers are words, \<open>int\<close> is \<^typ>\<open>int\<close> or \<^typ>\<open>nat\<close> where the source
  checks the range.  Structs are records.  A method that may fail returns a sum with the error on the left;
  one that writes returns the new state beside it.  The storage is an argument \<open>S\<close>: a record of the
  methods of \<open>store.Storage\<close> over any type of state.  Arguments stand for code outside the
  repository: \<open>sha\<close> for SHA-256, \<open>D\<close> and \<open>Q\<close> for the DNS library, \<open>Transport\<close> for the HTTP client with its JSON coding, \<open>quote\<close>
  for the verb \<open>%q\<close>, \<open>B\<close> for BadgerDB, \<open>X\<close> for the DNSSEC functions of the DNS library, \<open>E\<close> for ed25519 with its random source, \<open>F\<close>
  for the file system, and functions for the JSON of a reflog entry and for YAML; the clock and the order of a map iteration are arguments too.  What is relied on is a named
  hypothesis (\<open>healthy\<close>: no two stored objects have the same hash and none has the zero hash; \<open>name_packs\<close>,
  \<open>rr_packs\<close>, \<open>soa_laws\<close>: the library reads back what it packs; \<open>iterates\<close>: an iteration visits every key),
  and every property with a hypothesis has a concrete instance.

  The theories, in the order of the imports.
  \<^item> \<open>Prelude\<close>, \<open>GoStrings\<close>: errors, bytes, varints, and the functions of the Go library that the sources call.
  \<^item> \<open>Store\<close>: pkg/store; the contract of a backend as the locales \<open>object_store\<close> and \<open>storage\<close>.
    \<open>Memstore\<close>: pkg/store/memstore, which interprets them; compare-and-swap loses no update.
  \<^item> \<open>Objects\<close>, \<open>TreeCodec\<close>, \<open>CommitCodec\<close>: the encodings of pkg/object with their round trips, what the decoders accept, and
    the binary search in a tree.
  \<^item> \<open>TreeOps\<close>, \<open>TreeUpdate\<close>, \<open>TreeWalk\<close>: treeops.go.  The contents of a tree are a map from path and type to blob
    (\<open>zone_map\<close>); \<open>UpdateTree\<close> refines the update of that map and the walk enumerates it.  \<open>Pruned\<close>: no empty node is
    ever left, so that \<open>NodeExists\<close> means that there is a record at or below a name.
  \<^item> \<open>RefsDB\<close>, \<open>RefsMigration\<close>: pkg/refs, the names of refs, HEAD, resolution of names, and the migration of the old layout.
  \<^item> \<open>History\<close>, \<open>DiffTrees\<close>: pkg/history; log, blame, walk to a point in time, and the exactness of \<open>Diff\<close>.
  \<^item> \<open>MergeTrees\<close>, \<open>MergeCorrect\<close>: pkg/merge; the merge is right record by record and its conflicts are exact.
  \<^item> \<open>ZoneCodec\<close>: pkg/zone; RRset codec, SOA serial, zone file import.
  \<^item> \<open>RepoCore\<close>, \<open>RepoCommit\<close>: repo.go of pkg/repo; what a commit makes of the branch, when it succeeds,
    what a failure leaves, and that what was set is looked up.
  \<^item> \<open>RepoMerge\<close>, \<open>SampleTable\<close>, \<open>RepoMergeCorrect\<close>: merge.go of pkg/repo; ancestry, merge bases, merge and revert; the sample
    repositories on which the properties are instantiated.
  \<^item> \<open>Route\<close>: pkg/route, with \<open>net.ParseIP\<close>, FNV-1a and the integer scan; a canary rollout is stable and monotone.
  \<^item> \<open>Resolver\<close>, \<open>ResolverCorrect\<close>, \<open>IncrementalTransfer\<close>, \<open>ServedZone\<close>: resolve.go, axfr.go, ixfr.go; answers, and both kinds of
    transfer, in terms of the contents of the served commit.
  \<^item> \<open>Snapshots\<close>: snapshot.go and metrics.go; the watcher beside the queries as a step relation, its invariant by
    induction over the reachable states.
  \<^item> \<open>Replicate\<close>, \<open>ReplicateCorrect\<close>: pkg/replicate; the walk over the graph of objects, the handlers, the client; the locale
    \<open>replication\<close> of two storages, interpreted on two memory backends.
  \<^item> \<open>Badger\<close>, \<open>BadgerCorrect\<close>: pkg/store/badger over the transactions of BadgerDB; every sequence of operations
    gives what the memory backend gives, unless the database reports a fault, which changes nothing.
  \<^item> \<open>Base64\<close>, \<open>Keys\<close>: encoding/base64, pkg/sign and the key files of pkg/dnssec; round trips of keys, and signed
    commits verify.
  \<^item> \<open>ZoneSign\<close>, \<open>ZoneSignCorrect\<close>, \<open>ZoneSignRuns\<close>, \<open>SignedZone\<close>: the records of pkg/dnssec and pkg/zonesign; what \<open>SignZone\<close> and
    \<open>AutoSign\<close> stage, in terms of the contents of the zone.
  \<^item> \<open>Daemon\<close>, \<open>DaemonCorrect\<close>: cmd/zonegitd; the configuration, the start and the reconciler, with ticks and reloads as a
    step relation and the invariant that handlers and registered rules agree.
  \<^item> \<open>Cli\<close>, \<open>CliCorrect\<close>, \<open>CliRuns\<close>: cmd/zonegit; every command as a function of storage, files and random
    source; signing and verifying, and approving a proposal.
  This theory has what spans them: a secondary serves what its primary serves.

  The lemmas about the layers above the backend are proved in the locale \<open>storage\<close> and hold for every
  backend with its contract; the properties are their instances for the memory backend.

  Termination and fuel.  Loops over lists and the binary search are total functions.  The searches over the commit graph,
  the search for a serial and the object walk end because there are finitely many hashes and every turn marks a new one
  or shortens the queue.  The recursions that follow hashes through trees (\<open>diffWalk\<close>, \<open>mergeTreesAt\<close>, \<open>walkLeavesAt\<close>) and
  along first parents (\<open>log_loop\<close>, \<open>blame_loop\<close>, \<open>verify_loop\<close>) take fuel, with \<^const>\<open>None\<close> for running out;
  \<open>tree_ok\<close> with depth \<open>n\<close> says that \<open>n\<close> is enough for a tree, and the properties show that the result is then
  there.  A hash names the hashes it contains, so that stored trees have a finite depth.

  Not modelled.  Opening and closing a BadgerDB database, which are calls of that library.  The parsing of flags and arguments
  (cobra, package flag) in the commands and in the daemon; the texts of some wrapped errors are shortened.  The sockets, signals, HTTP servers and goroutines of
  the daemon and of the replication client (\<open>Run\<close>, \<open>Stop\<close>, \<open>watch\<close>): which goroutine runs next is the choice of a step where a component has
  a step relation.  The CoreDNS plugin and the command that links it (plugin, cmd/coredns-with-zonegit), which are glue to another
  server.  The test suite for backends (pkg/store/storetest).  Contexts with their time limits, logging, and the splitting of a transfer into
  messages.
\<close>

section \<open>Primary and secondary\<close>

text \<open>
  C5: A secondary serves what its primary serves.  After a pull, every branch of every zone of the
  primary has the same commit on the secondary, and looking up any name and type in that commit
  gives the same records, or the same error, on both.
\<close>

theorem secondary_serves_alike:
  assumes "decodable memstore (r_storage rp)" and "iterates order" and "ZeroHash \<notin> Domain (mem_hist (r_storage rp))"
    and "ListZones memstore (r_storage rp) = Inr zs"
    and "\<And>z n h. z \<in> set zs \<Longrightarrow> GetBranch memstore (r_storage rp) z n = Inr h \<Longrightarrow> h \<noteq> ZeroHash \<and> all_present memstore (r_storage rp) h \<and>
      (\<exists>obj c m. GetObject memstore (r_storage rp) h = Inr obj \<and> obj_Kind obj = KindCommit \<and> DecodeCommit (obj_Payload obj) = Inr c \<and>
        tree_ok memstore sha (r_storage rp) m (c_Tree c))"
    and "agrees memstore (r_storage rp) (mem_hist (r_storage r))" and "replica memstore (r_storage rp) memstore (r_storage r)"
    and "\<And>z. z \<in> set zs \<Longrightarrow> z \<noteq> [] \<and> mem_ref (r_storage r) (zone_marker z) \<in> {None, Some zoneSentinel}"
  shows "\<exists>r'. Pull memstore (RegisterHandlers memstore order (Inr rp)) r = (r', Inr ()) \<and>
    (\<forall>z n h. z \<in> set zs \<and> GetBranch memstore (r_storage rp) z n = Inr h \<longrightarrow> GetBranch memstore (r_storage r') z n = Inr h \<and>
      (\<forall>fqdn rrtype. Repo_Lookup memstore sha D r' h fqdn rrtype = Repo_Lookup memstore sha D rp h fqdn rrtype))"
proof -
  obtain r' where r': "Pull memstore (RegisterHandlers memstore order (Inr rp)) r = (r', Inr ())"
    "\<And>z n h. z \<in> set zs \<Longrightarrow> GetBranch memstore (r_storage rp) z n = Inr h \<Longrightarrow>
      GetBranch memstore (r_storage r') z n = Inr h \<and> has_all memstore (r_storage rp) memstore (r_storage r') h"
    using mem_pair.Pull_spec [OF assms(1-4) _ assms(6-8)] assms(5) by blast
  have "Repo_Lookup memstore sha D r' h fqdn rrtype = Repo_Lookup memstore sha D rp h fqdn rrtype"
    if "z \<in> set zs" "GetBranch memstore (r_storage rp) z n = Inr h" for z n h fqdn rrtype
    using r'(2) [OF that] assms(5) [OF that] Lookup_replica by blast
  with r' show ?thesis by blast
qed

theorem secondary_serves_alike_witness:
  "\<exists>r'. Pull memstore (RegisterHandlers memstore sorted_list_of_set (Inr sample_primary)) sample_secondary = (r', Inr ()) \<and>
    Repo_Lookup memstore tab_sha sample_dns r' 32 ''@'' ''A'' = Repo_Lookup memstore tab_sha sample_dns sample_primary 32 ''@'' ''A''"
proof -
  have tip: "h \<noteq> ZeroHash \<and> all_present memstore (r_storage sample_primary) h \<and>
      (\<exists>obj c m. GetObject memstore (r_storage sample_primary) h = Inr obj \<and> obj_Kind obj = KindCommit \<and> DecodeCommit (obj_Payload obj) = Inr c \<and>
        tree_ok memstore tab_sha (r_storage sample_primary) m (c_Tree c))"
    if "GetBranch memstore (r_storage sample_primary) z n = Inr h" for z n h
  proof -
    have h: "h \<in> {31, 32, 33}" "all_present memstore (r_storage sample_primary) h" using sample_primary_facts(5) [OF that] by blast+
    have "h \<noteq> ZeroHash" using h(1) by auto
    with h(2) sample_primary_commits [OF h(1)] show ?thesis by blast
  qed
  show ?thesis
    using secondary_serves_alike [OF sample_primary_facts(1-4) tip sample_primary_facts(6,7), where D = sample_dns] sample_primary_facts(8,9) by fastforce
qed

end
